(* ===== verification/Prelude.thy ===== *)
theory Prelude
  imports Main "HOL-Library.Word" "HOL-Library.Char_ord" "HOL-Library.List_Lexorder"
begin

section \<open>Prelude: machine types, faults, and the calculus of fallible operations\<close>

text \<open>
  What every component of the development shares.

  \<^item> Names for the machine types of the C++ sources (\<open>uint8_t\<close>, \<open>uint16_t\<close>,
    \<open>uint32_t\<close>/\<open>unsigned\<close>, \<open>uint64_t\<close>/\<open>size_t\<close>).
  \<^item> The type \<open>fault\<close> of the ways in which an operation can leave the defined behaviour of
    C++ or stop the program: a member call through a null pointer, a failed \<open>RTC_DCHECK\<close> in a debug
    build, a downcast to the wrong type, and an exception that no caller catches.
    A fallible operation returns \<open>'a res\<close>, with \<open>Inl\<close> for the fault.
  \<^item> Sequencing (\<open>and_then\<close>), a loop over a vector (\<open>fold_res\<close>), and two predicates on results
    with their rules: \<open>all_ok P r\<close> (every value returned satisfies \<open>P\<close>) and \<open>no_null r\<close> (the
    operation does not go through a null pointer).
\<close>

named_theorems res_simps \<open>equations of the calculus of fallible operations\<close>
named_theorems all_ok_intros \<open>rules that push a postcondition through an operation\<close>

type_synonym u8 = "8 word"
type_synonym u16 = "16 word"
type_synonym u32 = "32 word"
type_synonym u64 = "64 word"
type_synonym bytes = "u8 list"

lemma unat_bounds:
  "unat (a :: u8) < 2 ^ 8"
  "unat (b :: u16) < 2 ^ 16"
  "unat (c :: u32) < 2 ^ 32"
  "unat (d :: u64) < 2 ^ 64"
  using unsigned_less [of a] unsigned_less [of b] unsigned_less [of c] unsigned_less [of d]
  by simp_all

lemma unat_of_nat_u32: "n < 2 ^ 32 \<Longrightarrow> unat (of_nat n :: u32) = n"
  by (simp add: unat_of_nat)

text \<open>Two bytes are equal if their eight bits are.\<close>

lemma byte_eqI:
  fixes a b :: u8
  assumes "bit a 0 = bit b 0" "bit a (Suc 0) = bit b (Suc 0)" "bit a 2 = bit b 2" "bit a 3 = bit b 3"
    "bit a 4 = bit b 4" "bit a 5 = bit b 5" "bit a 6 = bit b 6" "bit a 7 = bit b 7"
  shows "a = b"
proof (rule bit_word_eqI)
  fix n assume "n < LENGTH(8)"
  then have "n = 0 \<or> n = Suc 0 \<or> n = 2 \<or> n = 3 \<or> n = 4 \<or> n = 5 \<or> n = 6 \<or> n = 7" by auto
  then show "bit a n = bit b n" using assms by auto
qed

subsection \<open>Faults and results\<close>

datatype fault =
    NullPointer string    \<comment> \<open>a member access through the null pointer named\<close>
  | DcheckFailed string   \<comment> \<open>\<open>RTC_DCHECK\<close> of a debug build\<close>
  | BadCast string        \<comment> \<open>a \<open>static_cast\<close> to a type the object does not have\<close>
  | Uncaught string       \<comment> \<open>an exception that no caller catches\<close>

type_synonym 'a res = "fault + 'a"

definition and_then :: "'a res \<Rightarrow> ('a \<Rightarrow> 'b res) \<Rightarrow> 'b res" where
  "and_then r f = (case r of Inl e \<Rightarrow> Inl e | Inr x \<Rightarrow> f x)"

text \<open>\<open>RTC_DCHECK(cond)\<close>: aborts in a debug build when the condition is false, and is
  compiled out otherwise.\<close>

definition rtc_dcheck :: "bool \<Rightarrow> string \<Rightarrow> bool \<Rightarrow> unit res" where
  "rtc_dcheck debug what cond = (if debug \<and> \<not> cond then Inl (DcheckFailed what) else Inr ())"

text \<open>A member call through a pointer that may be null.\<close>

definition deref :: "string \<Rightarrow> 'a option \<Rightarrow> 'a res" where
  "deref what p = (case p of None \<Rightarrow> Inl (NullPointer what) | Some x \<Rightarrow> Inr x)"

lemma and_then_simps [simp, res_simps]:
  "and_then (Inl e) f = Inl e"
  "and_then (Inr x) f = f x"
  by (simp_all add: and_then_def)

lemma and_then_eq_Inr [res_simps]:
  "and_then r f = Inr y \<longleftrightarrow> (\<exists>x. r = Inr x \<and> f x = Inr y)"
  by (cases r) simp_all

lemma and_then_eq_Inl [res_simps]:
  "and_then r f = Inl e \<longleftrightarrow> r = Inl e \<or> (\<exists>x. r = Inr x \<and> f x = Inl e)"
  by (cases r) auto

lemma and_then_assoc: "and_then (and_then r f) g = and_then r (\<lambda>x. and_then (f x) g)"
  by (cases r) simp_all

lemma deref_simps [simp, res_simps]:
  "deref what None = Inl (NullPointer what)"
  "deref what (Some x) = Inr x"
  by (simp_all add: deref_def)

lemma deref_eq_Inr [simp]: "deref what p = Inr x \<longleftrightarrow> p = Some x"
  by (cases p) simp_all

lemma rtc_dcheck_simps [simp, res_simps]:
  "rtc_dcheck False what c = Inr ()"
  "rtc_dcheck d what True = Inr ()"
  by (simp_all add: rtc_dcheck_def)

lemma rtc_dcheck_eq_Inr [simp]: "rtc_dcheck d what c = Inr u \<longleftrightarrow> (d \<longrightarrow> c)"
  by (simp add: rtc_dcheck_def)

subsection \<open>Loops\<close>

fun fold_res :: "('a \<Rightarrow> 's \<Rightarrow> 's res) \<Rightarrow> 'a list \<Rightarrow> 's \<Rightarrow> 's res" where
  "fold_res f [] s = Inr s"
| "fold_res f (x # xs) s = and_then (f x s) (fold_res f xs)"

lemma fold_res_append: "fold_res f (xs @ ys) s = and_then (fold_res f xs s) (fold_res f ys)"
proof (induction xs arbitrary: s)
  case Nil
  then show ?case by simp
next
  case (Cons x xs)
  then show ?case by (cases "f x s") simp_all
qed

subsection \<open>Postconditions of fallible operations\<close>

definition all_ok :: "('a \<Rightarrow> bool) \<Rightarrow> 'a res \<Rightarrow> bool" where
  "all_ok P r \<longleftrightarrow> (\<forall>x. r = Inr x \<longrightarrow> P x)"

lemma all_ok_simps [simp]:
  "all_ok P (Inl e)"
  "all_ok P (Inr x) \<longleftrightarrow> P x"
  by (simp_all add: all_ok_def)

lemma all_okD: "all_ok P r \<Longrightarrow> r = Inr x \<Longrightarrow> P x"
  by (simp add: all_ok_def)

lemma all_ok_and_then [all_ok_intros]:
  assumes "all_ok Q r" and "\<And>x. Q x \<Longrightarrow> all_ok P (f x)"
  shows "all_ok P (and_then r f)"
  using assms by (cases r) simp_all

lemma all_ok_dcheck [all_ok_intros]: "P () \<Longrightarrow> all_ok P (rtc_dcheck d what c)"
  by (simp add: rtc_dcheck_def)

lemma all_ok_deref [all_ok_intros]: "(\<And>x. p = Some x \<Longrightarrow> P x) \<Longrightarrow> all_ok P (deref what p)"
  by (cases p) simp_all

lemma all_ok_fold_res:
  assumes "P s" and "\<And>x s. x \<in> set xs \<Longrightarrow> P s \<Longrightarrow> all_ok P (f x s)"
  shows "all_ok P (fold_res f xs s)"
  using assms
proof (induction xs arbitrary: s)
  case Nil
  then show ?case by simp
next
  case (Cons x xs)
  have rest: "all_ok P (fold_res f xs t)" if "P t" for t
    by (rule Cons.IH) (use that Cons.prems in auto)
  have "all_ok P (f x s)" by (rule Cons.prems) (simp_all add: Cons.prems(1))
  then show ?case
    by (cases "f x s") (simp_all add: rest)
qed

definition no_null :: "'a res \<Rightarrow> bool" where
  "no_null r \<longleftrightarrow> (\<forall>what. r \<noteq> Inl (NullPointer what))"

lemma no_null_simps [simp]:
  "no_null (Inr x)"
  "no_null (Inl (DcheckFailed d))"
  "no_null (Inl (BadCast d))"
  "no_null (Inl (Uncaught d))"
  "\<not> no_null (Inl (NullPointer d))"
  "no_null (rtc_dcheck debug what c)"
  by (simp_all add: no_null_def rtc_dcheck_def)

lemma no_null_and_then:
  assumes "no_null r" and "\<And>x. r = Inr x \<Longrightarrow> no_null (f x)"
  shows "no_null (and_then r f)"
  using assms by (cases r) (auto simp: no_null_def)

lemma no_null_fold_res:
  assumes "P s"
    and "\<And>x s. x \<in> set xs \<Longrightarrow> P s \<Longrightarrow> no_null (f x s)"
    and "\<And>x s. x \<in> set xs \<Longrightarrow> P s \<Longrightarrow> all_ok P (f x s)"
  shows "no_null (fold_res f xs s)"
  using assms
proof (induction xs arbitrary: s)
  case Nil
  then show ?case by simp
next
  case (Cons x xs)
  have rest: "no_null (fold_res f xs t)" if "P t" for t
    by (rule Cons.IH) (use that Cons.prems in auto)
  have "no_null (f x s)" "all_ok P (f x s)" using Cons.prems by auto
  then show ?case
    by (cases "f x s") (auto simp: rest no_null_def [of "Inl _"])
qed

subsection \<open>Runs that only an assertion can stop\<close>

text \<open>
  \<open>safe d P r\<close>: the run \<open>r\<close> goes through no null pointer and no wrong cast; it returns with \<open>P\<close>,
  or, only if \<open>d\<close>, an \<open>RTC_DCHECK\<close> of a debug build stops it.
\<close>

definition safe :: "bool \<Rightarrow> ('a \<Rightarrow> bool) \<Rightarrow> 'a res \<Rightarrow> bool" where
  "safe d P r = (case r of Inr x \<Rightarrow> P x | Inl (DcheckFailed _) \<Rightarrow> d | Inl _ \<Rightarrow> False)"

lemma safe_simps [simp]:
  "safe d P (Inr x) = P x"
  "safe d P (Inl (DcheckFailed w)) = d"
  "\<not> safe d P (Inl (NullPointer w))"
  "\<not> safe d P (Inl (BadCast w))"
  "\<not> safe d P (Inl (Uncaught w))"
  by (simp_all add: safe_def)

lemma safe_all_ok: "safe d P r \<Longrightarrow> all_ok P r"
  by (cases r) (simp_all add: safe_def)

lemma safe_no_null: "safe d P r \<Longrightarrow> no_null r"
  by (auto simp: safe_def no_null_def)

lemma safe_returns: "safe False P r \<Longrightarrow> \<exists>x. r = Inr x \<and> P x"
  by (auto simp: safe_def split: sum.splits fault.splits)

lemma safe_run:
  assumes "safe d P r"
  shows "(\<forall>w. r \<noteq> Inl (NullPointer w) \<and> r \<noteq> Inl (BadCast w)) \<and> (\<not> d \<longrightarrow> (\<exists>x. r = Inr x \<and> P x))"
  using assms by (auto simp: safe_def split: sum.splits fault.splits)

lemma safe_mono: "safe d P r \<Longrightarrow> (\<And>x. P x \<Longrightarrow> Q x) \<Longrightarrow> safe d Q r"
  by (auto simp: safe_def split: sum.splits fault.splits)

lemma safe_dcheck [simp]: "P () \<Longrightarrow> safe d P (rtc_dcheck d what c)"
  by (simp add: rtc_dcheck_def)

lemma safe_and_then:
  assumes "safe d Q r" and "\<And>x. Q x \<Longrightarrow> safe d P (f x)"
  shows "safe d P (and_then r f)"
  using assms by (cases r) (auto simp: safe_def split: fault.splits)

lemma safe_fold_res:
  assumes "P s" and "\<And>x s. x \<in> set xs \<Longrightarrow> P s \<Longrightarrow> safe d P (f x s)"
  shows "safe d P (fold_res f xs s)"
  using assms
proof (induction xs arbitrary: s)
  case Nil
  then show ?case by simp
next
  case (Cons x xs)
  have "safe d P (f x s)" by (rule Cons.prems) (simp_all add: Cons.prems(1))
  then show ?case
    by (simp, rule safe_and_then, intro Cons.IH) (use Cons.prems in auto)
qed

end
