(* ===== verification/Std_Map.thy ===== *)
theory Std_Map
  imports Prelude
begin

section \<open>Ordered unique-key maps: the operations of \<open>std::map\<close> the sources use\<close>

text \<open>
  \<open>Control::peers_\<close> and \<open>Peer::event_handler_\<close> are \<open>std::map\<close>s with string keys. They are
  modelled as association lists sorted by key without duplicates: iteration visits the keys
  in ascending order, \<open>insert\<close> leaves an entry that is already present unchanged, \<open>erase\<close>
  removes the entry. \<open>std::string\<close> compares lexicographically by unsigned character, which is
  the order of \<open>HOL-Library.List_Lexorder\<close> on \<open>string\<close>.

  The locale \<open>unique_store\<close> states what the clients rely on, and proves what follows from it
  once; it is interpreted on the association lists at the end of the theory.
\<close>

type_synonym ('k, 'v) std_map = "('k \<times> 'v) list"

fun map_find :: "('k, 'v) std_map \<Rightarrow> 'k \<Rightarrow> 'v option" where
  "map_find [] k = None"
| "map_find ((a, b) # m) k = (if a = k then Some b else map_find m k)"

fun map_insert :: "'k::linorder \<Rightarrow> 'v \<Rightarrow> ('k, 'v) std_map \<Rightarrow> ('k, 'v) std_map" where
  "map_insert k v [] = [(k, v)]"
| "map_insert k v ((a, b) # m) =
     (if k < a then (k, v) # (a, b) # m
      else if k = a then (a, b) # m
      else (a, b) # map_insert k v m)"

fun map_erase :: "'k \<Rightarrow> ('k, 'v) std_map \<Rightarrow> ('k, 'v) std_map" where
  "map_erase k [] = []"
| "map_erase k ((a, b) # m) = (if a = k then m else (a, b) # map_erase k m)"

definition map_wf :: "('k::linorder, 'v) std_map \<Rightarrow> bool" where
  "map_wf m \<longleftrightarrow> sorted_wrt (<) (map fst m)"

subsection \<open>The contract of a unique-key store\<close>

locale unique_store =
  fixes empty :: "'m"
    and find :: "'m \<Rightarrow> 'k \<Rightarrow> 'v option"
    and ins :: "'k \<Rightarrow> 'v \<Rightarrow> 'm \<Rightarrow> 'm"
    and del :: "'k \<Rightarrow> 'm \<Rightarrow> 'm"
    and wf :: "'m \<Rightarrow> bool"
  assumes wf_empty: "wf empty"
    and wf_ins: "wf m \<Longrightarrow> wf (ins k v m)"
    and wf_del: "wf m \<Longrightarrow> wf (del k m)"
    and find_empty: "find empty k = None"
    and find_ins: "wf m \<Longrightarrow>
      find (ins k v m) j = (if j = k \<and> find m k = None then Some v else find m j)"
    and find_del: "wf m \<Longrightarrow> find (del k m) j = (if j = k then None else find m j)"
begin

lemma find_ins_same: "wf m \<Longrightarrow> find (ins k v m) k \<noteq> None"
  by (simp add: find_ins)

lemma ins_keeps: "wf m \<Longrightarrow> find m j = Some u \<Longrightarrow> find (ins k v m) j = Some u"
  by (auto simp: find_ins)

lemma ins_first_wins: "wf m \<Longrightarrow> find m k = None \<Longrightarrow> find (ins k v (ins k u m)) k = Some u"
  by (simp add: find_ins wf_ins)

lemma find_ins_Some:
  "wf m \<Longrightarrow> find (ins k v m) j = Some w \<Longrightarrow> find m j = Some w \<or> (j = k \<and> w = v)"
  by (auto simp: find_ins split: if_splits)

lemma find_del_Some: "wf m \<Longrightarrow> find (del k m) j = Some w \<Longrightarrow> j \<noteq> k \<and> find m j = Some w"
  by (auto simp: find_del split: if_splits)

lemma del_ins: "wf m \<Longrightarrow> find m k = None \<Longrightarrow> find (del k (ins k v m)) j = find m j"
  by (auto simp: find_del find_ins wf_ins)

end

subsection \<open>Association lists meet the contract\<close>

lemma map_find_eq_map_of: "map_find m = map_of m"
  by (rule ext, rename_tac k, induct_tac m) auto

lemma map_wf_simps [simp]:
  "map_wf []"
  "map_wf ((k, v) # m) \<longleftrightarrow> (\<forall>x \<in> set m. k < fst x) \<and> map_wf m"
  by (auto simp: map_wf_def)

lemma map_wf_distinct: "map_wf m \<Longrightarrow> distinct (map fst m)"
  unfolding map_wf_def using strict_sorted_iff by blast

lemma map_find_None: "map_find m k = None \<longleftrightarrow> k \<notin> fst ` set m"
  by (simp add: map_find_eq_map_of map_of_eq_None_iff)

lemma map_find_SomeD: "map_find m k = Some v \<Longrightarrow> (k, v) \<in> set m"
  by (simp add: map_find_eq_map_of map_of_SomeD)

lemma map_find_iff: "map_wf m \<Longrightarrow> map_find m k = Some v \<longleftrightarrow> (k, v) \<in> set m"
  by (simp add: map_find_eq_map_of map_of_eq_Some_iff map_wf_distinct)

lemma set_map_insert: "set (map_insert k v m) \<subseteq> insert (k, v) (set m)"
  by (induction m) (auto split: if_splits)

lemma set_map_erase: "map_wf m \<Longrightarrow> set (map_erase k m) = {x \<in> set m. fst x \<noteq> k}"
  by (induction m) (fastforce split: if_splits)+

lemma map_wf_insert: "map_wf m \<Longrightarrow> map_wf (map_insert k v m)"
proof (induction m)
  case Nil
  then show ?case by simp
next
  case (Cons p m)
  obtain a b where p: "p = (a, b)" by (cases p)
  have "\<forall>x \<in> set (map_insert k v m). a < fst x" if "a < k"
    using that Cons.prems set_map_insert [of k v m] by (auto simp: p)
  with Cons show ?case by (auto simp: p)
qed

lemma map_wf_erase: "map_wf m \<Longrightarrow> map_wf (map_erase k m)"
  by (induction m) (auto simp: set_map_erase)

lemma map_find_insert:
  "map_wf m \<Longrightarrow> map_find (map_insert k v m) j =
     (if j = k \<and> map_find m k = None then Some v else map_find m j)"
proof (induction m)
  case Nil
  then show ?case by simp
next
  case (Cons p m)
  obtain a b where p: "p = (a, b)" by (cases p)
  have "map_find m k = None" if "k < a"
    using that Cons.prems by (fastforce simp: p map_find_None)
  with Cons show ?case
    by (auto simp: p)
qed

lemma map_find_erase:
  "map_wf m \<Longrightarrow> map_find (map_erase k m) j = (if j = k then None else map_find m j)"
proof (induction m)
  case Nil
  then show ?case by simp
next
  case (Cons p m)
  obtain a b where p: "p = (a, b)" by (cases p)
  have "map_find m a = None"
    using Cons.prems by (auto simp: p map_find_None)
  with Cons show ?case by (auto simp: p)
qed

interpretation std_map: unique_store "[]" map_find map_insert map_erase map_wf
  by unfold_locales (auto simp: map_wf_insert map_wf_erase map_find_insert map_find_erase)

lemmas std_map_facts =
  std_map.wf_ins std_map.wf_del std_map.find_ins std_map.find_del

lemma map_insert_present: "map_wf m \<Longrightarrow> map_find m k = Some u \<Longrightarrow> map_insert k v m = m"
  by (induction m) (fastforce simp: map_find_eq_map_of dest!: map_of_SomeD split: if_splits)+

lemma set_map_insert_absent:
  "map_find m k = None \<Longrightarrow> set (map_insert k v m) = insert (k, v) (set m)"
  by (induction m) (auto split: if_splits)

end
