(* ===== verification/Json_Api.thy ===== *)
theory Json_Api
  imports Prelude
begin

section \<open>The JSON library as a parameter\<close>

text \<open>
  \<open>Json::Value\<close> (jsoncpp) and the helpers of \<open>webrtc/base/json.h\<close> are not part of the
  repository. They are a parameter of the model: a record of the functions the sources call,
  over an arbitrary type \<open>'j\<close> of JSON values. The definitions that read or build JSON take
  this record as their first argument.

  What the sources rely on is stated as named hypotheses (\<open>json_object_laws\<close>,
  \<open>json_text_laws\<close>): a member that was assigned can be read back, the other members are
  unchanged, and parsing the text of an object that the program builds gives the object back. The theory ends with a
  concrete instance that satisfies them.
\<close>

record 'j json_lib =
  jl_null :: "'j"                                       \<comment> \<open>\<open>Json::Value()\<close>\<close>
  jl_isObject :: "'j \<Rightarrow> bool"                           \<comment> \<open>\<open>Json::Value::isObject\<close>, null included\<close>
  jl_set :: "'j \<Rightarrow> string \<Rightarrow> 'j \<Rightarrow> 'j"                  \<comment> \<open>\<open>v[key] = x\<close>\<close>
  jl_string :: "string \<Rightarrow> 'j"
  jl_int :: "int \<Rightarrow> 'j"
  jl_get_value :: "'j \<Rightarrow> string \<Rightarrow> 'j option"           \<comment> \<open>\<open>rtc::GetValueFromJsonObject\<close>\<close>
  jl_get_string :: "'j \<Rightarrow> string \<Rightarrow> string option"      \<comment> \<open>\<open>rtc::GetStringFromJsonObject\<close>\<close>
  jl_get_int :: "'j \<Rightarrow> string \<Rightarrow> int option"            \<comment> \<open>\<open>rtc::GetIntFromJsonObject\<close>\<close>
  jl_get_bool :: "'j \<Rightarrow> string \<Rightarrow> bool option"          \<comment> \<open>\<open>rtc::GetBoolFromJsonObject\<close>\<close>
  jl_size :: "'j \<Rightarrow> nat"                                \<comment> \<open>\<open>Json::Value::size\<close>\<close>
  jl_elem_string :: "'j \<Rightarrow> nat \<Rightarrow> string option"        \<comment> \<open>\<open>rtc::GetStringFromJsonArray\<close>\<close>
  jl_parse :: "string \<Rightarrow> 'j option"                     \<comment> \<open>\<open>Json::Reader::parse\<close>\<close>
  jl_write :: "'j \<Rightarrow> string"                            \<comment> \<open>\<open>Json::FastWriter::write\<close>\<close>

text \<open>Reading a member after an assignment, on null and object values.\<close>

definition json_object_laws :: "'j json_lib \<Rightarrow> bool" where
  "json_object_laws J \<longleftrightarrow>
     jl_isObject J (jl_null J) \<and>
     (\<forall>j k v. jl_isObject J j \<longrightarrow> jl_isObject J (jl_set J j k v)) \<and>
     (\<forall>j k v. jl_isObject J j \<longrightarrow> jl_get_value J (jl_set J j k v) k = Some v) \<and>
     (\<forall>j k s. jl_isObject J j \<longrightarrow> jl_get_string J (jl_set J j k (jl_string J s)) k = Some s) \<and>
     (\<forall>j k i. jl_isObject J j \<longrightarrow> jl_get_int J (jl_set J j k (jl_int J i)) k = Some i) \<and>
     (\<forall>j k k' v. jl_isObject J j \<and> k \<noteq> k' \<longrightarrow>
        jl_get_value J (jl_set J j k v) k' = jl_get_value J j k' \<and>
        jl_get_string J (jl_set J j k v) k' = jl_get_string J j k' \<and>
        jl_get_int J (jl_set J j k v) k' = jl_get_int J j k')"

text \<open>The values the program builds: objects with at least one member, whose members are strings,
  numbers and such objects. \<open>Json::Reader\<close> reads back what \<open>Json::FastWriter\<close> writes for them.\<close>

inductive json_doc :: "'j json_lib \<Rightarrow> 'j \<Rightarrow> bool" and json_val :: "'j json_lib \<Rightarrow> 'j \<Rightarrow> bool"
  for J :: "'j json_lib" where
  doc_first: "json_val J v \<Longrightarrow> json_doc J (jl_set J (jl_null J) k v)"
| doc_more: "json_doc J j \<Longrightarrow> json_val J v \<Longrightarrow> json_doc J (jl_set J j k v)"
| val_string: "json_val J (jl_string J s)"
| val_int: "json_val J (jl_int J i)"
| val_doc: "json_doc J j \<Longrightarrow> json_val J j"

lemmas json_doc_intros = doc_first doc_more val_string val_int val_doc

definition json_text_laws :: "'j json_lib \<Rightarrow> bool" where
  "json_text_laws J \<longleftrightarrow> (\<forall>j. json_doc J j \<longrightarrow> jl_parse J (jl_write J j) = Some j)"

lemma json_object_lawsD:
  assumes "json_object_laws J"
  shows "jl_isObject J (jl_null J)"
    and "jl_isObject J j \<Longrightarrow> jl_isObject J (jl_set J j k v)"
    and "jl_isObject J j \<Longrightarrow> jl_get_value J (jl_set J j k v) k = Some v"
    and "jl_isObject J j \<Longrightarrow> jl_get_string J (jl_set J j k (jl_string J s)) k = Some s"
    and "jl_isObject J j \<Longrightarrow> jl_get_int J (jl_set J j k (jl_int J i)) k = Some i"
    and "jl_isObject J j \<Longrightarrow> k \<noteq> k' \<Longrightarrow> jl_get_value J (jl_set J j k v) k' = jl_get_value J j k'"
    and "jl_isObject J j \<Longrightarrow> k \<noteq> k' \<Longrightarrow> jl_get_string J (jl_set J j k v) k' = jl_get_string J j k'"
    and "jl_isObject J j \<Longrightarrow> k \<noteq> k' \<Longrightarrow> jl_get_int J (jl_set J j k v) k' = jl_get_int J j k'"
  using assms unfolding json_object_laws_def by blast+

subsection \<open>An instance of the laws\<close>

text \<open>
  A JSON value as a tree, objects as association lists with the newest member first. The text of
  a value is a prefix encoding (\<open>jt_write\<close>) with its reader (\<open>jt_read\<close>), or another pair of functions
  where a sample run only needs some texts. It is used by witnesses only.
\<close>

datatype jtree = JNull | JBool bool | JInt int | JString string
  | JArray "jtree list" | JObject "(string \<times> jtree) list"

fun jt_member :: "jtree \<Rightarrow> string \<Rightarrow> jtree option" where
  "jt_member (JObject ms) k = map_of ms k"
| "jt_member _ k = None"

fun jt_set :: "jtree \<Rightarrow> string \<Rightarrow> jtree \<Rightarrow> jtree" where
  "jt_set (JObject ms) k v = JObject ((k, v) # ms)"
| "jt_set _ k v = JObject [(k, v)]"

fun jt_as_string :: "jtree \<Rightarrow> string option" where
  "jt_as_string (JString s) = Some s"
| "jt_as_string _ = None"

fun jt_as_int :: "jtree \<Rightarrow> int option" where
  "jt_as_int (JInt i) = Some i"
| "jt_as_int _ = None"

fun jt_as_bool :: "jtree \<Rightarrow> bool option" where
  "jt_as_bool (JBool b) = Some b"
| "jt_as_bool _ = None"

fun jt_elems :: "jtree \<Rightarrow> jtree list" where
  "jt_elems (JArray xs) = xs"
| "jt_elems _ = []"

text \<open>The text functions are themselves parameters of the instance: any pair that inverts.\<close>

definition jt_lib :: "(string \<Rightarrow> jtree option) \<Rightarrow> (jtree \<Rightarrow> string) \<Rightarrow> jtree json_lib" where
  "jt_lib rd wr = \<lparr>
     jl_null = JNull,
     jl_isObject = (\<lambda>j. case j of JNull \<Rightarrow> True | JObject _ \<Rightarrow> True | _ \<Rightarrow> False),
     jl_set = jt_set,
     jl_string = JString,
     jl_int = JInt,
     jl_get_value = jt_member,
     jl_get_string = (\<lambda>j k. Option.bind (jt_member j k) jt_as_string),
     jl_get_int = (\<lambda>j k. Option.bind (jt_member j k) jt_as_int),
     jl_get_bool = (\<lambda>j k. Option.bind (jt_member j k) jt_as_bool),
     jl_size = (\<lambda>j. length (jt_elems j)),
     jl_elem_string = (\<lambda>j i. if i < length (jt_elems j) then jt_as_string (jt_elems j ! i) else None),
     jl_parse = rd,
     jl_write = wr\<rparr>"

lemma jt_member_set:
  "jl_isObject (jt_lib rd wr) j \<Longrightarrow>
     jt_member (jt_set j k v) k' = (if k' = k then Some v else jt_member j k')"
  by (cases j) (auto simp: jt_lib_def)

lemma jt_lib_object_laws: "json_object_laws (jt_lib rd wr)"
proof -
  have obj: "jl_isObject (jt_lib rd wr) (jt_set j k v)" for j k v
    by (cases j) (simp_all add: jt_lib_def)
  show ?thesis
    unfolding json_object_laws_def
    using obj jt_member_set [of rd wr]
    by (auto simp: jt_lib_def [of rd wr] split: jtree.splits)
qed

subsection \<open>A text for every tree\<close>

text \<open>Numbers in unary; a tag, the length and the parts for everything else.\<close>

definition w_nat :: "nat \<Rightarrow> string" where
  "w_nat n = replicate n (CHR ''1'') @ ''0''"

fun r_nat :: "string \<Rightarrow> (nat \<times> string) option" where
  "r_nat [] = None"
| "r_nat (c # cs) = (if c = CHR ''0'' then Some (0, cs) else map_option (map_prod Suc id) (r_nat cs))"

definition w_string :: "string \<Rightarrow> string" where
  "w_string s = w_nat (length s) @ s"

definition r_string :: "string \<Rightarrow> (string \<times> string) option" where
  "r_string cs = Option.bind (r_nat cs) (\<lambda>(n, ds). Some (take n ds, drop n ds))"

fun jt_write :: "jtree \<Rightarrow> string" where
  "jt_write JNull = ''n''"
| "jt_write (JBool b) = (if b then ''t'' else ''f'')"
| "jt_write (JInt i) = (if i \<ge> 0 then ''p'' else ''m'') @ w_nat (nat \<bar>i\<bar>)"
| "jt_write (JString s) = ''s'' @ w_string s"
| "jt_write (JArray xs) = ''a'' @ w_nat (length xs) @ concat (map jt_write xs)"
| "jt_write (JObject ms) = ''o'' @ w_nat (length ms) @ concat (map (\<lambda>(k, v). w_string k @ jt_write v) ms)"

text \<open>Reading \<open>n\<close> things with a reader for one.\<close>

primrec r_many :: "nat \<Rightarrow> (string \<Rightarrow> ('a \<times> string) option) \<Rightarrow> string \<Rightarrow> ('a list \<times> string) option" where
  "r_many 0 f cs = Some ([], cs)"
| "r_many (Suc n) f cs =
     Option.bind (f cs) (\<lambda>(x, ds). map_option (map_prod (Cons x) id) (r_many n f ds))"

text \<open>The fuel is the depth of the tree; the length of the text is enough.\<close>

fun jt_reads :: "nat \<Rightarrow> string \<Rightarrow> (jtree \<times> string) option" where
  "jt_reads 0 cs = None"
| "jt_reads (Suc d) [] = None"
| "jt_reads (Suc d) (c # cs) =
     (if c = CHR ''n'' then Some (JNull, cs)
      else if c = CHR ''t'' then Some (JBool True, cs)
      else if c = CHR ''f'' then Some (JBool False, cs)
      else if c = CHR ''p'' then map_option (map_prod (\<lambda>n. JInt (int n)) id) (r_nat cs)
      else if c = CHR ''m'' then map_option (map_prod (\<lambda>n. JInt (- int n)) id) (r_nat cs)
      else if c = CHR ''s'' then map_option (map_prod JString id) (r_string cs)
      else if c = CHR ''a'' then
        Option.bind (r_nat cs) (\<lambda>(n, ds). map_option (map_prod JArray id) (r_many n (jt_reads d) ds))
      else if c = CHR ''o'' then
        Option.bind (r_nat cs) (\<lambda>(n, ds). map_option (map_prod JObject id)
          (r_many n (\<lambda>es. Option.bind (r_string es) (\<lambda>(k, fs). map_option (map_prod (Pair k) id) (jt_reads d fs))) ds))
      else None)"

definition jt_read :: "string \<Rightarrow> jtree option" where
  "jt_read cs = map_option fst (jt_reads (length cs) cs)"

lemma r_nat_w_nat [simp]: "r_nat (w_nat n @ cs) = Some (n, cs)"
  unfolding w_nat_def by (induction n) simp_all

lemma r_string_w_string [simp]: "r_string (w_string s @ cs) = Some (s, cs)"
  by (simp add: r_string_def w_string_def)

lemma r_many_writes:
  "(\<And>x cs. x \<in> set xs \<Longrightarrow> f (w x @ cs) = Some (x, cs)) \<Longrightarrow>
   r_many (length xs) f (concat (map w xs) @ cs) = Some (xs, cs)"
  by (induction xs arbitrary: cs) simp_all

lemma part_length: "x \<in> set xs \<Longrightarrow> length (w x) \<le> length (concat (map w xs))"
  by (induction xs) auto

lemma jt_reads_write: "length (jt_write j) \<le> d \<Longrightarrow> jt_reads d (jt_write j @ cs) = Some (j, cs)"
proof (induction j arbitrary: d cs rule: jt_write.induct)
  case 1
  then show ?case by (cases d) simp_all
next
  case (2 b)
  then show ?case by (cases d) (simp_all split: if_splits)
next
  case (3 i)
  then show ?case by (cases d) (simp_all split: if_splits)
next
  case (4 s)
  then show ?case by (cases d) simp_all
next
  case (5 xs)
  then obtain e where d: "d = Suc e" by (cases d) simp_all
  have "jt_reads e (jt_write x @ ds) = Some (x, ds)" if "x \<in> set xs" for x ds
    using 5 that part_length [OF that, of jt_write] by (simp add: d)
  then show ?case by (simp add: d r_many_writes)
next
  case (6 ms)
  then obtain e where d: "d = Suc e" by (cases d) simp_all
  let ?w = "\<lambda>(k, v). w_string k @ jt_write v"
  have "Option.bind (r_string (?w m @ ds)) (\<lambda>(k, fs). map_option (map_prod (Pair k) id) (jt_reads e fs)) = Some (m, ds)"
    if "m \<in> set ms" for m ds
  proof -
    obtain k v where m: "m = (k, v)" by (cases m)
    have "length (jt_write v) \<le> e"
      using 6(2) part_length [OF that, of ?w] by (simp add: d m)
    then have "jt_reads e (jt_write v @ ds) = Some (v, ds)" using 6(1) that m by blast
    then show ?thesis by (simp add: m)
  qed
  then show ?case by (simp add: d r_many_writes [where w = ?w])
qed

lemma jt_read_write: "jt_read (jt_write j) = Some j"
  using jt_reads_write [of j "length (jt_write j)" "[]"] by (simp add: jt_read_def)

lemma jt_text_laws: "json_text_laws (jt_lib jt_read jt_write)"
  by (simp add: json_text_laws_def jt_lib_def jt_read_write)

end
