(* ===== verification/Signal_Connection.thy ===== *)
theory Signal_Connection
  imports Json_Api "HOL-Library.Log_Nat"
begin

section \<open>The signal-server connection (\<open>signalconnection.h\<close>, \<open>signalconnection.cc\<close>)\<close>

text \<open>
  Class \<open>Signal\<close>: the connection state machine, commands to the server, retry after a failed
  connection attempt. The state of the object is the record \<open>signal\<close>; an operation returns the
  new state and the list, in program order, of what it asks of websocketpp, of the network
  thread, of the reconnect timer and of the connected sigslots.

  \<^item> \<open>sg_con_hdl\<close> is the weak pointer \<open>con_hdl_\<close>: \<open>None\<close> after \<open>reset()\<close>.
  \<^item> \<open>sg_network_thread\<close> says whether \<open>network_thread_\<close> holds a thread object.
  \<^item> \<open>sg_reconn_timer\<close> is \<open>reconn_timer_\<close>: \<open>None\<close> for the null pointer, \<open>Some True\<close> for a timer
    with an outstanding \<open>async_wait\<close>, \<open>Some False\<close> for one that has fired.

  The answers of websocketpp that steer the code (the error code of \<open>get_connection\<close>, the
  local close code of a connection, whether a handle has expired) are arguments. The TLS
  context set up in \<open>OnTlsInit\<close> and the log output are not modelled.
\<close>

datatype con_state = con_opening | con_opened | con_closing | con_closed

record signal =
  sg_con_state :: con_state
  sg_con_hdl :: "nat option"
  sg_network_thread :: bool
  sg_reconn_timer :: "bool option"
  sg_reconn_delay :: u32
  sg_reconn_delay_max :: u32
  sg_reconn_attempts :: u32
  sg_reconn_made :: u32
  sg_url :: string
  sg_user_id :: string
  sg_user_password :: string

datatype 'j sig_out =
    DispatchConnect                    \<comment> \<open>\<open>io_service.dispatch(ConnectInternal)\<close>\<close>
  | DispatchClose u16 string           \<comment> \<open>\<open>io_service.dispatch(CloseInternal(code, desc))\<close>\<close>
  | ClientConnect string               \<comment> \<open>\<open>client_.connect\<close> to the url\<close>
  | ClientClose nat u16 string         \<comment> \<open>\<open>client_.close(con_hdl_, code, desc, ec)\<close>\<close>
  | ClientSend "nat option" string     \<comment> \<open>\<open>client_.send(con_hdl_, text)\<close>\<close>
  | ClientRun                          \<comment> \<open>\<open>client_.run()\<close>\<close>
  | ClientReset                        \<comment> \<open>\<open>client_.reset()\<close>\<close>
  | ThreadStart                        \<comment> \<open>\<open>network_thread_\<close> starts \<open>RunLoop\<close>\<close>
  | ThreadJoin
  | ThreadDetach
  | TimerCancel
  | TimerStart u32                     \<comment> \<open>\<open>expires_from_now(delay)\<close> and \<open>async_wait(TimeoutReconnect)\<close>\<close>
  | SignalOnCommandReceived 'j
  | SignalOnClosed u16

subsection \<open>Construction, accessors\<close>

text \<open>The close codes of \<open>websocketpp/close.hpp\<close> that \<open>Signal\<close> uses.\<close>

definition close_normal :: u16 where "close_normal = 1000"
definition close_abnormal :: u16 where "close_abnormal = 1006"

definition default_url :: string where
  "default_url = ''wss://signal.peerapi.peerborough.com/hello''"

definition Signal_ctor :: "string \<Rightarrow> signal" where
  "Signal_ctor url = \<lparr>
     sg_con_state = con_closed,
     sg_con_hdl = None,
     sg_network_thread = False,
     sg_reconn_timer = None,
     sg_reconn_delay = 5000,
     sg_reconn_delay_max = 25000,
     sg_reconn_attempts = 3,
     sg_reconn_made = 0,
     sg_url = (if url = [] then default_url else url),
     sg_user_id = [],
     sg_user_password = []\<rparr>"

definition opened :: "signal \<Rightarrow> bool" where
  "opened s \<longleftrightarrow> sg_con_state s = con_opened"

definition set_reconnect_attempts :: "u32 \<Rightarrow> signal \<Rightarrow> signal" where
  "set_reconnect_attempts attempts s = s\<lparr>sg_reconn_attempts := attempts\<rparr>"

definition set_reconnect_delay :: "u32 \<Rightarrow> signal \<Rightarrow> signal" where
  "set_reconnect_delay millis s =
     (let s = s\<lparr>sg_reconn_delay := millis\<rparr>
      in if sg_reconn_delay_max s < millis then s\<lparr>sg_reconn_delay_max := millis\<rparr> else s)"

definition set_reconnect_delay_max :: "u32 \<Rightarrow> signal \<Rightarrow> signal" where
  "set_reconnect_delay_max millis s =
     (let s = s\<lparr>sg_reconn_delay_max := millis\<rparr>
      in if sg_reconn_delay s > millis then s\<lparr>sg_reconn_delay := millis\<rparr> else s)"

subsection \<open>Closing\<close>

definition Signal_Close :: "signal \<Rightarrow> signal \<times> 'j sig_out list" where
  "Signal_Close s =
     (if \<not> opened s then (s, [])
      else (s\<lparr>sg_con_state := con_closing\<rparr>, [DispatchClose close_normal ''End by user'']))"

text \<open>
  \<open>SyncClose\<close> waits for the network thread. What that thread does meanwhile (\<open>CloseInternal\<close>,
  \<open>OnClose\<close>) does not read \<open>network_thread_\<close>, and nothing is done between \<open>join\<close> and \<open>reset\<close>,
  so those callbacks may be taken as separate steps after this one.
\<close>

definition Signal_SyncClose :: "signal \<Rightarrow> signal \<times> 'j sig_out list" where
  "Signal_SyncClose s =
     (if \<not> opened s then (s, [])
      else
        let s = s\<lparr>sg_con_state := con_closing\<rparr>;
            out = [DispatchClose close_normal ''End by user'']
        in if sg_network_thread s
           then (s\<lparr>sg_network_thread := False\<rparr>, out @ [ThreadJoin])
           else (s, out))"

definition Signal_CloseInternal ::
    "bool \<Rightarrow> u16 \<Rightarrow> string \<Rightarrow> signal \<Rightarrow> signal \<times> 'j sig_out list" where
  \<comment> \<open>\<open>expired\<close>: the answer of \<open>con_hdl_.expired()\<close> for a handle that was not reset\<close>
  "Signal_CloseInternal expired code desc s =
     (let out1 = (if sg_reconn_timer s \<noteq> None then [TimerCancel] else []);
          s = s\<lparr>sg_reconn_timer := None\<rparr>
      in case sg_con_hdl s of
           None \<Rightarrow> (s, out1)
         | Some h \<Rightarrow> if expired then (s, out1) else (s, out1 @ [ClientClose h code desc]))"

definition Signal_Teardown :: "signal \<Rightarrow> signal \<times> 'j sig_out list" where
  "Signal_Teardown s =
     (if sg_network_thread s then (s\<lparr>sg_network_thread := False\<rparr>, [ThreadDetach]) else (s, []))"

subsection \<open>Sending commands\<close>

definition command_message :: "'j json_lib \<Rightarrow> string \<Rightarrow> string \<Rightarrow> 'j \<Rightarrow> 'j" where
  "command_message J channel commandname data =
     (let m = jl_set J (jl_null J) ''command'' (jl_string J commandname);
          m = jl_set J m ''data'' data
      in if channel \<noteq> [] then jl_set J m ''channel'' (jl_string J channel) else m)"

definition Signal_SendCommand ::
    "'j json_lib \<Rightarrow> string \<Rightarrow> string \<Rightarrow> 'j \<Rightarrow> signal \<Rightarrow> 'j sig_out list" where
  \<comment> \<open>the exceptions that \<open>client_.send\<close> may throw are caught and logged\<close>
  "Signal_SendCommand J channel commandname data s =
     (if commandname = [] then []
      else if \<not> opened s then []
      else [ClientSend (sg_con_hdl s) (jl_write J (command_message J channel commandname data))])"

definition Signal_SendGlobalCommand :: "'j json_lib \<Rightarrow> string \<Rightarrow> 'j \<Rightarrow> signal \<Rightarrow> 'j sig_out list" where
  "Signal_SendGlobalCommand J commandname data s = Signal_SendCommand J [] commandname data s"

definition Signal_SendOpenCommand :: "'j json_lib \<Rightarrow> signal \<Rightarrow> 'j sig_out list" where
  "Signal_SendOpenCommand J s =
     (let d = jl_set J (jl_null J) ''user_id'' (jl_string J (sg_user_id s));
          d = jl_set J d ''user_password'' (jl_string J (sg_user_password s))
      in Signal_SendGlobalCommand J ''open'' d s)"

subsection \<open>Connecting\<close>

definition Signal_ResetState :: "'j sig_out list" where
  "Signal_ResetState = [ClientReset]"

definition Signal_Connect :: "signal \<Rightarrow> signal \<times> 'j sig_out list" where
  "Signal_Connect s =
     (let out1 = (if sg_reconn_timer s \<noteq> None then [TimerCancel] else []);
          s = s\<lparr>sg_reconn_timer := None\<rparr>
      in if sg_network_thread s \<and>
            \<not> (sg_con_state s = con_closing \<or> sg_con_state s = con_closed)
         then (s, out1)
         else
           let out2 = (if sg_network_thread s then [ThreadJoin] else []);
               s = s\<lparr>sg_con_state := con_opening, sg_reconn_made := 0, sg_network_thread := True\<rparr>
           in (s, out1 @ out2 @ Signal_ResetState @ [DispatchConnect, ThreadStart]))"

definition Signal_Open :: "string \<Rightarrow> string \<Rightarrow> signal \<Rightarrow> signal \<times> 'j sig_out list" where
  "Signal_Open user password s =
     Signal_Connect (s\<lparr>sg_user_id := user, sg_user_password := password\<rparr>)"

definition Signal_ConnectInternal :: "bool \<Rightarrow> signal \<Rightarrow> 'j sig_out list" where
  \<comment> \<open>\<open>ec\<close>: whether \<open>client_.get_connection(url_, ec)\<close> reports an error\<close>
  "Signal_ConnectInternal ec s = (if ec then [] else [ClientConnect (sg_url s)])"

definition Signal_RunLoop :: "'j sig_out list" where
  "Signal_RunLoop = [ClientRun, ClientReset]"

subsection \<open>Retrying\<close>

text \<open>
  \<open>NextDelay\<close> computes with doubles: \<open>reconn_delay_ * pow(1.5, reconn_made)\<close>. The power is
  exact (\<open>3 ^ 32 < 2 ^ 53\<close>); the product is rounded to 53 significant bits, ties to even
  (\<open>double_round\<close>, on the integer numerator of a fraction whose denominator is a power of two).
\<close>

definition double_round :: "nat \<Rightarrow> nat" where
  "double_round n =
     (if n < 2 ^ 53 then n
      else
        let e = floorlog 2 n - 53; q = n div 2 ^ e; r = n mod 2 ^ e; half = 2 ^ (e - 1)
        in (if half < r \<or> (r = half \<and> odd q) then q + 1 else q) * 2 ^ e)"

definition NextDelay :: "signal \<Rightarrow> u32" where
  "NextDelay s =
     (let reconn_made = min (unat (sg_reconn_made s)) 32
      in of_nat (min (double_round (unat (sg_reconn_delay s) * 3 ^ reconn_made) div 2 ^ reconn_made)
                     (unat (sg_reconn_delay_max s))))"

definition Signal_TimeoutReconnect :: "bool \<Rightarrow> signal \<Rightarrow> signal \<times> 'j sig_out list" where
  "Signal_TimeoutReconnect ec s =
     (if ec then (s, [])
      else if sg_con_state s = con_closed
      then (s\<lparr>sg_con_state := con_opening, sg_reconn_made := sg_reconn_made s + 1\<rparr>,
            Signal_ResetState @ [DispatchConnect])
      else (s, []))"

subsection \<open>websocketpp callbacks\<close>

definition Signal_OnOpen :: "'j json_lib \<Rightarrow> nat \<Rightarrow> signal \<Rightarrow> signal \<times> 'j sig_out list" where
  "Signal_OnOpen J con s =
     (let s = s\<lparr>sg_con_state := con_opened, sg_con_hdl := Some con, sg_reconn_made := 0\<rparr>
      in (s, Signal_SendOpenCommand J s))"

definition Signal_OnClose :: "u16 option \<Rightarrow> signal \<Rightarrow> signal \<times> 'j sig_out list" where
  \<comment> \<open>\<open>local_code\<close>: \<open>get_local_close_code()\<close>, or \<open>None\<close> when \<open>get_con_from_hdl\<close> fails\<close>
  "Signal_OnClose local_code s =
     (let code = (case local_code of None \<Rightarrow> close_normal | Some c \<Rightarrow> c);
          s = s\<lparr>sg_con_state := con_closed, sg_con_hdl := None\<rparr>
      in if code = close_normal then (s, []) else (s, [SignalOnClosed code]))"

definition Signal_OnFail :: "u16 option \<Rightarrow> signal \<Rightarrow> signal \<times> 'j sig_out list" where
  "Signal_OnFail local_code s =
     (let code = (case local_code of None \<Rightarrow> close_abnormal | Some c \<Rightarrow> c);
          s = s\<lparr>sg_con_hdl := None, sg_con_state := con_closed\<rparr>
      in if sg_reconn_made s < sg_reconn_attempts s
         then (s\<lparr>sg_reconn_timer := Some True\<rparr>, [TimerStart (NextDelay s)])
         else (s, [SignalOnClosed code]))"

definition Signal_OnCommandReceived :: "'j \<Rightarrow> 'j sig_out list" where
  "Signal_OnCommandReceived message = [SignalOnCommandReceived message]"

definition Signal_OnMessage :: "'j json_lib \<Rightarrow> string \<Rightarrow> 'j sig_out list" where
  "Signal_OnMessage J payload =
     (case jl_parse J payload of None \<Rightarrow> [] | Some j \<Rightarrow> Signal_OnCommandReceived j)"

lemmas signal_ops =
  Signal_Close_def Signal_SyncClose_def Signal_CloseInternal_def Signal_Teardown_def
  Signal_SendCommand_def Signal_SendGlobalCommand_def Signal_SendOpenCommand_def
  Signal_ResetState_def Signal_Connect_def Signal_Open_def Signal_ConnectInternal_def
  Signal_RunLoop_def Signal_TimeoutReconnect_def Signal_OnOpen_def Signal_OnClose_def
  Signal_OnFail_def Signal_OnCommandReceived_def Signal_OnMessage_def opened_def

subsection \<open>The delay before the next attempt\<close>

lemma double_round_ge_mult:
  assumes "2 ^ e dvd k" and "k \<le> n" and "n < 2 ^ (53 + e)"
  shows "k \<le> double_round n"
proof (cases "n < 2 ^ 53")
  case True
  with assms(2) show ?thesis by (simp add: double_round_def)
next
  case False
  let ?e = "floorlog 2 n - 53"
  have "floorlog 2 n \<le> 53 + e"
    using assms(3) by (simp add: floorlog_leI)
  then have "?e \<le> e" by simp
  then have dvd: "2 ^ ?e dvd k"
    using assms(1) le_imp_power_dvd dvd_trans by blast
  have "k = (k div 2 ^ ?e) * 2 ^ ?e" using dvd by simp
  also have "\<dots> \<le> (n div 2 ^ ?e) * 2 ^ ?e" using assms(2) by (simp add: div_le_mono)
  also have "\<dots> \<le> double_round n" using False by (simp add: double_round_def Let_def)
  finally show ?thesis .
qed

lemma three_halves_bound:
  assumes "m \<le> 32"
  shows "(3::nat) ^ m \<le> 2 ^ 20 * 2 ^ m"
proof -
  have "(3::nat) ^ m * 2 ^ (32 - m) \<le> 3 ^ m * 3 ^ (32 - m)"
    by (intro mult_left_mono power_mono) simp_all
  also have "\<dots> = 3 ^ 32" using assms by (simp flip: power_add)
  also have "\<dots> \<le> (2::nat) ^ 20 * 2 ^ 32" by simp
  also have "\<dots> = 2 ^ 20 * (2 ^ m * 2 ^ (32 - m))" using assms by (simp flip: power_add)
  finally have "3 ^ m * 2 ^ (32 - m) \<le> (2 ^ 20 * 2 ^ m) * (2::nat) ^ (32 - m)"
    by (simp only: mult.assoc)
  then show ?thesis by simp
qed

lemma unat_NextDelay:
  "unat (NextDelay s) =
     (let m = min (unat (sg_reconn_made s)) 32
      in min (double_round (unat (sg_reconn_delay s) * 3 ^ m) div 2 ^ m) (unat (sg_reconn_delay_max s)))"
proof -
  let ?m = "min (unat (sg_reconn_made s)) 32"
  let ?x = "min (double_round (unat (sg_reconn_delay s) * 3 ^ ?m) div 2 ^ ?m) (unat (sg_reconn_delay_max s))"
  have "?x \<le> unat (sg_reconn_delay_max s)" by simp
  also have "\<dots> < 2 ^ 32" by (rule unat_bounds)
  finally have "unat (of_nat ?x :: u32) = ?x" by (rule unat_of_nat_u32)
  then show ?thesis by (simp only: NextDelay_def Let_def)
qed

lemma delay_numerator_bound:
  fixes d :: u32
  assumes "m \<le> 32"
  shows "unat d * 3 ^ m < 2 ^ (53 + m)"
proof -
  have "unat d < 2 ^ 32" by (rule unat_bounds)
  then have "unat d * 3 ^ m < 2 ^ 32 * 3 ^ m" by simp
  also have "\<dots> \<le> 2 ^ 32 * (2 ^ 20 * 2 ^ m)"
    using three_halves_bound [OF assms] by (rule mult_left_mono) simp
  also have "\<dots> \<le> 2 ^ (53 + m)" by (simp add: power_add)
  finally show ?thesis .
qed

text \<open>
  The delay chosen before a reconnection never exceeds \<open>reconn_delay_max_\<close>, and it is
  never shorter than the configured base delay (unless the maximum is): the computation in
  doubles and its conversion back to \<open>unsigned\<close> neither overflow nor undershoot, for every
  number of attempts made.
\<close>

theorem NextDelay_bounds:
  "NextDelay s \<le> sg_reconn_delay_max s \<and> min (sg_reconn_delay s) (sg_reconn_delay_max s) \<le> NextDelay s"
proof -
  let ?m = "min (unat (sg_reconn_made s)) 32"
  let ?d = "unat (sg_reconn_delay s)"
  have "?d * 2 ^ ?m \<le> double_round (?d * 3 ^ ?m)"
    by (rule double_round_ge_mult [where e = ?m])
       (auto simp: delay_numerator_bound intro: mult_left_mono power_mono)
  then have "?d \<le> double_round (?d * 3 ^ ?m) div 2 ^ ?m"
    by (simp add: less_eq_div_iff_mult_less_eq)
  then have "min ?d (unat (sg_reconn_delay_max s)) \<le> unat (NextDelay s)"
    by (simp add: unat_NextDelay Let_def min_le_iff_disj)
  moreover have "unat (NextDelay s) \<le> unat (sg_reconn_delay_max s)"
    by (simp add: unat_NextDelay Let_def)
  ultimately show ?thesis
    by (auto simp: word_le_nat_alt min_def split: if_splits)
qed

text \<open>
  While the product fits a double's mantissa, the delay is exactly the base delay times
  \<open>1.5\<close> to the number of attempts made (capped at 32), rounded down and capped.
\<close>

theorem NextDelay_exact:
  assumes "unat (sg_reconn_delay s) * 3 ^ min (unat (sg_reconn_made s)) 32 < 2 ^ 53"
  shows "unat (NextDelay s) =
    min (unat (sg_reconn_delay s) * 3 ^ min (unat (sg_reconn_made s)) 32
           div 2 ^ min (unat (sg_reconn_made s)) 32)
        (unat (sg_reconn_delay_max s))"
  using assms by (simp add: unat_NextDelay Let_def double_round_def)

theorem NextDelay_exact_witness:
  "map (\<lambda>m. unat (NextDelay ((Signal_ctor [])\<lparr>sg_reconn_made := m\<rparr>))) [0, 1, 2, 3, 4]
     = [5000, 7500, 11250, 16875, 25000]"
proof -
  have "unat (NextDelay ((Signal_ctor [])\<lparr>sg_reconn_made := m\<rparr>)) =
      min (5000 * 3 ^ unat m div 2 ^ unat m) 25000" if "unat m \<le> 4" for m :: u32
  proof -
    let ?s = "(Signal_ctor [])\<lparr>sg_reconn_made := m\<rparr>"
    have "(3::nat) ^ unat m \<le> 3 ^ 4" using that by (intro power_increasing) auto
    then have "5000 * (3::nat) ^ unat m < 2 ^ 53" by simp
    with that NextDelay_exact [of ?s] show ?thesis by (simp add: Signal_ctor_def min_def)
  qed
  then show ?thesis by simp
qed

subsection \<open>The connection as a state machine\<close>

text \<open>
  The steps of a \<open>Signal\<close> object: calls of its interface and callbacks of websocketpp and asio.
  The guards are what those libraries promise: the open and the fail handler are called for a
  connection attempt in progress, the close handler for a connection that was opened, and
  \<open>TimeoutReconnect\<close> runs without an error code once per armed timer. A timer that \<open>Connect\<close> or
  \<open>CloseInternal\<close> cancels may already have its handler queued, which then runs without an error code
  too (\<open>timer_late_cb\<close>); it runs before the event loop gets to the connection attempt that \<open>Connect\<close>
  dispatches after it, so the connection is not closed at that moment. \<open>Connect\<close> joins a closing
  network thread, which returns only after the close handler ran. The setters of the reconnect
  options, which the program never calls, are not steps.
\<close>

inductive sig_step :: "'j json_lib \<Rightarrow> signal \<Rightarrow> 'j sig_out list \<Rightarrow> signal \<Rightarrow> bool"
  for J :: "'j json_lib" where
  open_call: "\<not> (sg_network_thread s \<and> sg_con_state s = con_closing) \<Longrightarrow>
     Signal_Open user password s = (s', out) \<Longrightarrow> sig_step J s out s'"
| close_call: "Signal_Close s = (s', out) \<Longrightarrow> sig_step J s out s'"
| sync_close_call: "Signal_SyncClose s = (s', out) \<Longrightarrow> sig_step J s out s'"
| send_call: "Signal_SendCommand J channel command data s = out \<Longrightarrow> sig_step J s out s"
| connect_run: "Signal_ConnectInternal ec s = out \<Longrightarrow> sig_step J s out s"
| close_run: "Signal_CloseInternal expired code desc s = (s', out) \<Longrightarrow> sig_step J s out s'"
| opened_cb: "sg_con_state s = con_opening \<Longrightarrow> Signal_OnOpen J con s = (s', out) \<Longrightarrow>
     sig_step J s out s'"
| failed_cb: "sg_con_state s = con_opening \<Longrightarrow> Signal_OnFail code' s = (s', out) \<Longrightarrow>
     sig_step J s out s'"
| closed_cb: "sg_con_state s \<in> {con_opened, con_closing} \<Longrightarrow> Signal_OnClose code' s = (s', out) \<Longrightarrow>
     sig_step J s out s'"
| timer_cb: "sg_reconn_timer s = Some True \<Longrightarrow>
     Signal_TimeoutReconnect False (s\<lparr>sg_reconn_timer := Some False\<rparr>) = (s', out) \<Longrightarrow>
     sig_step J s out s'"
| timer_late_cb: "sg_con_state s \<noteq> con_closed \<Longrightarrow> Signal_TimeoutReconnect False s = (s', out) \<Longrightarrow>
     sig_step J s out s'"
| timer_aborted_cb: "Signal_TimeoutReconnect True s = (s', out) \<Longrightarrow> sig_step J s out s'"
| message_cb: "Signal_OnMessage J payload = out \<Longrightarrow> sig_step J s out s"

inductive sig_reachable :: "'j json_lib \<Rightarrow> string \<Rightarrow> signal \<Rightarrow> bool"
  for J :: "'j json_lib" and url :: string where
  initial: "sig_reachable J url (Signal_ctor url)"
| step: "sig_reachable J url s \<Longrightarrow> sig_step J s out s' \<Longrightarrow> sig_reachable J url s'"

text \<open>
  What every reachable state satisfies: the retry counter stays within its limit, an open
  connection has a handle, and an armed timer belongs to a closed connection with an attempt
  left.
\<close>

definition sig_inv :: "signal \<Rightarrow> bool" where
  "sig_inv s \<longleftrightarrow>
     sg_reconn_made s \<le> sg_reconn_attempts s \<and>
     (sg_con_state s = con_opened \<longrightarrow> sg_con_hdl s \<noteq> None) \<and>
     (sg_reconn_timer s = Some True \<longrightarrow>
        sg_con_state s = con_closed \<and> sg_reconn_made s < sg_reconn_attempts s)"

lemma sig_step_frame:
  "sig_step J s out s' \<Longrightarrow>
     sg_reconn_attempts s' = sg_reconn_attempts s \<and> sg_reconn_delay s' = sg_reconn_delay s \<and>
     sg_reconn_delay_max s' = sg_reconn_delay_max s \<and> sg_url s' = sg_url s"
  by (induction rule: sig_step.induct)
     (auto simp: signal_ops Let_def split: if_splits option.splits)

lemma sig_step_inv: "sig_step J s out s' \<Longrightarrow> sig_inv s \<Longrightarrow> sig_inv s'"
  by (induction rule: sig_step.induct)
     (auto simp: sig_inv_def signal_ops Let_def inc_le split: if_splits option.splits)

lemma sig_reachable_inv: "sig_reachable J url s \<Longrightarrow> sig_inv s"
proof (induction rule: sig_reachable.induct)
  case initial
  show ?case by (simp add: sig_inv_def Signal_ctor_def)
next
  case (step s out s')
  then show ?case by (blast intro: sig_step_inv)
qed

lemma sig_reachable_config:
  "sig_reachable J url s \<Longrightarrow>
     sg_reconn_attempts s = 3 \<and> sg_reconn_delay s = 5000 \<and> sg_reconn_delay_max s = 25000"
  by (induction rule: sig_reachable.induct) (auto simp: Signal_ctor_def dest: sig_step_frame)

text \<open>A run used by the witnesses: the user opens the connection, and the server accepts.\<close>

definition jt_plain :: "jtree json_lib" where
  "jt_plain = jt_lib (\<lambda>_. None) (\<lambda>_. ''{}'')"

definition sig_opening :: signal where
  "sig_opening = (Signal_ctor [])\<lparr>sg_con_state := con_opening, sg_network_thread := True\<rparr>"

lemma sig_opening_reachable: "sig_reachable J [] sig_opening"
  by (rule sig_reachable.step [OF sig_reachable.initial sig_step.open_call
        [where user = "[]" and password = "[]"]])
     (simp_all add: signal_ops Signal_ctor_def sig_opening_def)

text \<open>
  C5. In every reachable state of the connection the retry counter is at most the three
  attempts the constructor sets, a reconnect timer is armed only while the connection is
  closed with an attempt left, and an opened connection has a handle to send on.
\<close>

theorem signal_retry_invariant:
  assumes "sig_reachable J url s"
  shows "sg_reconn_made s \<le> 3 \<and>
    (sg_reconn_timer s = Some True \<longrightarrow> sg_con_state s = con_closed \<and> sg_reconn_made s < 3) \<and>
    (sg_con_state s = con_opened \<longrightarrow> sg_con_hdl s \<noteq> None)"
  using sig_reachable_inv [OF assms] sig_reachable_config [OF assms]
  by (simp add: sig_inv_def)

theorem signal_retry_invariant_witness:
  "sg_reconn_made (fst (Signal_OnFail None sig_opening :: _ \<times> jtree sig_out list)) \<le> 3 \<and>
   sg_reconn_timer (fst (Signal_OnFail None sig_opening :: _ \<times> jtree sig_out list)) = Some True"
proof -
  let ?r = "Signal_OnFail None sig_opening :: _ \<times> jtree sig_out list"
  have "sig_step jt_plain sig_opening (snd ?r) (fst ?r)"
    by (rule sig_step.failed_cb [where code' = None]) (simp_all add: sig_opening_def)
  then have "sig_reachable jt_plain [] (fst ?r)"
    by (rule sig_reachable.step [OF sig_opening_reachable])
  from signal_retry_invariant [OF this] show ?thesis
    by (simp add: Signal_OnFail_def sig_opening_def Signal_ctor_def Let_def)
qed

text \<open>
  C38. A command is handed to websocketpp only on an open connection and with a live handle:
  no reachable step sends on a handle that was reset.
\<close>

theorem signal_sends_on_open_handle:
  assumes "sig_reachable J url s" and "sig_step J s out s'" and "ClientSend h txt \<in> set out"
  shows "sg_con_state s' = con_opened \<and> h \<noteq> None \<and> h = sg_con_hdl s'"
proof -
  have "sig_inv s'"
    using sig_reachable_inv [OF assms(1)] sig_step_inv [OF assms(2)] by blast
  moreover have "sg_con_state s' = con_opened \<and> h = sg_con_hdl s'"
    using assms(2,3)
    by (cases rule: sig_step.cases) (auto simp: signal_ops Let_def split: if_splits option.splits)
  ultimately show ?thesis by (simp add: sig_inv_def)
qed

theorem signal_sends_on_open_handle_witness:
  "\<exists>out s'. sig_step jt_plain sig_opening out s' \<and> ClientSend (Some 7) ''{}'' \<in> set out \<and>
     sg_con_state s' = con_opened"
proof -
  let ?r = "Signal_OnOpen jt_plain 7 sig_opening"
  have step: "sig_step jt_plain sig_opening (snd ?r) (fst ?r)"
    by (rule sig_step.opened_cb [where con = 7]) (simp_all add: sig_opening_def)
  have sent: "ClientSend (Some 7) ''{}'' \<in> set (snd ?r)"
    by (simp add: signal_ops Let_def jt_plain_def jt_lib_def)
  from signal_sends_on_open_handle [OF sig_opening_reachable step sent] step sent
  show ?thesis by blast
qed

text \<open>
  The observer is told that the connection is lost only when it is: in the state after a
  step that emits \<open>SignalOnClosed_\<close> the connection is closed, its handle is reset and, in a
  reachable run, no retry is pending. A close initiated by the user (code normal) is never
  reported by \<open>OnClose\<close>.
\<close>

theorem signal_closed_report_is_final:
  assumes "sig_reachable J url s" and "sig_step J s out s'" and "SignalOnClosed c \<in> set out"
  shows "sg_con_state s' = con_closed \<and> sg_con_hdl s' = None \<and> sg_reconn_timer s' \<noteq> Some True \<and>
    (sg_con_state s \<noteq> con_opening \<longrightarrow> c \<noteq> close_normal)"
proof -
  have "sig_inv s" by (rule sig_reachable_inv [OF assms(1)])
  with assms(2,3) show ?thesis
    by (cases rule: sig_step.cases)
       (auto simp: signal_ops Let_def sig_inv_def split: if_splits option.splits)
qed

theorem signal_closed_report_is_final_witness:
  "\<exists>out s'. sig_step jt_plain (fst (Signal_OnOpen jt_plain 7 sig_opening)) out s' \<and>
     SignalOnClosed 1006 \<in> set out \<and> sg_con_state s' = con_closed"
proof -
  let ?s = "fst (Signal_OnOpen jt_plain 7 sig_opening)"
  let ?r = "Signal_OnClose (Some 1006) ?s :: _ \<times> jtree sig_out list"
  have "sig_step jt_plain sig_opening (snd (Signal_OnOpen jt_plain 7 sig_opening)) ?s"
    by (rule sig_step.opened_cb [where con = 7]) (simp_all add: sig_opening_def)
  then have reach: "sig_reachable jt_plain [] ?s"
    by (rule sig_reachable.step [OF sig_opening_reachable])
  have step: "sig_step jt_plain ?s (snd ?r) (fst ?r)"
    by (rule sig_step.closed_cb [where code' = "Some 1006"]) (simp_all add: Signal_OnOpen_def Let_def)
  have rep: "SignalOnClosed 1006 \<in> set (snd ?r)"
    by (simp add: Signal_OnClose_def Let_def close_normal_def)
  from signal_closed_report_is_final [OF reach step rep] step rep show ?thesis by blast
qed

subsection \<open>Every attempt fails\<close>

text \<open>
  The run in which the server refuses every attempt: the fail handler, then the timer if one
  was armed, and so on. The fuel bounds the number of attempts followed.
\<close>

fun failing_run :: "nat \<Rightarrow> u16 option \<Rightarrow> signal \<Rightarrow> signal \<times> 'j sig_out list" where
  "failing_run 0 c s = (s, [])"
| "failing_run (Suc n) c s =
     (let (s1, out1) = Signal_OnFail c s
      in if sg_reconn_timer s1 = Some True
         then let (s2, out2) = Signal_TimeoutReconnect False (s1\<lparr>sg_reconn_timer := Some False\<rparr>);
                  (s3, out3) = failing_run n c s2
              in (s3, out1 @ out2 @ out3)
         else (s1, out1))"

definition attempts_left :: "signal \<Rightarrow> nat" where
  "attempts_left s = unat (sg_reconn_attempts s) - unat (sg_reconn_made s)"

definition is_report :: "'j sig_out \<Rightarrow> bool" where
  "is_report x = (case x of SignalOnClosed _ \<Rightarrow> True | _ \<Rightarrow> False)"

definition is_attempt :: "'j sig_out \<Rightarrow> bool" where
  "is_attempt x = (case x of DispatchConnect \<Rightarrow> True | _ \<Rightarrow> False)"

lemma is_report_simps [simp]:
  "is_report (SignalOnClosed c)" "\<not> is_report DispatchConnect" "\<not> is_report ClientReset"
  "\<not> is_report (TimerStart d)"
  by (simp_all add: is_report_def)

lemma is_attempt_simps [simp]:
  "\<not> is_attempt (SignalOnClosed c)" "is_attempt DispatchConnect" "\<not> is_attempt ClientReset"
  "\<not> is_attempt (TimerStart d)"
  by (simp_all add: is_attempt_def)

definition next_attempt :: "signal \<Rightarrow> signal" where
  "next_attempt s = s\<lparr>sg_con_hdl := None, sg_reconn_timer := Some False,
     sg_con_state := con_opening, sg_reconn_made := sg_reconn_made s + 1\<rparr>"

lemma failing_run_retry:
  assumes "sg_reconn_made s < sg_reconn_attempts s"
    and "failing_run n c (next_attempt s) = (s', out)"
  shows "failing_run (Suc n) c s =
    (s', [TimerStart (NextDelay s), ClientReset, DispatchConnect] @ out)"
proof -
  have "NextDelay (s\<lparr>sg_con_hdl := None, sg_con_state := con_closed\<rparr>) = NextDelay s"
    by (simp add: NextDelay_def)
  with assms show ?thesis
    by (simp add: Signal_OnFail_def Signal_TimeoutReconnect_def Signal_ResetState_def Let_def
        next_attempt_def)
qed

lemma failing_run_last:
  assumes "\<not> sg_reconn_made s < sg_reconn_attempts s" and "sg_reconn_timer s \<noteq> Some True"
  shows "failing_run (Suc n) c s =
    (s\<lparr>sg_con_hdl := None, sg_con_state := con_closed\<rparr>,
     [SignalOnClosed (case c of None \<Rightarrow> close_abnormal | Some d \<Rightarrow> d)])"
  using assms by (simp add: Signal_OnFail_def Let_def)

declare failing_run.simps(2) [simp del]

lemma attempts_left_step:
  assumes "sg_reconn_made s < sg_reconn_attempts s"
  shows "attempts_left s = Suc (attempts_left (next_attempt s))"
proof -
  have less: "unat (sg_reconn_made s) < unat (sg_reconn_attempts s)"
    using assms by (simp add: word_less_nat_alt)
  then have "unat (sg_reconn_made s) + 1 < 2 ^ 32"
    using unat_bounds(3) [of "sg_reconn_attempts s"] by linarith
  then have "unat (sg_reconn_made s + 1) = Suc (unat (sg_reconn_made s))"
    by (simp add: unat_word_ariths)
  with less show ?thesis
    by (simp add: attempts_left_def next_attempt_def)
qed

text \<open>
  C4. The retry loop ends. If the server refuses every attempt, then after exactly as many
  further attempts as are left the connection is closed and the loss is reported exactly once,
  as the last thing done; \<open>attempts_left s + 1\<close> units of fuel are enough for the whole run.
\<close>

theorem retry_loop_reports_once:
  fixes out :: "'j sig_out list"
  assumes "attempts_left s < n" and "sg_reconn_timer s \<noteq> Some True"
    and "failing_run n c s = (s', out)"
  shows "sg_con_state s' = con_closed \<and> length (filter is_attempt out) = attempts_left s \<and>
    filter is_report out = [SignalOnClosed (case c of None \<Rightarrow> close_abnormal | Some d \<Rightarrow> d)] \<and>
    is_report (last out)"
  using assms
proof (induction n arbitrary: s s' out)
  case 0
  then show ?case by simp
next
  case (Suc n)
  show ?case
  proof (cases "sg_reconn_made s < sg_reconn_attempts s")
    case True
    obtain t and rest :: "'j sig_out list" where run: "failing_run n c (next_attempt s) = (t, rest)"
      by (cases "failing_run n c (next_attempt s) :: signal \<times> 'j sig_out list")
    have left: "attempts_left s = Suc (attempts_left (next_attempt s))"
      by (rule attempts_left_step [OF True])
    have "attempts_left (next_attempt s) < n" using Suc.prems(1) left by simp
    from Suc.IH [OF this _ run]
    have IH: "sg_con_state t = con_closed \<and>
      length (filter is_attempt rest) = attempts_left (next_attempt s) \<and>
      filter is_report rest = [SignalOnClosed (case c of None \<Rightarrow> close_abnormal | Some d \<Rightarrow> d)] \<and>
      is_report (last rest)" by (simp add: next_attempt_def)
    then have "rest \<noteq> []" by force
    with IH failing_run_retry [OF True run] Suc.prems(3) left show ?thesis by simp
  next
    case False
    then have "attempts_left s = 0" by (simp add: attempts_left_def word_less_nat_alt)
    moreover have "failing_run (Suc n) c s = (s\<lparr>sg_con_hdl := None, sg_con_state := con_closed\<rparr>,
        [SignalOnClosed (case c of None \<Rightarrow> close_abnormal | Some d \<Rightarrow> d)] :: 'j sig_out list)"
      by (rule failing_run_last [OF False Suc.prems(2)])
    ultimately show ?thesis using Suc.prems(3) by auto
  qed
qed

theorem retry_loop_reports_once_witness:
  "filter is_report (snd (failing_run 4 None sig_opening) :: jtree sig_out list) = [SignalOnClosed 1006] \<and>
   length (filter is_attempt (snd (failing_run 4 None sig_opening) :: jtree sig_out list)) = 3"
proof -
  have "attempts_left sig_opening = 3"
    by (simp add: attempts_left_def sig_opening_def Signal_ctor_def)
  moreover have "sg_reconn_timer sig_opening \<noteq> Some True"
    by (simp add: sig_opening_def Signal_ctor_def)
  moreover obtain s' and out :: "jtree sig_out list" where "failing_run 4 None sig_opening = (s', out)"
    by (cases "failing_run 4 None sig_opening :: _ \<times> jtree sig_out list")
  ultimately show ?thesis
    using retry_loop_reports_once [of sig_opening 4 None s' out]
    by (simp add: close_abnormal_def)
qed

text \<open>
  A connection attempt that cannot even be created is dropped silently: when
  \<open>get_connection\<close> reports an error, \<open>ConnectInternal\<close> returns without a retry and without a
  report, and the state stays \<open>con_opening\<close>, in which \<open>Close\<close>, \<open>SyncClose\<close>, \<open>SendCommand\<close> and a
  further \<open>Open\<close> do nothing.
\<close>

theorem connect_error_is_silent:
  fixes user password channel command :: string and data :: 'j and url :: string
  defines "s \<equiv> fst (Signal_Open user password (Signal_ctor url) :: _ \<times> 'j sig_out list)"
  shows "(Signal_ConnectInternal True s :: 'j sig_out list) = [] \<and> sg_con_state s = con_opening \<and>
    Signal_Close s = (s, [] :: 'j sig_out list) \<and> Signal_SyncClose s = (s, [] :: 'j sig_out list) \<and>
    Signal_SendCommand J channel command data s = [] \<and>
    Signal_Connect s = (s, [] :: 'j sig_out list)"
  by (simp add: s_def signal_ops Signal_ctor_def)

subsection \<open>Configuration of the delays\<close>

definition delays_ok :: "signal \<Rightarrow> bool" where
  "delays_ok s \<longleftrightarrow> sg_reconn_delay s \<le> sg_reconn_delay_max s"

text \<open>
  The base delay never exceeds the maximum delay: the constructor establishes it, and each
  of the two setters restores it by moving the other bound, whatever the state was before.
\<close>

theorem delay_setters_keep_order:
  "delays_ok (Signal_ctor url) \<and> delays_ok (set_reconnect_delay d s) \<and>
   delays_ok (set_reconnect_delay_max d s) \<and>
   sg_reconn_delay (set_reconnect_delay d s) = d \<and>
   sg_reconn_delay_max (set_reconnect_delay_max d s) = d"
  by (auto simp: delays_ok_def Signal_ctor_def set_reconnect_delay_def set_reconnect_delay_max_def Let_def)

end
