(* ===== verification/Peer_Control.thy ===== *)
theory Peer_Control
  imports Json_Api
begin

section \<open>One peer connection (\<open>peer.h\<close>, \<open>peer.cc\<close>, \<open>common.h\<close>)\<close>

text \<open>
  Classes \<open>PeerDataChannelObserver\<close> and \<open>PeerControl\<close>. The objects of WebRTC (the peer
  connection, the data channels) are external: they are handles (\<open>nat\<close>), and what the library
  answers at the moment of a call is the record \<open>rtc_env\<close>, an argument of the operations.

  An operation returns the new object, and, in program order, the calls it makes: on WebRTC
  and on the \<open>PeerObserver\<close> interface of its owner (\<open>control_\<close>). Every operation of
  \<open>PeerControl\<close> calls its owner as the last thing it does, after its own fields are written, so
  the owner may run those calls after the operation. A member call through a null
  \<open>peer_connection_\<close>, factory or channel is the fault \<open>NullPointer\<close>; \<open>RTC_DCHECK\<close> is active
  when \<open>env_debug\<close> holds.
\<close>

subsection \<open>Close codes\<close>

text \<open>The enumeration \<open>CloseCode\<close>, as the 32-bit value it is stored and posted as.\<close>

type_synonym CloseCode = u32

definition CLOSE_NORMAL :: CloseCode where "CLOSE_NORMAL = 0"
definition CLOSE_GOING_AWAY :: CloseCode where "CLOSE_GOING_AWAY = 0x80000000"
definition CLOSE_ABNORMAL :: CloseCode where "CLOSE_ABNORMAL = 0x80000001"
definition CLOSE_PROTOCOL_ERROR :: CloseCode where "CLOSE_PROTOCOL_ERROR = 0x80000002"
definition CLOSE_SIGNAL_ERROR :: CloseCode where "CLOSE_SIGNAL_ERROR = 0x80000003"

lemmas close_code_defs = CLOSE_NORMAL_def CLOSE_GOING_AWAY_def CLOSE_ABNORMAL_def
  CLOSE_PROTOCOL_ERROR_def CLOSE_SIGNAL_ERROR_def

abbreviation (input) "SYNC_OFF \<equiv> False"
abbreviation (input) "SYNC_ON \<equiv> True"
abbreviation (input) "FORCE_QUEUING_OFF \<equiv> False"
abbreviation (input) "FORCE_QUEUING_ON \<equiv> True"

subsection \<open>State\<close>

datatype data_state = kConnecting | kOpen | kClosing | kClosed

datatype ice_state = kIceConnectionNew | kIceConnectionChecking | kIceConnectionConnected
  | kIceConnectionCompleted | kIceConnectionFailed | kIceConnectionDisconnected
  | kIceConnectionClosed | kIceConnectionMax

datatype PeerState = pConnecting | pOpen | pClosing | pClosed

record rtc_env =
  env_debug :: bool
  env_dc_state :: "nat \<Rightarrow> data_state"                    \<comment> \<open>\<open>channel_->state()\<close>\<close>
  env_dc_buffered :: "nat \<Rightarrow> u64"                        \<comment> \<open>\<open>channel_->buffered_amount()\<close>\<close>
  env_dc_send :: "nat \<Rightarrow> bytes \<Rightarrow> bool"                  \<comment> \<open>result of \<open>channel_->Send\<close>\<close>
  env_drained :: "nat \<Rightarrow> bool"                           \<comment> \<open>\<open>send_cv_.wait_for\<close>: drained in time\<close>
  env_create_pc :: "nat \<Rightarrow> nat option"                   \<comment> \<open>\<open>CreatePeerConnection\<close>, by observer\<close>
  env_create_dc :: "nat \<Rightarrow> string \<Rightarrow> nat option"         \<comment> \<open>\<open>CreateDataChannel\<close>, by connection, label\<close>

record dc_observer =
  dc_channel :: nat
  dc_state :: data_state
  dc_attached :: bool        \<comment> \<open>its sigslots are connected to the \<open>PeerControl\<close>\<close>

record peer_control =
  pc_local_id :: string
  pc_remote_id :: string
  pc_connection :: "nat option"
  pc_factory :: "unit option"
  pc_local_channel :: "dc_observer option"
  pc_remote_channel :: "dc_observer option"
  pc_state :: PeerState

datatype 'j pc_out =
    CtlSendCommand string string 'j
  | CtlClosePeer string CloseCode bool
  | CtlOnPeerConnect string
  | CtlOnPeerClose string CloseCode
  | CtlOnPeerMessage string bytes
  | CtlOnPeerWritable string
  | PcCreateOffer nat
  | PcCreateAnswer nat
  | PcSetLocalDescription nat string string
  | PcSetRemoteDescription nat string string
  | PcAddIceCandidate nat string int string
  | DcRegisterObserver nat
  | DcUnregisterObserver nat
  | DcClose nat
  | DcSend nat bytes
  | DcNotifySenders nat                                  \<comment> \<open>\<open>send_cv_.notify_all()\<close>\<close>

subsection \<open>\<open>PeerDataChannelObserver\<close>\<close>

definition max_buffer_size :: u64 where
  "max_buffer_size = 16 * 1024 * 1024"

definition DC_ctor :: "rtc_env \<Rightarrow> nat \<Rightarrow> dc_observer \<times> 'j pc_out list" where
  "DC_ctor env channel =
     (\<lparr>dc_channel = channel, dc_state = env_dc_state env channel, dc_attached = False\<rparr>,
      [DcRegisterObserver channel])"

definition DC_dtor :: "dc_observer \<Rightarrow> 'j pc_out list" where
  "DC_dtor d = [DcClose (dc_channel d), DcUnregisterObserver (dc_channel d)]"

definition DC_Send :: "rtc_env \<Rightarrow> bytes \<Rightarrow> dc_observer \<Rightarrow> 'j pc_out list \<times> bool" where
  "DC_Send env buffer d =
     (if env_dc_buffered env (dc_channel d) \<ge> max_buffer_size then ([], False)
      else ([DcSend (dc_channel d) buffer], env_dc_send env (dc_channel d) buffer))"

definition DC_SyncSend :: "rtc_env \<Rightarrow> bytes \<Rightarrow> dc_observer \<Rightarrow> 'j pc_out list \<times> bool" where
  "DC_SyncSend env buffer d =
     (if \<not> env_dc_send env (dc_channel d) buffer then ([DcSend (dc_channel d) buffer], False)
      else if \<not> env_drained env (dc_channel d) then ([DcSend (dc_channel d) buffer], False)
      else ([DcSend (dc_channel d) buffer], True))"

definition DC_Close :: "rtc_env \<Rightarrow> dc_observer \<Rightarrow> 'j pc_out list" where
  "DC_Close env d =
     (if env_dc_state env (dc_channel d) \<noteq> kClosing then [DcClose (dc_channel d)] else [])"

definition DC_IsOpen :: "dc_observer \<Rightarrow> bool" where
  "DC_IsOpen d \<longleftrightarrow> dc_state d = kOpen"

definition DC_BufferedAmount :: "rtc_env \<Rightarrow> dc_observer \<Rightarrow> u64" where
  "DC_BufferedAmount env d = env_dc_buffered env (dc_channel d)"

definition DC_IsWritable :: "rtc_env \<Rightarrow> dc_observer \<Rightarrow> bool" where
  \<comment> \<open>\<open>channel_\<close> is set by the constructor and never cleared\<close>
  "DC_IsWritable env d =
     (if \<not> DC_IsOpen d then False
      else if env_dc_buffered env (dc_channel d) > 0 then False
      else True)"

definition DC_state :: "rtc_env \<Rightarrow> dc_observer \<Rightarrow> data_state" where
  "DC_state env d = env_dc_state env (dc_channel d)"

subsection \<open>\<open>PeerControl\<close>: construction and release\<close>

definition PeerControl_ctor :: "string \<Rightarrow> string \<Rightarrow> unit option \<Rightarrow> peer_control" where
  "PeerControl_ctor local_id remote_id factory = \<lparr>
     pc_local_id = local_id, pc_remote_id = remote_id,
     pc_connection = None, pc_factory = factory,
     pc_local_channel = None, pc_remote_channel = None,
     pc_state = pClosed\<rparr>"

definition PC_Attach :: "dc_observer option \<Rightarrow> dc_observer option" where
  "PC_Attach d = map_option (\<lambda>x. x\<lparr>dc_attached := True\<rparr>) d"

definition PC_Detach :: "dc_observer option \<Rightarrow> dc_observer option" where
  "PC_Detach d = map_option (\<lambda>x. x\<lparr>dc_attached := False\<rparr>) d"

definition PC_DeletePeerConnection :: "peer_control \<Rightarrow> peer_control \<times> 'j pc_out list" where
  "PC_DeletePeerConnection pc =
     (let pc = pc\<lparr>pc_remote_channel := PC_Detach (pc_remote_channel pc)\<rparr>;
          pc = pc\<lparr>pc_local_channel := PC_Detach (pc_local_channel pc)\<rparr>;
          out = (case pc_remote_channel pc of None \<Rightarrow> [] | Some d \<Rightarrow> DC_dtor d) @
                (case pc_local_channel pc of None \<Rightarrow> [] | Some d \<Rightarrow> DC_dtor d)
      in (pc\<lparr>pc_remote_channel := None, pc_local_channel := None,
             pc_connection := None, pc_factory := None\<rparr>, out))"

definition PeerControl_dtor :: "rtc_env \<Rightarrow> peer_control \<Rightarrow> (peer_control \<times> 'j pc_out list) res" where
  "PeerControl_dtor env pc =
     and_then (rtc_dcheck (env_debug env) ''state_ == pClosed'' (pc_state pc = pClosed))
       (\<lambda>_. Inr (PC_DeletePeerConnection pc))"

definition PC_CreatePeerConnection ::
    "rtc_env \<Rightarrow> nat \<Rightarrow> peer_control \<Rightarrow> (peer_control \<times> bool) res" where
  \<comment> \<open>\<open>this\<close>: the object itself, passed to WebRTC as the observer\<close>
  "PC_CreatePeerConnection env this pc =
     and_then (rtc_dcheck (env_debug env) ''peer_connection_factory_'' (pc_factory pc \<noteq> None))
     (\<lambda>_. and_then (rtc_dcheck (env_debug env) ''peer_connection_ == NULL'' (pc_connection pc = None))
     (\<lambda>_. and_then (deref ''peer_connection_factory_'' (pc_factory pc))
     (\<lambda>_. let pc = pc\<lparr>pc_connection := env_create_pc env this\<rparr>
           in Inr (pc, pc_connection pc \<noteq> None))))"

definition PC_CreateDataChannel ::
    "rtc_env \<Rightarrow> string \<Rightarrow> peer_control \<Rightarrow> (peer_control \<times> 'j pc_out list \<times> bool) res" where
  "PC_CreateDataChannel env label pc =
     and_then (deref ''peer_connection_'' (pc_connection pc))
     (\<lambda>c. case env_create_dc env c label of
            None \<Rightarrow> Inr (pc, [], False)
          | Some ch \<Rightarrow>
              let (d, out) = DC_ctor env ch
              in Inr (pc\<lparr>pc_local_channel := PC_Attach (Some d)\<rparr>,
                      (case pc_local_channel pc of None \<Rightarrow> out | Some old \<Rightarrow> out @ DC_dtor old), True))"

definition PC_Initialize ::
    "rtc_env \<Rightarrow> nat \<Rightarrow> peer_control \<Rightarrow> (peer_control \<times> 'j pc_out list \<times> bool) res" where
  "PC_Initialize env this pc =
     and_then (PC_CreatePeerConnection env this pc)
     (\<lambda>(pc, ok).
        if \<not> ok then let (pc, out) = PC_DeletePeerConnection pc in Inr (pc, out, False)
        else
          and_then (PC_CreateDataChannel env (''peer_data_'' @ pc_remote_id pc) pc)
          (\<lambda>(pc, out, ok).
             if \<not> ok then let (pc, out') = PC_DeletePeerConnection pc in Inr (pc, out @ out', False)
             else Inr (pc, out, True)))"

subsection \<open>\<open>PeerControl\<close>: the calls of its owner\<close>

definition PC_Send ::
    "rtc_env \<Rightarrow> bytes \<Rightarrow> peer_control \<Rightarrow> ('j pc_out list \<times> bool) res" where
  "PC_Send env buffer pc =
     and_then (rtc_dcheck (env_debug env) ''state_ == pOpen'' (pc_state pc = pOpen))
     (\<lambda>_. if pc_state pc \<noteq> pOpen then Inr ([], False)
          else and_then (deref ''local_data_channel_'' (pc_local_channel pc))
               (\<lambda>d. Inr (DC_Send env buffer d)))"

definition PC_SyncSend ::
    "rtc_env \<Rightarrow> bytes \<Rightarrow> peer_control \<Rightarrow> ('j pc_out list \<times> bool) res" where
  "PC_SyncSend env buffer pc =
     and_then (rtc_dcheck (env_debug env) ''state_ == pOpen'' (pc_state pc = pOpen))
     (\<lambda>_. if pc_state pc \<noteq> pOpen then Inr ([], False)
          else and_then (deref ''local_data_channel_'' (pc_local_channel pc))
               (\<lambda>d. Inr (DC_SyncSend env buffer d)))"

definition PC_IsWritable :: "rtc_env \<Rightarrow> peer_control \<Rightarrow> bool res" where
  "PC_IsWritable env pc =
     (if pc_state pc \<noteq> pOpen then Inr False
      else and_then (deref ''local_data_channel_'' (pc_local_channel pc))
           (\<lambda>d. Inr (DC_IsWritable env d)))"

definition PC_Close :: "CloseCode \<Rightarrow> peer_control \<Rightarrow> peer_control \<times> 'j pc_out list" where
  "PC_Close code pc =
     (if pc_state pc = pClosing \<or> pc_state pc = pClosed then (pc, [])
      else
        let pc = pc\<lparr>pc_state := pClosing\<rparr>;
            pc = (if pc_connection pc \<noteq> None then pc\<lparr>pc_connection := None\<rparr> else pc);
            pc = pc\<lparr>pc_state := pClosed\<rparr>
        in (pc, [CtlOnPeerClose (pc_remote_id pc) code]))"

definition PC_SetLocalDescription :: "string \<Rightarrow> string \<Rightarrow> peer_control \<Rightarrow> 'j pc_out list" where
  "PC_SetLocalDescription type sdp pc =
     (case pc_connection pc of None \<Rightarrow> [] | Some c \<Rightarrow> [PcSetLocalDescription c type sdp])"

definition PC_SetRemoteDescription ::
    "string \<Rightarrow> string \<Rightarrow> peer_control \<Rightarrow> 'j pc_out list res" where
  "PC_SetRemoteDescription type sdp pc =
     and_then (deref ''peer_connection_'' (pc_connection pc))
       (\<lambda>c. Inr [PcSetRemoteDescription c type sdp])"

definition PC_CreateOffer :: "rtc_env \<Rightarrow> peer_control \<Rightarrow> (peer_control \<times> 'j pc_out list) res" where
  "PC_CreateOffer env pc =
     and_then (rtc_dcheck (env_debug env) ''state_ == pClosed'' (pc_state pc = pClosed))
     (\<lambda>_. let pc = pc\<lparr>pc_state := pConnecting\<rparr>
          in and_then (deref ''peer_connection_'' (pc_connection pc))
               (\<lambda>c. Inr (pc, [PcCreateOffer c])))"

definition PC_CreateAnswer :: "rtc_env \<Rightarrow> peer_control \<Rightarrow> (peer_control \<times> 'j pc_out list) res" where
  "PC_CreateAnswer env pc =
     and_then (rtc_dcheck (env_debug env) ''state_ == pClosed'' (pc_state pc = pClosed))
     (\<lambda>_. let pc = pc\<lparr>pc_state := pConnecting\<rparr>
          in and_then (deref ''peer_connection_'' (pc_connection pc))
               (\<lambda>c. Inr (pc, [PcCreateAnswer c])))"

definition PC_ReceiveOfferSdp ::
    "rtc_env \<Rightarrow> string \<Rightarrow> peer_control \<Rightarrow> (peer_control \<times> 'j pc_out list) res" where
  "PC_ReceiveOfferSdp env sdp pc =
     and_then (rtc_dcheck (env_debug env) ''state_ == pClosed'' (pc_state pc = pClosed))
     (\<lambda>_. and_then (PC_SetRemoteDescription ''offer'' sdp pc)
     (\<lambda>out1. and_then (PC_CreateAnswer env pc)
     (\<lambda>(pc, out2). Inr (pc, out1 @ out2))))"

definition PC_ReceiveAnswerSdp ::
    "rtc_env \<Rightarrow> string \<Rightarrow> peer_control \<Rightarrow> 'j pc_out list res" where
  "PC_ReceiveAnswerSdp env sdp pc =
     and_then (rtc_dcheck (env_debug env) ''state_ == pConnecting'' (pc_state pc = pConnecting))
     (\<lambda>_. PC_SetRemoteDescription ''answer'' sdp pc)"

definition PC_AddIceCandidate ::
    "string \<Rightarrow> int \<Rightarrow> string \<Rightarrow> peer_control \<Rightarrow> 'j pc_out list res" where
  "PC_AddIceCandidate sdp_mid sdp_mline_index candidate pc =
     and_then (deref ''peer_connection_'' (pc_connection pc))
       (\<lambda>c. Inr [PcAddIceCandidate c sdp_mid sdp_mline_index candidate])"

subsection \<open>\<open>PeerControl\<close>: callbacks of WebRTC\<close>

definition PC_OnPeerOpened :: "rtc_env \<Rightarrow> peer_control \<Rightarrow> (peer_control \<times> 'j pc_out list) res" where
  "PC_OnPeerOpened env pc =
     (case (pc_local_channel pc, pc_remote_channel pc) of
        (Some l, Some r) \<Rightarrow>
          if DC_state env l = kOpen \<and> DC_state env r = kOpen
          then and_then (rtc_dcheck (env_debug env) ''state_ == pConnecting'' (pc_state pc = pConnecting))
               (\<lambda>_. Inr (pc\<lparr>pc_state := pOpen\<rparr>,
                         [CtlOnPeerConnect (pc_remote_id pc), CtlOnPeerWritable (pc_local_id pc)]))
          else Inr (pc, [])
      | _ \<Rightarrow> Inr (pc, []))"

definition PC_OnPeerDisconnected :: "peer_control \<Rightarrow> 'j pc_out list" where
  "PC_OnPeerDisconnected pc =
     (if pc_state pc = pClosed then []
      else if pc_state pc = pClosing then []
      else [CtlClosePeer (pc_remote_id pc) CLOSE_GOING_AWAY FORCE_QUEUING_ON])"

definition PC_OnPeerMessage :: "bytes \<Rightarrow> peer_control \<Rightarrow> 'j pc_out list" where
  "PC_OnPeerMessage buffer pc = [CtlOnPeerMessage (pc_remote_id pc) buffer]"

definition PC_OnBufferedAmountChange :: "rtc_env \<Rightarrow> peer_control \<Rightarrow> 'j pc_out list res" where
  "PC_OnBufferedAmountChange env pc =
     and_then (deref ''local_data_channel_'' (pc_local_channel pc))
     (\<lambda>d. if \<not> DC_IsWritable env d then Inr []
          else Inr [CtlOnPeerWritable (pc_remote_id pc)])"

definition PC_OnDataChannel :: "rtc_env \<Rightarrow> nat \<Rightarrow> peer_control \<Rightarrow> peer_control \<times> 'j pc_out list" where
  "PC_OnDataChannel env channel pc =
     (let (d, out) = DC_ctor env channel
      in (pc\<lparr>pc_remote_channel := PC_Attach (Some d)\<rparr>,
          (case pc_remote_channel pc of None \<Rightarrow> out | Some old \<Rightarrow> out @ DC_dtor old)))"

definition PC_OnIceConnectionChange :: "ice_state \<Rightarrow> peer_control \<Rightarrow> 'j pc_out list" where
  "PC_OnIceConnectionChange new_state pc =
     (case new_state of
        kIceConnectionClosed \<Rightarrow> PC_OnPeerDisconnected pc
      | kIceConnectionDisconnected \<Rightarrow> PC_OnPeerDisconnected pc
      | _ \<Rightarrow> [])"

definition PC_OnIceCandidate ::
    "'j json_lib \<Rightarrow> string \<Rightarrow> int \<Rightarrow> string option \<Rightarrow> peer_control \<Rightarrow> 'j pc_out list" where
  \<comment> \<open>\<open>text\<close>: the result of \<open>candidate->ToString\<close>\<close>
  "PC_OnIceCandidate J sdp_mid sdp_mline_index text pc =
     (case text of
        None \<Rightarrow> []
      | Some sdp \<Rightarrow>
          let d = jl_set J (jl_null J) ''sdp_mid'' (jl_string J sdp_mid);
              d = jl_set J d ''sdp_mline_index'' (jl_int J sdp_mline_index);
              d = jl_set J d ''candidate'' (jl_string J sdp)
          in [CtlSendCommand (pc_remote_id pc) ''ice_candidate'' d])"

definition PC_OnSuccess ::
    "'j json_lib \<Rightarrow> string \<Rightarrow> string option \<Rightarrow> peer_control \<Rightarrow> 'j pc_out list" where
  \<comment> \<open>\<open>type\<close>: \<open>desc->type()\<close>; \<open>text\<close>: the result of \<open>desc->ToString\<close>\<close>
  "PC_OnSuccess J type text pc =
     (case text of
        None \<Rightarrow> []
      | Some sdp \<Rightarrow>
          if pc_state pc \<noteq> pConnecting then []
          else
            PC_SetLocalDescription type sdp pc @
            (let d = jl_set J (jl_null J) ''sdp'' (jl_string J sdp)
             in if type = ''offer'' then [CtlSendCommand (pc_remote_id pc) ''offersdp'' d]
                else if type = ''answer'' then [CtlSendCommand (pc_remote_id pc) ''answersdp'' d]
                else []))"

subsection \<open>Callbacks of a data channel, through the observer's sigslots\<close>

datatype side = Local | Remote

definition pc_channel :: "side \<Rightarrow> peer_control \<Rightarrow> dc_observer option" where
  "pc_channel sd pc = (case sd of Local \<Rightarrow> pc_local_channel pc | Remote \<Rightarrow> pc_remote_channel pc)"

definition set_pc_channel :: "side \<Rightarrow> dc_observer \<Rightarrow> peer_control \<Rightarrow> peer_control" where
  "set_pc_channel sd d pc =
     (case sd of Local \<Rightarrow> pc\<lparr>pc_local_channel := Some d\<rparr> | Remote \<Rightarrow> pc\<lparr>pc_remote_channel := Some d\<rparr>)"

definition DC_OnStateChange ::
    "rtc_env \<Rightarrow> side \<Rightarrow> peer_control \<Rightarrow> (peer_control \<times> 'j pc_out list) res" where
  "DC_OnStateChange env sd pc =
     (case pc_channel sd pc of
        None \<Rightarrow> Inr (pc, [])
      | Some d \<Rightarrow>
          let d = d\<lparr>dc_state := env_dc_state env (dc_channel d)\<rparr>;
              pc = set_pc_channel sd d pc
          in if dc_state d = kOpen \<and> dc_attached d then PC_OnPeerOpened env pc
             else if dc_state d = kClosed \<and> dc_attached d then Inr (pc, PC_OnPeerDisconnected pc)
             else Inr (pc, []))"

definition DC_OnMessage :: "bytes \<Rightarrow> side \<Rightarrow> peer_control \<Rightarrow> 'j pc_out list" where
  "DC_OnMessage buffer sd pc =
     (case pc_channel sd pc of
        Some d \<Rightarrow> if dc_attached d then PC_OnPeerMessage buffer pc else []
      | None \<Rightarrow> [])"

definition DC_OnBufferedAmountChange :: "rtc_env \<Rightarrow> side \<Rightarrow> peer_control \<Rightarrow> 'j pc_out list res" where
  "DC_OnBufferedAmountChange env sd pc =
     (case pc_channel sd pc of
        None \<Rightarrow> Inr []
      | Some d \<Rightarrow>
          and_then (if dc_attached d then PC_OnBufferedAmountChange env pc else Inr [])
          (\<lambda>out. Inr (out @ (if env_dc_buffered env (dc_channel d) = 0
                             then [DcNotifySenders (dc_channel d)] else []))))"

lemmas pc_release_ops = PC_DeletePeerConnection_def PC_Attach_def PC_Detach_def DC_dtor_def DC_ctor_def

lemmas pc_call_ops =
  PC_Send_def PC_SyncSend_def PC_IsWritable_def PC_Close_def PC_SetLocalDescription_def
  PC_SetRemoteDescription_def PC_CreateOffer_def PC_CreateAnswer_def PC_ReceiveOfferSdp_def
  PC_ReceiveAnswerSdp_def PC_AddIceCandidate_def

lemmas pc_callback_ops =
  PC_OnPeerOpened_def PC_OnPeerDisconnected_def PC_OnPeerMessage_def PC_OnBufferedAmountChange_def
  PC_OnDataChannel_def PC_OnIceConnectionChange_def PC_OnIceCandidate_def PC_OnSuccess_def
  DC_OnStateChange_def DC_OnMessage_def DC_OnBufferedAmountChange_def

subsection \<open>The life of a peer connection\<close>

text \<open>
  A connection that was initialised and has started the offer/answer exchange, and was not
  closed yet: the objects its operations go through exist. This is what the owner's table
  guarantees of its entries.
\<close>

definition pc_live :: "peer_control \<Rightarrow> bool" where
  "pc_live pc \<longleftrightarrow> pc_connection pc \<noteq> None \<and> pc_local_channel pc \<noteq> None \<and>
     (pc_state pc = pConnecting \<or> pc_state pc = pOpen)"

text \<open>What an object has between a successful \<open>Initialize\<close> and the offer or answer.\<close>

definition pc_ready :: "peer_control \<Rightarrow> bool" where
  "pc_ready pc \<longleftrightarrow> pc_connection pc \<noteq> None \<and> pc_local_channel pc \<noteq> None \<and> pc_state pc = pClosed"

lemma Initialize_returns:
  "\<exists>x. PC_Initialize env this (PeerControl_ctor l r (Some ())) = Inr x"
  by (auto simp: PC_Initialize_def PC_CreatePeerConnection_def PeerControl_ctor_def
      PC_CreateDataChannel_def split: option.splits prod.splits)

lemma Initialize_result:
  assumes "PC_Initialize env this (PeerControl_ctor l r (Some ())) = Inr (pc, out, ok)"
  shows "pc_local_id pc = l" and "pc_remote_id pc = r"
    and "ok \<Longrightarrow> pc_ready pc" and "ok \<Longrightarrow> \<exists>d. pc_local_channel pc = Some d \<and> dc_attached d"
    and "\<not> ok \<Longrightarrow> pc_connection pc = None \<and> pc_factory pc = None \<and>
       pc_local_channel pc = None \<and> pc_remote_channel pc = None"
  using assms
  by (auto simp: PC_Initialize_def PC_CreatePeerConnection_def PeerControl_ctor_def
      PC_CreateDataChannel_def pc_release_ops pc_ready_def Let_def
      split: option.splits prod.splits if_splits)

text \<open>
  \<open>Initialize\<close> on a fresh object never goes through a null pointer when the factory exists.
  If it returns true the object is ready (a connection and an attached local channel exist);
  if it returns false everything that was created has been released again. The identities are
  unchanged.
\<close>

theorem Initialize_outcome:
  "\<exists>pc' out ok.
    PC_Initialize env this (PeerControl_ctor local_id remote_id (Some ())) = Inr (pc', out :: 'j pc_out list, ok) \<and>
    pc_local_id pc' = local_id \<and> pc_remote_id pc' = remote_id \<and>
    (ok \<longrightarrow> pc_ready pc' \<and> (\<exists>d. pc_local_channel pc' = Some d \<and> dc_attached d)) \<and>
    (\<not> ok \<longrightarrow> pc_connection pc' = None \<and> pc_factory pc' = None \<and>
       pc_local_channel pc' = None \<and> pc_remote_channel pc' = None)"
proof -
  obtain pc' ok and out :: "'j pc_out list" where
    run: "PC_Initialize env this (PeerControl_ctor local_id remote_id (Some ())) = Inr (pc', out, ok)"
    using Initialize_returns [where 'a = 'j] by (metis prod_cases3)
  from Initialize_result [OF run] run show ?thesis by blast
qed

text \<open>An environment in which every creation succeeds and every channel is open, for witnesses.\<close>

definition env_ok :: rtc_env where
  "env_ok = \<lparr>env_debug = False, env_dc_state = (\<lambda>_. kOpen), env_dc_buffered = (\<lambda>_. 0),
     env_dc_send = (\<lambda>_ _. True), env_drained = (\<lambda>_. True),
     env_create_pc = (\<lambda>this. Some this), env_create_dc = (\<lambda>c _. Some c)\<rparr>"

theorem Initialize_outcome_witness:
  "\<exists>pc'. PC_Initialize env_ok 5 (PeerControl_ctor ''a'' ''b'' (Some ())) =
     Inr (pc', [DcRegisterObserver 5] :: jtree pc_out list, True) \<and> pc_ready pc'"
proof -
  have "\<exists>pc'. PC_Initialize env_ok 5 (PeerControl_ctor ''a'' ''b'' (Some ())) =
     Inr (pc', [DcRegisterObserver 5] :: jtree pc_out list, True)"
    by (simp add: PC_Initialize_def PC_CreatePeerConnection_def PeerControl_ctor_def
        PC_CreateDataChannel_def pc_release_ops env_ok_def)
  with Initialize_outcome [where env = env_ok and this = 5 and local_id = "''a''" and
      remote_id = "''b''" and 'j = jtree]
  show ?thesis by force
qed

subsection \<open>Null safety\<close>

lemma PC_CreateOffer_ready:
  "pc_ready pc \<Longrightarrow> \<exists>c. PC_CreateOffer env pc = Inr (pc\<lparr>pc_state := pConnecting\<rparr>, [PcCreateOffer c])"
  by (auto simp: pc_ready_def PC_CreateOffer_def)

lemma PC_ReceiveOfferSdp_ready:
  "pc_ready pc \<Longrightarrow> \<exists>c. PC_ReceiveOfferSdp env sdp pc =
     Inr (pc\<lparr>pc_state := pConnecting\<rparr>, [PcSetRemoteDescription c ''offer'' sdp, PcCreateAnswer c])"
  by (auto simp: pc_ready_def PC_ReceiveOfferSdp_def PC_CreateAnswer_def PC_SetRemoteDescription_def)

lemma pc_ready_connecting: "pc_ready pc \<Longrightarrow> pc_live (pc\<lparr>pc_state := pConnecting\<rparr>)"
  by (simp add: pc_ready_def pc_live_def)

lemma pc_live_calls_no_null:
  assumes "pc_live pc"
  shows "no_null (PC_Send env buf pc)" and "no_null (PC_SyncSend env buf pc)"
    and "no_null (PC_IsWritable env pc)" and "no_null (PC_ReceiveAnswerSdp env sdp pc)"
    and "no_null (PC_AddIceCandidate mid idx cand pc)"
    and "no_null (PC_OnBufferedAmountChange env pc)"
  using assms
  by (auto simp: pc_live_def pc_call_ops PC_OnBufferedAmountChange_def no_null_def rtc_dcheck_def
      and_then_eq_Inl)

lemma PC_OnPeerOpened_no_null: "no_null (PC_OnPeerOpened env pc)"
  by (auto simp: PC_OnPeerOpened_def no_null_def rtc_dcheck_def split: option.splits)

lemma DC_OnStateChange_no_null: "no_null (DC_OnStateChange env sd pc)"
  by (auto simp: DC_OnStateChange_def Let_def PC_OnPeerOpened_no_null split: option.splits)

subsection \<open>The states of a peer connection\<close>

text \<open>
  The steps of one \<open>PeerControl\<close> object, whoever makes them. The environment of each step is
  arbitrary.
\<close>

inductive pc_step :: "'j json_lib \<Rightarrow> rtc_env \<Rightarrow> peer_control \<Rightarrow> 'j pc_out list \<Rightarrow> peer_control \<Rightarrow> bool"
  for J :: "'j json_lib" and env :: rtc_env where
  initialize: "PC_Initialize env this pc = Inr (pc', out, ok) \<Longrightarrow> pc_step J env pc out pc'"
| send: "PC_Send env buf pc = Inr (out, ok) \<Longrightarrow> pc_step J env pc out pc"
| sync_send: "PC_SyncSend env buf pc = Inr (out, ok) \<Longrightarrow> pc_step J env pc out pc"
| close: "PC_Close code pc = (pc', out) \<Longrightarrow> pc_step J env pc out pc'"
| create_offer: "PC_CreateOffer env pc = Inr (pc', out) \<Longrightarrow> pc_step J env pc out pc'"
| offer_sdp: "PC_ReceiveOfferSdp env sdp pc = Inr (pc', out) \<Longrightarrow> pc_step J env pc out pc'"
| answer_sdp: "PC_ReceiveAnswerSdp env sdp pc = Inr out \<Longrightarrow> pc_step J env pc out pc"
| add_ice: "PC_AddIceCandidate mid idx cand pc = Inr out \<Longrightarrow> pc_step J env pc out pc"
| data_channel: "PC_OnDataChannel env ch pc = (pc', out) \<Longrightarrow> pc_step J env pc out pc'"
| ice_change: "PC_OnIceConnectionChange st pc = out \<Longrightarrow> pc_step J env pc out pc"
| ice_candidate: "PC_OnIceCandidate J mid idx text pc = out \<Longrightarrow> pc_step J env pc out pc"
| success: "PC_OnSuccess J type text pc = out \<Longrightarrow> pc_step J env pc out pc"
| state_change: "DC_OnStateChange env sd pc = Inr (pc', out) \<Longrightarrow> pc_step J env pc out pc'"
| message: "DC_OnMessage buf sd pc = out \<Longrightarrow> pc_step J env pc out pc"
| buffered: "DC_OnBufferedAmountChange env sd pc = Inr out \<Longrightarrow> pc_step J env pc out pc"

inductive pc_reachable :: "'j json_lib \<Rightarrow> bool \<Rightarrow> string \<Rightarrow> string \<Rightarrow> peer_control \<Rightarrow> bool"
  for J :: "'j json_lib" and debug :: bool and l r :: string where
  initial: "pc_reachable J debug l r (PeerControl_ctor l r (Some ()))"
| step: "pc_reachable J debug l r pc \<Longrightarrow> env_debug env = debug \<Longrightarrow> pc_step J env pc out pc' \<Longrightarrow>
     pc_reachable J debug l r pc'"

text \<open>Which of the calls an operation makes go to its owner (\<open>control_\<close>).\<close>

fun to_owner :: "'j pc_out \<Rightarrow> bool" where
  "to_owner (CtlSendCommand i c d) = True"
| "to_owner (CtlClosePeer i c f) = True"
| "to_owner (CtlOnPeerConnect i) = True"
| "to_owner (CtlOnPeerClose i c) = True"
| "to_owner (CtlOnPeerMessage i b) = True"
| "to_owner (CtlOnPeerWritable i) = True"
| "to_owner _ = False"

lemma CreatePeerConnection_result:
  "PC_CreatePeerConnection env this pc = Inr (pc', ok) \<Longrightarrow>
     pc' = pc\<lparr>pc_connection := env_create_pc env this\<rparr> \<and> (ok \<longleftrightarrow> env_create_pc env this \<noteq> None)"
  by (auto simp: PC_CreatePeerConnection_def and_then_eq_Inr)

lemma CreateDataChannel_result:
  "PC_CreateDataChannel env label pc = Inr (pc', out, ok) \<Longrightarrow>
     (ok \<longrightarrow> (\<exists>d. pc' = pc\<lparr>pc_local_channel := Some d\<rparr>)) \<and> (\<not> ok \<longrightarrow> pc' = pc) \<and>
     filter to_owner out = []"
  by (cases "pc_connection pc"; cases "env_create_dc env (the (pc_connection pc)) label";
      cases "pc_local_channel pc") (auto simp: PC_CreateDataChannel_def pc_release_ops)

lemma DeletePeerConnection_result:
  "PC_DeletePeerConnection pc = (pc', out) \<Longrightarrow>
     pc_state pc' = pc_state pc \<and> pc_local_id pc' = pc_local_id pc \<and>
     pc_remote_id pc' = pc_remote_id pc \<and> filter to_owner out = []"
  by (auto simp: pc_release_ops Let_def split: option.splits)

lemma Initialize_frame:
  fixes out :: "'a pc_out list"
  assumes "PC_Initialize env this pc = Inr (pc', out, ok)"
  shows "pc_state pc' = pc_state pc \<and> pc_local_id pc' = pc_local_id pc \<and>
    pc_remote_id pc' = pc_remote_id pc \<and> filter to_owner out = []"
proof -
  obtain pc1 ok1 where 1: "PC_CreatePeerConnection env this pc = Inr (pc1, ok1)"
    using assms by (auto simp: PC_Initialize_def and_then_eq_Inr)
  note r1 = CreatePeerConnection_result [OF 1]
  show ?thesis
  proof (cases ok1)
    case False
    with assms 1 have "PC_DeletePeerConnection pc1 = (pc', out)"
      by (simp add: PC_Initialize_def split: prod.splits)
    with r1 show ?thesis by (auto dest: DeletePeerConnection_result)
  next
    case True
    with assms 1 obtain pc2 ok2 and out2 :: "'a pc_out list" where
      2: "PC_CreateDataChannel env (''peer_data_'' @ pc_remote_id pc1) pc1 = Inr (pc2, out2, ok2)"
      by (auto simp: PC_Initialize_def and_then_eq_Inr)
    note r2 = CreateDataChannel_result [OF 2]
    obtain pc3 and out3 :: "'a pc_out list" where 3: "PC_DeletePeerConnection pc2 = (pc3, out3)"
      by (cases "PC_DeletePeerConnection pc2 :: _ \<times> 'a pc_out list")
    from assms 1 2 3 True have "(ok2 \<and> pc' = pc2 \<and> out = out2) \<or> (\<not> ok2 \<and> pc' = pc3 \<and> out = out2 @ out3)"
      by (simp add: PC_Initialize_def split: if_splits)
    with r1 r2 DeletePeerConnection_result [OF 3] show ?thesis by auto
  qed
qed

lemma set_pc_channel_frame [simp]:
  "pc_state (set_pc_channel sd d pc) = pc_state pc"
  "pc_local_id (set_pc_channel sd d pc) = pc_local_id pc"
  "pc_remote_id (set_pc_channel sd d pc) = pc_remote_id pc"
  "pc_connection (set_pc_channel sd d pc) = pc_connection pc"
  by (cases sd; simp add: set_pc_channel_def)+

lemma PC_OnPeerOpened_result:
  assumes "PC_OnPeerOpened env pc = Inr (pc', out)"
  shows "(pc' = pc \<and> out = []) \<or>
    ((env_debug env \<longrightarrow> pc_state pc = pConnecting) \<and> pc' = pc\<lparr>pc_state := pOpen\<rparr> \<and>
     (\<exists>l r. pc_local_channel pc = Some l \<and> pc_remote_channel pc = Some r \<and>
        env_dc_state env (dc_channel l) = kOpen \<and> env_dc_state env (dc_channel r) = kOpen) \<and>
     out = [CtlOnPeerConnect (pc_remote_id pc), CtlOnPeerWritable (pc_local_id pc)])"
  using assms
  by (auto simp: PC_OnPeerOpened_def DC_state_def and_then_eq_Inr split: option.splits if_splits)

lemma DC_OnStateChange_result:
  assumes "DC_OnStateChange env sd pc = Inr (pc', out)"
  shows "\<exists>pc1. pc_state pc1 = pc_state pc \<and> pc_local_id pc1 = pc_local_id pc \<and>
    pc_remote_id pc1 = pc_remote_id pc \<and> pc_connection pc1 = pc_connection pc \<and>
    (pc_local_channel pc1 = None \<longleftrightarrow> pc_local_channel pc = None) \<and>
    (pc' = pc1 \<and> (out = [] \<or> out = PC_OnPeerDisconnected pc) \<or> PC_OnPeerOpened env pc1 = Inr (pc', out))"
proof (cases "pc_channel sd pc")
  case None
  with assms show ?thesis by (auto simp: DC_OnStateChange_def)
next
  case (Some d)
  let ?pc1 = "set_pc_channel sd (d\<lparr>dc_state := env_dc_state env (dc_channel d)\<rparr>) pc"
  have "pc_local_channel ?pc1 = None \<longleftrightarrow> pc_local_channel pc = None"
    using Some by (cases sd) (auto simp: set_pc_channel_def pc_channel_def)
  moreover have "PC_OnPeerDisconnected ?pc1 = PC_OnPeerDisconnected pc"
    by (simp add: PC_OnPeerDisconnected_def)
  ultimately show ?thesis
    using assms Some
    by (intro exI [of _ ?pc1]) (auto simp: DC_OnStateChange_def Let_def split: if_splits)
qed

lemma pc_step_ids:
  "pc_step J env pc out pc' \<Longrightarrow> pc_local_id pc' = pc_local_id pc \<and> pc_remote_id pc' = pc_remote_id pc"
proof (induction rule: pc_step.induct)
  case (state_change sd pc pc' out)
  then show ?case by (auto dest!: DC_OnStateChange_result PC_OnPeerOpened_result)
qed (auto simp: pc_call_ops PC_OnDataChannel_def DC_ctor_def Let_def and_then_eq_Inr
       dest: Initialize_frame split: if_splits)

text \<open>
  C18. The state machine of a peer connection in a debug build: the only transitions are
  closed to connecting, connecting to open, and connecting or open to closed (\<open>pClosing\<close> is
  passed through within \<open>Close\<close>). Connection events are tied to them: \<open>OnPeerConnect\<close> is raised
  exactly by the step that enters the open state, \<open>OnPeerClose\<close> exactly by the step that leaves
  to closed.
\<close>

theorem pc_transitions_debug:
  assumes "pc_step J env pc out pc'" and "env_debug env" and "pc_state pc \<noteq> pClosing"
  shows "(pc_state pc = pc_state pc' \<or>
     (pc_state pc, pc_state pc') \<in> {(pClosed, pConnecting), (pConnecting, pOpen),
        (pConnecting, pClosed), (pOpen, pClosed)}) \<and>
    ((\<exists>i. CtlOnPeerConnect i \<in> set out) \<longleftrightarrow> pc_state pc = pConnecting \<and> pc_state pc' = pOpen) \<and>
    ((\<exists>i c. CtlOnPeerClose i c \<in> set out) \<longleftrightarrow> pc_state pc \<noteq> pClosed \<and> pc_state pc' = pClosed)"
  using assms
proof (induction rule: pc_step.induct)
  case (initialize this pc pc' out ok)
  then have f: "pc_state pc' = pc_state pc" "filter to_owner out = []"
    by (auto dest: Initialize_frame)
  then have "\<forall>x \<in> set out. \<not> to_owner x" by (simp add: filter_empty_conv)
  then have "CtlOnPeerConnect i \<notin> set out" "CtlOnPeerClose i c \<notin> set out" for i c
    by (auto dest: bspec [of _ _ "CtlOnPeerConnect i"] bspec [of _ _ "CtlOnPeerClose i c"])
  with f(1) show ?case by auto
next
  case (state_change sd pc pc' out)
  then show ?case
    by (cases "pc_state pc")
       (auto dest!: DC_OnStateChange_result PC_OnPeerOpened_result simp: PC_OnPeerDisconnected_def)
next
  case (close code pc pc' out)
  then show ?case by (cases "pc_state pc") (auto simp: PC_Close_def Let_def split: if_splits)
qed (auto simp: pc_call_ops pc_callback_ops DC_ctor_def DC_dtor_def DC_Send_def DC_SyncSend_def Let_def
      and_then_eq_Inr split: if_splits option.splits ice_state.splits)

text \<open>A connection that has been initialised, offered, and given its remote channel.\<close>

definition jt_none :: "jtree json_lib" where
  "jt_none = jt_lib (\<lambda>_. None) (\<lambda>_. [])"

definition pc_sample :: peer_control where
  "pc_sample = \<lparr>pc_local_id = ''a'', pc_remote_id = ''b'', pc_connection = Some 5,
     pc_factory = Some (),
     pc_local_channel = Some \<lparr>dc_channel = 5, dc_state = kConnecting, dc_attached = True\<rparr>,
     pc_remote_channel = Some \<lparr>dc_channel = 6, dc_state = kConnecting, dc_attached = True\<rparr>,
     pc_state = pConnecting\<rparr>"

theorem pc_transitions_debug_witness:
  "\<exists>pc' out. pc_step jt_none (env_ok\<lparr>env_debug := True\<rparr>) pc_sample out pc' \<and>
     CtlOnPeerConnect ''b'' \<in> set out \<and> pc_state pc' = pOpen"
proof -
  let ?env = "env_ok\<lparr>env_debug := True\<rparr>"
  obtain pc' and out :: "jtree pc_out list" where
    run: "DC_OnStateChange ?env Local pc_sample = Inr (pc', out)" and
    conn: "CtlOnPeerConnect ''b'' \<in> set out"
    by (simp add: DC_OnStateChange_def pc_channel_def set_pc_channel_def PC_OnPeerOpened_def
        DC_state_def pc_sample_def env_ok_def Let_def)
  from run have step: "pc_step jt_none ?env pc_sample out pc'" by (rule pc_step.state_change)
  have "env_debug ?env" and "pc_state pc_sample \<noteq> pClosing"
    by (simp_all add: env_ok_def pc_sample_def)
  from pc_transitions_debug [OF step this] step conn show ?thesis by blast
qed

text \<open>
  \<open>Close\<close> on a live connection closes it and tells the owner exactly once, with the code
  given; a second \<open>Close\<close>, whatever its code, changes nothing and tells nobody. Once closed, a
  late session description sends nothing, a late disconnect asks for nothing, and (in a release
  build) sending fails without touching a channel.
\<close>

theorem Close_notifies_once:
  fixes out :: "'j pc_out list" and J :: "'j json_lib"
  assumes "pc_live pc" and "PC_Close code pc = (pc', out)"
  shows "out = [CtlOnPeerClose (pc_remote_id pc) code] \<and>
    pc' = pc\<lparr>pc_connection := None, pc_state := pClosed\<rparr> \<and>
    PC_Close code' pc' = (pc', [] :: 'j pc_out list) \<and>
    PC_OnSuccess J type text pc' = [] \<and> PC_OnIceConnectionChange st pc' = ([] :: 'j pc_out list) \<and>
    (\<not> env_debug env \<longrightarrow> PC_Send env buf pc' = Inr ([] :: 'j pc_out list, False) \<and>
       PC_SyncSend env buf pc' = Inr ([] :: 'j pc_out list, False))"
  using assms
  by (auto simp: pc_live_def PC_Close_def PC_OnSuccess_def PC_OnIceConnectionChange_def
      PC_OnPeerDisconnected_def PC_Send_def PC_SyncSend_def Let_def
      split: option.splits ice_state.splits)

theorem Close_notifies_once_witness:
  "\<exists>pc'. PC_Close CLOSE_NORMAL pc_sample = (pc', [CtlOnPeerClose ''b'' CLOSE_NORMAL :: jtree pc_out]) \<and>
     PC_Close CLOSE_ABNORMAL pc' = (pc', [] :: jtree pc_out list)"
proof -
  have live: "pc_live pc_sample" by (simp add: pc_live_def pc_sample_def)
  obtain pc' and out :: "jtree pc_out list" where run: "PC_Close CLOSE_NORMAL pc_sample = (pc', out)"
    by (cases "PC_Close CLOSE_NORMAL pc_sample :: _ \<times> jtree pc_out list")
  have "pc_remote_id pc_sample = ''b''" by (simp add: pc_sample_def)
  with Close_notifies_once [OF live run, of CLOSE_ABNORMAL jt_none "''offer''" None kIceConnectionNew
      env_ok "[]"] run
  show ?thesis by metis
qed

text \<open>
  The \<open>connect\<close> event is not guarded by the state in a release build: \<open>OnPeerOpened\<close> reads the
  live states of both channels and only asserts \<open>pConnecting\<close> in a debug build. If both channels
  are open by the time their two state callbacks are delivered, the owner is told twice that the
  peer connected.
\<close>

theorem connect_reported_twice_release:
  assumes "\<not> env_debug env"
    and "pc_local_channel pc = Some l" and "pc_remote_channel pc = Some r"
    and "dc_attached l" and "dc_attached r"
    and "env_dc_state env (dc_channel l) = kOpen" and "env_dc_state env (dc_channel r) = kOpen"
  shows "\<exists>pc1 pc2. DC_OnStateChange env Local pc =
      Inr (pc1, [CtlOnPeerConnect (pc_remote_id pc), CtlOnPeerWritable (pc_local_id pc)] :: 'j pc_out list) \<and>
    DC_OnStateChange env Remote pc1 =
      Inr (pc2, [CtlOnPeerConnect (pc_remote_id pc), CtlOnPeerWritable (pc_local_id pc)] :: 'j pc_out list)"
  using assms
  by (simp add: DC_OnStateChange_def pc_channel_def set_pc_channel_def PC_OnPeerOpened_def DC_state_def
      Let_def)

theorem connect_reported_twice_release_witness:
  "\<exists>pc1 pc2. DC_OnStateChange env_ok Local pc_sample =
      Inr (pc1, [CtlOnPeerConnect ''b'', CtlOnPeerWritable ''a''] :: jtree pc_out list) \<and>
    DC_OnStateChange env_ok Remote pc1 =
      Inr (pc2, [CtlOnPeerConnect ''b'', CtlOnPeerWritable ''a''] :: jtree pc_out list)"
  using connect_reported_twice_release [where 'j = jtree and env = env_ok and pc = pc_sample
      and l = "\<lparr>dc_channel = 5, dc_state = kConnecting, dc_attached = True\<rparr>"
      and r = "\<lparr>dc_channel = 6, dc_state = kConnecting, dc_attached = True\<rparr>"]
  by (simp add: env_ok_def pc_sample_def)

text \<open>
  Sending on an open connection hands the bytes unchanged to the local channel, once, and
  only while less than 16 MiB are buffered there; otherwise nothing is sent and the result is
  false. The synchronous variant has no such limit: it always hands the bytes over, and is true
  only if the channel accepted them and drained before the timeout.
\<close>

theorem Send_outcome:
  assumes "pc_state pc = pOpen" and "pc_local_channel pc = Some d"
  shows "PC_Send env buf pc =
      (if env_dc_buffered env (dc_channel d) < 2 ^ 24
       then Inr ([DcSend (dc_channel d) buf], env_dc_send env (dc_channel d) buf)
       else Inr ([], False)) \<and>
    PC_SyncSend env buf pc =
      Inr ([DcSend (dc_channel d) buf],
           env_dc_send env (dc_channel d) buf \<and> env_drained env (dc_channel d))"
  using assms by (simp add: PC_Send_def PC_SyncSend_def DC_Send_def DC_SyncSend_def max_buffer_size_def not_less)

theorem Send_outcome_witness:
  "PC_Send env_ok [1, 2] (pc_sample\<lparr>pc_state := pOpen\<rparr>) = Inr ([DcSend 5 [1, 2]] :: jtree pc_out list, True)"
  using Send_outcome [where 'a = jtree and 'b = jtree and pc = "pc_sample\<lparr>pc_state := pOpen\<rparr>" and env = env_ok and buf = "[1, 2]"
      and d = "\<lparr>dc_channel = 5, dc_state = kConnecting, dc_attached = True\<rparr>"]
  by (simp add: env_ok_def pc_sample_def)

end
