(* ===== verification/App_State.thy ===== *)
theory App_State
  imports Std_Map Signal_Connection Peer_Control
begin

section \<open>The objects of one \<open>Peer\<close> and its observer interface (\<open>peerapi.h\<close>, \<open>control.h\<close>)\<close>

text \<open>
  The state of an application that uses one \<open>Peer\<close>: the \<open>Peer\<close> object itself, the \<open>Control\<close>
  objects it has created (each \<open>Open\<close> creates one), the \<open>PeerControl\<close> objects those have created,
  the \<open>Signal\<close> object, and the queue of the WebRTC thread. Objects are addressed by number;
  \<open>std::shared_ptr\<close> and \<open>rtc::scoped_refptr\<close> members become optional addresses.

  A \<open>Control\<close> is kept alive by \<open>Peer::control_\<close>, by its own \<open>ref_\<close>, and by the \<open>ref_\<close> of the
  messages posted to it. \<open>release_control\<close> runs the destructor when the last of these is gone.
  \<open>cx_last_ref\<close> answers, for a \<open>PeerControl\<close> whose owner drops it, whether WebRTC holds no
  reference either.

  The user's event handlers are recorded, not run: \<open>ap_events\<close> is the sequence of calls made to
  them. Calls that a handler makes back into the library appear as later steps.
\<close>

datatype thread = WebrtcThread | NetworkThread | UserThread

datatype 'j control_msg =
    MSG_COMMAND_RECEIVED 'j
  | MSG_CLOSE u32
  | MSG_CLOSE_PEER string u32
  | MSG_ON_PEER_CLOSE string u32
  | MSG_ON_SIGLAL_CONNECTION_CLOSE u32

record 'j queued =
  q_target :: nat                  \<comment> \<open>the \<open>Control\<close> the message is posted to\<close>
  q_ref :: bool                    \<comment> \<open>whether \<open>ControlMessageData::ref_\<close> holds it\<close>
  q_msg :: "'j control_msg"

record control =
  ct_alive :: bool
  ct_peer_name :: string
  ct_user_id :: string
  ct_session_id :: string
  ct_signal :: "unit option"
  ct_audio :: "unit option"        \<comment> \<open>\<open>fake_audio_capture_module_\<close>\<close>
  ct_factory :: "unit option"      \<comment> \<open>\<open>peer_connection_factory_\<close>\<close>
  ct_thread :: "thread option"     \<comment> \<open>\<open>webrtc_thread_\<close>: no valid pointer until \<open>InitializeControl\<close> sets it\<close>
  ct_peers :: "(string, nat) std_map"
  ct_observer :: "unit option"     \<comment> \<open>\<open>peer_\<close>: the \<open>Peer\<close>, or null\<close>
  ct_ref :: bool                   \<comment> \<open>\<open>ref_\<close>: the object holds a reference to itself\<close>

text \<open>An event handler: the type it was registered with, and which callback it is.\<close>

datatype handler =
    EventHandler_2 nat             \<comment> \<open>\<open>void(string)\<close>\<close>
  | EventHandler_Close nat         \<comment> \<open>\<open>void(string, CloseCode, string)\<close>\<close>
  | EventHandler_Message nat       \<comment> \<open>\<open>void(string, char*, size_t)\<close>\<close>

datatype user_event =
    CallPeer nat string
  | CallClose nat string CloseCode string
  | CallMessage nat string bytes

record peer =
  pr_close_once :: bool
  pr_signal_uri :: string
  pr_signal_id :: string
  pr_signal_password :: string
  pr_handlers :: "(string, handler) std_map"
  pr_control :: "nat option"
  pr_peer_id :: string

record 'j app =
  ap_peer :: peer
  ap_signal :: "signal option"
  ap_ctls :: "nat \<Rightarrow> control"
  ap_next_ctl :: nat
  ap_pcs :: "nat \<Rightarrow> peer_control"
  ap_owner :: "nat \<Rightarrow> nat"           \<comment> \<open>\<open>PeerControl::control_\<close>\<close>
  ap_next_pc :: nat
  ap_slots :: "nat list"             \<comment> \<open>the \<open>Control\<close>s connected to the sigslots of \<open>Signal\<close>\<close>
  ap_queue :: "'j queued list"
  ap_busy :: "'j queued option"      \<comment> \<open>the message being handled\<close>
  ap_events :: "user_event list"
  ap_sig_calls :: "'j sig_out list"
  ap_rtc_calls :: "(nat \<times> 'j pc_out) list"

text \<open>What the environment answers during one call.\<close>

record ctx =
  cx_env :: rtc_env
  cx_thread :: thread                \<comment> \<open>\<open>rtc::Thread::Current()\<close>\<close>
  cx_garbage :: u32                  \<comment> \<open>the value of an uninitialised \<open>data_int32_\<close>\<close>
  cx_audio_ok :: bool                \<comment> \<open>\<open>FakeAudioCaptureModule::Create() != NULL\<close>\<close>
  cx_factory_ok :: bool              \<comment> \<open>\<open>CreatePeerConnectionFactory\<close> succeeds\<close>
  cx_last_ref :: "nat \<Rightarrow> bool"

subsection \<open>Access\<close>

definition upd_ctl :: "nat \<Rightarrow> (control \<Rightarrow> control) \<Rightarrow> 'j app \<Rightarrow> 'j app" where
  "upd_ctl i f a = a\<lparr>ap_ctls := (ap_ctls a)(i := f (ap_ctls a i))\<rparr>"

definition upd_pc :: "nat \<Rightarrow> peer_control \<Rightarrow> 'j app \<Rightarrow> 'j app" where
  "upd_pc p pc a = a\<lparr>ap_pcs := (ap_pcs a)(p := pc)\<rparr>"

definition upd_peer :: "(peer \<Rightarrow> peer) \<Rightarrow> 'j app \<Rightarrow> 'j app" where
  "upd_peer f a = a\<lparr>ap_peer := f (ap_peer a)\<rparr>"

definition emit_sig :: "'j sig_out list \<Rightarrow> 'j app \<Rightarrow> 'j app" where
  "emit_sig out a = a\<lparr>ap_sig_calls := ap_sig_calls a @ out\<rparr>"

definition emit_event :: "user_event \<Rightarrow> 'j app \<Rightarrow> 'j app" where
  "emit_event e a = a\<lparr>ap_events := ap_events a @ [e]\<rparr>"

definition emit_rtc :: "nat \<Rightarrow> 'j pc_out list \<Rightarrow> 'j app \<Rightarrow> 'j app" where
  "emit_rtc p out a = a\<lparr>ap_rtc_calls := ap_rtc_calls a @ map (Pair p) (filter (Not \<circ> to_owner) out)\<rparr>"

subsection \<open>Posting and lifetimes\<close>

text \<open>\<open>webrtc_thread_->Post(this, msg)\<close> with a \<open>ControlMessageData\<close> that copies \<open>ref_\<close>.\<close>

definition post :: "nat \<Rightarrow> 'j control_msg \<Rightarrow> 'j app \<Rightarrow> 'j app res" where
  "post i m a =
     and_then (deref ''webrtc_thread_'' (ct_thread (ap_ctls a i)))
       (\<lambda>_. Inr (a\<lparr>ap_queue := ap_queue a @
              [\<lparr>q_target = i, q_ref = ct_ref (ap_ctls a i), q_msg = m\<rparr>]\<rparr>))"

definition holds :: "nat \<Rightarrow> 'j queued \<Rightarrow> bool" where
  "holds i m \<longleftrightarrow> q_ref m \<and> q_target m = i"

definition referenced :: "nat \<Rightarrow> 'j app \<Rightarrow> bool" where
  "referenced i a \<longleftrightarrow>
     pr_control (ap_peer a) = Some i \<or> ct_ref (ap_ctls a i) \<or>
     (\<exists>m \<in> set (ap_queue a). holds i m) \<or>
     (case ap_busy a of Some m \<Rightarrow> holds i m | None \<Rightarrow> False)"

text \<open>The owner of a \<open>PeerControl\<close> drops its reference.\<close>

definition release_pc :: "ctx \<Rightarrow> nat \<Rightarrow> 'j app \<Rightarrow> 'j app res" where
  "release_pc cx p a =
     (if cx_last_ref cx p
      then and_then (PeerControl_dtor (cx_env cx) (ap_pcs a p))
             (\<lambda>(pc, out). Inr (emit_rtc p out (upd_pc p pc a)))
      else Inr a)"

definition Control_DeleteControl :: "nat \<Rightarrow> 'j app \<Rightarrow> 'j app" where
  "Control_DeleteControl i a = upd_ctl i (\<lambda>c. c\<lparr>ct_factory := None, ct_audio := None\<rparr>) a"

text \<open>
  \<open>~Control\<close>: the peers are dropped, the factory released, the sigslots disconnected; the base
  class destructor \<open>~MessageHandler\<close> removes the messages still queued for the object.
\<close>

definition Control_dtor :: "ctx \<Rightarrow> nat \<Rightarrow> 'j app \<Rightarrow> 'j app res" where
  "Control_dtor cx i a =
     (let ps = map snd (ct_peers (ap_ctls a i));
          a = upd_ctl i (\<lambda>c. c\<lparr>ct_peers := []\<rparr>) a
      in and_then (fold_res (release_pc cx) ps a)
           (\<lambda>a. let a = Control_DeleteControl i a;
                    a = a\<lparr>ap_slots := removeAll i (ap_slots a)\<rparr>;
                    a = a\<lparr>ap_queue := filter (\<lambda>m. q_target m \<noteq> i) (ap_queue a)\<rparr>
                in Inr (upd_ctl i (\<lambda>c. c\<lparr>ct_alive := False\<rparr>) a)))"

definition release_control :: "ctx \<Rightarrow> nat \<Rightarrow> 'j app \<Rightarrow> 'j app res" where
  "release_control cx i a =
     (if ct_alive (ap_ctls a i) \<and> \<not> referenced i a then Control_dtor cx i a else Inr a)"

subsection \<open>Observer registration\<close>

definition Control_RegisterObserver :: "nat \<Rightarrow> 'j app \<Rightarrow> 'j app" where
  "Control_RegisterObserver i a = upd_ctl i (\<lambda>c. c\<lparr>ct_ref := True, ct_observer := Some ()\<rparr>) a"

definition Control_UnregisterObserver :: "nat \<Rightarrow> 'j app \<Rightarrow> 'j app" where
  "Control_UnregisterObserver i a = upd_ctl i (\<lambda>c. c\<lparr>ct_observer := None, ct_ref := False\<rparr>) a"

subsection \<open>\<open>Peer\<close> as the observer of its \<open>Control\<close>\<close>

text \<open>
  \<open>CallEventHandler\<close> downcasts the registered handler to the type of the event; a handler of
  another type is the fault \<open>BadCast\<close>, a missing one a null pointer.
\<close>

definition call_peer_handler :: "string \<Rightarrow> string \<Rightarrow> 'j app \<Rightarrow> 'j app res" where
  "call_peer_handler event peer_id a =
     (case map_find (pr_handlers (ap_peer a)) event of
        None \<Rightarrow> Inl (NullPointer ''event_handler_'')
      | Some (EventHandler_2 h) \<Rightarrow> Inr (emit_event (CallPeer h peer_id) a)
      | Some _ \<Rightarrow> Inl (BadCast event))"

definition call_close_handler :: "string \<Rightarrow> CloseCode \<Rightarrow> string \<Rightarrow> 'j app \<Rightarrow> 'j app res" where
  "call_close_handler peer_id code desc a =
     (case map_find (pr_handlers (ap_peer a)) ''close'' of
        None \<Rightarrow> Inl (NullPointer ''event_handler_'')
      | Some (EventHandler_Close h) \<Rightarrow> Inr (emit_event (CallClose h peer_id code desc) a)
      | Some _ \<Rightarrow> Inl (BadCast ''close''))"

definition call_message_handler :: "string \<Rightarrow> bytes \<Rightarrow> 'j app \<Rightarrow> 'j app res" where
  "call_message_handler peer_id data a =
     (case map_find (pr_handlers (ap_peer a)) ''message'' of
        None \<Rightarrow> Inl (NullPointer ''event_handler_'')
      | Some (EventHandler_Message h) \<Rightarrow> Inr (emit_event (CallMessage h peer_id data) a)
      | Some _ \<Rightarrow> Inl (BadCast ''message''))"

definition has_handler :: "string \<Rightarrow> 'j app \<Rightarrow> bool" where
  "has_handler event a \<longleftrightarrow> map_find (pr_handlers (ap_peer a)) event \<noteq> None"

definition Peer_OnOpen :: "string \<Rightarrow> 'j app \<Rightarrow> 'j app res" where
  "Peer_OnOpen peer_id a =
     (let a = upd_peer (\<lambda>p. p\<lparr>pr_close_once := False\<rparr>) a
      in if has_handler ''open'' a then call_peer_handler ''open'' peer_id a else Inr a)"

definition Peer_OnClose :: "ctx \<Rightarrow> string \<Rightarrow> CloseCode \<Rightarrow> string \<Rightarrow> 'j app \<Rightarrow> 'j app res" where
  "Peer_OnClose cx peer_id code desc a =
     (if peer_id = pr_peer_id (ap_peer a) then
        if pr_close_once (ap_peer a) then Inr a
        else
          let a = upd_peer (\<lambda>p. p\<lparr>pr_close_once := True\<rparr>) a
          in and_then (if has_handler ''close'' a then call_close_handler peer_id code desc a else Inr a)
             (\<lambda>a. and_then (deref ''control_'' (pr_control (ap_peer a)))
             (\<lambda>i. let a = Control_UnregisterObserver i a;
                      a = upd_peer (\<lambda>p. p\<lparr>pr_control := None\<rparr>) a
                  in release_control cx i a))
      else
        if has_handler ''close'' a then call_close_handler peer_id code desc a else Inr a)"

definition Peer_OnConnect :: "string \<Rightarrow> 'j app \<Rightarrow> 'j app res" where
  "Peer_OnConnect peer_id a =
     (if has_handler ''connect'' a then call_peer_handler ''connect'' peer_id a else Inr a)"

definition Peer_OnMessage :: "string \<Rightarrow> bytes \<Rightarrow> 'j app \<Rightarrow> 'j app res" where
  "Peer_OnMessage peer_id data a =
     (if has_handler ''message'' a then call_message_handler peer_id data a else Inr a)"

definition Peer_OnWritable :: "string \<Rightarrow> 'j app \<Rightarrow> 'j app res" where
  "Peer_OnWritable peer_id a =
     (if has_handler ''writable'' a then call_peer_handler ''writable'' peer_id a else Inr a)"

lemmas upd_defs = upd_ctl_def upd_pc_def upd_peer_def emit_sig_def emit_event_def emit_rtc_def

end
