(* ===== verification/Control_Core.thy ===== *)
theory Control_Core
  imports App_State
begin

section \<open>The control: peers, commands, the message queue (\<open>control.h\<close>, \<open>control.cc\<close>)\<close>

text \<open>
  Class \<open>Control\<close>. Every operation takes the address \<open>this\<close> of the object; the ones that build or
  read JSON take the library \<open>J\<close>, the ones that look at the current thread or at WebRTC take the
  answers \<open>cx\<close>. The direct path of \<open>ClosePeer\<close> runs the notification that \<open>PeerControl::Close\<close>
  makes; \<open>run_owner_calls\<close> runs the calls that the callbacks of a \<open>PeerControl\<close> make on its owner.
\<close>

subsection \<open>Construction, initialisation\<close>

definition fresh_control :: "unit option \<Rightarrow> control" where
  "fresh_control signal = \<lparr>
     ct_alive = True, ct_peer_name = [], ct_user_id = [], ct_session_id = [],
     ct_signal = signal, ct_audio = None, ct_factory = None, ct_thread = None,
     ct_peers = [], ct_observer = None, ct_ref = False\<rparr>"

definition Control_ctor :: "unit option \<Rightarrow> 'j app \<Rightarrow> ('j app \<times> nat) res" where
  "Control_ctor signal a =
     and_then (deref ''signal_'' signal)
     (\<lambda>_. let i = ap_next_ctl a;
              a = a\<lparr>ap_ctls := (ap_ctls a)(i := fresh_control signal), ap_next_ctl := Suc i\<rparr>;
              a = a\<lparr>ap_slots := ap_slots a @ [i]\<rparr>
          in Inr (a, i))"

definition Control_CreatePeerFactory :: "ctx \<Rightarrow> nat \<Rightarrow> 'j app \<Rightarrow> 'j app \<times> bool" where
  "Control_CreatePeerFactory cx this a =
     (let a = upd_ctl this (\<lambda>c. c\<lparr>ct_audio := (if cx_audio_ok cx then Some () else None)\<rparr>) a
      in if ct_audio (ap_ctls a this) = None then (a, False)
         else
           let a = upd_ctl this (\<lambda>c. c\<lparr>ct_factory := (if cx_factory_ok cx then Some () else None)\<rparr>) a
           in if ct_factory (ap_ctls a this) = None then (a, False) else (a, True))"

definition Control_InitializeControl :: "ctx \<Rightarrow> nat \<Rightarrow> 'j app \<Rightarrow> ('j app \<times> bool) res" where
  "Control_InitializeControl cx this a =
     and_then (rtc_dcheck (env_debug (cx_env cx)) ''peer_connection_factory_ == NULL''
         (ct_factory (ap_ctls a this) = None))
     (\<lambda>_. let (a, ok) = Control_CreatePeerFactory cx this a
          in if \<not> ok then Inr (Control_DeleteControl this a, False)
             else
               let a = upd_ctl this (\<lambda>c. c\<lparr>ct_thread := Some (cx_thread cx)\<rparr>) a
               in and_then (rtc_dcheck (env_debug (cx_env cx)) ''webrtc_thread_ != nullptr''
                      (ct_thread (ap_ctls a this) \<noteq> None))
                    (\<lambda>_. Inr (a, True)))"

subsection \<open>Commands to the signal server\<close>

definition Control_SendCommand ::
    "'j json_lib \<Rightarrow> nat \<Rightarrow> string \<Rightarrow> string \<Rightarrow> 'j \<Rightarrow> 'j app \<Rightarrow> 'j app res" where
  "Control_SendCommand J this peer_id command data a =
     and_then (deref ''signal_'' (ct_signal (ap_ctls a this)))
     (\<lambda>_. and_then (deref ''signal_'' (ap_signal a))
     (\<lambda>s. Inr (emit_sig (Signal_SendCommand J peer_id command data s) a)))"

definition name_data :: "'j json_lib \<Rightarrow> string \<Rightarrow> 'j" where
  "name_data J name = jl_set J (jl_null J) ''name'' (jl_string J name)"

definition Control_CreateChannel :: "'j json_lib \<Rightarrow> nat \<Rightarrow> string \<Rightarrow> 'j app \<Rightarrow> 'j app res" where
  "Control_CreateChannel J this name a = Control_SendCommand J this name ''createchannel'' (name_data J name) a"

definition Control_JoinChannel :: "'j json_lib \<Rightarrow> nat \<Rightarrow> string \<Rightarrow> 'j app \<Rightarrow> 'j app res" where
  "Control_JoinChannel J this name a = Control_SendCommand J this name ''joinchannel'' (name_data J name) a"

definition Control_LeaveChannel :: "'j json_lib \<Rightarrow> nat \<Rightarrow> string \<Rightarrow> 'j app \<Rightarrow> 'j app res" where
  "Control_LeaveChannel J this name a = Control_SendCommand J this name ''leavechannel'' (name_data J name) a"

definition Control_Open ::
    "nat \<Rightarrow> string \<Rightarrow> string \<Rightarrow> string \<Rightarrow> 'j app \<Rightarrow> 'j app" where
  "Control_Open this user_id user_password peer_id a =
     (case (ct_signal (ap_ctls a this), ap_signal a) of
        (Some _, Some s) \<Rightarrow>
          let a = upd_ctl this (\<lambda>c. c\<lparr>ct_peer_name := peer_id, ct_user_id := user_id\<rparr>) a;
              (s, out) = Signal_Open user_id user_password s
          in emit_sig out (a\<lparr>ap_signal := Some s\<rparr>)
      | _ \<Rightarrow> a)"

definition Control_Connect :: "'j json_lib \<Rightarrow> nat \<Rightarrow> string \<Rightarrow> 'j app \<Rightarrow> 'j app res" where
  "Control_Connect J this peer_id a =
     (if ct_signal (ap_ctls a this) = None then Inr a else Control_JoinChannel J this peer_id a)"

subsection \<open>Notifications to the observer\<close>

definition Control_OnPeerConnect :: "nat \<Rightarrow> string \<Rightarrow> 'j app \<Rightarrow> 'j app res" where
  "Control_OnPeerConnect this peer_id a =
     (if ct_observer (ap_ctls a this) = None then Inr a else Peer_OnConnect peer_id a)"

definition Control_OnPeerClose :: "ctx \<Rightarrow> nat \<Rightarrow> string \<Rightarrow> CloseCode \<Rightarrow> 'j app \<Rightarrow> 'j app res" where
  \<comment> \<open>the queued message carries no code: \<open>data_int32_\<close> stays uninitialised\<close>
  "Control_OnPeerClose cx this peer_id code a =
     (if ct_thread (ap_ctls a this) \<noteq> Some (cx_thread cx)
      then post this (MSG_ON_PEER_CLOSE peer_id (cx_garbage cx)) a
      else if ct_observer (ap_ctls a this) = None then Inr a
      else Peer_OnClose cx peer_id code [] a)"

definition Control_OnPeerMessage :: "nat \<Rightarrow> string \<Rightarrow> bytes \<Rightarrow> 'j app \<Rightarrow> 'j app res" where
  "Control_OnPeerMessage this peer_id data a =
     (if ct_observer (ap_ctls a this) = None then Inr a else Peer_OnMessage peer_id data a)"

definition Control_OnPeerWritable :: "nat \<Rightarrow> string \<Rightarrow> 'j app \<Rightarrow> 'j app res" where
  "Control_OnPeerWritable this peer_id a =
     (if ct_observer (ap_ctls a this) = None then Inr a else Peer_OnWritable peer_id a)"

subsection \<open>Closing\<close>

definition run_close_notice :: "ctx \<Rightarrow> nat \<Rightarrow> 'j pc_out \<Rightarrow> 'j app \<Rightarrow> 'j app res" where
  \<comment> \<open>\<open>PeerControl::Close\<close> makes no other call\<close>
  "run_close_notice cx this x a =
     (case x of CtlOnPeerClose peer_id code \<Rightarrow> Control_OnPeerClose cx this peer_id code a | _ \<Rightarrow> Inr a)"

definition Control_ClosePeer ::
    "'j json_lib \<Rightarrow> ctx \<Rightarrow> nat \<Rightarrow> string \<Rightarrow> CloseCode \<Rightarrow> bool \<Rightarrow> 'j app \<Rightarrow> 'j app res" where
  "Control_ClosePeer J cx this peer_id code force_queuing a =
     (if force_queuing \<or> ct_thread (ap_ctls a this) \<noteq> Some (cx_thread cx)
      then post this (MSG_CLOSE_PEER peer_id code) a
      else
        case map_find (ct_peers (ap_ctls a this)) peer_id of
          None \<Rightarrow> Inr a
        | Some item \<Rightarrow>
            let a = upd_ctl this (\<lambda>c. c\<lparr>ct_peers := map_erase peer_id (ct_peers c)\<rparr>) a;
                (pc, out) = PC_Close code (ap_pcs a item);
                a = upd_pc item pc a
            in and_then (fold_res (run_close_notice cx this) out a)
               (\<lambda>a. and_then (Control_LeaveChannel J this peer_id a)
               (\<lambda>a. release_pc cx item a)))"

definition Control_Close ::
    "'j json_lib \<Rightarrow> ctx \<Rightarrow> nat \<Rightarrow> CloseCode \<Rightarrow> bool \<Rightarrow> 'j app \<Rightarrow> 'j app res" where
  "Control_Close J cx this code force_queuing a =
     (if force_queuing \<or> ct_thread (ap_ctls a this) \<noteq> Some (cx_thread cx)
      then post this (MSG_CLOSE code) a
      else
        let peer_ids = map (\<lambda>(k, p). pc_remote_id (ap_pcs a p)) (ct_peers (ap_ctls a this))
        in and_then (fold_res (\<lambda>i a. Control_ClosePeer J cx this i code False a) peer_ids a)
           (\<lambda>a. if ct_observer (ap_ctls a this) \<noteq> None
                then Peer_OnClose cx (ct_peer_name (ap_ctls a this)) code [] a
                else Inr a))"

subsection \<open>Sending data\<close>

definition Control_Send :: "ctx \<Rightarrow> nat \<Rightarrow> string \<Rightarrow> bytes \<Rightarrow> 'j app \<Rightarrow> 'j app res" where
  "Control_Send cx this to data a =
     (case map_find (ct_peers (ap_ctls a this)) to of
        None \<Rightarrow> Inr a
      | Some p \<Rightarrow> and_then (PC_Send (cx_env cx) data (ap_pcs a p)) (\<lambda>(out, _). Inr (emit_rtc p out a)))"

definition Control_SyncSend :: "ctx \<Rightarrow> nat \<Rightarrow> string \<Rightarrow> bytes \<Rightarrow> 'j app \<Rightarrow> ('j app \<times> bool) res" where
  "Control_SyncSend cx this to data a =
     (case map_find (ct_peers (ap_ctls a this)) to of
        None \<Rightarrow> Inr (a, False)
      | Some p \<Rightarrow> and_then (PC_SyncSend (cx_env cx) data (ap_pcs a p)) (\<lambda>(out, ok). Inr (emit_rtc p out a, ok)))"

subsection \<open>The calls a \<open>PeerControl\<close> makes on its owner\<close>

definition run_owner_call :: "'j json_lib \<Rightarrow> ctx \<Rightarrow> nat \<Rightarrow> 'j pc_out \<Rightarrow> 'j app \<Rightarrow> 'j app res" where
  "run_owner_call J cx this x a =
     (case x of
        CtlSendCommand peer_id command data \<Rightarrow> Control_SendCommand J this peer_id command data a
      | CtlClosePeer peer_id code force \<Rightarrow> Control_ClosePeer J cx this peer_id code force a
      | CtlOnPeerConnect peer_id \<Rightarrow> Control_OnPeerConnect this peer_id a
      | CtlOnPeerClose peer_id code \<Rightarrow> Control_OnPeerClose cx this peer_id code a
      | CtlOnPeerMessage peer_id data \<Rightarrow> Control_OnPeerMessage this peer_id data a
      | CtlOnPeerWritable peer_id \<Rightarrow> Control_OnPeerWritable this peer_id a
      | _ \<Rightarrow> Inr a)"

definition run_pc :: "'j json_lib \<Rightarrow> ctx \<Rightarrow> nat \<Rightarrow> nat \<Rightarrow> peer_control \<times> 'j pc_out list \<Rightarrow> 'j app \<Rightarrow> 'j app res" where
  \<comment> \<open>store the new state of object \<open>p\<close>, record its calls on WebRTC, run its calls on \<open>this\<close>\<close>
  "run_pc J cx this p r a =
     fold_res (run_owner_call J cx this) (snd r) (emit_rtc p (snd r) (upd_pc p (fst r) a))"

subsection \<open>Commands from the signal server\<close>

definition new_pc :: "nat \<Rightarrow> string \<Rightarrow> 'j app \<Rightarrow> 'j app \<times> nat" where
  "new_pc this remote_id a =
     (let p = ap_next_pc a; c = ap_ctls a this
      in (a\<lparr>ap_pcs := (ap_pcs a)(p := PeerControl_ctor (ct_peer_name c) remote_id (ct_factory c)),
            ap_owner := (ap_owner a)(p := this), ap_next_pc := Suc p\<rparr>, p))"

definition insert_peer :: "nat \<Rightarrow> string \<Rightarrow> nat \<Rightarrow> 'j app \<Rightarrow> 'j app" where
  "insert_peer this remote_id p a =
     upd_ctl this (\<lambda>c. c\<lparr>ct_peers := map_insert remote_id p (ct_peers c)\<rparr>) a"

text \<open>The end of the scope of the local \<open>Peer peer\<close>: the last reference unless the table took one.\<close>

definition end_scope :: "ctx \<Rightarrow> nat \<Rightarrow> string \<Rightarrow> nat \<Rightarrow> 'j app \<Rightarrow> 'j app res" where
  "end_scope cx this remote_id p a =
     (if map_find (ct_peers (ap_ctls a this)) remote_id = Some p then Inr a else release_pc cx p a)"

text \<open>
  What \<open>CreateOffer\<close> and \<open>ReceiveOfferSdp\<close> do with one remote peer: create the object, initialise
  it, enter it into the table, start the exchange. The result says whether the caller goes on.
\<close>

definition start_peer ::
    "'j json_lib \<Rightarrow> ctx \<Rightarrow> nat \<Rightarrow> string \<Rightarrow>
     (peer_control \<Rightarrow> (peer_control \<times> 'j pc_out list) res) \<Rightarrow> 'j app \<Rightarrow> ('j app \<times> bool) res" where
  "start_peer J cx this remote_id exchange a =
     (let (a, p) = new_pc this remote_id a
      in and_then (PC_Initialize (cx_env cx) p (ap_pcs a p))
         (\<lambda>(pc, out, ok).
            let a = emit_rtc p out (upd_pc p pc a)
            in if \<not> ok
               then and_then (Control_OnPeerClose cx this remote_id CLOSE_ABNORMAL a)
                    (\<lambda>a. and_then (release_pc cx p a) (\<lambda>a. Inr (a, False)))
               else
                 let a = insert_peer this remote_id p a
                 in and_then (exchange (ap_pcs a p))
                    (\<lambda>r. and_then (run_pc J cx this p r a)
                    (\<lambda>a. and_then (end_scope cx this remote_id p a)
                    (\<lambda>a. Inr (a, True))))))"

fun create_offers ::
    "'j json_lib \<Rightarrow> ctx \<Rightarrow> nat \<Rightarrow> 'j \<Rightarrow> nat list \<Rightarrow> 'j app \<Rightarrow> 'j app res" where
  "create_offers J cx this peers [] a = Inr a"
| "create_offers J cx this peers (i # is) a =
     (case jl_elem_string J peers i of
        None \<Rightarrow> Inr a
      | Some remote_id \<Rightarrow>
          and_then (start_peer J cx this remote_id (PC_CreateOffer (cx_env cx)) a)
          (\<lambda>(a, go_on). if go_on then create_offers J cx this peers is a else Inr a))"

definition Control_CreateOffer :: "'j json_lib \<Rightarrow> ctx \<Rightarrow> nat \<Rightarrow> 'j \<Rightarrow> 'j app \<Rightarrow> 'j app res" where
  "Control_CreateOffer J cx this data a =
     (case jl_get_value J data ''peers'' of
        None \<Rightarrow> Inr a
      | Some peers \<Rightarrow> create_offers J cx this peers [0..<jl_size J peers] a)"

definition Control_ReceiveOfferSdp :: "'j json_lib \<Rightarrow> ctx \<Rightarrow> nat \<Rightarrow> string \<Rightarrow> 'j \<Rightarrow> 'j app \<Rightarrow> 'j app res" where
  "Control_ReceiveOfferSdp J cx this peer_id data a =
     (case jl_get_string J data ''sdp'' of
        None \<Rightarrow> Inr a
      | Some sdp \<Rightarrow>
          and_then (start_peer J cx this peer_id (PC_ReceiveOfferSdp (cx_env cx) sdp) a)
            (\<lambda>(a, _). Inr a))"

definition Control_ReceiveAnswerSdp :: "'j json_lib \<Rightarrow> ctx \<Rightarrow> nat \<Rightarrow> string \<Rightarrow> 'j \<Rightarrow> 'j app \<Rightarrow> 'j app res" where
  "Control_ReceiveAnswerSdp J cx this peer_id data a =
     (case jl_get_string J data ''sdp'' of
        None \<Rightarrow> Inr a
      | Some sdp \<Rightarrow>
          case map_find (ct_peers (ap_ctls a this)) peer_id of
            None \<Rightarrow> Inr a
          | Some p \<Rightarrow>
              and_then (PC_ReceiveAnswerSdp (cx_env cx) sdp (ap_pcs a p)) (\<lambda>out. Inr (emit_rtc p out a)))"

definition Control_AddIceCandidate :: "'j json_lib \<Rightarrow> nat \<Rightarrow> string \<Rightarrow> 'j \<Rightarrow> 'j app \<Rightarrow> 'j app res" where
  "Control_AddIceCandidate J this peer_id data a =
     (case jl_get_string J data ''sdp_mid'' of
        None \<Rightarrow> Inr a
      | Some sdp_mid \<Rightarrow>
        case jl_get_int J data ''sdp_mline_index'' of
          None \<Rightarrow> Inr a
        | Some sdp_mline_index \<Rightarrow>
          case jl_get_string J data ''candidate'' of
            None \<Rightarrow> Inr a
          | Some candidate \<Rightarrow>
            case map_find (ct_peers (ap_ctls a this)) peer_id of
              None \<Rightarrow> Inr a
            | Some p \<Rightarrow>
                and_then (PC_AddIceCandidate sdp_mid sdp_mline_index candidate (ap_pcs a p))
                  (\<lambda>out. Inr (emit_rtc p out a)))"

definition Control_OnOpen :: "'j json_lib \<Rightarrow> nat \<Rightarrow> 'j \<Rightarrow> 'j app \<Rightarrow> 'j app res" where
  "Control_OnOpen J this data a =
     (case jl_get_bool J data ''result'' of
        None \<Rightarrow> Inr a
      | Some result \<Rightarrow>
          if \<not> result then Inr a
          else
            case jl_get_string J data ''session_id'' of
              None \<Rightarrow> Inr a
            | Some session_id \<Rightarrow>
                let a = upd_ctl this (\<lambda>c. c\<lparr>ct_session_id := session_id\<rparr>) a
                in Control_CreateChannel J this (ct_peer_name (ap_ctls a this)) a)"

text \<open>\<open>peer_->OnClose(\<dots>)\<close> and \<open>peer_->OnOpen(\<dots>)\<close> without the null check of the other paths.\<close>

definition peer_OnClose :: "ctx \<Rightarrow> nat \<Rightarrow> string \<Rightarrow> CloseCode \<Rightarrow> string \<Rightarrow> 'j app \<Rightarrow> 'j app res" where
  "peer_OnClose cx this peer_id code desc a =
     and_then (deref ''peer_'' (ct_observer (ap_ctls a this))) (\<lambda>_. Peer_OnClose cx peer_id code desc a)"

definition peer_OnOpen :: "nat \<Rightarrow> string \<Rightarrow> 'j app \<Rightarrow> 'j app res" where
  "peer_OnOpen this peer_id a =
     and_then (deref ''peer_'' (ct_observer (ap_ctls a this))) (\<lambda>_. Peer_OnOpen peer_id a)"

definition Control_OnChannelCreate :: "'j json_lib \<Rightarrow> ctx \<Rightarrow> nat \<Rightarrow> 'j \<Rightarrow> 'j app \<Rightarrow> 'j app res" where
  "Control_OnChannelCreate J cx this data a =
     (case jl_get_bool J data ''result'' of
        None \<Rightarrow> peer_OnClose cx this (ct_peer_name (ap_ctls a this)) CLOSE_SIGNAL_ERROR [] a
      | Some result \<Rightarrow>
        case jl_get_string J data ''name'' of
          None \<Rightarrow> peer_OnClose cx this (ct_peer_name (ap_ctls a this)) CLOSE_SIGNAL_ERROR [] a
        | Some peer_id \<Rightarrow>
            if \<not> result
            then peer_OnClose cx this peer_id CLOSE_SIGNAL_ERROR
                   (case jl_get_string J data ''desc'' of None \<Rightarrow> ''Unknown reason'' | Some d \<Rightarrow> d) a
            else peer_OnOpen this peer_id a)"

definition Control_OnChannelJoin :: "'j json_lib \<Rightarrow> ctx \<Rightarrow> nat \<Rightarrow> 'j \<Rightarrow> 'j app \<Rightarrow> 'j app res" where
  "Control_OnChannelJoin J cx this data a =
     (case jl_get_bool J data ''result'' of
        None \<Rightarrow> peer_OnClose cx this [] CLOSE_SIGNAL_ERROR [] a
      | Some result \<Rightarrow>
        case jl_get_string J data ''name'' of
          None \<Rightarrow> peer_OnClose cx this [] CLOSE_SIGNAL_ERROR [] a
        | Some peer_id \<Rightarrow>
            if \<not> result
            then peer_OnClose cx this peer_id CLOSE_SIGNAL_ERROR
                   (case jl_get_string J data ''desc'' of None \<Rightarrow> ''Unknown reason'' | Some d \<Rightarrow> d) a
            else Inr a)"

definition Control_OnChannelLeave :: "'j \<Rightarrow> 'j app \<Rightarrow> 'j app res" where
  "Control_OnChannelLeave data a = Inr a"

definition Control_OnRemotePeerClose :: "'j json_lib \<Rightarrow> ctx \<Rightarrow> nat \<Rightarrow> string \<Rightarrow> 'j \<Rightarrow> 'j app \<Rightarrow> 'j app res" where
  "Control_OnRemotePeerClose J cx this peer_id data a =
     Control_ClosePeer J cx this peer_id CLOSE_NORMAL False a"

definition Control_OnCommandReceived :: "'j json_lib \<Rightarrow> ctx \<Rightarrow> nat \<Rightarrow> 'j \<Rightarrow> 'j app \<Rightarrow> 'j app res" where
  "Control_OnCommandReceived J cx this message a =
     (case (jl_get_string J message ''command'', jl_get_value J message ''data'') of
        (Some command, Some data) \<Rightarrow>
          let peer_id = (case jl_get_string J message ''peer_id'' of None \<Rightarrow> [] | Some i \<Rightarrow> i)
          in if command = ''open'' then Control_OnOpen J this data a
             else if command = ''channelcreate'' then Control_OnChannelCreate J cx this data a
             else if command = ''channeljoin'' then Control_OnChannelJoin J cx this data a
             else if command = ''channelleave'' then Control_OnChannelLeave data a
             else if command = ''peerclosed'' then Control_OnRemotePeerClose J cx this peer_id data a
             else if command = ''createoffer'' then Control_CreateOffer J cx this data a
             else if command = ''offersdp'' then Control_ReceiveOfferSdp J cx this peer_id data a
             else if command = ''answersdp'' then Control_ReceiveAnswerSdp J cx this peer_id data a
             else if command = ''ice_candidate'' then Control_AddIceCandidate J this peer_id data a
             else Inr a
      | _ \<Rightarrow> Inr a)"

subsection \<open>Events of the signal connection, and the message queue\<close>

definition Control_OnSignalCommandReceived :: "nat \<Rightarrow> 'j \<Rightarrow> 'j app \<Rightarrow> 'j app res" where
  "Control_OnSignalCommandReceived this message a = post this (MSG_COMMAND_RECEIVED message) a"

definition Control_OnSignalConnectionClosed :: "nat \<Rightarrow> u16 \<Rightarrow> 'j app \<Rightarrow> 'j app res" where
  "Control_OnSignalConnectionClosed this code a =
     (if code \<noteq> close_normal
      then post this (MSG_ON_SIGLAL_CONNECTION_CLOSE CLOSE_SIGNAL_ERROR) a
      else Inr a)"

definition handle_message :: "'j json_lib \<Rightarrow> ctx \<Rightarrow> nat \<Rightarrow> 'j control_msg \<Rightarrow> 'j app \<Rightarrow> 'j app res" where
  "handle_message J cx this m a =
     (case m of
        MSG_COMMAND_RECEIVED j \<Rightarrow> Control_OnCommandReceived J cx this j a
      | MSG_CLOSE code \<Rightarrow> Control_Close J cx this code False a
      | MSG_CLOSE_PEER peer_id code \<Rightarrow> Control_ClosePeer J cx this peer_id code False a
      | MSG_ON_PEER_CLOSE peer_id code \<Rightarrow> Control_OnPeerClose cx this peer_id code a
      | MSG_ON_SIGLAL_CONNECTION_CLOSE code \<Rightarrow> Control_Close J cx this code False a)"

text \<open>
  \<open>OnMessage\<close>: the handler runs while the message data is held, and deleting it may drop the last
  reference to the object.
\<close>

definition Control_OnMessage :: "'j json_lib \<Rightarrow> ctx \<Rightarrow> 'j queued \<Rightarrow> 'j app \<Rightarrow> 'j app res" where
  "Control_OnMessage J cx m a =
     and_then (handle_message J cx (q_target m) (q_msg m) (a\<lparr>ap_busy := Some m\<rparr>))
       (\<lambda>a. release_control cx (q_target m) (a\<lparr>ap_busy := None\<rparr>))"

end
