(* ===== verification/Peer_Api.thy ===== *)
theory Peer_Api
  imports Control_Core
begin

section \<open>The public interface (\<open>peerapi.h\<close>, \<open>peerapi.cc\<close>)\<close>

text \<open>
  Class \<open>Peer\<close>: construction, \<open>Open\<close>, \<open>Close\<close>, \<open>Connect\<close>, \<open>Send\<close>, options and event registration.
  \<open>Run\<close> and \<open>Stop\<close> only start and stop the message loop of WebRTC's thread; the loop's effect, to
  deliver queued messages, is a step of the system (theory \<open>Peer_System\<close>).
\<close>

definition Peer_ctor :: "string \<Rightarrow> string \<Rightarrow> peer" where
  \<comment> \<open>\<open>uuid\<close>: the result of \<open>rtc::CreateRandomUuid()\<close>\<close>
  "Peer_ctor uuid peer_id = \<lparr>
     pr_close_once = False, pr_signal_uri = [], pr_signal_id = [], pr_signal_password = [],
     pr_handlers = [], pr_control = None,
     pr_peer_id = (if peer_id = [] then uuid else peer_id)\<rparr>"

definition app_init :: "peer \<Rightarrow> 'j app" where
  "app_init p = \<lparr>
     ap_peer = p, ap_signal = None,
     ap_ctls = (\<lambda>_. (fresh_control None)\<lparr>ct_alive := False\<rparr>), ap_next_ctl = 0,
     ap_pcs = (\<lambda>_. PeerControl_ctor [] [] None), ap_owner = (\<lambda>_. 0), ap_next_pc = 0,
     ap_slots = [], ap_queue = [], ap_busy = None, ap_events = [], ap_sig_calls = [], ap_rtc_calls = []\<rparr>"

definition Peer_Open :: "ctx \<Rightarrow> 'j app \<Rightarrow> 'j app res" where
  "Peer_Open cx a =
     (if pr_control (ap_peer a) \<noteq> None then Inr a
      else
        let a = (case ap_signal a of
                   None \<Rightarrow> a\<lparr>ap_signal := Some (Signal_ctor (pr_signal_uri (ap_peer a)))\<rparr>
                 | Some _ \<Rightarrow> a)
        in and_then (Control_ctor (Some ()) a)
           (\<lambda>(a, i).
              let a = upd_peer (\<lambda>p. p\<lparr>pr_control := Some i\<rparr>) a;
                  a = Control_RegisterObserver i a
              in and_then (Control_InitializeControl cx i a)
                 (\<lambda>(a, ok).
                    if \<not> ok
                    then release_control cx i (upd_peer (\<lambda>p. p\<lparr>pr_control := None\<rparr>) a)
                    else Inr (Control_Open i (pr_signal_id (ap_peer a)) (pr_signal_password (ap_peer a))
                                (pr_peer_id (ap_peer a)) a))))"

definition Peer_Close :: "'j json_lib \<Rightarrow> ctx \<Rightarrow> string \<Rightarrow> 'j app \<Rightarrow> 'j app res" where
  "Peer_Close J cx peer_id a =
     (if peer_id = [] \<or> peer_id = pr_peer_id (ap_peer a)
      then
        and_then (deref ''control_'' (pr_control (ap_peer a)))
        (\<lambda>i. and_then (Control_Close J cx i CLOSE_NORMAL FORCE_QUEUING_ON a)
        (\<lambda>a. and_then (deref ''signal_'' (ap_signal a))
        (\<lambda>s. let (s, out) = Signal_SyncClose s in Inr (emit_sig out (a\<lparr>ap_signal := Some s\<rparr>)))))
      else
        and_then (deref ''control_'' (pr_control (ap_peer a)))
        (\<lambda>i. Control_ClosePeer J cx i peer_id CLOSE_NORMAL FORCE_QUEUING_ON a))"

definition Peer_Connect :: "'j json_lib \<Rightarrow> string \<Rightarrow> 'j app \<Rightarrow> 'j app res" where
  "Peer_Connect J peer_id a =
     and_then (deref ''control_'' (pr_control (ap_peer a))) (\<lambda>i. Control_Connect J i peer_id a)"

definition Peer_Send :: "ctx \<Rightarrow> string \<Rightarrow> bytes \<Rightarrow> bool \<Rightarrow> 'j app \<Rightarrow> ('j app \<times> bool) res" where
  "Peer_Send cx peer_id data wait a =
     and_then (deref ''control_'' (pr_control (ap_peer a)))
     (\<lambda>i. if wait then Control_SyncSend cx i peer_id data a
          else and_then (Control_Send cx i peer_id data a) (\<lambda>a. Inr (a, True)))"

definition bytes_of :: "string \<Rightarrow> bytes" where
  "bytes_of s = map (\<lambda>c. of_nat (of_char c)) s"

definition Peer_Send_string :: "ctx \<Rightarrow> string \<Rightarrow> string \<Rightarrow> bool \<Rightarrow> 'j app \<Rightarrow> ('j app \<times> bool) res" where
  "Peer_Send_string cx peer_id message wait a = Peer_Send cx peer_id (bytes_of message) wait a"

definition Peer_ParseOptions :: "'j json_lib \<Rightarrow> string \<Rightarrow> peer \<Rightarrow> peer \<times> bool" where
  "Peer_ParseOptions J options p =
     (case jl_parse J options of
        None \<Rightarrow> (p, False)
      | Some joptions \<Rightarrow>
          let p = (case jl_get_string J joptions ''url'' of
                     None \<Rightarrow> p | Some v \<Rightarrow> p\<lparr>pr_signal_uri := v\<rparr>);
              p = (case jl_get_string J joptions ''user_id'' of
                     None \<Rightarrow> p | Some v \<Rightarrow> p\<lparr>pr_signal_id := v\<rparr>);
              p = (case jl_get_string J joptions ''user_password'' of
                     None \<Rightarrow> p | Some v \<Rightarrow> p\<lparr>pr_signal_password := v\<rparr>)
          in (p, True))"

definition Peer_SetOptions :: "'j json_lib \<Rightarrow> string \<Rightarrow> peer \<Rightarrow> peer \<times> bool" where
  "Peer_SetOptions J options p =
     (if options \<noteq> [] then Peer_ParseOptions J options p else (p, True))"

subsection \<open>Event registration: the four overloads of \<open>On\<close>\<close>

definition Peer_On_peer :: "string \<Rightarrow> nat \<Rightarrow> peer \<Rightarrow> peer" where
  "Peer_On_peer event_id handler p =
     (if event_id = [] then p
      else if event_id = ''open'' \<or> event_id = ''connect'' \<or> event_id = ''writable''
      then p\<lparr>pr_handlers := map_insert event_id (EventHandler_2 handler) (pr_handlers p)\<rparr>
      else p)"

definition Peer_On_data :: "string \<Rightarrow> nat \<Rightarrow> peer \<Rightarrow> peer" where
  \<comment> \<open>the overload for \<open>void(string, string)\<close> registers nothing\<close>
  "Peer_On_data event_id handler p = p"

definition Peer_On_close :: "string \<Rightarrow> nat \<Rightarrow> peer \<Rightarrow> peer" where
  "Peer_On_close event_id handler p =
     (if event_id = [] then p
      else if event_id = ''close''
      then p\<lparr>pr_handlers := map_insert event_id (EventHandler_Close handler) (pr_handlers p)\<rparr>
      else p)"

definition Peer_On_message :: "string \<Rightarrow> nat \<Rightarrow> peer \<Rightarrow> peer" where
  "Peer_On_message event_id handler p =
     (if event_id = [] then p
      else if event_id = ''message''
      then p\<lparr>pr_handlers := map_insert event_id (EventHandler_Message handler) (pr_handlers p)\<rparr>
      else p)"

lemmas peer_on_defs = Peer_On_peer_def Peer_On_data_def Peer_On_close_def Peer_On_message_def

end
