(* ===== verification/App_Invariant.thy ===== *)
theory App_Invariant
  imports Peer_Api
begin

section \<open>The invariant of an application, and what the operations keep of it\<close>

text \<open>
  Three groups of facts hold between any two calls into the library:

  \<^item> the peer tables (\<open>table_inv\<close>): each entry of \<open>Control::peers_\<close> is filed under its remote id,
    belongs to that \<open>Control\<close>, and is live: connection and local channel exist, the state is
    connecting or open;
  \<^item> ownership (\<open>own_inv\<close>): who references and observes whom, and what a queued message may assume
    of its target when it is delivered;
  \<^item> the event handlers (\<open>handlers_ok\<close>): each has the type of its event.

  \<open>app_inv\<close> is their conjunction. An operation on the \<open>Control\<close> \<open>this\<close> keeps \<open>active this\<close>, which
  adds that the object is alive and initialised, and that if it can still call the observer then
  the message being handled holds a reference to it.
\<close>

definition handler_fits :: "string \<Rightarrow> handler \<Rightarrow> bool" where
  "handler_fits event h =
     (case h of
        EventHandler_2 _ \<Rightarrow> event = ''open'' \<or> event = ''connect'' \<or> event = ''writable''
      | EventHandler_Close _ \<Rightarrow> event = ''close''
      | EventHandler_Message _ \<Rightarrow> event = ''message'')"

definition handlers_ok :: "peer \<Rightarrow> bool" where
  "handlers_ok p \<longleftrightarrow> map_wf (pr_handlers p) \<and>
     (\<forall>event h. map_find (pr_handlers p) event = Some h \<longrightarrow> handler_fits event h)"

definition entry_ok :: "'j app \<Rightarrow> nat \<Rightarrow> string \<Rightarrow> nat \<Rightarrow> bool" where
  "entry_ok a i k p \<longleftrightarrow> p < ap_next_pc a \<and> ap_owner a p = i \<and>
     pc_remote_id (ap_pcs a p) = k \<and> pc_live (ap_pcs a p)"

definition table_inv :: "'j app \<Rightarrow> bool" where
  "table_inv a \<longleftrightarrow>
     (\<forall>i. map_wf (ct_peers (ap_ctls a i))) \<and>
     (\<forall>i k p. map_find (ct_peers (ap_ctls a i)) k = Some p \<longrightarrow> entry_ok a i k p)"

definition in_table :: "'j app \<Rightarrow> nat \<Rightarrow> bool" where
  "in_table a p \<longleftrightarrow> (\<exists>i k. map_find (ct_peers (ap_ctls a i)) k = Some p)"

definition registered :: "control \<Rightarrow> bool" where
  "registered c \<longleftrightarrow> ct_observer c \<noteq> None"

definition initialised :: "control \<Rightarrow> bool" where
  "initialised c \<longleftrightarrow> ct_thread c \<noteq> None"

lemma registered_simps [simp]:
  "registered (c\<lparr>ct_observer := None\<rparr>) = False" "registered (c\<lparr>ct_observer := Some u\<rparr>) = True"
  "registered (c\<lparr>ct_ref := b\<rparr>) = registered c" "registered (c\<lparr>ct_peers := t\<rparr>) = registered c"
  "registered (c\<lparr>ct_factory := f\<rparr>) = registered c" "registered (c\<lparr>ct_audio := f\<rparr>) = registered c"
  "registered (c\<lparr>ct_thread := h\<rparr>) = registered c" "registered (c\<lparr>ct_alive := b\<rparr>) = registered c"
  "registered (c\<lparr>ct_session_id := n\<rparr>) = registered c" "registered (c\<lparr>ct_peer_name := n\<rparr>) = registered c"
  "registered (c\<lparr>ct_user_id := n\<rparr>) = registered c"
  by (simp_all add: registered_def)

lemma initialised_simps [simp]:
  "initialised (c\<lparr>ct_thread := None\<rparr>) = False" "initialised (c\<lparr>ct_thread := Some h\<rparr>) = True"
  "initialised (c\<lparr>ct_ref := b\<rparr>) = initialised c" "initialised (c\<lparr>ct_peers := t\<rparr>) = initialised c"
  "initialised (c\<lparr>ct_factory := f\<rparr>) = initialised c" "initialised (c\<lparr>ct_audio := f\<rparr>) = initialised c"
  "initialised (c\<lparr>ct_observer := ob\<rparr>) = initialised c" "initialised (c\<lparr>ct_alive := b\<rparr>) = initialised c"
  "initialised (c\<lparr>ct_session_id := n\<rparr>) = initialised c" "initialised (c\<lparr>ct_peer_name := n\<rparr>) = initialised c"
  "initialised (c\<lparr>ct_user_id := n\<rparr>) = initialised c"
  by (simp_all add: initialised_def)

definition msg_ok :: "'j app \<Rightarrow> 'j queued \<Rightarrow> bool" where
  "msg_ok a m \<longleftrightarrow> ct_alive (ap_ctls a (q_target m)) \<and> initialised (ap_ctls a (q_target m)) \<and>
     (q_ref m \<or> \<not> registered (ap_ctls a (q_target m)))"

definition ctl_ok :: "'j app \<Rightarrow> nat \<Rightarrow> bool" where
  "ctl_ok a i \<longleftrightarrow>
     (let c = ap_ctls a i in
      (registered c \<longrightarrow> ct_ref c) \<and>
      (ct_alive c \<longrightarrow> i < ap_next_ctl a \<and> ct_signal c = Some () \<and> (\<exists>s. ap_signal a = Some s)) \<and>
      (ct_alive c \<and> initialised c \<longrightarrow> ct_factory c = Some () \<and> ct_peer_name c = pr_peer_id (ap_peer a)) \<and>
      (pr_control (ap_peer a) = Some i \<longleftrightarrow> ct_alive c \<and> initialised c \<and> registered c) \<and>
      (i \<in> set (ap_slots a) \<longrightarrow> ct_alive c) \<and>
      (ct_peers c \<noteq> [] \<longrightarrow> ct_alive c \<and> initialised c))"

definition own_inv :: "'j app \<Rightarrow> bool" where
  "own_inv a \<longleftrightarrow> (\<forall>i. ctl_ok a i) \<and> (\<forall>m \<in> set (ap_queue a). msg_ok a m) \<and>
     (\<forall>m. ap_busy a = Some m \<longrightarrow> msg_ok a m)"

definition app_inv :: "'j app \<Rightarrow> bool" where
  "app_inv a \<longleftrightarrow> table_inv a \<and> own_inv a \<and> handlers_ok (ap_peer a)"

definition active :: "nat \<Rightarrow> 'j app \<Rightarrow> bool" where
  "active this a \<longleftrightarrow> app_inv a \<and> ct_alive (ap_ctls a this) \<and> initialised (ap_ctls a this) \<and>
     (registered (ap_ctls a this) \<longrightarrow> (\<exists>m. ap_busy a = Some m \<and> holds this m))"

text \<open>The same without the last part, for calls that never tell the observer about a close.\<close>

definition attached :: "nat \<Rightarrow> 'j app \<Rightarrow> bool" where
  "attached this a \<longleftrightarrow> app_inv a \<and> ct_alive (ap_ctls a this) \<and> initialised (ap_ctls a this)"

lemma active_attached: "active this a \<Longrightarrow> attached this a"
  by (simp add: active_def attached_def)

subsection \<open>Traces do not matter\<close>

lemma trace_frame [simp]:
  "app_inv (emit_sig s a) = app_inv a"
  "app_inv (emit_event e a) = app_inv a"
  "app_inv (emit_rtc p out a) = app_inv a"
  "active this (emit_sig s a) = active this a"
  "active this (emit_event e a) = active this a"
  "active this (emit_rtc p out a) = active this a"
  "attached this (emit_sig s a) = attached this a"
  "attached this (emit_event e a) = attached this a"
  "attached this (emit_rtc p out a) = attached this a"
  by (simp_all add: app_inv_def table_inv_def entry_ok_def own_inv_def ctl_ok_def msg_ok_def active_def
      attached_def emit_sig_def emit_event_def emit_rtc_def)

lemma queue_frame [simp]:
  "table_inv (a\<lparr>ap_queue := q\<rparr>) = table_inv a"
  "ctl_ok (a\<lparr>ap_queue := q\<rparr>) i = ctl_ok a i"
  "msg_ok (a\<lparr>ap_queue := q\<rparr>) m = msg_ok a m"
  "table_inv (a\<lparr>ap_busy := b\<rparr>) = table_inv a"
  "ctl_ok (a\<lparr>ap_busy := b\<rparr>) i = ctl_ok a i"
  "msg_ok (a\<lparr>ap_busy := b\<rparr>) m = msg_ok a m"
  by (simp_all add: table_inv_def entry_ok_def ctl_ok_def msg_ok_def)

lemma emit_fields [simp]:
  "ap_ctls (emit_sig s a) = ap_ctls a" "ap_pcs (emit_sig s a) = ap_pcs a"
  "ap_ctls (emit_rtc p out a) = ap_ctls a" "ap_pcs (emit_rtc p out a) = ap_pcs a"
  "ap_ctls (emit_event e a) = ap_ctls a" "ap_pcs (emit_event e a) = ap_pcs a"
  "ap_peer (emit_sig s a) = ap_peer a" "ap_peer (emit_rtc p out a) = ap_peer a"
  "ap_peer (emit_event e a) = ap_peer a"
  "ap_signal (emit_sig s a) = ap_signal a" "ap_signal (emit_rtc p out a) = ap_signal a"
  "ap_signal (emit_event e a) = ap_signal a"
  "in_table (emit_sig s a) p = in_table a p" "in_table (emit_event e a) p = in_table a p"
  "in_table (emit_rtc q out a) p = in_table a p"
  by (simp_all add: emit_sig_def emit_event_def emit_rtc_def in_table_def)

subsection \<open>Single writes\<close>

lemma table_inv_upd_pc:
  assumes "table_inv a" and "pc_remote_id pc = pc_remote_id (ap_pcs a p)"
    and "in_table a p \<Longrightarrow> pc_live pc"
  shows "table_inv (upd_pc p pc a)"
  using assms by (auto simp: table_inv_def in_table_def upd_pc_def entry_ok_def)

lemma own_inv_upd_pc [simp]: "own_inv (upd_pc p pc a) = own_inv a"
  by (simp add: own_inv_def ctl_ok_def msg_ok_def upd_pc_def)

lemma upd_pc_fields [simp]:
  "ap_ctls (upd_pc p pc a) = ap_ctls a" "ap_peer (upd_pc p pc a) = ap_peer a"
  "ap_busy (upd_pc p pc a) = ap_busy a" "in_table (upd_pc p pc a) q = in_table a q"
  "ap_pcs (upd_pc p pc a) p = pc" "ap_signal (upd_pc p pc a) = ap_signal a"
  by (simp_all add: upd_pc_def in_table_def)

lemma app_inv_upd_pc:
  assumes "app_inv a" and "pc_remote_id pc = pc_remote_id (ap_pcs a p)"
    and "in_table a p \<Longrightarrow> pc_live pc"
  shows "app_inv (upd_pc p pc a)"
  using assms by (simp add: app_inv_def table_inv_upd_pc)

lemma active_upd_pc:
  assumes "active this a" and "pc_remote_id pc = pc_remote_id (ap_pcs a p)"
    and "in_table a p \<Longrightarrow> pc_live pc"
  shows "active this (upd_pc p pc a)"
  using assms by (simp add: active_def app_inv_upd_pc)

lemma in_table_live: "table_inv a \<Longrightarrow> in_table a p \<Longrightarrow> pc_live (ap_pcs a p)"
  by (auto simp: table_inv_def in_table_def entry_ok_def)

lemma table_lookup:
  "app_inv a \<Longrightarrow> map_find (ct_peers (ap_ctls a i)) k = Some p \<Longrightarrow> entry_ok a i k p"
  by (simp add: app_inv_def table_inv_def)

text \<open>An entry determines its owner and its key, so no object is filed twice.\<close>

lemma table_inv_unique:
  assumes "table_inv a" "map_find (ct_peers (ap_ctls a i)) k = Some p"
    "map_find (ct_peers (ap_ctls a j)) l = Some p"
  shows "i = j \<and> k = l"
  using assms unfolding table_inv_def entry_ok_def by metis

lemma app_inv_ctl: "app_inv a \<Longrightarrow> ctl_ok a i"
  by (simp add: app_inv_def own_inv_def)

lemma ctl_ok_peers:
  assumes "ctl_ok a j"
    and "ap_signal b = ap_signal a" "ap_peer b = ap_peer a" "ap_next_ctl b = ap_next_ctl a"
      "ap_slots b = ap_slots a"
    and "ap_ctls b j = (ap_ctls a j)\<lparr>ct_peers := t\<rparr>"
    and "t \<noteq> [] \<Longrightarrow> ct_alive (ap_ctls a j) \<and> initialised (ap_ctls a j)"
  shows "ctl_ok b j"
  using assms(1,7) unfolding ctl_ok_def assms(2-6) Let_def by simp

text \<open>What a call to the observer leaves alone.\<close>

definition same_tables :: "'j app \<Rightarrow> 'j app \<Rightarrow> bool" where
  "same_tables a a' \<longleftrightarrow> (\<forall>i. ct_peers (ap_ctls a' i) = ct_peers (ap_ctls a i))"

definition same_peers :: "'j app \<Rightarrow> 'j app \<Rightarrow> bool" where
  "same_peers a a' \<longleftrightarrow> same_tables a a' \<and> ap_pcs a' = ap_pcs a \<and> ap_next_pc a' = ap_next_pc a \<and>
     ap_owner a' = ap_owner a"

text \<open>What releasing a \<open>PeerControl\<close> leaves alone.\<close>

definition same_control :: "'j app \<Rightarrow> 'j app \<Rightarrow> bool" where
  "same_control a a' \<longleftrightarrow> ap_ctls a' = ap_ctls a \<and> ap_peer a' = ap_peer a \<and> ap_queue a' = ap_queue a \<and>
     ap_busy a' = ap_busy a \<and> ap_slots a' = ap_slots a \<and> ap_signal a' = ap_signal a"

lemma same_control_refl [simp]: "same_control a a"
  by (simp add: same_control_def)

lemma same_control_trans: "same_control a b \<Longrightarrow> same_control b c \<Longrightarrow> same_control a c"
  by (simp add: same_control_def)

lemma same_control_keeps:
  "same_control a a' \<Longrightarrow> referenced i a' = referenced i a" "same_control a a' \<Longrightarrow> in_table a' p = in_table a p"
  by (simp_all add: same_control_def referenced_def in_table_def)

lemma same_peers_refl [simp]: "same_peers a a" "same_tables a a"
  by (simp_all add: same_peers_def same_tables_def)

lemma same_peers_trans: "same_peers a b \<Longrightarrow> same_peers b c \<Longrightarrow> same_peers a c"
  by (simp add: same_peers_def same_tables_def)

lemma same_peers_emit [simp]:
  "same_peers a (emit_sig s b) = same_peers a b" "same_peers a (emit_event e b) = same_peers a b"
  "same_peers a (emit_rtc p out b) = same_peers a b"
  by (simp_all add: same_peers_def same_tables_def emit_sig_def emit_event_def emit_rtc_def)

lemma same_tables_in: "same_tables a a' \<Longrightarrow> in_table a' p = in_table a p"
  by (simp add: same_tables_def in_table_def)

lemma same_peers_in: "same_peers a a' \<Longrightarrow> in_table a' p = in_table a p"
  by (simp add: same_peers_def same_tables_in)

lemma same_peers_table: "same_peers a a' \<Longrightarrow> table_inv a' = table_inv a"
  by (simp add: same_peers_def same_tables_def table_inv_def entry_ok_def)

lemma post_keeps:
  assumes "attached i a"
  shows "\<exists>m'. post i m a = Inr (a\<lparr>ap_queue := ap_queue a @ [m']\<rparr>) \<and> msg_ok a m'"
proof -
  from assms obtain t where "ct_thread (ap_ctls a i) = Some t"
    by (auto simp: attached_def initialised_def)
  moreover have "registered (ap_ctls a i) \<longrightarrow> ct_ref (ap_ctls a i)"
    using assms app_inv_ctl [of a i] by (simp add: attached_def ctl_ok_def Let_def)
  ultimately show ?thesis
    using assms
    by (intro exI [of _ "\<lparr>q_target = i, q_ref = ct_ref (ap_ctls a i), q_msg = m\<rparr>"])
       (auto simp: post_def msg_ok_def attached_def)
qed

lemma app_inv_queue:
  "app_inv a \<Longrightarrow> msg_ok a m \<Longrightarrow> app_inv (a\<lparr>ap_queue := ap_queue a @ [m]\<rparr>)"
  by (simp add: app_inv_def own_inv_def)

lemma post_safe:
  shows "attached i a \<Longrightarrow> safe d (attached i) (post i m a)"
    and "active i a \<Longrightarrow> safe d (\<lambda>a'. active i a' \<and> same_peers a a') (post i m a)"
  using post_keeps [of i a m] active_attached [of i a]
  by (auto simp: attached_def active_def app_inv_queue same_peers_def same_tables_def)

lemma release_pc_safe:
  fixes a :: "'j app"
  assumes "\<not> in_table a p"
  shows "active this a \<Longrightarrow> safe (env_debug (cx_env cx)) (active this) (release_pc cx p a)"
    and "app_inv a \<Longrightarrow>
      safe (env_debug (cx_env cx)) (\<lambda>a'. app_inv a' \<and> same_control a a') (release_pc cx p a)"
proof -
  obtain pc and out :: "'j pc_out list" where del: "PC_DeletePeerConnection (ap_pcs a p) = (pc, out)"
    by (cases "PC_DeletePeerConnection (ap_pcs a p) :: _ \<times> 'j pc_out list")
  then have k: "pc_remote_id pc = pc_remote_id (ap_pcs a p)" by (simp add: DeletePeerConnection_result)
  have run: "release_pc cx p a = (if cx_last_ref cx p
      then and_then (rtc_dcheck (env_debug (cx_env cx)) ''state_ == pClosed'' (pc_state (ap_pcs a p) = pClosed))
             (\<lambda>_. Inr (emit_rtc p out (upd_pc p pc a)))
      else Inr a)"
    by (simp add: release_pc_def PeerControl_dtor_def and_then_assoc del)
  have tables: "same_control a (emit_rtc p out (upd_pc p pc a))"
    by (simp add: same_control_def upd_pc_def emit_rtc_def)
  show "safe (env_debug (cx_env cx)) (active this) (release_pc cx p a)" if "active this a"
    using active_upd_pc [OF that k] assms that unfolding run by (simp add: rtc_dcheck_def)
  show "safe (env_debug (cx_env cx)) (\<lambda>a'. app_inv a' \<and> same_control a a') (release_pc cx p a)"
    if "app_inv a"
    using app_inv_upd_pc [OF that k] assms that tables unfolding run by (simp add: rtc_dcheck_def)
qed

subsection \<open>Calls to the user's handlers\<close>

lemma call_peer_handler_ok:
  assumes "handlers_ok (ap_peer a)" and "event \<in> {''open'', ''connect'', ''writable''}"
    and "has_handler event a"
  shows "\<exists>h. call_peer_handler event i a = Inr (emit_event (CallPeer h i) a)"
proof -
  obtain h where h: "map_find (pr_handlers (ap_peer a)) event = Some h"
    using assms(3) by (auto simp: has_handler_def)
  then have "handler_fits event h" using assms(1) by (simp add: handlers_ok_def)
  with h assms(2) show ?thesis
    by (auto simp: call_peer_handler_def handler_fits_def split: handler.splits)
qed

lemma call_close_handler_ok:
  assumes "handlers_ok (ap_peer a)" and "has_handler ''close'' a"
  shows "\<exists>h. call_close_handler i c d a = Inr (emit_event (CallClose h i c d) a)"
proof -
  obtain h where h: "map_find (pr_handlers (ap_peer a)) ''close'' = Some h"
    using assms(2) by (auto simp: has_handler_def)
  then have "handler_fits ''close'' h" using assms(1) by (simp add: handlers_ok_def)
  with h show ?thesis
    by (auto simp: call_close_handler_def handler_fits_def split: handler.splits)
qed

lemma call_message_handler_ok:
  assumes "handlers_ok (ap_peer a)" and "has_handler ''message'' a"
  shows "\<exists>h. call_message_handler i b a = Inr (emit_event (CallMessage h i b) a)"
proof -
  obtain h where h: "map_find (pr_handlers (ap_peer a)) ''message'' = Some h"
    using assms(2) by (auto simp: has_handler_def)
  then have "handler_fits ''message'' h" using assms(1) by (simp add: handlers_ok_def)
  with h show ?thesis
    by (auto simp: call_message_handler_def handler_fits_def split: handler.splits)
qed

text \<open>A notification without a close: at most one handler call.\<close>

definition notified :: "'j app \<Rightarrow> 'j app \<Rightarrow> bool" where
  "notified a a' \<longleftrightarrow> a' = a \<or> (\<exists>e. a' = emit_event e a)"

lemma notified_keeps:
  "notified a a' \<Longrightarrow> (active this a' = active this a) \<and> (attached this a' = attached this a) \<and>
     (app_inv a' = app_inv a) \<and> ap_ctls a' = ap_ctls a"
  by (auto simp: notified_def)

lemma Peer_notices:
  assumes "app_inv a"
  shows "\<exists>a'. Peer_OnConnect i a = Inr a' \<and> notified a a'"
    and "\<exists>a'. Peer_OnMessage i b a = Inr a' \<and> notified a a'"
    and "\<exists>a'. Peer_OnWritable i a = Inr a' \<and> notified a a'"
proof -
  have h: "handlers_ok (ap_peer a)" using assms by (simp add: app_inv_def)
  show "\<exists>a'. Peer_OnConnect i a = Inr a' \<and> notified a a'"
    using call_peer_handler_ok [OF h, of "''connect''" i] by (auto simp: Peer_OnConnect_def notified_def)
  show "\<exists>a'. Peer_OnMessage i b a = Inr a' \<and> notified a a'"
    using call_message_handler_ok [OF h, of i b] by (auto simp: Peer_OnMessage_def notified_def)
  show "\<exists>a'. Peer_OnWritable i a = Inr a' \<and> notified a a'"
    using call_peer_handler_ok [OF h, of "''writable''" i] by (auto simp: Peer_OnWritable_def notified_def)
qed

lemma Control_notices:
  assumes "app_inv a"
  shows "\<exists>a'. Control_OnPeerConnect this i a = Inr a' \<and> notified a a'"
    and "\<exists>a'. Control_OnPeerMessage this i b a = Inr a' \<and> notified a a'"
    and "\<exists>a'. Control_OnPeerWritable this i a = Inr a' \<and> notified a a'"
  using Peer_notices [OF assms]
  by (auto simp: Control_OnPeerConnect_def Control_OnPeerMessage_def Control_OnPeerWritable_def notified_def)

end
