(* ===== verification/Control_Safety.thy ===== *)
theory Control_Safety
  imports App_Invariant
begin

section \<open>The operations of \<open>Control\<close> are safe\<close>

text \<open>
  For every operation of \<open>control.cc\<close> that runs while a message is handled: started in a state
  where \<open>active this\<close> holds it goes through no null pointer and no wrong cast, never destroys the
  object it runs on, and ends in a state where \<open>active this\<close> holds again. The two operations that
  use \<open>peer_\<close> without a null check need the observer to be registered.
\<close>

abbreviation dbg :: "ctx \<Rightarrow> bool" where
  "dbg cx \<equiv> env_debug (cx_env cx)"

subsection \<open>The observer hears of a close\<close>

lemma active_D:
  assumes "active this a"
  shows "app_inv a" and "ct_alive (ap_ctls a this)" and "initialised (ap_ctls a this)"
    and "\<exists>s. ap_signal a = Some s" and "ct_signal (ap_ctls a this) = Some ()"
    and "ct_factory (ap_ctls a this) = Some ()"
    and "registered (ap_ctls a this) \<Longrightarrow> pr_control (ap_peer a) = Some this"
  using assms app_inv_ctl [of a this] by (simp_all add: active_def ctl_ok_def Let_def)

lemma dropped_observer_inv:
  assumes "app_inv a" and "pr_control (ap_peer a) = Some this"
  shows "app_inv (upd_peer (\<lambda>p. p\<lparr>pr_control := None\<rparr>) (Control_UnregisterObserver this a))"
proof -
  have ctl: "ctl_ok a j" for j using assms(1) by (rule app_inv_ctl)
  have msg: "msg_ok a m" if "m \<in> set (ap_queue a) \<or> ap_busy a = Some m" for m
    using assms(1) that by (auto simp: app_inv_def own_inv_def)
  have "ctl_ok (upd_peer (\<lambda>p. p\<lparr>pr_control := None\<rparr>) (Control_UnregisterObserver this a)) j" for j
    using ctl [of j] assms(2)
    by (cases "j = this") (simp_all add: ctl_ok_def Let_def upd_defs Control_UnregisterObserver_def)
  moreover have "msg_ok (upd_peer (\<lambda>p. p\<lparr>pr_control := None\<rparr>) (Control_UnregisterObserver this a)) m"
    if "m \<in> set (ap_queue a) \<or> ap_busy a = Some m" for m
    using msg [OF that]
    by (cases "q_target m = this") (simp_all add: msg_ok_def upd_defs Control_UnregisterObserver_def)
  ultimately show ?thesis
    using assms(1)
    by (auto simp: app_inv_def own_inv_def table_inv_def entry_ok_def handlers_ok_def upd_defs
        Control_UnregisterObserver_def)
qed

lemma close_once_frame [simp]:
  "app_inv (upd_peer (\<lambda>p. p\<lparr>pr_close_once := b\<rparr>) a) = app_inv a"
  "active this (upd_peer (\<lambda>p. p\<lparr>pr_close_once := b\<rparr>) a) = active this a"
  "same_peers c (upd_peer (\<lambda>p. p\<lparr>pr_close_once := b\<rparr>) a) = same_peers c a"
  "ap_ctls (upd_peer f a) = ap_ctls a"
  by (simp_all add: app_inv_def own_inv_def table_inv_def entry_ok_def handlers_ok_def upd_defs
      ctl_ok_def msg_ok_def active_def same_peers_def same_tables_def)

definition tell_close :: "string \<Rightarrow> CloseCode \<Rightarrow> string \<Rightarrow> 'j app \<Rightarrow> 'j app res" where
  "tell_close i code desc a = (if has_handler ''close'' a then call_close_handler i code desc a else Inr a)"

lemma tell_close_notified:
  assumes "app_inv a"
  shows "\<exists>a'. tell_close i code desc a = Inr a' \<and> notified a a' \<and>
    (has_handler ''close'' a \<longrightarrow> (\<exists>h. a' = emit_event (CallClose h i code desc) a))"
  using call_close_handler_ok [of a i code desc] assms
  by (auto simp: tell_close_def notified_def app_inv_def)

lemma Peer_OnClose_cases:
  "Peer_OnClose cx i code desc a =
    (if i \<noteq> pr_peer_id (ap_peer a) then tell_close i code desc a
     else if pr_close_once (ap_peer a) then Inr a
     else and_then (tell_close i code desc (upd_peer (\<lambda>p. p\<lparr>pr_close_once := True\<rparr>) a))
       (\<lambda>a. and_then (deref ''control_'' (pr_control (ap_peer a)))
       (\<lambda>i. release_control cx i (upd_peer (\<lambda>p. p\<lparr>pr_control := None\<rparr>) (Control_UnregisterObserver i a)))))"
  by (simp add: Peer_OnClose_def tell_close_def Let_def)

lemma drop_pinned:
  assumes act: "active this a" and reg: "registered (ap_ctls a this)"
  defines "b \<equiv> upd_peer (\<lambda>p. p\<lparr>pr_control := None\<rparr>) (Control_UnregisterObserver this a)"
  shows "release_control cx this b = Inr b \<and> active this b \<and> same_peers a b"
proof -
  from act reg obtain m where m: "ap_busy a = Some m" "holds this m" by (auto simp: active_def)
  then have "referenced this b" by (simp add: b_def referenced_def upd_defs Control_UnregisterObserver_def)
  moreover have "app_inv b"
    unfolding b_def using active_D [OF act] reg by (intro dropped_observer_inv) simp_all
  ultimately show ?thesis
    using act
    by (auto simp: release_control_def active_def b_def upd_defs Control_UnregisterObserver_def same_peers_def same_tables_def)
qed

lemma Peer_OnClose_active:
  assumes "active this a" and "registered (ap_ctls a this)"
  shows "safe d (\<lambda>a'. active this a' \<and> same_peers a a') (Peer_OnClose cx i code desc a)"
proof -
  let ?b = "upd_peer (\<lambda>p. p\<lparr>pr_close_once := True\<rparr>) a"
  obtain b1 where b1: "tell_close i code desc a = Inr b1" "notified a b1"
    using tell_close_notified [of a] active_D(1) [OF assms(1)] by blast
  obtain b2 where b2: "tell_close i code desc ?b = Inr b2" "notified ?b b2"
    using tell_close_notified [of ?b i code desc] active_D(1) [OF assms(1)] by auto
  have s1: "same_peers a b1" using b1(2) by (auto simp: notified_def)
  have s2: "same_peers a b2" using b2(2) by (auto simp: notified_def)
  have act2: "active this b2" and reg2: "registered (ap_ctls b2 this)"
    using b2(2) assms notified_keeps [of ?b b2 this] by auto
  note fin = drop_pinned [OF act2 reg2, of cx]
  show ?thesis
    using b1 b2 fin active_D(7) [OF act2 reg2] assms(1) s1 notified_keeps [OF b1(2), of this]
      same_peers_trans [OF s2]
    by (auto simp: Peer_OnClose_cases)
qed

lemma Peer_OnOpen_active:
  assumes "active this a"
  shows "safe d (\<lambda>a'. active this a' \<and> same_peers a a') (Peer_OnOpen i a)"
proof -
  let ?b = "upd_peer (\<lambda>p. p\<lparr>pr_close_once := False\<rparr>) a"
  have "handlers_ok (ap_peer ?b)"
    using active_D(1) [OF assms] by (simp add: app_inv_def handlers_ok_def upd_peer_def)
  from call_peer_handler_ok [OF this, of "''open''" i] assms show ?thesis
    by (auto simp: Peer_OnOpen_def Let_def)
qed

subsection \<open>Notifications and commands\<close>

lemma Control_OnPeerClose_active:
  assumes "active this a"
  shows "safe d (\<lambda>a'. active this a' \<and> same_peers a a') (Control_OnPeerClose cx this i code a)"
  using assms post_safe(2) [OF assms] Peer_OnClose_active [OF assms]
  by (auto simp: Control_OnPeerClose_def registered_def)

lemma Control_notices_active:
  assumes "active this a"
  shows "safe d (\<lambda>a'. active this a' \<and> same_peers a a') (Control_OnPeerConnect this i a)"
    and "safe d (\<lambda>a'. active this a' \<and> same_peers a a') (Control_OnPeerMessage this i b a)"
    and "safe d (\<lambda>a'. active this a' \<and> same_peers a a') (Control_OnPeerWritable this i a)"
proof -
  note n = Control_notices [OF active_D(1) [OF assms]]
  have keep: "active this a' \<and> same_peers a a'" if "notified a a'" for a'
    using that assms by (auto simp: notified_def)
  show "safe d (\<lambda>a'. active this a' \<and> same_peers a a') (Control_OnPeerConnect this i a)"
    using n(1) [of this i] keep by auto
  show "safe d (\<lambda>a'. active this a' \<and> same_peers a a') (Control_OnPeerMessage this i b a)"
    using n(2) [of this i b] keep by auto
  show "safe d (\<lambda>a'. active this a' \<and> same_peers a a') (Control_OnPeerWritable this i a)"
    using n(3) [of this i] keep by auto
qed

lemma Control_SendCommand_run:
  assumes "ct_signal (ap_ctls a this) = Some ()" and "ap_signal a = Some s"
  shows "Control_SendCommand J this i c v a = Inr (emit_sig (Signal_SendCommand J i c v s) a)"
  using assms by (simp add: Control_SendCommand_def)

lemma Control_SendCommand_active:
  assumes "active this a"
  shows "safe d (\<lambda>a'. active this a' \<and> same_peers a a') (Control_SendCommand J this i c v a)"
proof -
  obtain s where "ap_signal a = Some s" using active_D(4) [OF assms] by blast
  with Control_SendCommand_run [OF active_D(5) [OF assms] this] assms show ?thesis by simp
qed

lemma channel_commands_active:
  assumes "active this a"
  shows "safe d (\<lambda>a'. active this a' \<and> same_peers a a') (Control_CreateChannel J this n a)"
    and "safe d (\<lambda>a'. active this a' \<and> same_peers a a') (Control_JoinChannel J this n a)"
    and "safe d (\<lambda>a'. active this a' \<and> same_peers a a') (Control_LeaveChannel J this n a)"
  unfolding Control_CreateChannel_def Control_JoinChannel_def Control_LeaveChannel_def
  by (rule Control_SendCommand_active [OF assms])+

subsection \<open>The peer table\<close>

lemma active_set_peers:
  assumes "active this a" and "map_wf (F (ct_peers (ap_ctls a this)))"
    and "\<And>k p. map_find (F (ct_peers (ap_ctls a this))) k = Some p \<Longrightarrow> entry_ok a this k p"
  shows "active this (upd_ctl this (\<lambda>c. c\<lparr>ct_peers := F (ct_peers c)\<rparr>) a)"
    (is "active this ?b")
proof -
  have "table_inv ?b"
    using assms active_D(1) [OF assms(1)]
    by (auto simp: table_inv_def app_inv_def upd_ctl_def entry_ok_def)
  moreover have "ctl_ok ?b j" for j
    using app_inv_ctl [OF active_D(1) [OF assms(1)], of j]
    by (cases "j = this", rule ctl_ok_peers)
       (simp_all add: upd_ctl_def active_D(2,3) [OF assms(1)] ctl_ok_def)
  moreover have "msg_ok ?b m = msg_ok a m" for m
    by (cases "q_target m = this") (simp_all add: msg_ok_def upd_ctl_def)
  moreover have "ap_queue ?b = ap_queue a" "ap_busy ?b = ap_busy a" "ap_peer ?b = ap_peer a"
    by (simp_all add: upd_ctl_def)
  ultimately show ?thesis
    using assms(1) by (simp add: active_def app_inv_def own_inv_def) (simp add: upd_ctl_def)
qed

lemma erase_active:
  assumes act: "active this a" and item: "map_find (ct_peers (ap_ctls a this)) k = Some p"
  defines "b \<equiv> upd_ctl this (\<lambda>c. c\<lparr>ct_peers := map_erase k (ct_peers c)\<rparr>) a"
  shows "active this b" and "\<not> in_table b p" and "ap_pcs b = ap_pcs a"
proof -
  have t: "table_inv a" and wf: "map_wf (ct_peers (ap_ctls a this))"
    using active_D(1) [OF act] by (simp_all add: app_inv_def table_inv_def)
  show "active this b"
    unfolding b_def using act wf t
    by (intro active_set_peers) (auto simp: std_map_facts table_inv_def split: if_splits)
  show "\<not> in_table b p"
  proof
    assume "in_table b p"
    then obtain j l where jl: "map_find (ct_peers (ap_ctls b j)) l = Some p" by (auto simp: in_table_def)
    then have old: "map_find (ct_peers (ap_ctls a j)) l = Some p" and "j \<noteq> this \<or> l \<noteq> k"
      by (cases "j = this"; cases "l = k"; simp add: b_def upd_ctl_def std_map_facts wf)+
    with table_inv_unique [OF t item old] show False by simp
  qed
  show "ap_pcs b = ap_pcs a" by (simp add: b_def upd_ctl_def)
qed

lemma PC_Close_frame:
  "PC_Close code pc = (pc', out) \<Longrightarrow> pc_remote_id pc' = pc_remote_id pc \<and> pc_state pc' \<in> {pClosing, pClosed}"
  by (auto simp: PC_Close_def Let_def split: if_splits)

lemma Control_ClosePeer_active:
  fixes a :: "'j app"
  assumes act: "active this a"
  shows "safe (dbg cx) (active this) (Control_ClosePeer J cx this i code force a)"
proof (cases "force \<or> ct_thread (ap_ctls a this) \<noteq> Some (cx_thread cx) \<or>
    map_find (ct_peers (ap_ctls a this)) i = None")
  case True
  have "safe (dbg cx) (active this) (post this (MSG_CLOSE_PEER i code) a)"
    by (rule safe_mono [OF post_safe(2) [OF act]]) simp
  with True act show ?thesis by (auto simp: Control_ClosePeer_def)
next
  case False
  then obtain item where item: "map_find (ct_peers (ap_ctls a this)) i = Some item" by auto
  define b where "b = upd_ctl this (\<lambda>c. c\<lparr>ct_peers := map_erase i (ct_peers c)\<rparr>) a"
  note b = erase_active [OF act item, folded b_def]
  obtain pc and out :: "'j pc_out list" where pc: "PC_Close code (ap_pcs b item) = (pc, out)"
    by (cases "PC_Close code (ap_pcs b item) :: _ \<times> 'j pc_out list")
  let ?c = "upd_pc item pc b"
  have c: "active this ?c" and nt: "\<not> in_table ?c item"
    using active_upd_pc [OF b(1), of pc item] b(2) PC_Close_frame [OF pc] by simp_all
  have run: "Control_ClosePeer J cx this i code force a =
    and_then (fold_res (run_close_notice cx this) out ?c)
      (\<lambda>a. and_then (Control_LeaveChannel J this i a) (release_pc cx item))"
    using False item pc by (simp add: Control_ClosePeer_def Let_def b_def)
  let ?P = "\<lambda>a'. active this a' \<and> same_peers ?c a'"
  show ?thesis
    unfolding run
  proof (rule safe_and_then [where Q = ?P])
    show "safe (dbg cx) ?P (fold_res (run_close_notice cx this) out ?c)"
    proof (rule safe_fold_res)
      show "?P ?c" using c by simp
      fix x s assume "?P s"
      then show "safe (dbg cx) ?P (run_close_notice cx this x s)"
        by (auto simp: run_close_notice_def intro: safe_mono [OF Control_OnPeerClose_active]
            same_peers_trans split: pc_out.split)
    qed
    fix s assume s: "?P s"
    show "safe (dbg cx) (active this) (and_then (Control_LeaveChannel J this i s) (release_pc cx item))"
    proof (rule safe_and_then [OF channel_commands_active(3) [of this s]])
      show "active this s" using s by simp
      fix t assume "active this t \<and> same_peers s t"
      with s nt show "safe (dbg cx) (active this) (release_pc cx item t)"
        by (intro release_pc_safe(1)) (auto simp: same_peers_in)
    qed
  qed
qed

lemma Control_Close_active:
  assumes act: "active this a"
  shows "safe (dbg cx) (active this) (Control_Close J cx this code force a)"
proof (cases "force \<or> ct_thread (ap_ctls a this) \<noteq> Some (cx_thread cx)")
  case True
  have "safe (dbg cx) (active this) (post this (MSG_CLOSE code) a)"
    by (rule safe_mono [OF post_safe(2) [OF act]]) simp
  with True show ?thesis by (auto simp: Control_Close_def)
next
  case False
  have tell: "safe (dbg cx) (active this) (Peer_OnClose cx n code [] b)"
    if "active this b" "ct_observer (ap_ctls b this) \<noteq> None" for b n
    by (rule safe_mono [OF Peer_OnClose_active [of this]]) (use that in \<open>simp_all add: registered_def\<close>)
  show ?thesis
    unfolding Control_Close_def Let_def using False act
    by (auto intro!: safe_and_then safe_fold_res Control_ClosePeer_active tell)
qed

subsection \<open>Starting an exchange\<close>

text \<open>The two ways to start: \<open>PeerControl::CreateOffer\<close> and \<open>PeerControl::ReceiveOfferSdp\<close>.\<close>

definition starts :: "(peer_control \<Rightarrow> (peer_control \<times> 'j pc_out list) res) \<Rightarrow> bool" where
  "starts exchange \<longleftrightarrow> (\<forall>pc. pc_ready pc \<longrightarrow>
     (\<exists>out. exchange pc = Inr (pc\<lparr>pc_state := pConnecting\<rparr>, out) \<and> filter to_owner out = []))"

lemma starts_offer: "starts (PC_CreateOffer env)" and starts_answer: "starts (PC_ReceiveOfferSdp env sdp)"
  using PC_CreateOffer_ready [of _ env] PC_ReceiveOfferSdp_ready [of _ env sdp]
  by (fastforce simp: starts_def)+

lemma owner_free_run:
  "filter to_owner out = [] \<Longrightarrow> fold_res (run_owner_call J cx this) out a = Inr a"
proof (induction out)
  case (Cons x out)
  then show ?case by (cases x) (auto simp: run_owner_call_def split: if_splits)
qed simp

lemma fresh_not_in_table:
  assumes "app_inv a" and "ap_next_pc a \<le> p"
  shows "\<not> in_table a p"
  using assms by (fastforce simp: in_table_def app_inv_def table_inv_def entry_ok_def)

lemma new_pc_active:
  assumes act: "active this a" and new: "new_pc this k a = (b, p)"
  shows "active this b" and "\<not> in_table b p" and "p < ap_next_pc b" and "ap_owner b p = this"
    and "ap_pcs b p = PeerControl_ctor (ct_peer_name (ap_ctls a this)) k (Some ())"
    and "ap_ctls b = ap_ctls a"
proof -
  let ?pc = "PeerControl_ctor (ct_peer_name (ap_ctls a this)) k (ct_factory (ap_ctls a this))"
  have b: "b = a\<lparr>ap_pcs := (ap_pcs a)(p := ?pc), ap_owner := (ap_owner a)(p := this), ap_next_pc := Suc p\<rparr>"
    and p: "p = ap_next_pc a"
    using new by (auto simp: new_pc_def Let_def)
  have nt: "\<not> in_table a p" using fresh_not_in_table [OF active_D(1) [OF act]] p by simp
  have "table_inv b"
    using active_D(1) [OF act] nt p
    by (fastforce simp: app_inv_def table_inv_def entry_ok_def b in_table_def)
  moreover have "ctl_ok b j = ctl_ok a j" "msg_ok b m = msg_ok a m" for j m
    by (simp_all add: b ctl_ok_def msg_ok_def)
  ultimately show "active this b"
    using act by (simp add: active_def app_inv_def own_inv_def) (simp add: b)
  show "\<not> in_table b p" using nt by (simp add: b in_table_def)
  show "p < ap_next_pc b" "ap_owner b p = this" "ap_ctls b = ap_ctls a" by (simp_all add: b)
  show "ap_pcs b p = PeerControl_ctor (ct_peer_name (ap_ctls a this)) k (Some ())"
    using active_D(6) [OF act] by (simp add: b)
qed

lemma insert_peer_active:
  assumes "active this a" and "entry_ok a this k p"
  shows "active this (insert_peer this k p a)"
    and "map_find (ct_peers (ap_ctls (insert_peer this k p a) this)) k \<noteq> Some p \<Longrightarrow>
      \<not> in_table a p \<Longrightarrow> \<not> in_table (insert_peer this k p a) p"
proof -
  have wf: "map_wf (ct_peers (ap_ctls a this))" and
    old: "\<And>k p. map_find (ct_peers (ap_ctls a this)) k = Some p \<Longrightarrow> entry_ok a this k p"
    using active_D(1) [OF assms(1)] by (simp_all add: app_inv_def table_inv_def)
  show "active this (insert_peer this k p a)"
    unfolding insert_peer_def
    by (rule active_set_peers [OF assms(1)]) (auto simp: std_map_facts wf old assms(2) split: if_splits)
  assume no: "map_find (ct_peers (ap_ctls (insert_peer this k p a) this)) k \<noteq> Some p" and nt: "\<not> in_table a p"
  have "map_insert k p (ct_peers (ap_ctls a this)) = ct_peers (ap_ctls a this)"
    using no wf map_insert_present [OF wf]
    by (cases "map_find (ct_peers (ap_ctls a this)) k") (auto simp: insert_peer_def upd_ctl_def std_map_facts)
  then have "ct_peers (ap_ctls (insert_peer this k p a) j) = ct_peers (ap_ctls a j)" for j
    by (simp add: insert_peer_def upd_ctl_def)
  with nt show "\<not> in_table (insert_peer this k p a) p" by (simp add: in_table_def)
qed

lemma insert_upd_pc: "upd_pc p pc (insert_peer this k q a) = insert_peer this k q (upd_pc p pc a)"
  by (simp add: insert_peer_def upd_ctl_def upd_pc_def)

lemma in_table_insert_emit [simp]:
  "insert_peer this k q (emit_rtc p out a) = emit_rtc p out (insert_peer this k q a)"
  by (simp add: insert_peer_def upd_ctl_def emit_rtc_def)

lemma upd_emit [simp]: "upd_pc p pc (emit_rtc q out a) = emit_rtc q out (upd_pc p pc a)"
  "upd_pc p pc (upd_pc p pc' a) = upd_pc p pc a"
  by (simp_all add: upd_pc_def emit_rtc_def)

lemma insert_peer_pcs [simp]: "ap_pcs (insert_peer this k q a) = ap_pcs a"
  by (simp add: insert_peer_def upd_ctl_def)

lemma start_peer_active:
  fixes a :: "'j app"
  assumes act: "active this a" and st: "starts exchange"
  shows "safe (dbg cx) (\<lambda>(a', go_on). active this a') (start_peer J cx this k exchange a)"
proof -
  obtain b p where new: "new_pc this k a = (b, p)" by (cases "new_pc this k a")
  note b = new_pc_active [OF act new]
  obtain pc ok and out :: "'j pc_out list" where
    ini: "PC_Initialize (cx_env cx) p (ap_pcs b p) = Inr (pc, out, ok)"
    using Initialize_returns [where 'a = 'j] unfolding b(5) by (metis prod_cases3)
  note res = Initialize_result [OF ini [unfolded b(5)]]
  have rid: "pc_remote_id pc = pc_remote_id (ap_pcs b p)"
    using res(2) b(5) by (simp add: PeerControl_ctor_def)
  let ?c = "emit_rtc p out (upd_pc p pc b)"
  have c: "active this ?c" "\<not> in_table ?c p"
    using active_upd_pc [OF b(1) rid] b(2) by simp_all
  show ?thesis
  proof (cases ok)
    case False
    have "safe (dbg cx) (\<lambda>(a', go_on). active this a')
      (and_then (Control_OnPeerClose cx this k CLOSE_ABNORMAL ?c)
         (\<lambda>a. and_then (release_pc cx p a) (\<lambda>a. Inr (a, False))))"
      by (rule safe_and_then [OF Control_OnPeerClose_active [OF c(1)]],
          rule safe_and_then [OF release_pc_safe(1) [where this = this]])
         (use c(2) in \<open>auto simp: same_peers_in\<close>)
    with False new ini show ?thesis by (simp add: start_peer_def Let_def)
  next
    case True
    obtain out2 where ex: "exchange pc = Inr (pc\<lparr>pc_state := pConnecting\<rparr>, out2)" "filter to_owner out2 = []"
      using st res(3) [OF True] by (auto simp: starts_def)
    let ?pc = "pc\<lparr>pc_state := pConnecting\<rparr>"
    let ?d = "upd_pc p ?pc b"
    let ?e = "emit_rtc p out2 (emit_rtc p out (insert_peer this k p ?d))"
    have d: "active this ?d" "\<not> in_table ?d p"
      using active_upd_pc [OF b(1), of ?pc p] rid b(2) by simp_all
    have "entry_ok ?d this k p"
      using b(3,4) res(2) pc_ready_connecting [OF res(3) [OF True]] by (simp add: entry_ok_def upd_pc_def)
    note e = insert_peer_active [OF d(1) this]
    have fin: "safe (dbg cx) (active this) (end_scope cx this k p ?e)"
      using e d(2) release_pc_safe(1) [of ?e p this] by (simp add: end_scope_def)
    have "start_peer J cx this k exchange a = and_then (end_scope cx this k p ?e) (\<lambda>a. Inr (a, True))"
      using True new ini ex owner_free_run [OF ex(2), of J cx this]
      by (simp add: start_peer_def Let_def run_pc_def insert_upd_pc)
    then show ?thesis by (auto intro: safe_and_then [OF fin])
  qed
qed

lemma create_offers_active:
  "active this a \<Longrightarrow> safe (dbg cx) (active this) (create_offers J cx this peers is a)"
proof (induction "is" arbitrary: a)
  case Nil
  then show ?case by simp
next
  case (Cons i "is")
  show ?case
    using Cons.prems
    by (auto split: option.splits intro!: safe_and_then [OF start_peer_active [OF Cons.prems starts_offer]]
        Cons.IH)
qed

subsection \<open>Commands of the signal server\<close>

lemma safe_pc_calls:
  assumes "pc_live pc"
  shows "safe (env_debug env) (\<lambda>_. True) (PC_ReceiveAnswerSdp env sdp pc)"
    and "safe d (\<lambda>_. True) (PC_AddIceCandidate mid idx cand pc)"
    and "safe (env_debug env) (\<lambda>_. True) (PC_Send env buf pc)"
    and "safe (env_debug env) (\<lambda>_. True) (PC_SyncSend env buf pc)"
  using assms by (auto simp: pc_live_def pc_call_ops rtc_dcheck_def)

lemma ReceiveAnswerSdp_active:
  assumes act: "active this a"
  shows "safe (dbg cx) (active this) (Control_ReceiveAnswerSdp J cx this i data a)"
  using act table_lookup [OF active_D(1) [OF act], of this i]
  by (auto simp: Control_ReceiveAnswerSdp_def entry_ok_def split: option.splits
      intro!: safe_and_then [OF safe_pc_calls(1)])

lemma AddIceCandidate_active:
  assumes act: "active this a"
  shows "safe d (active this) (Control_AddIceCandidate J this i data a)"
  using act table_lookup [OF active_D(1) [OF act], of this i]
  by (auto simp: Control_AddIceCandidate_def entry_ok_def split: option.splits
      intro!: safe_and_then [OF safe_pc_calls(2)])

lemma session_id_active:
  assumes "active this a"
  shows "active this (upd_ctl this (\<lambda>c. c\<lparr>ct_session_id := n\<rparr>) a)" (is "active this ?b")
proof -
  have "table_inv ?b = table_inv a"
    by (rule same_peers_table) (simp add: same_peers_def same_tables_def upd_ctl_def)
  moreover have "ctl_ok ?b j = ctl_ok a j" for j
    by (cases "j = this") (simp_all add: ctl_ok_def upd_ctl_def Let_def)
  moreover have "msg_ok ?b m = msg_ok a m" for m
    by (cases "q_target m = this") (simp_all add: msg_ok_def upd_ctl_def)
  ultimately show ?thesis
    using assms by (simp add: active_def app_inv_def own_inv_def) (simp add: upd_ctl_def)
qed

lemma Control_OnOpen_active:
  assumes "active this a"
  shows "safe d (active this) (Control_OnOpen J this data a)"
  using assms
  by (auto simp: Control_OnOpen_def Let_def split: option.splits
      intro!: safe_mono [OF channel_commands_active(1)] session_id_active)

lemma Control_ReceiveOfferSdp_active:
  assumes "active this a"
  shows "safe (dbg cx) (active this) (Control_ReceiveOfferSdp J cx this i data a)"
  using assms
  by (auto simp: Control_ReceiveOfferSdp_def split: option.splits
      intro!: safe_and_then [OF start_peer_active [OF assms starts_answer]])

lemma Control_CreateOffer_active:
  assumes "active this a"
  shows "safe (dbg cx) (active this) (Control_CreateOffer J cx this data a)"
  using assms by (auto simp: Control_CreateOffer_def split: option.splits intro!: create_offers_active)

text \<open>
  \<open>OnChannelCreate\<close> and \<open>OnChannelJoin\<close> use the observer unchecked: they keep \<open>active this\<close> if they
  return, and go through no null pointer if the observer is registered.
\<close>

lemma unchecked_observer_active:
  assumes act: "active this a"
  shows "registered (ap_ctls a this) \<Longrightarrow> safe d (active this) (peer_OnClose cx this i code desc a)"
    and "registered (ap_ctls a this) \<Longrightarrow> safe d (active this) (peer_OnOpen this i a)"
    and "all_ok (active this) (peer_OnClose cx this i code desc a)"
    and "all_ok (active this) (peer_OnOpen this i a)"
proof -
  have 1: "safe d (active this) (peer_OnClose cx this i code desc a)" if "registered (ap_ctls a this)" for d
    using safe_mono [OF Peer_OnClose_active [OF act that, of d cx i code desc], of "active this"] that
    by (auto simp: peer_OnClose_def registered_def)
  have 2: "safe d (active this) (peer_OnOpen this i a)" if "registered (ap_ctls a this)" for d
    using safe_mono [OF Peer_OnOpen_active [OF act, of d i], of "active this"] that
    by (auto simp: peer_OnOpen_def registered_def)
  show "registered (ap_ctls a this) \<Longrightarrow> safe d (active this) (peer_OnClose cx this i code desc a)"
    and "registered (ap_ctls a this) \<Longrightarrow> safe d (active this) (peer_OnOpen this i a)"
    by (fact 1, fact 2)
  show "all_ok (active this) (peer_OnClose cx this i code desc a)"
    using safe_all_ok [OF 1]
    by (cases "ct_observer (ap_ctls a this)") (auto simp: peer_OnClose_def registered_def)
  show "all_ok (active this) (peer_OnOpen this i a)"
    using safe_all_ok [OF 2]
    by (cases "ct_observer (ap_ctls a this)") (auto simp: peer_OnOpen_def registered_def)
qed

lemma channel_replies_active:
  assumes "active this a"
  shows "registered (ap_ctls a this) \<Longrightarrow> safe d (active this) (Control_OnChannelCreate J cx this data a)"
    and "registered (ap_ctls a this) \<Longrightarrow> safe d (active this) (Control_OnChannelJoin J cx this data a)"
    and "all_ok (active this) (Control_OnChannelCreate J cx this data a)"
    and "all_ok (active this) (Control_OnChannelJoin J cx this data a)"
  using assms unchecked_observer_active [OF assms]
  by (auto simp: Control_OnChannelCreate_def Control_OnChannelJoin_def split: option.splits)

lemma safe_commands:
  assumes "active this a"
  shows "safe (dbg cx) (active this) (Control_OnOpen J this data a)"
    and "safe (dbg cx) (active this) (Control_OnChannelLeave data a)"
    and "safe (dbg cx) (active this) (Control_OnRemotePeerClose J cx this i data a)"
    and "safe (dbg cx) (active this) (Control_CreateOffer J cx this data a)"
    and "safe (dbg cx) (active this) (Control_ReceiveOfferSdp J cx this i data a)"
    and "safe (dbg cx) (active this) (Control_ReceiveAnswerSdp J cx this i data a)"
    and "safe (dbg cx) (active this) (Control_AddIceCandidate J this i data a)"
  using assms Control_ClosePeer_active [OF assms]
  by (simp_all add: Control_OnOpen_active Control_OnChannelLeave_def Control_OnRemotePeerClose_def
      Control_CreateOffer_active Control_ReceiveOfferSdp_active ReceiveAnswerSdp_active AddIceCandidate_active)

lemma OnCommandReceived_active:
  assumes "active this a"
  shows "all_ok (active this) (Control_OnCommandReceived J cx this message a)"
    and "registered (ap_ctls a this) \<Longrightarrow>
      safe (dbg cx) (active this) (Control_OnCommandReceived J cx this message a)"
  using assms
  by (simp_all add: Control_OnCommandReceived_def Let_def channel_replies_active safe_commands
      safe_commands [THEN safe_all_ok] split: option.split)

lemma handle_message_active:
  assumes "active this a"
  shows "all_ok (active this) (handle_message J cx this m a)"
    and "registered (ap_ctls a this) \<Longrightarrow> safe (dbg cx) (active this) (handle_message J cx this m a)"
proof -
  have close: "safe (dbg cx) (active this) (Control_OnPeerClose cx this i code a)" for i code
    by (rule safe_mono [OF Control_OnPeerClose_active [OF assms]]) simp
  show "all_ok (active this) (handle_message J cx this m a)"
    and "registered (ap_ctls a this) \<Longrightarrow> safe (dbg cx) (active this) (handle_message J cx this m a)"
    using assms close [THEN safe_all_ok] close
    by (simp_all add: handle_message_def OnCommandReceived_active Control_Close_active
        Control_ClosePeer_active Control_Close_active [THEN safe_all_ok]
        Control_ClosePeer_active [THEN safe_all_ok] split: control_msg.split)
qed

subsection \<open>The end of a \<open>Control\<close>\<close>

lemma clear_peers_inv:
  fixes a :: "'j app" and i :: nat
  assumes inv: "app_inv a"
  defines "b \<equiv> upd_ctl i (\<lambda>c. c\<lparr>ct_peers := []\<rparr>) a"
  shows "app_inv b" and "\<And>k p. map_find (ct_peers (ap_ctls a i)) k = Some p \<Longrightarrow> \<not> in_table b p"
    and "referenced j b = referenced j a" and "ap_busy b = ap_busy a"
proof -
  have t: "table_inv a" using inv by (simp add: app_inv_def)
  have find: "map_find (ct_peers (ap_ctls b j)) k = Some p \<longleftrightarrow>
      j \<noteq> i \<and> map_find (ct_peers (ap_ctls a j)) k = Some p" for j k p
    by (simp add: b_def upd_ctl_def)
  have "table_inv b"
    using t unfolding table_inv_def find entry_ok_def by (auto simp: b_def upd_ctl_def)
  moreover have "ctl_ok b j" for j
    using app_inv_ctl [OF inv, of j]
    by (cases "j = i", rule ctl_ok_peers [where t = "[]"]) (simp_all add: b_def upd_ctl_def ctl_ok_def)
  moreover have "msg_ok b m = msg_ok a m" for m
    by (cases "q_target m = i") (simp_all add: b_def msg_ok_def upd_ctl_def)
  ultimately show "app_inv b"
    using inv by (simp add: app_inv_def own_inv_def) (simp add: b_def upd_ctl_def)
  show "\<not> in_table b p" if "map_find (ct_peers (ap_ctls a i)) k = Some p" for k p
    unfolding in_table_def find using table_inv_unique [OF t that] by blast
  show "referenced j b = referenced j a" "ap_busy b = ap_busy a"
    by (simp_all add: b_def upd_ctl_def referenced_def)
qed

lemma retired_inv:
  fixes a :: "'j app" and i :: nat
  assumes inv: "app_inv a" and un: "\<not> referenced i a" and idle: "ap_busy a = None"
    and empty: "ct_peers (ap_ctls a i) = []"
  defines "b \<equiv> upd_ctl i (\<lambda>c. c\<lparr>ct_alive := False\<rparr>)
     ((Control_DeleteControl i a)\<lparr>ap_slots := removeAll i (ap_slots a),
        ap_queue := filter (\<lambda>m. q_target m \<noteq> i) (ap_queue a)\<rparr>)"
  shows "app_inv b"
proof -
  note d = b_def Control_DeleteControl_def upd_ctl_def
  have "same_peers a b" by (simp add: same_peers_def same_tables_def d)
  then have "table_inv b" using inv same_peers_table by (auto simp: app_inv_def)
  moreover have "ctl_ok b j" for j
  proof -
    have f: "ap_signal b = ap_signal a" "ap_peer b = ap_peer a" "ap_next_ctl b = ap_next_ctl a"
      "ap_slots b = removeAll i (ap_slots a)"
      by (simp_all add: d)
    have g: "ap_ctls b j = (if j = i
        then (ap_ctls a i)\<lparr>ct_factory := None, ct_audio := None, ct_alive := False\<rparr> else ap_ctls a j)"
      by (simp add: d)
    have un': "\<not> ct_ref (ap_ctls a i)" "pr_control (ap_peer a) \<noteq> Some i"
      using un by (simp_all add: referenced_def)
    show ?thesis
    proof (cases "j = i")
      case True
      have "registered (ap_ctls a i) \<Longrightarrow> False"
        using app_inv_ctl [OF inv, of i] un' by (simp add: ctl_ok_def Let_def)
      then show ?thesis unfolding ctl_ok_def f g using True un' empty by auto
    next
      case False
      then show ?thesis using app_inv_ctl [OF inv, of j] unfolding ctl_ok_def f g by simp
    qed
  qed
  moreover have "msg_ok b m" if "m \<in> set (ap_queue b)" for m
  proof -
    have "msg_ok a m" "q_target m \<noteq> i" using that inv by (auto simp: d app_inv_def own_inv_def)
    then show ?thesis by (simp add: msg_ok_def d)
  qed
  moreover have "ap_busy b = None" "ap_peer b = ap_peer a" using idle by (simp_all add: d)
  ultimately show ?thesis using inv by (simp add: app_inv_def own_inv_def)
qed

lemma release_control_safe:
  assumes inv: "app_inv a" and idle: "ap_busy a = None"
  shows "safe (dbg cx) (\<lambda>a'. app_inv a' \<and> ap_busy a' = None) (release_control cx i a)"
proof (cases "ct_alive (ap_ctls a i) \<and> \<not> referenced i a")
  case False
  then show ?thesis using inv idle by (auto simp: release_control_def)
next
  case True
  let ?b = "upd_ctl i (\<lambda>c. c\<lparr>ct_peers := []\<rparr>) a"
  let ?P = "\<lambda>a'. app_inv a' \<and> same_control ?b a'"
  note b = clear_peers_inv [OF inv, of i]
  have wf: "map_wf (ct_peers (ap_ctls a i))" using inv by (simp add: app_inv_def table_inv_def)
  have drop: "safe (dbg cx) ?P (fold_res (release_pc cx) (map snd (ct_peers (ap_ctls a i))) ?b)"
  proof (rule safe_fold_res)
    show "?P ?b" using b(1) by simp
    fix p s assume p: "p \<in> set (map snd (ct_peers (ap_ctls a i)))" and s: "?P s"
    then obtain k where "map_find (ct_peers (ap_ctls a i)) k = Some p" by (auto simp: map_find_iff [OF wf])
    then have "\<not> in_table ?b p" by (rule b(2))
    then have "\<not> in_table s p" using s same_control_keeps(2) [of ?b s] by simp
    then show "safe (dbg cx) ?P (release_pc cx p s)"
      by (rule safe_mono [OF release_pc_safe(2)]) (use s in \<open>auto intro: same_control_trans\<close>)
  qed
  have fin: "app_inv (upd_ctl i (\<lambda>c. c\<lparr>ct_alive := False\<rparr>)
     ((Control_DeleteControl i s)\<lparr>ap_slots := removeAll i (ap_slots s),
        ap_queue := filter (\<lambda>m. q_target m \<noteq> i) (ap_queue s)\<rparr>))" if "?P s" for s
  proof (rule retired_inv)
    show "app_inv s" using that by simp
    show "\<not> referenced i s" using that True b(3) [of i] same_control_keeps(1) [of ?b s] by simp
    show "ap_busy s = None" using that b(4) idle by (simp add: same_control_def)
    show "ct_peers (ap_ctls s i) = []" using that by (simp add: same_control_def upd_ctl_def)
  qed
  have idle': "ap_busy s = None" if "?P s" for s using that b(4) idle by (simp add: same_control_def)
  have "safe (dbg cx) (\<lambda>a'. app_inv a' \<and> ap_busy a' = None) (Control_dtor cx i a)"
    unfolding Control_dtor_def Let_def
    by (rule safe_and_then [OF drop])
       (use fin idle' in \<open>simp add: Control_DeleteControl_def upd_ctl_def\<close>)
  with True show ?thesis by (simp add: release_control_def)
qed

lemma busy_inv:
  assumes "app_inv a" and "msg_ok a m"
  shows "app_inv (a\<lparr>ap_busy := Some m\<rparr>)"
  using assms by (simp add: app_inv_def own_inv_def)

lemma idle_inv: "app_inv a \<Longrightarrow> app_inv (a\<lparr>ap_busy := None\<rparr>)"
  by (simp add: app_inv_def own_inv_def)

lemma deliver_active:
  assumes "app_inv a" and "msg_ok a m"
  shows "active (q_target m) (a\<lparr>ap_busy := Some m\<rparr>)"
  using busy_inv [OF assms] assms(2) by (auto simp: active_def msg_ok_def holds_def)

lemma Control_OnMessage_keeps:
  assumes "app_inv a" and "msg_ok a m"
  shows "all_ok (\<lambda>a'. app_inv a' \<and> ap_busy a' = None) (Control_OnMessage J cx m a)"
    and "registered (ap_ctls a (q_target m)) \<Longrightarrow>
      safe (dbg cx) (\<lambda>a'. app_inv a' \<and> ap_busy a' = None) (Control_OnMessage J cx m a)"
proof -
  note act = deliver_active [OF assms]
  have fin: "safe (dbg cx) (\<lambda>a'. app_inv a' \<and> ap_busy a' = None)
      (release_control cx (q_target m) (b\<lparr>ap_busy := None\<rparr>))" if "active (q_target m) b" for b
    by (rule release_control_safe) (use active_D(1) [OF that] in \<open>simp_all add: idle_inv\<close>)
  show "all_ok (\<lambda>a'. app_inv a' \<and> ap_busy a' = None) (Control_OnMessage J cx m a)"
    unfolding Control_OnMessage_def
    by (rule all_ok_and_then [OF handle_message_active(1) [OF act]]) (rule safe_all_ok [OF fin])
  show "safe (dbg cx) (\<lambda>a'. app_inv a' \<and> ap_busy a' = None) (Control_OnMessage J cx m a)"
    if "registered (ap_ctls a (q_target m))"
    unfolding Control_OnMessage_def
    by (rule safe_and_then [OF handle_message_active(2) [OF act]]) (use that fin in simp_all)
qed

end
