(* ===== verification/Peer_System.thy ===== *)
theory Peer_System
  imports Control_Safety
begin

section \<open>The system: calls, callbacks and queued messages in any order\<close>

text \<open>
  The steps of a whole application: a call of the public interface, a step of the signal
  connection with the sigslots it raises, a callback of WebRTC on a peer connection whose
  \<open>Control\<close> still exists, and the delivery of any queued message. They may follow each other in
  any order, each with its own environment; a step that faults has no successor here, and the
  faults are the subject of the \<open>safe\<close> lemmas. The invariant of theory \<open>App_Invariant\<close> holds in
  every state reached this way.
\<close>

subsection \<open>The public interface keeps the invariant\<close>

lemma upd_peer_inv:
  assumes "app_inv a" and "pr_control (f (ap_peer a)) = pr_control (ap_peer a)"
    and "pr_peer_id (f (ap_peer a)) = pr_peer_id (ap_peer a)" and "handlers_ok (f (ap_peer a))"
  shows "app_inv (upd_peer f a)"
  using assms
  by (simp add: app_inv_def own_inv_def table_inv_def entry_ok_def ctl_ok_def msg_ok_def upd_peer_def)

lemma handlers_ok_insert:
  assumes "handlers_ok p" and "handler_fits event h"
  shows "handlers_ok (p\<lparr>pr_handlers := map_insert event h (pr_handlers p)\<rparr>)"
  using assms by (auto simp: handlers_ok_def std_map_facts split: if_splits)

lemma handlers_ok_On:
  assumes "handlers_ok p"
  shows "handlers_ok (Peer_On_peer e h p)" "handlers_ok (Peer_On_data e h p)"
    "handlers_ok (Peer_On_close e h p)" "handlers_ok (Peer_On_message e h p)"
  using assms by (auto simp: peer_on_defs handler_fits_def intro!: handlers_ok_insert)

lemma On_control:
  "pr_control (Peer_On_peer e h p) = pr_control p" "pr_control (Peer_On_data e h p) = pr_control p"
  "pr_control (Peer_On_close e h p) = pr_control p" "pr_control (Peer_On_message e h p) = pr_control p"
  "pr_peer_id (Peer_On_peer e h p) = pr_peer_id p" "pr_peer_id (Peer_On_data e h p) = pr_peer_id p"
  "pr_peer_id (Peer_On_close e h p) = pr_peer_id p" "pr_peer_id (Peer_On_message e h p) = pr_peer_id p"
  by (simp_all add: peer_on_defs)

lemma SetOptions_frame:
  assumes "Peer_SetOptions J options p = (p', ok)"
  shows "pr_control p' = pr_control p \<and> pr_handlers p' = pr_handlers p \<and>
    pr_peer_id p' = pr_peer_id p \<and> pr_close_once p' = pr_close_once p"
  using assms by (auto simp: Peer_SetOptions_def Peer_ParseOptions_def Let_def split: if_splits option.splits)

lemma handlers_ok_cong: "pr_handlers p' = pr_handlers p \<Longrightarrow> handlers_ok p' = handlers_ok p"
  by (simp add: handlers_ok_def)

lemma signal_inv:
  assumes "app_inv a"
  shows "app_inv (a\<lparr>ap_signal := Some s\<rparr>)"
proof -
  have "ctl_ok (a\<lparr>ap_signal := Some s\<rparr>) i" for i
    using app_inv_ctl [OF assms, of i] by (simp add: ctl_ok_def Let_def)
  then show ?thesis
    using assms by (simp add: app_inv_def own_inv_def table_inv_def entry_ok_def msg_ok_def)
qed

text \<open>The current control: alive, initialised, observing.\<close>

lemma current_control:
  assumes "app_inv a" and "pr_control (ap_peer a) = Some i"
  shows "attached i a" and "registered (ap_ctls a i)" and "\<exists>s. ap_signal a = Some s"
    and "ct_signal (ap_ctls a i) = Some ()"
  using app_inv_ctl [OF assms(1), of i] assms by (simp_all add: ctl_ok_def Let_def attached_def)

lemma Peer_Close_safe:
  assumes inv: "app_inv a" and open': "pr_control (ap_peer a) \<noteq> None"
  shows "safe d app_inv (Peer_Close J cx i a)"
proof -
  obtain c where c: "pr_control (ap_peer a) = Some c" using open' by blast
  note cc = current_control [OF inv c]
  obtain m where m: "post c (MSG_CLOSE CLOSE_NORMAL) a = Inr (a\<lparr>ap_queue := ap_queue a @ [m]\<rparr>)" "msg_ok a m"
    using post_keeps [OF cc(1)] by blast
  obtain m' where m': "post c (MSG_CLOSE_PEER i CLOSE_NORMAL) a = Inr (a\<lparr>ap_queue := ap_queue a @ [m']\<rparr>)"
      "msg_ok a m'"
    using post_keeps [OF cc(1)] by blast
  have 1: "app_inv (a\<lparr>ap_queue := ap_queue a @ [m]\<rparr>)" using app_inv_queue [OF inv m(2)] .
  have 2: "app_inv (a\<lparr>ap_queue := ap_queue a @ [m']\<rparr>)" using app_inv_queue [OF inv m'(2)] .
  show ?thesis
    using c cc(3) m(1) m'(1) 2 signal_inv [OF 1]
    by (auto simp: Peer_Close_def Control_Close_def Control_ClosePeer_def split: prod.splits)
qed

lemma Peer_Connect_safe:
  assumes inv: "app_inv a" and "pr_control (ap_peer a) \<noteq> None"
  shows "safe d app_inv (Peer_Connect J i a)"
proof -
  obtain c where c: "pr_control (ap_peer a) = Some c" using assms(2) by blast
  obtain s where s: "ap_signal a = Some s" using current_control(3) [OF inv c] by blast
  note sig = current_control(4) [OF inv c]
  show ?thesis
    using c sig inv Control_SendCommand_run [OF sig s]
    by (simp add: Peer_Connect_def Control_Connect_def Control_JoinChannel_def)
qed

lemma Peer_Send_safe:
  assumes inv: "app_inv a" and "pr_control (ap_peer a) \<noteq> None"
  shows "safe (dbg cx) (\<lambda>(a', ok). app_inv a') (Peer_Send cx i data wait a)"
proof -
  obtain c where c: "pr_control (ap_peer a) = Some c" using assms(2) by blast
  have live: "pc_live (ap_pcs a p)" if "map_find (ct_peers (ap_ctls a c)) i = Some p" for p
    using table_lookup [OF inv that] by (simp add: entry_ok_def)
  show ?thesis
    using c inv live
    by (auto simp: Peer_Send_def Control_Send_def Control_SyncSend_def and_then_assoc split: option.splits
        intro!: safe_and_then [OF safe_pc_calls(3)] safe_and_then [OF safe_pc_calls(4)])
qed

subsection \<open>Opening\<close>

lemma fresh_address:
  assumes "app_inv a"
  defines "i \<equiv> ap_next_ctl a"
  shows "\<not> ct_alive (ap_ctls a i)" and "i \<notin> set (ap_slots a)"
    and "m \<in> set (ap_queue a) \<Longrightarrow> q_target m \<noteq> i" and "ap_busy a = Some m \<Longrightarrow> q_target m \<noteq> i"
proof -
  show dead: "\<not> ct_alive (ap_ctls a i)"
    using app_inv_ctl [OF assms(1), of i] by (auto simp: ctl_ok_def Let_def i_def)
  show "i \<notin> set (ap_slots a)"
    using app_inv_ctl [OF assms(1), of i] dead by (auto simp: ctl_ok_def Let_def)
  show "m \<in> set (ap_queue a) \<Longrightarrow> q_target m \<noteq> i" "ap_busy a = Some m \<Longrightarrow> q_target m \<noteq> i"
    using assms(1) dead by (auto simp: app_inv_def own_inv_def msg_ok_def)
qed

text \<open>The state after \<open>Control_ctor\<close> at a fresh address, with the final fields \<open>c\<close> of the new object.\<close>

definition add_control :: "control \<Rightarrow> nat option \<Rightarrow> 'j app \<Rightarrow> 'j app" where
  "add_control c current a =
     a\<lparr>ap_ctls := (ap_ctls a)(ap_next_ctl a := c), ap_next_ctl := Suc (ap_next_ctl a),
       ap_slots := ap_slots a @ [ap_next_ctl a],
       ap_peer := (ap_peer a)\<lparr>pr_control := current\<rparr>\<rparr>"

lemma add_control_inv:
  assumes inv: "app_inv a" and none: "pr_control (ap_peer a) = None" and sig: "ap_signal a = Some s"
    and c: "ct_alive c" "registered c" "ct_ref c" "ct_signal c = Some ()" "ct_peers c = []"
    and cur: "initialised c \<Longrightarrow> ct_factory c = Some () \<and> current = Some (ap_next_ctl a) \<and>
        ct_peer_name c = pr_peer_id (ap_peer a)"
      "\<not> initialised c \<Longrightarrow> current = None"
  shows "app_inv (add_control c current a)"
proof -
  let ?b = "add_control c current a" and ?i = "ap_next_ctl a"
  note fresh = fresh_address [OF inv]
  have g: "ap_ctls ?b j = (if j = ?i then c else ap_ctls a j)" for j by (simp add: add_control_def)
  have f: "ap_signal ?b = Some s" "pr_control (ap_peer ?b) = current" "ap_next_ctl ?b = Suc ?i"
    "ap_slots ?b = ap_slots a @ [?i]" "ap_queue ?b = ap_queue a" "ap_busy ?b = ap_busy a"
    "pr_handlers (ap_peer ?b) = pr_handlers (ap_peer a)" "pr_peer_id (ap_peer ?b) = pr_peer_id (ap_peer a)"
    using sig by (simp_all add: add_control_def)
  have ctl: "ctl_ok ?b j" for j
  proof (cases "j = ?i")
    case True
    show ?thesis unfolding ctl_ok_def f g using True c cur by (cases "initialised c") simp_all
  next
    case False
    have "current \<noteq> Some j" using cur False by (cases "initialised c") auto
    then show ?thesis
      using app_inv_ctl [OF inv, of j] False none unfolding ctl_ok_def f g by (auto simp: Let_def)
  qed
  have msg: "msg_ok ?b m" if "m \<in> set (ap_queue a) \<or> ap_busy a = Some m" for m
    using that inv fresh(3,4) [of m] by (auto simp: msg_ok_def g app_inv_def own_inv_def)
  have tab: "table_inv ?b"
    using inv c(5) unfolding table_inv_def g entry_ok_def
    by (auto simp: app_inv_def table_inv_def entry_ok_def add_control_def)
  show ?thesis
    using inv ctl msg tab handlers_ok_cong [OF f(7)] by (simp add: app_inv_def own_inv_def f)
qed

lemma Peer_Open_run:
  fixes a :: "'j app"
  assumes none: "pr_control (ap_peer a) = None"
  defines "s \<equiv> (case ap_signal a of None \<Rightarrow> Signal_ctor (pr_signal_uri (ap_peer a)) | Some s \<Rightarrow> s)"
  defines "c \<equiv> (fresh_control (Some ()))\<lparr>ct_ref := True, ct_observer := Some ()\<rparr>"
  defines "p \<equiv> ap_peer a"
  shows "Peer_Open cx a = Inr (
    if cx_audio_ok cx \<and> cx_factory_ok cx then
      let (s', out) = Signal_Open (pr_signal_id p) (pr_signal_password p) s
      in emit_sig out (add_control
           (c\<lparr>ct_audio := Some (), ct_factory := Some (), ct_thread := Some (cx_thread cx),
              ct_peer_name := pr_peer_id p, ct_user_id := pr_signal_id p\<rparr>)
           (Some (ap_next_ctl a)) (a\<lparr>ap_signal := Some s'\<rparr>))
    else add_control c None (a\<lparr>ap_signal := Some s\<rparr>))"
proof -
  define b where "b = a\<lparr>ap_signal := Some s\<rparr>"
  let ?i = "ap_next_ctl a"
  have start: "(case ap_signal a of
      None \<Rightarrow> a\<lparr>ap_signal := Some (Signal_ctor (pr_signal_uri (ap_peer a)))\<rparr> | Some _ \<Rightarrow> a) = b"
    by (cases "ap_signal a") (simp_all add: b_def s_def)
  have reg: "Control_RegisterObserver ?i (upd_peer (\<lambda>p. p\<lparr>pr_control := Some ?i\<rparr>)
      (b\<lparr>ap_ctls := (ap_ctls b)(?i := fresh_control (Some ())), ap_next_ctl := Suc ?i,
         ap_slots := ap_slots b @ [?i]\<rparr>)) = add_control c (Some ?i) b"
    by (simp add: Control_RegisterObserver_def upd_defs add_control_def b_def c_def)
  have ini: "Control_InitializeControl cx ?i (add_control c (Some ?i) b) = Inr (
      if cx_audio_ok cx \<and> cx_factory_ok cx
      then (add_control (c\<lparr>ct_audio := Some (), ct_factory := Some (), ct_thread := Some (cx_thread cx)\<rparr>) (Some ?i) b, True)
      else (add_control c (Some ?i) b, False))"
    by (simp add: Control_InitializeControl_def Control_CreatePeerFactory_def Control_DeleteControl_def
        add_control_def upd_ctl_def c_def fresh_control_def b_def Let_def)
  have fail: "release_control cx ?i (upd_peer (\<lambda>p. p\<lparr>pr_control := None\<rparr>) (add_control c (Some ?i) b)) =
      Inr (add_control c None b)"
    by (simp add: release_control_def referenced_def add_control_def upd_peer_def c_def b_def)
  have ctor: "Control_ctor (Some ()) b = Inr (b\<lparr>ap_ctls := (ap_ctls b)(?i := fresh_control (Some ())),
      ap_next_ctl := Suc ?i, ap_slots := ap_slots b @ [?i]\<rparr>, ?i)"
    by (simp add: Control_ctor_def Let_def b_def)
  have opn: "Control_Open ?i u w n (add_control e (Some ?i) b) =
      (let (s', out) = Signal_Open u w s
       in emit_sig out (add_control (e\<lparr>ct_peer_name := n, ct_user_id := u\<rparr>) (Some ?i) (a\<lparr>ap_signal := Some s'\<rparr>)))"
    if "ct_signal e = Some ()" for u w n e
    using that
    by (cases a) (simp add: Control_Open_def add_control_def upd_ctl_def b_def Let_def split: prod.splits)
  have fields: "ap_peer (add_control e (Some ?i) b) = p\<lparr>pr_control := Some ?i\<rparr>" for e
    by (simp add: add_control_def b_def p_def)
  have sig: "ct_signal (c\<lparr>ct_audio := Some (), ct_factory := Some (), ct_thread := Some (cx_thread cx)\<rparr>) = Some ()"
    by (simp add: c_def fresh_control_def)
  have "Peer_Open cx a = and_then (Control_InitializeControl cx ?i (add_control c (Some ?i) b))
      (\<lambda>(a, ok). if \<not> ok then release_control cx ?i (upd_peer (\<lambda>p. p\<lparr>pr_control := None\<rparr>) a)
         else Inr (Control_Open ?i (pr_signal_id (ap_peer a)) (pr_signal_password (ap_peer a))
                     (pr_peer_id (ap_peer a)) a))"
    unfolding Peer_Open_def using none by (simp only: start ctor Let_def and_then_simps reg case_prod_conv) simp
  then show ?thesis
    unfolding ini using fail by (simp add: opn [OF sig] fields b_def [symmetric])
qed

lemma Peer_Open_safe:
  assumes inv: "app_inv a"
  shows "safe d app_inv (Peer_Open cx a)"
proof (cases "pr_control (ap_peer a)")
  case (Some i)
  then show ?thesis using inv by (simp add: Peer_Open_def)
next
  case None
  have add: "app_inv (add_control c current (a\<lparr>ap_signal := Some s\<rparr>))"
    if "ct_alive c" "registered c" "ct_ref c" "ct_signal c = Some ()" "ct_peers c = []"
      "initialised c \<Longrightarrow> ct_factory c = Some () \<and> current = Some (ap_next_ctl a) \<and>
        ct_peer_name c = pr_peer_id (ap_peer a)"
      "\<not> initialised c \<Longrightarrow> current = None" for c current s
    by (rule add_control_inv [OF signal_inv [OF inv]]) (use that None in simp_all)
  show ?thesis
    unfolding Peer_Open_run [OF None]
    by (auto simp: fresh_control_def initialised_def registered_def split: prod.splits intro!: add)
qed

subsection \<open>Sigslots of the signal connection\<close>

text \<open>An event of \<open>Signal\<close> runs the slot of every connected \<open>Control\<close>, in the order of connection.\<close>

definition run_sigslot :: "'j sig_out \<Rightarrow> 'j app \<Rightarrow> 'j app res" where
  "run_sigslot x a =
     (case x of
        SignalOnCommandReceived j \<Rightarrow> fold_res (\<lambda>i. Control_OnSignalCommandReceived i j) (ap_slots a) a
      | SignalOnClosed code \<Rightarrow> fold_res (\<lambda>i. Control_OnSignalConnectionClosed i code) (ap_slots a) a
      | _ \<Rightarrow> Inr a)"

definition signal_event :: "signal \<Rightarrow> 'j sig_out list \<Rightarrow> 'j app \<Rightarrow> 'j app res" where
  "signal_event s out a = fold_res run_sigslot out (emit_sig out (a\<lparr>ap_signal := Some s\<rparr>))"

text \<open>A state with the slots and controls of \<open>a\<close>.\<close>

definition like :: "'j app \<Rightarrow> 'j app \<Rightarrow> bool" where
  "like a b \<longleftrightarrow> app_inv b \<and> ap_slots b = ap_slots a \<and> ap_ctls b = ap_ctls a"

lemma slot_post:
  assumes "like a b" and "i \<in> set (ap_slots a)"
  shows "all_ok (like a) (post i m b)"
    and "initialised (ap_ctls a i) \<Longrightarrow> safe d (like a) (post i m b)"
proof -
  have inv: "app_inv b" and eq: "ap_ctls b = ap_ctls a" "ap_slots b = ap_slots a"
    using assms(1) by (simp_all add: like_def)
  have alive: "ct_alive (ap_ctls b i)"
    using app_inv_ctl [OF inv, of i] assms(2) eq by (simp add: ctl_ok_def Let_def)
  have *: "safe d (like a) (post i m b)" if "initialised (ap_ctls a i)" for d
    using post_keeps [of i b m] inv alive that app_inv_queue [OF inv] eq
    by (auto simp: attached_def like_def)
  then show "initialised (ap_ctls a i) \<Longrightarrow> safe d (like a) (post i m b)" .
  show "all_ok (like a) (post i m b)"
    using safe_all_ok [OF *] eq by (cases "ct_thread (ap_ctls a i)") (auto simp: post_def initialised_def)
qed

lemma slot_call:
  assumes "like a b" and "i \<in> set (ap_slots a)"
  shows "all_ok (like a) (Control_OnSignalCommandReceived i j b)"
    and "all_ok (like a) (Control_OnSignalConnectionClosed i code b)"
    and "initialised (ap_ctls a i) \<Longrightarrow> safe d (like a) (Control_OnSignalCommandReceived i j b)"
    and "initialised (ap_ctls a i) \<Longrightarrow> safe d (like a) (Control_OnSignalConnectionClosed i code b)"
  using assms(1) slot_post [OF assms]
  by (simp_all add: Control_OnSignalCommandReceived_def Control_OnSignalConnectionClosed_def)

lemma run_sigslot_like:
  assumes "like a b"
  shows "all_ok (like a) (run_sigslot x b)"
    and "(\<And>i. i \<in> set (ap_slots a) \<Longrightarrow> initialised (ap_ctls a i)) \<Longrightarrow> safe d (like a) (run_sigslot x b)"
proof -
  have sl: "ap_slots b = ap_slots a" using assms by (simp add: like_def)
  show "all_ok (like a) (run_sigslot x b)"
    unfolding run_sigslot_def sl using assms
    by (auto split: sig_out.split intro!: all_ok_fold_res slot_call)
  show "safe d (like a) (run_sigslot x b)" if "\<And>i. i \<in> set (ap_slots a) \<Longrightarrow> initialised (ap_ctls a i)"
    unfolding run_sigslot_def sl using assms that
    by (auto split: sig_out.split intro!: safe_fold_res slot_call)
qed

lemma signal_event_keeps:
  assumes "app_inv a"
  shows "all_ok (like a) (signal_event s out a)"
    and "(\<And>i. i \<in> set (ap_slots a) \<Longrightarrow> initialised (ap_ctls a i)) \<Longrightarrow> safe d (like a) (signal_event s out a)"
proof -
  have start: "like a (emit_sig out (a\<lparr>ap_signal := Some s\<rparr>))"
    using signal_inv [OF assms, of s] by (simp add: like_def) (simp add: emit_sig_def)
  then show "all_ok (like a) (signal_event s out a)"
    unfolding signal_event_def by (rule all_ok_fold_res) (rule run_sigslot_like)
  show "safe d (like a) (signal_event s out a)"
    if "\<And>i. i \<in> set (ap_slots a) \<Longrightarrow> initialised (ap_ctls a i)"
    unfolding signal_event_def using start by (rule safe_fold_res) (rule run_sigslot_like(2) [OF _ that])
qed

subsection \<open>Callbacks of WebRTC\<close>

datatype rtc_event =
    OnDataChannel nat
  | OnIceConnectionChange ice_state
  | OnIceCandidate string int "string option"
  | OnSuccess string "string option"
  | OnStateChange side
  | OnDcMessage bytes side
  | OnBufferedAmountChange side

definition pc_callback ::
    "'j json_lib \<Rightarrow> rtc_env \<Rightarrow> rtc_event \<Rightarrow> peer_control \<Rightarrow> (peer_control \<times> 'j pc_out list) res" where
  "pc_callback J env ev pc =
     (case ev of
        OnDataChannel ch \<Rightarrow> Inr (PC_OnDataChannel env ch pc)
      | OnIceConnectionChange st \<Rightarrow> Inr (pc, PC_OnIceConnectionChange st pc)
      | OnIceCandidate mid idx text \<Rightarrow> Inr (pc, PC_OnIceCandidate J mid idx text pc)
      | OnSuccess type text \<Rightarrow> Inr (pc, PC_OnSuccess J type text pc)
      | OnStateChange sd \<Rightarrow> DC_OnStateChange env sd pc
      | OnDcMessage buf sd \<Rightarrow> Inr (pc, DC_OnMessage buf sd pc)
      | OnBufferedAmountChange sd \<Rightarrow> and_then (DC_OnBufferedAmountChange env sd pc) (\<lambda>out. Inr (pc, out)))"

definition app_callback :: "'j json_lib \<Rightarrow> ctx \<Rightarrow> nat \<Rightarrow> rtc_event \<Rightarrow> 'j app \<Rightarrow> 'j app res" where
  "app_callback J cx p ev a =
     and_then (pc_callback J (cx_env cx) ev (ap_pcs a p)) (\<lambda>r. run_pc J cx (ap_owner a p) p r a)"

text \<open>A callback never tells the owner about a close directly: it queues a request to close.\<close>

fun quiet :: "'j pc_out \<Rightarrow> bool" where
  "quiet (CtlClosePeer i c force) = force"
| "quiet (CtlOnPeerClose i c) = False"
| "quiet _ = True"

lemma Disconnected_quiet: "x \<in> set (PC_OnPeerDisconnected pc) \<Longrightarrow> quiet x"
  by (auto simp: PC_OnPeerDisconnected_def split: if_splits)

lemma pc_callback_result:
  assumes "pc_callback J env ev pc = Inr (pc', out)"
  shows "pc_remote_id pc' = pc_remote_id pc" and "pc_live pc \<Longrightarrow> pc_live pc'"
    and "x \<in> set out \<Longrightarrow> quiet x"
proof -
  have *: "pc_remote_id pc' = pc_remote_id pc \<and> (pc_live pc \<longrightarrow> pc_live pc') \<and> (\<forall>x \<in> set out. quiet x)"
  proof (cases ev)
    case (OnStateChange sd)
    with assms have "DC_OnStateChange env sd pc = Inr (pc', out)" by (simp add: pc_callback_def)
    then show ?thesis
      by (auto dest!: DC_OnStateChange_result PC_OnPeerOpened_result simp: pc_live_def Disconnected_quiet)
  next
    case (OnDataChannel ch)
    with assms show ?thesis
      by (auto simp: pc_callback_def PC_OnDataChannel_def DC_ctor_def DC_dtor_def pc_live_def split: option.splits)
  next
    case (OnBufferedAmountChange sd)
    with assms show ?thesis
      by (auto simp: pc_callback_def DC_OnBufferedAmountChange_def PC_OnBufferedAmountChange_def
          and_then_eq_Inr split: option.splits if_splits)
  next
    case (OnIceConnectionChange st)
    with assms show ?thesis
      by (auto simp: pc_callback_def PC_OnIceConnectionChange_def Disconnected_quiet split: ice_state.splits)
  qed (use assms in \<open>auto simp: pc_callback_def PC_OnIceCandidate_def PC_OnSuccess_def
         PC_SetLocalDescription_def DC_OnMessage_def PC_OnPeerMessage_def Let_def split: option.splits if_splits\<close>)
  then show "pc_remote_id pc' = pc_remote_id pc" "pc_live pc \<Longrightarrow> pc_live pc'" "x \<in> set out \<Longrightarrow> quiet x"
    by blast+
qed

lemma quiet_call_keeps:
  assumes at: "attached this a" and q: "quiet x"
  shows "safe d (attached this) (run_owner_call J cx this x a)"
proof -
  have inv: "app_inv a" using at by (simp add: attached_def)
  have ctl: "\<exists>s. ap_signal a = Some s" "ct_signal (ap_ctls a this) = Some ()"
    using app_inv_ctl [OF inv, of this] at by (simp_all add: ctl_ok_def Let_def attached_def)
  have cmd: "safe d (attached this) (Control_SendCommand J this i c v a)" for i c v
    using ctl at by (auto simp: Control_SendCommand_def)
  have told: "safe d (attached this) r" if "\<exists>a'. r = Inr a' \<and> notified a a'" for r
    using that notified_keeps [of a] at by auto
  note n = Control_notices [OF inv, THEN told]
  show ?thesis
  proof (cases x)
    case (CtlClosePeer i c force)
    with q post_safe(1) [OF at] show ?thesis by (simp add: run_owner_call_def Control_ClosePeer_def)
  qed (use q at cmd n in \<open>simp_all add: run_owner_call_def\<close>)
qed

lemma quiet_call_inv:
  assumes "app_inv a" and "ct_alive (ap_ctls a this)" and "quiet x"
  shows "all_ok (\<lambda>a'. app_inv a' \<and> ct_alive (ap_ctls a' this)) (run_owner_call J cx this x a)"
proof (cases "initialised (ap_ctls a this)")
  case True
  then have "safe False (attached this) (run_owner_call J cx this x a)"
    using assms by (intro quiet_call_keeps) (simp_all add: attached_def)
  then show ?thesis by (rule safe_all_ok [OF safe_mono]) (simp add: attached_def)
next
  case False
  then have "ct_thread (ap_ctls a this) = None" by (simp add: initialised_def)
  have told: "all_ok (\<lambda>a'. app_inv a' \<and> ct_alive (ap_ctls a' this)) r"
    if "\<exists>a'. r = Inr a' \<and> notified a a'" for r
    using that notified_keeps [of a _ this] assms by auto
  note n = Control_notices [OF assms(1), THEN told]
  show ?thesis
    using assms n \<open>ct_thread (ap_ctls a this) = None\<close>
    by (cases x) (auto simp: run_owner_call_def Control_SendCommand_def Control_ClosePeer_def post_def
        intro!: all_ok_and_then [OF all_ok_deref])
qed

lemma app_callback_keeps:
  assumes inv: "app_inv a" and alive: "ct_alive (ap_ctls a (ap_owner a p))"
  shows "all_ok app_inv (app_callback J cx p ev a)"
proof -
  let ?o = "ap_owner a p"
  have "all_ok app_inv (run_pc J cx ?o p r a)"
    if cb: "pc_callback J (cx_env cx) ev (ap_pcs a p) = Inr r" for r
  proof -
    obtain pc out where r: "r = (pc, out)" by (cases r)
    note res = pc_callback_result [OF cb [unfolded r]]
    have "app_inv (upd_pc p pc a)"
      using app_inv_upd_pc [OF inv res(1)] res(2) in_table_live inv by (auto simp: app_inv_def)
    then have start: "app_inv (emit_rtc p out (upd_pc p pc a)) \<and> ct_alive (ap_ctls (emit_rtc p out (upd_pc p pc a)) ?o)"
      using alive by simp
    have "all_ok (\<lambda>a'. app_inv a' \<and> ct_alive (ap_ctls a' ?o))
        (fold_res (run_owner_call J cx ?o) out (emit_rtc p out (upd_pc p pc a)))"
      using start by (rule all_ok_fold_res) (use quiet_call_inv res(3) in blast)
    then show ?thesis by (auto simp: run_pc_def r all_ok_def)
  qed
  then show ?thesis
    unfolding app_callback_def by (auto simp: all_ok_def and_then_eq_Inr)
qed

lemma live_callback_safe:
  assumes "pc_live pc"
  shows "safe (env_debug env) (\<lambda>r. pc_callback J env ev pc = Inr r) (pc_callback J env ev pc)"
  using assms
  by (cases ev) (auto simp: pc_callback_def pc_live_def DC_OnStateChange_def PC_OnPeerOpened_def
      DC_OnBufferedAmountChange_def PC_OnBufferedAmountChange_def rtc_dcheck_def Let_def split: option.splits)

lemma entry_callback_safe:
  assumes inv: "app_inv a" and e: "map_find (ct_peers (ap_ctls a i)) k = Some p"
  shows "safe (dbg cx) app_inv (app_callback J cx p ev a)"
proof -
  have en: "ap_owner a p = i" "pc_live (ap_pcs a p)" using table_lookup [OF inv e] by (simp_all add: entry_ok_def)
  have "ct_peers (ap_ctls a i) \<noteq> []" using e by auto
  then have at: "attached i a"
    using app_inv_ctl [OF inv, of i] inv by (simp add: ctl_ok_def Let_def attached_def)
  show ?thesis
    unfolding app_callback_def en(1)
  proof (rule safe_and_then [OF live_callback_safe [OF en(2)]])
    fix r assume cb: "pc_callback J (cx_env cx) ev (ap_pcs a p) = Inr r"
    obtain pc out where r: "r = (pc, out)" by (cases r)
    note res = pc_callback_result [OF cb [unfolded r]]
    have "app_inv (upd_pc p pc a)" using app_inv_upd_pc [OF inv res(1)] res(2) en(2) by simp
    then have "attached i (emit_rtc p out (upd_pc p pc a))" using at by (simp add: attached_def)
    then have "safe (dbg cx) (attached i) (fold_res (run_owner_call J cx i) out (emit_rtc p out (upd_pc p pc a)))"
      by (rule safe_fold_res) (use quiet_call_keeps res(3) in blast)
    then show "safe (dbg cx) app_inv (run_pc J cx i p r a)"
      by (auto simp: run_pc_def r attached_def elim: safe_mono)
  qed
qed

subsection \<open>Reachable states\<close>

inductive app_step :: "'j json_lib \<Rightarrow> 'j app \<Rightarrow> 'j app \<Rightarrow> bool" for J :: "'j json_lib" where
  set_options: "Peer_SetOptions J options (ap_peer a) = (p, ok) \<Longrightarrow> app_step J a (upd_peer (\<lambda>_. p) a)"
| on_peer: "app_step J a (upd_peer (Peer_On_peer e h) a)"
| on_data: "app_step J a (upd_peer (Peer_On_data e h) a)"
| on_close: "app_step J a (upd_peer (Peer_On_close e h) a)"
| on_message: "app_step J a (upd_peer (Peer_On_message e h) a)"
| open_call: "Peer_Open cx a = Inr a' \<Longrightarrow> app_step J a a'"
| close_call: "Peer_Close J cx i a = Inr a' \<Longrightarrow> app_step J a a'"
| connect_call: "Peer_Connect J i a = Inr a' \<Longrightarrow> app_step J a a'"
| send_call: "Peer_Send cx i data wait a = Inr (a', ok) \<Longrightarrow> app_step J a a'"
| signal: "ap_signal a = Some s \<Longrightarrow> sig_step J s out s' \<Longrightarrow> signal_event s' out a = Inr a' \<Longrightarrow> app_step J a a'"
| webrtc: "p < ap_next_pc a \<Longrightarrow> ct_alive (ap_ctls a (ap_owner a p)) \<Longrightarrow>
     app_callback J cx p ev a = Inr a' \<Longrightarrow> app_step J a a'"
| deliver: "ap_queue a = before @ m # after \<Longrightarrow>
     Control_OnMessage J cx m (a\<lparr>ap_queue := before @ after\<rparr>) = Inr a' \<Longrightarrow> app_step J a a'"

inductive app_reachable :: "'j json_lib \<Rightarrow> 'j app \<Rightarrow> bool" for J :: "'j json_lib" where
  initial: "app_reachable J (app_init (Peer_ctor uuid peer_id))"
| step: "app_reachable J a \<Longrightarrow> app_step J a a' \<Longrightarrow> app_reachable J a'"

lemma init_inv: "app_inv (app_init (Peer_ctor uuid i))"
  by (simp add: app_inv_def own_inv_def table_inv_def ctl_ok_def handlers_ok_def app_init_def
      Peer_ctor_def fresh_control_def registered_def initialised_def)

lemma dequeued:
  assumes "app_inv a" and "ap_queue a = before @ m # after"
  shows "app_inv (a\<lparr>ap_queue := before @ after\<rparr>)" and "msg_ok (a\<lparr>ap_queue := before @ after\<rparr>) m"
  using assms by (auto simp: app_inv_def own_inv_def)

lemma ret_inv: "safe d P r \<Longrightarrow> r = Inr x \<Longrightarrow> P x"
  by simp

lemma app_step_inv: "app_step J a a' \<Longrightarrow> app_inv a \<Longrightarrow> app_inv a'"
proof (induction rule: app_step.induct)
  case (set_options options a p ok)
  note f = SetOptions_frame [OF set_options(1)]
  then have "handlers_ok p"
    using handlers_ok_cong [of p "ap_peer a"] set_options by (simp add: app_inv_def)
  with f set_options show ?case by (intro upd_peer_inv) simp_all
next
  case (open_call cx a a')
  then show ?case using ret_inv [OF Peer_Open_safe] by blast
next
  case (close_call cx i a a')
  then have "pr_control (ap_peer a) \<noteq> None"
    by (auto simp: Peer_Close_def and_then_eq_Inr split: if_splits)
  with close_call show ?case using ret_inv [OF Peer_Close_safe] by blast
next
  case (connect_call i a a')
  then have "pr_control (ap_peer a) \<noteq> None" by (auto simp: Peer_Connect_def and_then_eq_Inr)
  with connect_call show ?case using ret_inv [OF Peer_Connect_safe] by blast
next
  case (send_call cx i data wait a a' ok)
  then have "pr_control (ap_peer a) \<noteq> None" by (auto simp: Peer_Send_def and_then_eq_Inr)
  with send_call show ?case using ret_inv [OF Peer_Send_safe] by fastforce
next
  case (signal a s out s' a')
  then show ?case using all_okD [OF signal_event_keeps(1)] by (auto simp: like_def)
next
  case (webrtc p a cx ev a')
  then show ?case using all_okD [OF app_callback_keeps] by blast
next
  case (deliver a before m after cx a')
  note dq = dequeued [OF deliver.prems deliver.hyps(1)]
  show ?case using all_okD [OF Control_OnMessage_keeps(1) [OF dq] deliver.hyps(2)] by simp
qed (rule upd_peer_inv; simp add: On_control handlers_ok_On app_inv_def)+

lemma reachable_inv: "app_reachable J a \<Longrightarrow> app_inv a"
  by (induction rule: app_reachable.induct) (auto simp: init_inv app_step_inv)

end
