(* ===== verification/System_Sample.thy ===== *)
theory System_Sample
  imports Peer_System
begin

section \<open>A sample run\<close>

text \<open>
  A concrete application for witnesses: peer \<open>a\<close> registers a close handler and opens, the signal
  connection comes up, the server asks it to offer a connection to peer \<open>b\<close>, and the message is
  delivered. Peer \<open>b\<close> is then an entry of the table.
\<close>

definition j_offer :: jtree where
  "j_offer = JObject [(''command'', JString ''createoffer''),
     (''data'', JObject [(''peers'', JArray [JString ''b''])])]"

definition J0 :: "jtree json_lib" where
  "J0 = jt_lib (\<lambda>s. if s = ''offer'' then Some j_offer else None) (\<lambda>_. [])"

definition cx0 :: ctx where
  "cx0 = \<lparr>cx_env = env_ok, cx_thread = WebrtcThread, cx_garbage = 0, cx_audio_ok = True,
     cx_factory_ok = True, cx_last_ref = (\<lambda>_. True)\<rparr>"

definition app0 :: "jtree app" where
  "app0 = upd_peer (Peer_On_close ''close'' 7) (app_init (Peer_ctor ''u'' ''a''))"

definition ok_state :: "'a res \<Rightarrow> 'a \<Rightarrow> 'a" where
  "ok_state r d = (case r of Inr x \<Rightarrow> x | Inl _ \<Rightarrow> d)"

definition app_opened :: "jtree app" where
  "app_opened = ok_state (Peer_Open cx0 app0) app0"

definition sig_online :: signal where
  "sig_online = fst (Signal_OnOpen J0 1 (the (ap_signal app_opened)))"

definition app_online :: "jtree app" where
  "app_online = ok_state (signal_event sig_online
     (snd (Signal_OnOpen J0 1 (the (ap_signal app_opened)))) app_opened) app_opened"

definition app_asked :: "jtree app" where
  "app_asked = ok_state (signal_event sig_online (Signal_OnMessage J0 ''offer'') app_online) app_online"

definition q_offer :: "jtree queued" where
  "q_offer = \<lparr>q_target = 0, q_ref = True, q_msg = MSG_COMMAND_RECEIVED j_offer\<rparr>"

definition app_offered :: "jtree app" where
  "app_offered = ok_state (Control_OnMessage J0 cx0 q_offer (app_asked\<lparr>ap_queue := []\<rparr>)) app_asked"

definition is_ok :: "'a res \<Rightarrow> bool" where
  "is_ok r = (case r of Inr _ \<Rightarrow> True | Inl _ \<Rightarrow> False)"

lemma is_ok_state: "is_ok r \<Longrightarrow> r = Inr (ok_state r d)"
  by (cases r) (simp_all add: is_ok_def ok_state_def)

definition sig0 :: signal where
  "sig0 = the (ap_signal app_opened)"

lemma sample_runs:
  "is_ok (Peer_Open cx0 app0)"
  "ap_signal app_opened = Some sig0"
  "sg_con_state sig0 = con_opening"
  "is_ok (signal_event sig_online (snd (Signal_OnOpen J0 1 sig0)) app_opened)"
  "ap_signal app_online = Some sig_online"
  "is_ok (signal_event sig_online (Signal_OnMessage J0 ''offer'') app_online)"
  "ap_queue app_asked = [q_offer]"
  "is_ok (Control_OnMessage J0 cx0 q_offer (app_asked\<lparr>ap_queue := []\<rparr>))"
  "map_find (ct_peers (ap_ctls app_offered 0)) ''b'' = Some 0"
  by code_simp+

lemma reachable_app0: "app_reachable J0 app0"
  unfolding app0_def
  by (rule app_reachable.step [OF app_reachable.initial app_step.on_close])

lemma reachable_opened: "app_reachable J0 app_opened"
  using app_reachable.step [OF reachable_app0 app_step.open_call]
    is_ok_state [OF sample_runs(1)] unfolding app_opened_def by blast

lemma reachable_online: "app_reachable J0 app_online"
proof -
  have "sig_step J0 sig0 (snd (Signal_OnOpen J0 1 sig0)) sig_online"
    by (rule sig_step.opened_cb [OF sample_runs(3)]) (simp add: sig_online_def sig0_def)
  moreover have "signal_event sig_online (snd (Signal_OnOpen J0 1 sig0)) app_opened = Inr app_online"
    using is_ok_state [OF sample_runs(4)] by (simp add: app_online_def sig0_def)
  ultimately show ?thesis
    using app_reachable.step [OF reachable_opened app_step.signal [OF sample_runs(2)]] by blast
qed

lemma reachable_asked: "app_reachable J0 app_asked"
proof -
  have "sig_step J0 sig_online (Signal_OnMessage J0 ''offer'') sig_online"
    by (rule sig_step.message_cb) simp
  moreover have "signal_event sig_online (Signal_OnMessage J0 ''offer'') app_online = Inr app_asked"
    using is_ok_state [OF sample_runs(6)] by (simp add: app_asked_def)
  ultimately show ?thesis
    using app_reachable.step [OF reachable_online app_step.signal [OF sample_runs(5)]] by blast
qed

lemma asked_offered:
  "Control_OnMessage J0 cx0 q_offer (app_asked\<lparr>ap_queue := [] @ []\<rparr>) = Inr app_offered"
  using is_ok_state [OF sample_runs(8)] by (simp add: app_offered_def)

lemma reachable_offered: "app_reachable J0 app_offered"
proof (rule app_reachable.step [OF reachable_asked app_step.deliver])
  show "ap_queue app_asked = [] @ q_offer # []" using sample_runs(7) by simp
  show "Control_OnMessage J0 cx0 q_offer (app_asked\<lparr>ap_queue := [] @ []\<rparr>) = Inr app_offered"
    by (rule asked_offered)
qed

end
