(* ===== verification/Close_Cascade.thy ===== *)
theory Close_Cascade
  imports System_Sample
begin

section \<open>What closing does, exactly\<close>

text \<open>
  The functional behaviour of \<open>ClosePeer\<close> and \<open>Close\<close> in a release build, on the thread of the
  \<open>Control\<close>: which events the user sees, in which order, and what is left of the tables.
\<close>

text \<open>The situation in which a close is processed and its events reach the user's handler \<open>h\<close>.\<close>

definition hears :: "ctx \<Rightarrow> nat \<Rightarrow> nat \<Rightarrow> 'j app \<Rightarrow> bool" where
  "hears cx this h a \<longleftrightarrow> active this a \<and> registered (ap_ctls a this) \<and> \<not> dbg cx \<and>
     ct_thread (ap_ctls a this) = Some (cx_thread cx) \<and>
     map_find (pr_handlers (ap_peer a)) ''close'' = Some (EventHandler_Close h)"

lemma hears_active: "hears cx this h a \<Longrightarrow> active this a"
  by (simp add: hears_def)

text \<open>Releasing an object in a release build changes nothing but that object and the WebRTC calls.\<close>

lemma release_pc_release:
  "\<not> dbg cx \<Longrightarrow> \<exists>pcs calls. release_pc cx p a = Inr (a\<lparr>ap_pcs := pcs, ap_rtc_calls := calls\<rparr>)"
proof (cases "cx_last_ref cx p")
  case True
  assume "\<not> dbg cx"
  then show ?thesis
    using True
    by (cases a) (auto simp: release_pc_def PeerControl_dtor_def upd_pc_def emit_rtc_def split: prod.splits)
next
  case False
  then show ?thesis by (cases a) (auto simp: release_pc_def)
qed

lemma upd_ctl_pcs: "ap_pcs (upd_ctl i f a) = ap_pcs a"
  by (simp add: upd_ctl_def)

lemma ClosePeer_run:
  fixes a :: "'j app"
  assumes h: "hears cx this h a"
    and e: "map_find (ct_peers (ap_ctls a this)) k = Some p" and other: "k \<noteq> pr_peer_id (ap_peer a)"
    and s: "ap_signal a = Some s"
  shows "\<exists>pcs calls. Control_ClosePeer J cx this k code False a = Inr (a\<lparr>
      ap_ctls := (ap_ctls a)(this := (ap_ctls a this)\<lparr>ct_peers := map_erase k (ct_peers (ap_ctls a this))\<rparr>),
      ap_pcs := pcs, ap_events := ap_events a @ [CallClose h k code []],
      ap_sig_calls := ap_sig_calls a @ Signal_SendCommand J k ''leavechannel'' (name_data J k) s,
      ap_rtc_calls := calls\<rparr>)"
proof -
  note act = hears_active [OF h]
  let ?b = "upd_ctl this (\<lambda>c. c\<lparr>ct_peers := map_erase k (ct_peers c)\<rparr>) a"
  have en: "pc_live (ap_pcs a p)" "pc_remote_id (ap_pcs a p) = k"
    using table_lookup [OF active_D(1) [OF act] e] by (simp_all add: entry_ok_def)
  obtain pc where pc: "PC_Close code (ap_pcs a p) = (pc, [CtlOnPeerClose k code] :: 'j pc_out list)"
    using en by (auto simp: PC_Close_def pc_live_def Let_def)
  let ?c = "upd_pc p pc ?b"
  have th: "ct_thread (ap_ctls a this) = Some (cx_thread cx)" using h by (simp add: hears_def)
  have notice: "Control_OnPeerClose cx this k code ?c = Inr (emit_event (CallClose h k code []) ?c)"
    using h other
    by (simp add: Control_OnPeerClose_def Peer_OnClose_cases hears_def upd_defs registered_def
        tell_close_def has_handler_def call_close_handler_def)
  have leave: "Control_LeaveChannel J this k (emit_event x ?c) =
      Inr (emit_sig (Signal_SendCommand J k ''leavechannel'' (name_data J k) s) (emit_event x ?c))" for x
    using s active_D(5) [OF act]
    by (simp add: Control_LeaveChannel_def Control_SendCommand_def upd_defs)
  have run: "Control_ClosePeer J cx this k code False a =
      release_pc cx p (emit_sig (Signal_SendCommand J k ''leavechannel'' (name_data J k) s)
        (emit_event (CallClose h k code []) ?c))"
    using e th pc notice leave
    by (simp add: Control_ClosePeer_def Let_def run_close_notice_def upd_ctl_pcs)
  obtain pcs calls where "release_pc cx p (emit_sig (Signal_SendCommand J k ''leavechannel'' (name_data J k) s)
        (emit_event (CallClose h k code []) ?c)) =
      Inr ((emit_sig (Signal_SendCommand J k ''leavechannel'' (name_data J k) s)
        (emit_event (CallClose h k code []) ?c))\<lparr>ap_pcs := pcs, ap_rtc_calls := calls\<rparr>)"
    using release_pc_release h unfolding hears_def by blast
  with run show ?thesis
    by (intro exI [of _ pcs] exI [of _ calls], cases a) (simp add: upd_defs)
qed

subsection \<open>All peers\<close>

text \<open>
  What the user sees of a close is decided by three things: whether the control still has its
  observer, the fields of the \<open>Peer\<close>, and the events so far. \<open>notice\<close> says what one report does to
  them: a report about the local peer is dropped if one was made since the last open event
  (\<open>close_once_\<close>), and otherwise ends the life of the control.
\<close>

type_synonym close_view = "bool \<times> peer \<times> user_event list"

definition view :: "nat \<Rightarrow> 'j app \<Rightarrow> close_view" where
  "view this a = (registered (ap_ctls a this), ap_peer a, ap_events a)"

fun notice :: "nat \<Rightarrow> CloseCode \<Rightarrow> string \<Rightarrow> close_view \<Rightarrow> close_view" where
  "notice h code k (reg, p, evs) =
     (if \<not> reg then (reg, p, evs)
      else if k \<noteq> pr_peer_id p then (reg, p, evs @ [CallClose h k code []])
      else if pr_close_once p then (reg, p, evs)
      else (False, p\<lparr>pr_close_once := True, pr_control := None\<rparr>, evs @ [CallClose h k code []]))"

text \<open>All reports of \<open>Control::Close\<close>: the peers of the table, then the local peer.\<close>

lemma notices:
  "fold (notice h code) (ks @ [pr_peer_id p]) (True, p, evs) =
    (if pr_close_once p
     then (True, p, evs @ map (\<lambda>k. CallClose h k code []) (filter (\<lambda>k. k \<noteq> pr_peer_id p) ks))
     else (False, p\<lparr>pr_close_once := True, pr_control := None\<rparr>,
       evs @ map (\<lambda>k. CallClose h k code []) (takeWhile (\<lambda>k. k \<noteq> pr_peer_id p) ks @ [pr_peer_id p])))"
proof -
  have gone: "fold (notice h code) ks (False, q, es) = (False, q, es)" for ks q es
    by (induction ks) simp_all
  show ?thesis by (induction ks arbitrary: evs) (simp_all add: gone)
qed

text \<open>The situation in which a close is processed, whether or not the control is observed.\<close>

definition closes :: "ctx \<Rightarrow> nat \<Rightarrow> nat \<Rightarrow> 'j app \<Rightarrow> bool" where
  "closes cx this h a \<longleftrightarrow> active this a \<and> \<not> dbg cx \<and> ct_thread (ap_ctls a this) = Some (cx_thread cx) \<and>
     map_find (pr_handlers (ap_peer a)) ''close'' = Some (EventHandler_Close h) \<and>
     ct_ref (ap_ctls a this) = registered (ap_ctls a this)"

lemma closes_active: "closes cx this h a \<Longrightarrow> active this a"
  by (simp add: closes_def)

definition same_work :: "nat \<Rightarrow> 'j app \<Rightarrow> 'j app \<Rightarrow> bool" where
  "same_work this a b \<longleftrightarrow> same_peers a b \<and> ap_queue b = ap_queue a \<and> ct_peer_name (ap_ctls b this) = ct_peer_name (ap_ctls a this)"

lemma Peer_OnClose_notice:
  assumes c: "closes cx this h a" and reg: "registered (ap_ctls a this)"
  shows "\<exists>b. Peer_OnClose cx k code [] a = Inr b \<and> closes cx this h b \<and> same_work this a b \<and>
    view this b = notice h code k (view this a)"
proof -
  note act = closes_active [OF c]
  have tell: "tell_close k code [] b = Inr (emit_event (CallClose h k code []) b)"
    if "pr_handlers (ap_peer b) = pr_handlers (ap_peer a)" for b :: "'a app"
    using that c by (simp add: closes_def tell_close_def has_handler_def call_close_handler_def)
  consider "k \<noteq> pr_peer_id (ap_peer a)" | "k = pr_peer_id (ap_peer a)" "pr_close_once (ap_peer a)"
    | "k = pr_peer_id (ap_peer a)" "\<not> pr_close_once (ap_peer a)" by blast
  then show ?thesis
  proof cases
    case 1
    then show ?thesis
      using tell [of a] c reg
      by (simp add: Peer_OnClose_cases closes_def same_work_def view_def) (simp add: emit_event_def)
  next
    case 2
    then show ?thesis using c reg by (simp add: Peer_OnClose_cases same_work_def view_def)
  next
    case 3
    define b where "b = emit_event (CallClose h k code []) (upd_peer (\<lambda>p. p\<lparr>pr_close_once := True\<rparr>) a)"
    have b: "active this b" "registered (ap_ctls b this)" using act reg by (simp_all add: b_def)
    note drop = drop_pinned [OF b, of cx]
    let ?d = "upd_peer (\<lambda>p. p\<lparr>pr_control := None\<rparr>) (Control_UnregisterObserver this b)"
    have "Peer_OnClose cx k code [] a = Inr ?d"
      using 3 tell [of "upd_peer (\<lambda>p. p\<lparr>pr_close_once := True\<rparr>) a"] drop active_D(7) [OF b]
      by (simp add: Peer_OnClose_cases b_def upd_peer_def)
    moreover have "same_peers a ?d"
    proof (rule same_peers_trans)
      show "same_peers a b" by (simp add: b_def)
      show "same_peers b ?d" using drop by simp
    qed
    moreover have "closes cx this h ?d" "view this ?d = notice h code k (view this a)" "same_work this b ?d"
      using drop c reg 3
      by (simp_all add: closes_def view_def same_work_def Control_UnregisterObserver_def upd_defs b_def registered_def)
    ultimately show ?thesis by (auto simp: same_work_def b_def upd_defs)
  qed
qed

lemma Control_OnPeerClose_notice:
  assumes "closes cx this h a"
  shows "\<exists>b. Control_OnPeerClose cx this k code a = Inr b \<and> closes cx this h b \<and> same_work this a b \<and>
    view this b = notice h code k (view this a)"
proof (cases "registered (ap_ctls a this)")
  case True
  then show ?thesis
    using Peer_OnClose_notice [OF assms True, of k code] assms by (simp add: Control_OnPeerClose_def closes_def registered_def)
next
  case False
  then show ?thesis using assms by (simp add: Control_OnPeerClose_def closes_def registered_def view_def same_work_def)
qed

lemma ClosePeer_notice:
  fixes a :: "'j app"
  assumes c: "closes cx this h a" and e: "map_find (ct_peers (ap_ctls a this)) k = Some p"
  shows "\<exists>b. Control_ClosePeer J cx this k code False a = Inr b \<and> closes cx this h b \<and>
    ct_peers (ap_ctls b this) = map_erase k (ct_peers (ap_ctls a this)) \<and>
    ct_peer_name (ap_ctls b this) = ct_peer_name (ap_ctls a this) \<and> ap_queue b = ap_queue a \<and>
    view this b = notice h code k (view this a)"
proof -
  note act = closes_active [OF c]
  define b where "b = upd_ctl this (\<lambda>c. c\<lparr>ct_peers := map_erase k (ct_peers c)\<rparr>) a"
  note er = erase_active [OF act e, folded b_def]
  have en: "pc_live (ap_pcs b p)" "pc_remote_id (ap_pcs b p) = k"
    using table_lookup [OF active_D(1) [OF act] e] by (simp_all add: entry_ok_def er(3))
  obtain pc where pc: "PC_Close code (ap_pcs b p) = (pc, [CtlOnPeerClose k code] :: 'j pc_out list)"
    using en by (auto simp: PC_Close_def pc_live_def Let_def)
  let ?c = "upd_pc p pc b"
  have "active this ?c" using active_upd_pc [OF er(1), of pc p] er(2) PC_Close_frame [OF pc] by simp
  then have cc: "closes cx this h ?c" using c by (simp add: closes_def b_def upd_defs)
  have v: "view this ?c = view this a" by (simp add: view_def b_def upd_defs)
  obtain d where d: "Control_OnPeerClose cx this k code ?c = Inr d" "closes cx this h d" "same_work this ?c d"
      "view this d = notice h code k (view this a)"
    using Control_OnPeerClose_notice [OF cc, of k code] v by auto
  obtain s where s: "ap_signal d = Some s" using active_D(4) [OF closes_active [OF d(2)]] by blast
  let ?e = "emit_sig (Signal_SendCommand J k ''leavechannel'' (name_data J k) s) d"
  have run: "Control_ClosePeer J cx this k code False a = release_pc cx p ?e"
    using c e pc d(1) Control_SendCommand_run [OF active_D(5) [OF closes_active [OF d(2)]] s]
    by (simp add: Control_ClosePeer_def Let_def closes_def run_close_notice_def Control_LeaveChannel_def b_def [symmetric])
  obtain pcs calls where rel: "release_pc cx p ?e = Inr (?e\<lparr>ap_pcs := pcs, ap_rtc_calls := calls\<rparr>)"
    using release_pc_release c unfolding closes_def by blast
  let ?f = "?e\<lparr>ap_pcs := pcs, ap_rtc_calls := calls\<rparr>"
  have "active this ?f" using Control_ClosePeer_active [OF act, of cx J k code False] run rel by simp
  then have "closes cx this h ?f" using d(2) by (simp add: closes_def emit_sig_def)
  moreover have "view this ?f = notice h code k (view this a)" using d(4) by (simp add: view_def emit_sig_def)
  ultimately show ?thesis
    using run rel d(3)
    by (simp add: same_work_def same_peers_def same_tables_def emit_sig_def b_def upd_defs)
qed

lemma close_loop:
  assumes "closes cx this h a" and "ct_peers (ap_ctls a this) = t"
  shows "\<exists>b. fold_res (\<lambda>k. Control_ClosePeer J cx this k code False) (map fst t) a = Inr b \<and>
    closes cx this h b \<and> ct_peers (ap_ctls b this) = [] \<and>
    ct_peer_name (ap_ctls b this) = ct_peer_name (ap_ctls a this) \<and> ap_queue b = ap_queue a \<and>
    view this b = fold (notice h code) (map fst t) (view this a)"
  using assms
proof (induction t arbitrary: a)
  case (Cons e t)
  obtain k p where e: "e = (k, p)" by (cases e)
  have find: "map_find (ct_peers (ap_ctls a this)) k = Some p" using Cons.prems(2) by (simp add: e)
  have er: "map_erase k (ct_peers (ap_ctls a this)) = t" using Cons.prems(2) by (simp add: e)
  from ClosePeer_notice [OF Cons.prems(1) find, of J code, unfolded er] obtain b where
    b: "Control_ClosePeer J cx this k code False a = Inr b" "closes cx this h b" "ct_peers (ap_ctls b this) = t"
      "ct_peer_name (ap_ctls b this) = ct_peer_name (ap_ctls a this)" "ap_queue b = ap_queue a"
      "view this b = notice h code k (view this a)" by blast
  then show ?case using Cons.IH [OF b(2,3)] by (simp add: e)
qed simp

lemma Control_Close_run:
  fixes a :: "'j app"
  assumes c: "closes cx this h a" and reg: "registered (ap_ctls a this)"
  shows "\<exists>b. Control_Close J cx this code False a = Inr b \<and> closes cx this h b \<and>
    ct_peers (ap_ctls b this) = [] \<and> ap_queue b = ap_queue a \<and>
    view this b = fold (notice h code) (map fst (ct_peers (ap_ctls a this)) @ [pr_peer_id (ap_peer a)]) (view this a)"
proof -
  note act = closes_active [OF c]
  let ?t = "ct_peers (ap_ctls a this)"
  have ids: "map (\<lambda>(k, p). pc_remote_id (ap_pcs a p)) ?t = map fst ?t"
  proof (rule map_cong [OF refl])
    fix x assume x: "x \<in> set ?t"
    obtain k p where kp: "x = (k, p)" by (cases x)
    have inv: "app_inv a" by (rule active_D(1) [OF act])
    then have "map_wf ?t" by (simp add: app_inv_def table_inv_def)
    then have "map_find ?t k = Some p" using x kp by (simp add: map_find_iff)
    then show "(case x of (k, p) \<Rightarrow> pc_remote_id (ap_pcs a p)) = fst x"
      using table_lookup [OF inv] kp by (simp add: entry_ok_def)
  qed
  obtain b where b: "fold_res (\<lambda>k. Control_ClosePeer J cx this k code False) (map fst ?t) a = Inr b"
    "closes cx this h b" "ct_peers (ap_ctls b this) = []" "ct_peer_name (ap_ctls b this) = ct_peer_name (ap_ctls a this)"
    "ap_queue b = ap_queue a" "view this b = fold (notice h code) (map fst ?t) (view this a)"
    using close_loop [OF c refl, of J code] by blast
  have name: "ct_peer_name (ap_ctls b this) = pr_peer_id (ap_peer a)"
    using app_inv_ctl [OF active_D(1) [OF act], of this] active_D(2,3) [OF act] b(4)
    by (simp add: ctl_ok_def Let_def)
  have run: "Control_Close J cx this code False a =
      (if registered (ap_ctls b this) then Peer_OnClose cx (pr_peer_id (ap_peer a)) code [] b else Inr b)"
    using c b(1) name by (simp add: Control_Close_def ids closes_def registered_def)
  show ?thesis
  proof (cases "registered (ap_ctls b this)")
    case True
    then show ?thesis
      using run b(3,5,6) Peer_OnClose_notice [OF b(2) True, of "pr_peer_id (ap_peer a)" code]
      by (auto simp: same_work_def same_peers_def same_tables_def)
  next
    case False
    then have "notice h code k (view this b) = view this b" for k by (simp add: view_def)
    with False run b show ?thesis by simp
  qed
qed

subsection \<open>Delivery of a close message\<close>

lemma Control_dtor_release:
  assumes "\<not> dbg cx" and "ct_peers (ap_ctls a i) = []"
  shows "\<exists>b. Control_dtor cx i a = Inr b \<and> ap_events b = ap_events a \<and> ap_peer b = ap_peer a \<and>
    ct_peers (ap_ctls b i) = [] \<and> \<not> ct_alive (ap_ctls b i)"
  using assms by (simp add: Control_dtor_def Let_def Control_DeleteControl_def upd_ctl_def)

lemma close_delivery:
  fixes a :: "'j app"
  assumes inv: "app_inv a" and m: "msg_ok a m" "q_msg m = MSG_CLOSE code \<or> q_msg m = MSG_ON_SIGLAL_CONNECTION_CLOSE code"
    and cur: "pr_control (ap_peer a) = Some (q_target m)"
    and th: "ct_thread (ap_ctls a (q_target m)) = Some (cx_thread cx)" and rel: "\<not> dbg cx"
    and h: "map_find (pr_handlers (ap_peer a)) ''close'' = Some (EventHandler_Close h)"
  shows "\<exists>b reg. Control_OnMessage J cx m a = Inr b \<and> ct_peers (ap_ctls b (q_target m)) = [] \<and>
    (reg, ap_peer b, ap_events b) = fold (notice h code)
      (map fst (ct_peers (ap_ctls a (q_target m))) @ [pr_peer_id (ap_peer a)]) (True, ap_peer a, ap_events a) \<and>
    (\<not> reg \<longrightarrow> ct_alive (ap_ctls b (q_target m)) \<longrightarrow> (\<exists>m' \<in> set (ap_queue a). holds (q_target m) m'))"
proof -
  let ?i = "q_target m" and ?a = "a\<lparr>ap_busy := Some m\<rparr>"
  have reg: "registered (ap_ctls a ?i)" by (rule current_control(2) [OF inv cur])
  moreover have "ct_ref (ap_ctls a ?i)" using app_inv_ctl [OF inv, of ?i] reg by (simp add: ctl_ok_def Let_def)
  ultimately have "closes cx ?i h ?a"
    using deliver_active [OF inv m(1)] th rel h by (simp add: closes_def)
  from Control_Close_run [OF this, of J code] reg obtain b where
    run: "Control_Close J cx ?i code False ?a = Inr b" and c: "closes cx ?i h b" and
    b: "ct_peers (ap_ctls b ?i) = []" "ap_queue b = ap_queue a" and
    v: "view ?i b = fold (notice h code) (map fst (ct_peers (ap_ctls a ?i)) @ [pr_peer_id (ap_peer a)]) (True, ap_peer a, ap_events a)"
    by (auto simp: view_def)
  let ?b = "b\<lparr>ap_busy := None\<rparr>"
  have msg: "Control_OnMessage J cx m a = release_control cx ?i ?b"
    using m(2) run by (auto simp: Control_OnMessage_def handle_message_def)
  show ?thesis
  proof (cases "referenced ?i ?b")
    case True
    have "pr_control (ap_peer b) \<noteq> Some ?i \<and> \<not> ct_ref (ap_ctls b ?i)" if "\<not> registered (ap_ctls b ?i)"
      using that c app_inv_ctl [OF active_D(1) [OF closes_active [OF c]], of ?i] by (simp add: closes_def ctl_ok_def Let_def)
    then have "\<not> registered (ap_ctls b ?i) \<Longrightarrow> \<exists>m' \<in> set (ap_queue a). holds ?i m'"
      using True b(2) by (auto simp: referenced_def)
    moreover have "Control_OnMessage J cx m a = Inr ?b" using True msg by (simp add: release_control_def)
    ultimately show ?thesis
      using b(1) v by (intro exI [of _ ?b] exI [of _ "registered (ap_ctls b ?i)"]) (simp add: view_def)
  next
    case False
    have "ct_peers (ap_ctls ?b ?i) = []" using b(1) by simp
    from Control_dtor_release [OF rel this] obtain d where
      d: "Control_dtor cx ?i ?b = Inr d" "ap_events d = ap_events ?b" "ap_peer d = ap_peer ?b"
        "ct_peers (ap_ctls d ?i) = []" "\<not> ct_alive (ap_ctls d ?i)" by blast
    have "release_control cx ?i ?b = Inr d"
      using False d(1) active_D(2) [OF closes_active [OF c]] by (simp add: release_control_def)
    with msg d(2-5) v show ?thesis
      by (intro exI [of _ d] exI [of _ "registered (ap_ctls b ?i)"]) (simp add: view_def)
  qed
qed

text \<open>
  C1. What the user is told when a peer is closed. When a close request (the user's \<open>Close\<close>, or the
  loss of the signal connection) is delivered to the current \<open>Control\<close> on its thread in a release
  build, and a \<open>close\<close> handler is set, the peer table is empty afterwards and the user's handler was
  called with the code of the request, for nothing but the following.

  If the last \<open>close\<close> event of the local peer was followed by an \<open>open\<close> event, or there was none
  (\<open>close_once_\<close> is false): once for each remote peer of the table, in key order, and then once for the
  local peer; \<open>Peer\<close> lets go of its control, and the control is destroyed unless another queued
  message holds it. (If the server made the local peer a peer of itself, the report about that entry
  is the one about the local peer, and the entries after it are closed without a report.)

  Otherwise (\<open>Close\<close>, \<open>Open\<close> and again \<open>Close\<close> before the next \<open>open\<close> event): once for each remote peer of
  the table, but the local peer is not reported and \<open>Peer\<close> keeps its control, so that a later \<open>Open\<close>
  does nothing.
\<close>

theorem close_tells_everyone_once:
  assumes "app_reachable J a" and "ap_queue a = before @ m # after"
    and "q_msg m = MSG_CLOSE code \<or> q_msg m = MSG_ON_SIGLAL_CONNECTION_CLOSE code"
    and "pr_control (ap_peer a) = Some (q_target m)"
    and "ct_thread (ap_ctls a (q_target m)) = Some (cx_thread cx)" and "\<not> env_debug (cx_env cx)"
    and "map_find (pr_handlers (ap_peer a)) ''close'' = Some (EventHandler_Close h)"
  defines "own \<equiv> pr_peer_id (ap_peer a)" and "keys \<equiv> map fst (ct_peers (ap_ctls a (q_target m)))"
  shows "\<exists>b. Control_OnMessage J cx m (a\<lparr>ap_queue := before @ after\<rparr>) = Inr b \<and>
    ct_peers (ap_ctls b (q_target m)) = [] \<and>
    (if \<not> pr_close_once (ap_peer a)
     then ap_events b = ap_events a @ map (\<lambda>k. CallClose h k code []) (takeWhile (\<lambda>k. k \<noteq> own) keys @ [own]) \<and>
       pr_control (ap_peer b) = None \<and> pr_close_once (ap_peer b) \<and>
       (ct_alive (ap_ctls b (q_target m)) \<longrightarrow> (\<exists>m' \<in> set (before @ after). holds (q_target m) m'))
     else ap_events b = ap_events a @ map (\<lambda>k. CallClose h k code []) (filter (\<lambda>k. k \<noteq> own) keys) \<and>
       pr_control (ap_peer b) = Some (q_target m) \<and> Peer_Open cx b = Inr b)"
proof -
  from close_delivery [OF dequeued [OF reachable_inv [OF assms(1)] assms(2)], of code cx h J] assms(3-7)
  obtain b reg where b: "Control_OnMessage J cx m (a\<lparr>ap_queue := before @ after\<rparr>) = Inr b"
      "ct_peers (ap_ctls b (q_target m)) = []"
      "(reg, ap_peer b, ap_events b) = fold (notice h code) (keys @ [own]) (True, ap_peer a, ap_events a)"
      "\<not> reg \<longrightarrow> ct_alive (ap_ctls b (q_target m)) \<longrightarrow> (\<exists>m' \<in> set (before @ after). holds (q_target m) m')"
    by (auto simp: own_def keys_def)
  from b(3) show ?thesis
    unfolding own_def notices using b(1,2,4) assms(4)
    by (intro exI [of _ b]) (auto simp: own_def Peer_Open_def split: if_splits)
qed

text \<open>The sample application after the user's call of \<open>Close\<close>.\<close>

definition app_closing :: "jtree app" where
  "app_closing = ok_state (Peer_Close J0 cx0 [] app_offered) app_offered"

definition q_close :: "jtree queued" where
  "q_close = \<lparr>q_target = 0, q_ref = True, q_msg = MSG_CLOSE CLOSE_NORMAL\<rparr>"

definition closing_facts :: "jtree app \<Rightarrow> bool" where
  "closing_facts a \<longleftrightarrow>
     ap_queue a = [q_close] \<and> pr_control (ap_peer a) = Some 0 \<and>
     ct_thread (ap_ctls a 0) = Some WebrtcThread \<and>
     map_find (pr_handlers (ap_peer a)) ''close'' = Some (EventHandler_Close 7) \<and>
     \<not> pr_close_once (ap_peer a) \<and> pr_peer_id (ap_peer a) = ''a'' \<and>
     ct_peers (ap_ctls a 0) = [(''b'', 0)] \<and> ap_events a = []"

lemma closing_runs:
  "is_ok (Peer_Close J0 cx0 [] app_offered)"
  "closing_facts app_closing"
  by code_simp+

lemma reachable_closing: "app_reachable J0 app_closing"
  using app_reachable.step [OF reachable_offered app_step.close_call] is_ok_state [OF closing_runs(1)]
  unfolding app_closing_def by blast

text \<open>The user opens and closes again before the next \<open>open\<close> event.\<close>

lemma reopened:
  assumes "pr_control (ap_peer a) = None"
  obtains b i where "Peer_Open cx0 a = Inr b" "pr_control (ap_peer b) = Some i"
    "ct_thread (ap_ctls b i) = Some WebrtcThread" "ct_peers (ap_ctls b i) = []"
    "pr_handlers (ap_peer b) = pr_handlers (ap_peer a)" "pr_close_once (ap_peer b) = pr_close_once (ap_peer a)"
    "ap_signal b \<noteq> None"
proof -
  have "cx_audio_ok cx0 \<and> cx_factory_ok cx0" by (simp add: cx0_def)
  with Peer_Open_run [OF assms, of cx0] that [of _ "ap_next_ctl a"] show thesis
    by (auto simp: add_control_def emit_sig_def fresh_control_def cx0_def Let_def split: prod.splits)
qed

lemma reclosed:
  fixes a :: "'j app"
  assumes "pr_control (ap_peer a) = Some i" and "ct_thread (ap_ctls a i) \<noteq> None" and "ap_signal a \<noteq> None"
  obtains b m where "Peer_Close J cx [] a = Inr b" "ap_queue b = ap_queue a @ [m]" "q_target m = i"
    "q_msg m = MSG_CLOSE CLOSE_NORMAL" "ap_peer b = ap_peer a" "ap_ctls b = ap_ctls a"
proof -
  obtain t s where ts: "ct_thread (ap_ctls a i) = Some t" "ap_signal a = Some s" using assms(2,3) by blast
  obtain s' and out :: "'j sig_out list" where "Signal_SyncClose s = (s', out)"
    by (cases "Signal_SyncClose s :: _ \<times> 'j sig_out list")
  with ts assms(1) that show thesis
    by (simp add: Peer_Close_def Control_Close_def post_def emit_sig_def)
qed

lemma reachable_reclosing:
  "\<exists>a before m. app_reachable J0 a \<and> ap_queue a = before @ [m] \<and> q_msg m = MSG_CLOSE CLOSE_NORMAL \<and>
     pr_control (ap_peer a) = Some (q_target m) \<and> ct_thread (ap_ctls a (q_target m)) = Some WebrtcThread \<and>
     map_find (pr_handlers (ap_peer a)) ''close'' = Some (EventHandler_Close 7) \<and> pr_close_once (ap_peer a) \<and>
     ct_peers (ap_ctls a (q_target m)) = []"
proof -
  have q: "ap_queue app_closing = [] @ q_close # []" using closing_runs(2) by (simp add: closing_facts_def)
  note inv = dequeued [OF reachable_inv [OF reachable_closing] q]
  obtain b reg where run: "Control_OnMessage J0 cx0 q_close (app_closing\<lparr>ap_queue := [] @ []\<rparr>) = Inr b"
      "(reg, ap_peer b, ap_events b) = fold (notice 7 CLOSE_NORMAL)
         (map fst (ct_peers (ap_ctls app_closing 0)) @ [pr_peer_id (ap_peer app_closing)]) (True, ap_peer app_closing, ap_events app_closing)"
    using close_delivery [OF inv, of CLOSE_NORMAL cx0 7 J0] closing_runs(2)
    by (auto simp: closing_facts_def q_close_def cx0_def env_ok_def)
  then have b: "pr_control (ap_peer b) = None" "pr_close_once (ap_peer b)"
      "map_find (pr_handlers (ap_peer b)) ''close'' = Some (EventHandler_Close 7)"
    using closing_runs(2) unfolding notices by (auto simp: closing_facts_def)
  have rb: "app_reachable J0 b" using app_reachable.step [OF reachable_closing app_step.deliver [OF q run(1)]] .
  obtain c i where c: "Peer_Open cx0 b = Inr c" "pr_control (ap_peer c) = Some i"
    "ct_thread (ap_ctls c i) = Some WebrtcThread" "ct_peers (ap_ctls c i) = []"
    "pr_handlers (ap_peer c) = pr_handlers (ap_peer b)" "pr_close_once (ap_peer c) = pr_close_once (ap_peer b)" "ap_signal c \<noteq> None"
    using reopened [OF b(1)] by blast
  have rc: "app_reachable J0 c" using app_reachable.step [OF rb app_step.open_call [OF c(1)]] .
  obtain d m where d: "Peer_Close J0 cx0 [] c = Inr d" "ap_queue d = ap_queue c @ [m]" "q_target m = i"
    "q_msg m = MSG_CLOSE CLOSE_NORMAL" "ap_peer d = ap_peer c" "ap_ctls d = ap_ctls c"
    using reclosed [OF c(2) _ c(7), of J0 cx0] c(3) by blast
  have "app_reachable J0 d" using app_reachable.step [OF rc app_step.close_call [OF d(1)]] .
  then show ?thesis using b c d by (intro exI [of _ d] exI [of _ "ap_queue c"] exI [of _ m]) simp
qed

theorem close_tells_everyone_once_witness:
  "(\<exists>b. Control_OnMessage J0 cx0 q_close (app_closing\<lparr>ap_queue := []\<rparr>) = Inr b \<and>
     ap_events b = [CallClose 7 ''b'' CLOSE_NORMAL [], CallClose 7 ''a'' CLOSE_NORMAL []] \<and> \<not> ct_alive (ap_ctls b 0)) \<and>
   (\<exists>a before m b. app_reachable J0 a \<and> ap_queue a = before @ [m] \<and> q_msg m = MSG_CLOSE CLOSE_NORMAL \<and>
     Control_OnMessage J0 cx0 m (a\<lparr>ap_queue := before\<rparr>) = Inr b \<and>
     ap_events b = ap_events a \<and> pr_control (ap_peer b) = Some (q_target m) \<and> Peer_Open cx0 b = Inr b)"
proof -
  have q: "ap_queue app_closing = [] @ q_close # []" using closing_runs(2) by (simp add: closing_facts_def)
  have t: "q_target q_close = 0" "q_msg q_close = MSG_CLOSE CLOSE_NORMAL"
    "cx_thread cx0 = WebrtcThread" "\<not> env_debug (cx_env cx0)"
    by (simp_all add: q_close_def cx0_def env_ok_def)
  have "\<exists>b. Control_OnMessage J0 cx0 q_close (app_closing\<lparr>ap_queue := []\<rparr>) = Inr b \<and>
     ap_events b = [CallClose 7 ''b'' CLOSE_NORMAL [], CallClose 7 ''a'' CLOSE_NORMAL []] \<and> \<not> ct_alive (ap_ctls b 0)"
    using close_tells_everyone_once [OF reachable_closing q, of CLOSE_NORMAL cx0 7] t closing_runs(2)
    by (auto simp: closing_facts_def)
  moreover obtain a before m where a: "app_reachable J0 a" "ap_queue a = before @ m # []" "q_msg m = MSG_CLOSE CLOSE_NORMAL"
    "pr_control (ap_peer a) = Some (q_target m)" "ct_thread (ap_ctls a (q_target m)) = Some (cx_thread cx0)"
    "map_find (pr_handlers (ap_peer a)) ''close'' = Some (EventHandler_Close 7)" "pr_close_once (ap_peer a)"
    "ct_peers (ap_ctls a (q_target m)) = []"
    using reachable_reclosing t(3) by auto
  moreover have "\<exists>b. Control_OnMessage J0 cx0 m (a\<lparr>ap_queue := before\<rparr>) = Inr b \<and>
     ap_events b = ap_events a \<and> pr_control (ap_peer b) = Some (q_target m) \<and> Peer_Open cx0 b = Inr b"
    using close_tells_everyone_once [OF a(1,2) disjI1 [OF a(3)] a(4,5) t(4) a(6)] a(7,8) by auto
  ultimately show ?thesis by blast
qed

end
