(* ===== verification/System_Properties.thy ===== *)
theory System_Properties
  imports Close_Cascade
begin

section \<open>Properties of the whole system\<close>

text \<open>
  What holds in every reachable state of an application, whatever the order of calls, callbacks
  and messages; the behaviour of the public interface; and the exchange of session descriptions
  and candidates between two peers through JSON commands.
\<close>

subsection \<open>Safety of reachable states\<close>

text \<open>
  C3. In every reachable state, an entry of a \<open>Control\<close>'s peer table belongs to a control that
  exists, is filed under the remote id of its object, and is live: its connection and local
  channel exist and it is connecting or open. No object is filed twice, in whatever table.
\<close>

theorem reachable_table_entries:
  assumes "app_reachable J a" and "map_find (ct_peers (ap_ctls a i)) k = Some p"
  shows "ct_alive (ap_ctls a i) \<and> ap_owner a p = i \<and> pc_remote_id (ap_pcs a p) = k \<and> pc_live (ap_pcs a p) \<and>
    (\<forall>j l. map_find (ct_peers (ap_ctls a j)) l = Some p \<longrightarrow> j = i \<and> l = k)"
proof -
  have inv: "app_inv a" by (rule reachable_inv [OF assms(1)])
  then have t: "table_inv a" by (simp add: app_inv_def)
  have "ct_peers (ap_ctls a i) \<noteq> []" using assms(2) by auto
  then have "ct_alive (ap_ctls a i)" using app_inv_ctl [OF inv, of i] by (simp add: ctl_ok_def Let_def)
  then show ?thesis
    using table_lookup [OF inv assms(2)] table_inv_unique [OF t _ assms(2)] by (auto simp: entry_ok_def)
qed

theorem reachable_table_entries_witness:
  "pc_remote_id (ap_pcs app_offered 0) = ''b'' \<and> pc_live (ap_pcs app_offered 0)"
  using reachable_table_entries [OF reachable_offered sample_runs(9)] by simp

text \<open>
  C2. Delivering a queued message, in any reachable state and in any order, is safe: the target
  exists and is not destroyed while its handler runs (although the handler may drop the last
  reference that \<open>Peer\<close> and the object itself hold). If the target still observes, the run goes
  through no null pointer and no wrong handler type, and in a release build it returns.
\<close>

theorem delivery_safe:
  assumes "app_reachable J a" and "ap_queue a = before @ m # after"
  shows "ct_alive (ap_ctls a (q_target m)) \<and>
    (\<forall>b. handle_message J cx (q_target m) (q_msg m) (a\<lparr>ap_queue := before @ after, ap_busy := Some m\<rparr>) = Inr b \<longrightarrow>
       ct_alive (ap_ctls b (q_target m))) \<and>
    (registered (ap_ctls a (q_target m)) \<longrightarrow>
       (\<forall>w. Control_OnMessage J cx m (a\<lparr>ap_queue := before @ after\<rparr>) \<noteq> Inl (NullPointer w) \<and>
            Control_OnMessage J cx m (a\<lparr>ap_queue := before @ after\<rparr>) \<noteq> Inl (BadCast w)) \<and>
       (\<not> env_debug (cx_env cx) \<longrightarrow>
          (\<exists>b. Control_OnMessage J cx m (a\<lparr>ap_queue := before @ after\<rparr>) = Inr b \<and> ap_busy b = None)))"
proof -
  let ?a = "a\<lparr>ap_queue := before @ after\<rparr>"
  note dq = dequeued [OF reachable_inv [OF assms(1)] assms(2)]
  have alive: "ct_alive (ap_ctls a (q_target m))" using dq(2) by (simp add: msg_ok_def)
  have kept: "ct_alive (ap_ctls b (q_target m))"
    if "handle_message J cx (q_target m) (q_msg m) (?a\<lparr>ap_busy := Some m\<rparr>) = Inr b" for b
    using all_okD [OF handle_message_active(1) [OF deliver_active [OF dq]] that] by (rule active_D(2))
  have "safe (dbg cx) (\<lambda>b. app_inv b \<and> ap_busy b = None) (Control_OnMessage J cx m ?a)"
    if "registered (ap_ctls a (q_target m))"
    using Control_OnMessage_keeps(2) [OF dq] that by simp
  then show ?thesis
    using alive kept by (auto dest!: safe_run)
qed

theorem delivery_safe_witness:
  "\<exists>b. Control_OnMessage J0 cx0 q_offer (app_asked\<lparr>ap_queue := []\<rparr>) = Inr b \<and> ap_busy b = None"
proof -
  have q: "ap_queue app_asked = [] @ q_offer # []" using sample_runs(7) by simp
  have r: "registered (ap_ctls app_asked (q_target q_offer))" by code_simp
  have d: "\<not> env_debug (cx_env cx0)" by (simp add: cx0_def env_ok_def)
  show ?thesis using delivery_safe [OF reachable_asked q, of cx0] r d by auto
qed

text \<open>
  C22. A callback of WebRTC on a connection of a peer table never goes through a null pointer or
  calls a handler of the wrong type, in any reachable state; in a release build it returns.
\<close>

theorem callbacks_safe:
  assumes "app_reachable J a" and "map_find (ct_peers (ap_ctls a i)) k = Some p"
  shows "(\<forall>w. app_callback J cx p ev a \<noteq> Inl (NullPointer w) \<and> app_callback J cx p ev a \<noteq> Inl (BadCast w)) \<and>
    (\<not> env_debug (cx_env cx) \<longrightarrow> (\<exists>b. app_callback J cx p ev a = Inr b))"
  using safe_run [OF entry_callback_safe [OF reachable_inv [OF assms(1)] assms(2), of cx J ev]] by blast

theorem callbacks_safe_witness:
  "\<exists>b. app_callback J0 cx0 0 (OnIceConnectionChange kIceConnectionDisconnected) app_offered = Inr b"
  using callbacks_safe [OF reachable_offered sample_runs(9), of cx0] by (simp add: cx0_def env_ok_def)

text \<open>
  C23. At most one \<open>Control\<close> can call the observer: one that exists, is initialised and has the
  observer registered is the one \<open>Peer\<close> holds, and conversely. Every queued message has a target
  that exists, and a message whose target still observes keeps a reference to it.
\<close>

theorem one_current_control:
  assumes "app_reachable J a"
  shows "(ct_alive (ap_ctls a i) \<and> initialised (ap_ctls a i) \<and> registered (ap_ctls a i)) =
      (pr_control (ap_peer a) = Some i) \<and>
    (m \<in> set (ap_queue a) \<longrightarrow> ct_alive (ap_ctls a (q_target m)) \<and>
       (registered (ap_ctls a (q_target m)) \<longrightarrow> holds (q_target m) m))"
proof -
  have inv: "app_inv a" by (rule reachable_inv [OF assms])
  have "(ct_alive (ap_ctls a i) \<and> initialised (ap_ctls a i) \<and> registered (ap_ctls a i)) =
      (pr_control (ap_peer a) = Some i)"
    using app_inv_ctl [OF inv, of i] by (simp add: ctl_ok_def Let_def)
  moreover have "msg_ok a m" if "m \<in> set (ap_queue a)"
    using inv that by (simp add: app_inv_def own_inv_def)
  ultimately show ?thesis by (auto simp: msg_ok_def holds_def)
qed

theorem one_current_control_witness:
  "pr_control (ap_peer app_closing) = Some 0 \<and> registered (ap_ctls app_closing 0) \<and> holds 0 q_close"
proof -
  have c: "pr_control (ap_peer app_closing) = Some 0" and q: "q_close \<in> set (ap_queue app_closing)"
    using closing_runs(2) by (simp_all add: closing_facts_def)
  have "q_target q_close = 0" by (simp add: q_close_def)
  then show ?thesis using one_current_control [OF reachable_closing, of 0 q_close] c q by simp
qed

text \<open>
  C26. While \<open>Peer\<close> has a control, its calls are safe: \<open>Close\<close>, \<open>Connect\<close> and \<open>Send\<close> go through no null
  pointer in any reachable state, and in a release build they return.
\<close>

theorem api_safe_when_open:
  assumes "app_reachable J a" and "pr_control (ap_peer a) = Some i" and "\<not> env_debug (cx_env cx)"
  shows "(\<exists>b. Peer_Close J cx k a = Inr b) \<and> (\<exists>b. Peer_Connect J k a = Inr b) \<and>
    (\<exists>b ok. Peer_Send cx k data wait a = Inr (b, ok))"
proof -
  have inv: "app_inv a" by (rule reachable_inv [OF assms(1)])
  have ne: "pr_control (ap_peer a) \<noteq> None" using assms(2) by simp
  show ?thesis
    using safe_run [OF Peer_Close_safe [OF inv ne, of False J cx k]]
      safe_run [OF Peer_Connect_safe [OF inv ne, of False J k]]
      safe_run [OF Peer_Send_safe [OF inv ne, of cx k data wait]] assms(3)
    by fastforce
qed

theorem api_safe_when_open_witness: "\<exists>b ok. Peer_Send cx0 ''b'' [1] True app_closing = Inr (b, ok)"
proof -
  have "pr_control (ap_peer app_closing) = Some 0" using closing_runs(2) by (simp add: closing_facts_def)
  moreover have "\<not> env_debug (cx_env cx0)" by (simp add: cx0_def env_ok_def)
  ultimately show ?thesis using api_safe_when_open [OF reachable_closing, of 0 cx0 "''b''" "[1]" True] by simp
qed

text \<open>
  Once \<open>Peer\<close> has no control, before \<open>Open\<close> or after the close event, \<open>Close\<close>, \<open>Connect\<close> and
  \<open>Send\<close> all dereference the null \<open>control_\<close>, whatever their arguments.
\<close>

theorem api_null_when_closed:
  assumes "pr_control (ap_peer a) = None"
  shows "Peer_Close J cx k a = Inl (NullPointer ''control_'') \<and>
    Peer_Connect J k a = Inl (NullPointer ''control_'') \<and>
    Peer_Send cx k data wait a = Inl (NullPointer ''control_'')"
  using assms by (simp add: Peer_Close_def Peer_Connect_def Peer_Send_def)

theorem api_null_when_closed_witness: "Peer_Connect J0 ''b'' app0 = Inl (NullPointer ''control_'')"
proof -
  have "pr_control (ap_peer app0) = None"
    by (simp add: app0_def upd_peer_def app_init_def Peer_ctor_def Peer_On_close_def)
  then show ?thesis using api_null_when_closed [of app0 J0 cx0 "''b''" "[]" False] by simp
qed

subsection \<open>Closing one peer\<close>

text \<open>
  C21. A request to close one remote peer, delivered to the current control in a release build,
  removes exactly that entry from the table, calls the user's close handler exactly once with the
  code of the request, tells the signal server with one \<open>leavechannel\<close> command (if the connection
  to it is open), and leaves \<open>Peer\<close> with its control.
\<close>

theorem close_one_peer:
  assumes "app_reachable J a" and "ap_queue a = before @ m # after"
    and msg: "q_msg m = MSG_CLOSE_PEER k code"
    and cur: "pr_control (ap_peer a) = Some (q_target m)" and s: "ap_signal a = Some s"
    and th: "ct_thread (ap_ctls a (q_target m)) = Some (cx_thread cx)" and rel: "\<not> env_debug (cx_env cx)"
    and h: "map_find (pr_handlers (ap_peer a)) ''close'' = Some (EventHandler_Close h)"
    and other: "k \<noteq> pr_peer_id (ap_peer a)"
    and entry: "map_find (ct_peers (ap_ctls a (q_target m))) k = Some p"
  shows "\<exists>b. Control_OnMessage J cx m (a\<lparr>ap_queue := before @ after\<rparr>) = Inr b \<and>
    ct_peers (ap_ctls b (q_target m)) = map_erase k (ct_peers (ap_ctls a (q_target m))) \<and>
    (\<forall>j. j \<noteq> q_target m \<longrightarrow> ap_ctls b j = ap_ctls a j) \<and>
    ap_events b = ap_events a @ [CallClose h k code []] \<and>
    ap_sig_calls b = ap_sig_calls a @ Signal_SendCommand J k ''leavechannel'' (name_data J k) s \<and>
    ap_peer b = ap_peer a"
proof -
  let ?i = "q_target m" and ?a = "a\<lparr>ap_queue := before @ after, ap_busy := Some m\<rparr>"
  note dq = dequeued [OF reachable_inv [OF assms(1)] assms(2)]
  have cur': "registered (ap_ctls a ?i)" using current_control(2) [OF reachable_inv [OF assms(1)] cur] .
  have hr: "hears cx ?i h ?a"
    using deliver_active [OF dq] cur' th rel h by (simp add: hears_def)
  from ClosePeer_run [OF hr, of k p s J code] entry other s obtain pcs calls where
    run: "Control_ClosePeer J cx ?i k code False ?a = Inr (?a\<lparr>
      ap_ctls := (ap_ctls a)(?i := (ap_ctls a ?i)\<lparr>ct_peers := map_erase k (ct_peers (ap_ctls a ?i))\<rparr>),
      ap_pcs := pcs, ap_events := ap_events a @ [CallClose h k code []],
      ap_sig_calls := ap_sig_calls a @ Signal_SendCommand J k ''leavechannel'' (name_data J k) s,
      ap_rtc_calls := calls\<rparr>)"
    by auto
  then show ?thesis
    using msg cur by (simp add: Control_OnMessage_def handle_message_def release_control_def referenced_def)
qed

definition app_closing_b :: "jtree app" where
  "app_closing_b = ok_state (Peer_Close J0 cx0 ''b'' app_offered) app_offered"

definition q_close_b :: "jtree queued" where
  "q_close_b = \<lparr>q_target = 0, q_ref = True, q_msg = MSG_CLOSE_PEER ''b'' CLOSE_NORMAL\<rparr>"

definition closing_b_facts :: "jtree app \<Rightarrow> bool" where
  "closing_b_facts a \<longleftrightarrow> ap_queue a = [q_close_b] \<and> pr_control (ap_peer a) = Some 0 \<and>
     ap_signal a = Some sig_online \<and> ct_thread (ap_ctls a 0) = Some WebrtcThread \<and>
     map_find (pr_handlers (ap_peer a)) ''close'' = Some (EventHandler_Close 7) \<and>
     pr_peer_id (ap_peer a) = ''a'' \<and> ct_peers (ap_ctls a 0) = [(''b'', 0)] \<and> ap_events a = []"

lemma closing_b_runs:
  "is_ok (Peer_Close J0 cx0 ''b'' app_offered)"
  "closing_b_facts app_closing_b"
  by code_simp+

lemma reachable_closing_b: "app_reachable J0 app_closing_b"
  using app_reachable.step [OF reachable_offered app_step.close_call] is_ok_state [OF closing_b_runs(1)]
  unfolding app_closing_b_def by blast

theorem close_one_peer_witness:
  "\<exists>b. Control_OnMessage J0 cx0 q_close_b (app_closing_b\<lparr>ap_queue := []\<rparr>) = Inr b \<and>
    ct_peers (ap_ctls b 0) = [] \<and> ap_events b = [CallClose 7 ''b'' CLOSE_NORMAL []]"
proof -
  have q: "ap_queue app_closing_b = [] @ q_close_b # []"
    using closing_b_runs(2) by (simp add: closing_b_facts_def)
  have t: "q_target q_close_b = 0" "q_msg q_close_b = MSG_CLOSE_PEER ''b'' CLOSE_NORMAL"
    "cx_thread cx0 = WebrtcThread" "\<not> env_debug (cx_env cx0)"
    by (simp_all add: q_close_b_def cx0_def env_ok_def)
  show ?thesis
    using close_one_peer [OF reachable_closing_b q t(2), of sig_online cx0 7 0] t closing_b_runs(2)
    by (auto simp: closing_b_facts_def)
qed

subsection \<open>Opening\<close>

text \<open>
  C24. \<open>Open\<close> on a closed peer always returns. If the audio module and the connection factory can be
  created, \<open>Peer\<close> holds a new control at a fresh address, with the peer's name, registered, bound
  to the current thread, connected to the signal events, and the signal connection has been asked
  to open with the configured user. If not, \<open>Peer\<close> has no control again, but the one just created
  is not destroyed: its reference to itself and its connection to the signal events remain.
\<close>

theorem Open_outcome:
  assumes "app_reachable J a" and "pr_control (ap_peer a) = None"
  shows "\<exists>b. Peer_Open cx a = Inr b \<and> ap_slots b = ap_slots a @ [ap_next_ctl a] \<and>
    \<not> ct_alive (ap_ctls a (ap_next_ctl a)) \<and> ct_alive (ap_ctls b (ap_next_ctl a)) \<and>
    ct_ref (ap_ctls b (ap_next_ctl a)) \<and>
    (if cx_audio_ok cx \<and> cx_factory_ok cx
     then pr_control (ap_peer b) = Some (ap_next_ctl a) \<and>
       ct_peer_name (ap_ctls b (ap_next_ctl a)) = pr_peer_id (ap_peer a) \<and>
       ct_thread (ap_ctls b (ap_next_ctl a)) = Some (cx_thread cx) \<and>
       (let s = (case ap_signal a of None \<Rightarrow> Signal_ctor (pr_signal_uri (ap_peer a)) | Some s \<Rightarrow> s);
            (s', out) = Signal_Open (pr_signal_id (ap_peer a)) (pr_signal_password (ap_peer a)) s
        in ap_signal b = Some s' \<and> ap_sig_calls b = ap_sig_calls a @ out)
     else pr_control (ap_peer b) = None \<and> ct_thread (ap_ctls b (ap_next_ctl a)) = None \<and>
       ap_sig_calls b = ap_sig_calls a)"
  using fresh_address(1) [OF reachable_inv [OF assms(1)]]
  unfolding Peer_Open_run [OF assms(2)]
  by (auto simp: add_control_def emit_sig_def fresh_control_def Let_def split: prod.splits)

theorem Open_outcome_witness:
  "\<exists>b. Peer_Open (cx0\<lparr>cx_audio_ok := False\<rparr>) app0 = Inr b \<and> pr_control (ap_peer b) = None \<and>
     ct_alive (ap_ctls b 0) \<and> 0 \<in> set (ap_slots b)"
proof -
  have "pr_control (ap_peer app0) = None" and n: "ap_next_ctl app0 = 0"
    by (simp_all add: app0_def upd_peer_def app_init_def Peer_ctor_def Peer_On_close_def)
  from Open_outcome [OF reachable_app0 this(1), of "cx0\<lparr>cx_audio_ok := False\<rparr>"] n show ?thesis by auto
qed



end
