(* ===== verification/Exchange.thy ===== *)
theory Exchange
  imports System_Properties
begin

section \<open>The offer/answer exchange between two peers\<close>

text \<open>
  What one peer writes into a command, the other reads out of it, and what a command makes the
  receiver do. The signal server between the two is not part of the repository: it is a parameter, a
  function from the text of a message as one peer sends it to the text as the other peer gets it.
  What the code relies on is the hypothesis \<open>forwards\<close>: the members \<open>command\<close> and \<open>data\<close> of an offer, an
  answer or a candidate arrive as they were sent. The member \<open>peer_id\<close>, by which
  \<open>Control::OnCommandReceived\<close> chooses the connection, may be anything the server puts there.
\<close>

definition forwards :: "'j json_lib \<Rightarrow> (string \<Rightarrow> string) \<Rightarrow> bool" where
  "forwards J server \<longleftrightarrow>
     (\<forall>text m c. jl_parse J text = Some m \<and> jl_get_string J m ''command'' = Some c \<and>
        c \<in> {''offersdp'', ''answersdp'', ''ice_candidate''} \<longrightarrow>
        (\<exists>r. jl_parse J (server text) = Some r \<and> jl_get_string J r ''command'' = Some c \<and>
           jl_get_value J r ''data'' = jl_get_value J m ''data''))"

text \<open>The way of a command: the text that \<open>Signal::SendCommand\<close> hands to the connection of the sender,
  the server, and the message that \<open>Signal::OnMessage\<close> of the receiver raises.\<close>

definition conveys :: "'j json_lib \<Rightarrow> (string \<Rightarrow> string) \<Rightarrow> signal \<Rightarrow> string \<Rightarrow> string \<Rightarrow> 'j \<Rightarrow> 'j \<Rightarrow> bool" where
  "conveys J server s channel command d r \<longleftrightarrow>
     (\<exists>text. Signal_SendCommand J channel command d s = [ClientSend (sg_con_hdl s) text] \<and>
        Signal_OnMessage J (server text) = [SignalOnCommandReceived r])"

lemma command_text:
  assumes "json_object_laws J" and "json_text_laws J" and "json_val J d"
  shows "jl_parse J (jl_write J (command_message J channel c d)) = Some (command_message J channel c d)"
    and "jl_get_string J (command_message J channel c d) ''command'' = Some c"
    and "jl_get_value J (command_message J channel c d) ''data'' = Some d"
proof -
  have "json_doc J (command_message J channel c d)"
    using assms(3) by (auto simp: command_message_def Let_def intro!: json_doc_intros)
  then show "jl_parse J (jl_write J (command_message J channel c d)) = Some (command_message J channel c d)"
    using assms(2) by (simp add: json_text_laws_def)
qed (simp_all add: command_message_def Let_def json_object_lawsD [OF assms(1)])

lemma conveyed:
  assumes "json_object_laws J" and "json_text_laws J" and "forwards J server" and "opened s"
    and "json_val J d" and "c \<in> {''offersdp'', ''answersdp'', ''ice_candidate''}"
  obtains r where "conveys J server s channel c d r" "jl_get_string J r ''command'' = Some c" "jl_get_value J r ''data'' = Some d"
proof -
  let ?m = "command_message J channel c d"
  note T = command_text [OF assms(1,2,5), of channel c]
  obtain r where r: "jl_parse J (server (jl_write J ?m)) = Some r" "jl_get_string J r ''command'' = Some c"
      "jl_get_value J r ''data'' = Some d"
    using assms(3,6) T unfolding forwards_def by metis
  have "c \<noteq> []" using assms(6) by auto
  then have "conveys J server s channel c d r"
    using assms(4) r(1) by (simp add: conveys_def Signal_SendCommand_def Signal_OnMessage_def Signal_OnCommandReceived_def)
  then show thesis using that r(2,3) by blast
qed

text \<open>The connection in the table of the receiver that a message is for.\<close>

definition addressed :: "'j json_lib \<Rightarrow> 'j \<Rightarrow> nat \<Rightarrow> 'j app \<Rightarrow> nat \<Rightarrow> nat \<Rightarrow> bool" where
  "addressed J r this b p c \<longleftrightarrow>
     (\<exists>k. jl_get_string J r ''peer_id'' = Some k \<and> map_find (ct_peers (ap_ctls b this)) k = Some p) \<and>
     pc_connection (ap_pcs b p) = Some c \<and> pc_state (ap_pcs b p) = pConnecting"

lemma dispatched:
  assumes "jl_get_string J r ''command'' = Some c" and "jl_get_value J r ''data'' = Some d"
    and "jl_get_string J r ''peer_id'' = Some k"
  shows "c = ''ice_candidate'' \<Longrightarrow> handle_message J cx this (MSG_COMMAND_RECEIVED r) b = Control_AddIceCandidate J this k d b"
    and "c = ''answersdp'' \<Longrightarrow> handle_message J cx this (MSG_COMMAND_RECEIVED r) b = Control_ReceiveAnswerSdp J cx this k d b"
    and "c = ''offersdp'' \<Longrightarrow> handle_message J cx this (MSG_COMMAND_RECEIVED r) b = Control_ReceiveOfferSdp J cx this k d b"
  using assms by (simp_all add: handle_message_def Control_OnCommandReceived_def)

definition ice_data :: "'j json_lib \<Rightarrow> string \<Rightarrow> int \<Rightarrow> string \<Rightarrow> 'j" where
  "ice_data J mid idx text =
     jl_set J (jl_set J (jl_set J (jl_null J) ''sdp_mid'' (jl_string J mid)) ''sdp_mline_index'' (jl_int J idx))
       ''candidate'' (jl_string J text)"

definition sdp_data :: "'j json_lib \<Rightarrow> string \<Rightarrow> 'j" where
  "sdp_data J sdp = jl_set J (jl_null J) ''sdp'' (jl_string J sdp)"

lemma exchange_data:
  "json_val J (ice_data J mid idx text)" "json_val J (sdp_data J sdp)"
  by (auto simp: ice_data_def sdp_data_def intro!: json_doc_intros)

lemma exchange_received:
  assumes "json_object_laws J"
  shows "map_find (ct_peers (ap_ctls b this)) k = Some p \<Longrightarrow> pc_connection (ap_pcs b p) = Some c \<Longrightarrow>
      Control_AddIceCandidate J this k (ice_data J mid idx text) b = Inr (emit_rtc p [PcAddIceCandidate c mid idx text] b)"
    and "map_find (ct_peers (ap_ctls b this)) k = Some p \<Longrightarrow> pc_connection (ap_pcs b p) = Some c \<Longrightarrow>
      pc_state (ap_pcs b p) = pConnecting \<Longrightarrow>
      Control_ReceiveAnswerSdp J cx this k (sdp_data J sdp) b = Inr (emit_rtc p [PcSetRemoteDescription c ''answer'' sdp] b)"
    and "Control_ReceiveOfferSdp J cx this k (sdp_data J sdp) b =
      and_then (start_peer J cx this k (PC_ReceiveOfferSdp (cx_env cx) sdp) b) (\<lambda>(b, _). Inr b)"
  by (simp_all add: ice_data_def sdp_data_def Control_AddIceCandidate_def Control_ReceiveAnswerSdp_def
      Control_ReceiveOfferSdp_def PC_AddIceCandidate_def PC_ReceiveAnswerSdp_def PC_SetRemoteDescription_def
      json_object_lawsD [OF assms])


text \<open>A server for the witness: it puts the sender's name into a message and passes it on.\<close>

definition J1 :: "jtree json_lib" where
  "J1 = jt_lib jt_read jt_write"

definition relay :: "string \<Rightarrow> string \<Rightarrow> string" where
  "relay sender text =
     (case jl_parse J1 text of
        Some m \<Rightarrow> jl_write J1 (jl_set J1 m ''peer_id'' (jl_string J1 sender))
      | None \<Rightarrow> text)"

lemma relay_forwards: "forwards J1 (relay sender)"
  unfolding forwards_def
proof (intro allI impI, elim conjE)
  fix t m c
  assume m: "jl_parse J1 t = Some m" "jl_get_string J1 m ''command'' = Some c"
  then obtain ms where "m = JObject ms" by (cases m) (auto simp: J1_def jt_lib_def)
  with m show "\<exists>r. jl_parse J1 (relay sender t) = Some r \<and> jl_get_string J1 r ''command'' = Some c \<and>
      jl_get_value J1 r ''data'' = jl_get_value J1 m ''data''"
    by (simp add: relay_def J1_def jt_lib_def jt_read_write del: jt_write.simps)
qed

lemma relay_names:
  assumes "conveys J1 (relay sender) s channel c d r"
  shows "jl_get_string J1 r ''peer_id'' = Some sender"
proof -
  obtain ms where "command_message J1 channel c d = JObject ms"
    by (cases "channel = []") (simp_all add: command_message_def Let_def J1_def jt_lib_def)
  then show ?thesis
    using assms
    by (auto simp: conveys_def Signal_SendCommand_def Signal_OnMessage_def Signal_OnCommandReceived_def relay_def J1_def
        jt_lib_def jt_read_write simp del: jt_write.simps split: if_splits)
qed


subsection \<open>Starting a connection\<close>

text \<open>The environment can create connections and channels.\<close>

definition can_create :: "ctx \<Rightarrow> bool" where
  "can_create cx \<longleftrightarrow> (\<forall>ob. env_create_pc (cx_env cx) ob \<noteq> None) \<and>
     (\<forall>c label. env_create_dc (cx_env cx) c label \<noteq> None)"

lemma Initialize_creates:
  assumes "can_create cx"
  shows "\<exists>pc out. PC_Initialize (cx_env cx) p (PeerControl_ctor l r (Some ())) = Inr (pc, out, True)"
proof -
  obtain c where c: "env_create_pc (cx_env cx) p = Some c" using assms unfolding can_create_def by blast
  obtain ch where "env_create_dc (cx_env cx) c (''peer_data_'' @ r) = Some ch"
    using assms unfolding can_create_def by blast
  with c show ?thesis
    by (simp add: PC_Initialize_def PC_CreatePeerConnection_def PC_CreateDataChannel_def
        PeerControl_ctor_def DC_ctor_def)
qed

lemma release_pc_calls:
  fixes a :: "'j app"
  assumes "\<not> dbg cx"
  shows "\<exists>b more. release_pc cx p a = Inr b \<and> ap_ctls b = ap_ctls a \<and> ap_rtc_calls b = ap_rtc_calls a @ more"
proof -
  obtain pc and out :: "'j pc_out list" where "PC_DeletePeerConnection (ap_pcs a p) = (pc, out)"
    by (cases "PC_DeletePeerConnection (ap_pcs a p) :: _ \<times> 'j pc_out list")
  with assms show ?thesis
    by (simp add: release_pc_def PeerControl_dtor_def upd_pc_def emit_rtc_def)
qed

lemma start_peer_run:
  fixes a :: "'j app"
  assumes act: "active this a" and st: "starts exchange" and can: "can_create cx" and rel: "\<not> dbg cx"
  shows "\<exists>b. start_peer J cx this k exchange a = Inr (b, True) \<and> active this b \<and>
    ct_peers (ap_ctls b this) = map_insert k (ap_next_pc a) (ct_peers (ap_ctls a this)) \<and>
    (\<exists>pc out1 out2. pc_ready pc \<and> pc_remote_id pc = k \<and> exchange pc = Inr (pc\<lparr>pc_state := pConnecting\<rparr>, out2) \<and>
       (\<exists>rest. ap_rtc_calls b = ap_rtc_calls a @ map (Pair (ap_next_pc a)) (out1 @ out2) @ rest \<and>
         (map_find (ct_peers (ap_ctls a this)) k = None \<longrightarrow>
            rest = [] \<and> ap_pcs b (ap_next_pc a) = pc\<lparr>pc_state := pConnecting\<rparr>)))"
proof -
  let ?p = "ap_next_pc a"
  obtain b p where new: "new_pc this k a = (b, p)" by (cases "new_pc this k a")
  note nb = new_pc_active [OF act new]
  have p: "p = ?p" and calls: "ap_rtc_calls b = ap_rtc_calls a"
    using new by (auto simp: new_pc_def Let_def)
  obtain pc and out :: "'j pc_out list" where
    ini: "PC_Initialize (cx_env cx) p (ap_pcs b p) = Inr (pc, out, True)"
    using Initialize_creates [OF can, where 'a = 'j] unfolding nb(5) by blast
  note res = Initialize_result [OF ini [unfolded nb(5)]]
  obtain out2 where ex: "exchange pc = Inr (pc\<lparr>pc_state := pConnecting\<rparr>, out2)" "filter to_owner out2 = []"
    using st res(3) by (auto simp: starts_def)
  let ?c = "emit_rtc p out2 (emit_rtc p out (insert_peer this k p (upd_pc p (pc\<lparr>pc_state := pConnecting\<rparr>) b)))"
  have run: "start_peer J cx this k exchange a = and_then (end_scope cx this k p ?c) (\<lambda>a. Inr (a, True))"
    using new ini ex owner_free_run [OF ex(2), of J cx this]
    by (simp add: start_peer_def Let_def run_pc_def insert_upd_pc)
  have fo: "filter (Not \<circ> to_owner) out2 = out2" using ex(2) by (auto simp: filter_empty_conv filter_id_conv)
  have tab: "ct_peers (ap_ctls ?c this) = map_insert k ?p (ct_peers (ap_ctls a this))"
    using nb(6) by (simp add: p insert_peer_def upd_defs)
  have rc: "ap_rtc_calls ?c = ap_rtc_calls a @ map (Pair ?p) (filter (Not \<circ> to_owner) out @ out2)"
    by (simp only: emit_rtc_def fo) (simp add: calls p insert_peer_def upd_defs)
  have wf: "map_wf (ct_peers (ap_ctls a this))"
    using active_D(1) [OF act] by (simp add: app_inv_def table_inv_def)
  obtain d where d: "end_scope cx this k p ?c = Inr d" "ap_ctls d = ap_ctls ?c"
    and rest: "\<exists>rest. ap_rtc_calls d = ap_rtc_calls ?c @ rest \<and>
      (map_find (ct_peers (ap_ctls a this)) k = None \<longrightarrow> rest = [] \<and> ap_pcs d = ap_pcs ?c)"
  proof (cases "map_find (ct_peers (ap_ctls ?c this)) k = Some p")
    case True
    then show thesis by (intro that [of ?c]) (simp_all add: end_scope_def)
  next
    case False
    then have "map_find (ct_peers (ap_ctls a this)) k \<noteq> None" using tab wf p by (auto simp: std_map_facts split: if_splits)
    moreover obtain e more where "release_pc cx p ?c = Inr e" "ap_ctls e = ap_ctls ?c" "ap_rtc_calls e = ap_rtc_calls ?c @ more"
      using release_pc_calls [OF rel] by blast
    ultimately show thesis using False by (intro that [of e]) (auto simp: end_scope_def)
  qed
  have fin: "start_peer J cx this k exchange a = Inr (d, True)" using run d(1) by simp
  then have act': "active this d" using start_peer_active [OF act st, of cx J k] by simp
  obtain rest where rest': "ap_rtc_calls d = ap_rtc_calls ?c @ rest"
    "map_find (ct_peers (ap_ctls a this)) k = None \<longrightarrow> rest = [] \<and> ap_pcs d = ap_pcs ?c"
    using rest by (elim exE conjE) (rule that)
  have calls': "ap_rtc_calls d = ap_rtc_calls a @ map (Pair ?p) (filter (Not \<circ> to_owner) out @ out2) @ rest"
    unfolding rest'(1) rc by simp
  have new': "map_find (ct_peers (ap_ctls a this)) k = None \<longrightarrow>
      rest = [] \<and> ap_pcs d ?p = pc\<lparr>pc_state := pConnecting\<rparr>"
    using rest'(2) by (simp add: p)
  have tab': "ct_peers (ap_ctls d this) = map_insert k ?p (ct_peers (ap_ctls a this))"
    unfolding d(2) by (rule tab)
  show ?thesis
    by (rule exI [of _ d], intro conjI, rule fin, rule act', rule tab',
        rule exI [of _ pc], rule exI [of _ "filter (Not \<circ> to_owner) out"], rule exI [of _ out2],
        intro conjI, rule res(3) [OF TrueI], rule res(2), rule ex(1), rule exI [of _ rest],
        rule conjI, rule calls', rule new')
qed

text \<open>
  C20. An offer from a peer that is not in the table yet is accepted: in a release build, when WebRTC
  can create the objects, the peer is entered into the table as a connecting entry, and the new
  connection is given the offer and asked for an answer, in this order and with the text of the
  offer.
\<close>

theorem offer_is_answered:
  fixes a :: "'j app"
  assumes "active this a" and "can_create cx" and "\<not> env_debug (cx_env cx)"
    and "map_find (ct_peers (ap_ctls a this)) k = None" and "jl_get_string J data ''sdp'' = Some sdp"
  shows "\<exists>b c out. Control_ReceiveOfferSdp J cx this k data a = Inr b \<and>
    map_find (ct_peers (ap_ctls b this)) k = Some (ap_next_pc a) \<and>
    pc_state (ap_pcs b (ap_next_pc a)) = pConnecting \<and> pc_live (ap_pcs b (ap_next_pc a)) \<and>
    pc_connection (ap_pcs b (ap_next_pc a)) = Some c \<and>
    ap_rtc_calls b = ap_rtc_calls a @
      map (Pair (ap_next_pc a)) (out @ [PcSetRemoteDescription c ''offer'' sdp, PcCreateAnswer c])"
proof -
  let ?ex = "PC_ReceiveOfferSdp (cx_env cx) sdp :: peer_control \<Rightarrow> (peer_control \<times> 'j pc_out list) res"
  have wf: "map_wf (ct_peers (ap_ctls a this))"
    using active_D(1) [OF assms(1)] by (simp add: app_inv_def table_inv_def)
  have st: "starts ?ex" by (rule starts_answer)
  from start_peer_run [OF assms(1) st assms(2,3), of J k] obtain b pc out1 out2 where
    b: "start_peer J cx this k ?ex a = Inr (b, True)"
      "ct_peers (ap_ctls b this) = map_insert k (ap_next_pc a) (ct_peers (ap_ctls a this))"
    and pc: "pc_ready pc" "?ex pc = Inr (pc\<lparr>pc_state := pConnecting\<rparr>, out2)"
      "ap_rtc_calls b = ap_rtc_calls a @ map (Pair (ap_next_pc a)) (out1 @ out2)"
      "ap_pcs b (ap_next_pc a) = pc\<lparr>pc_state := pConnecting\<rparr>"
    using assms(4) by auto
  obtain c where c: "pc_connection pc = Some c" using pc(1) by (auto simp: pc_ready_def)
  with pc(1,2) have "out2 = [PcSetRemoteDescription c ''offer'' sdp, PcCreateAnswer c]"
    by (simp add: pc_ready_def PC_ReceiveOfferSdp_def PC_CreateAnswer_def PC_SetRemoteDescription_def)
  moreover have "Control_ReceiveOfferSdp J cx this k data a = Inr b"
    using b(1) assms(5) by (simp add: Control_ReceiveOfferSdp_def)
  moreover have "map_find (ct_peers (ap_ctls b this)) k = Some (ap_next_pc a)"
    using b(2) wf assms(4) by (simp add: std_map_facts)
  ultimately show ?thesis
    using pc c pc_ready_connecting [OF pc(1)] by (intro exI [of _ b] exI [of _ c] exI [of _ out1]) simp
qed

lemma can_create_cx0: "can_create cx0" and release_cx0: "\<not> env_debug (cx_env cx0)"
  by (simp_all add: can_create_def cx0_def env_ok_def)

text \<open>The sample application while it handles a message.\<close>

definition app_handling :: "jtree app" where
  "app_handling = app_asked\<lparr>ap_queue := [], ap_busy := Some q_offer\<rparr>"

lemma active_handling: "active 0 app_handling"
proof -
  have q: "ap_queue app_asked = [] @ q_offer # []" using sample_runs(7) by simp
  have "q_target q_offer = 0" by (simp add: q_offer_def)
  then show ?thesis
    using deliver_active [OF dequeued [OF reachable_inv [OF reachable_asked] q]] by (simp add: app_handling_def)
qed

theorem offer_is_answered_witness:
  "\<exists>b. Control_ReceiveOfferSdp J0 cx0 0 ''b'' (JObject [(''sdp'', JString ''v=0'')]) app_handling = Inr b \<and>
    map_find (ct_peers (ap_ctls b 0)) ''b'' = Some 0"
proof -
  have t: "map_find (ct_peers (ap_ctls app_handling 0)) ''b'' = None" "ap_next_pc app_handling = 0"
    by code_simp+
  have "jl_get_string J0 (JObject [(''sdp'', JString ''v=0'')]) ''sdp'' = Some ''v=0''"
    by (simp add: J0_def jt_lib_def)
  from offer_is_answered [OF active_handling can_create_cx0 release_cx0 t(1) this] t(2) show ?thesis by auto
qed

text \<open>The loop of \<open>CreateOffer\<close> enters every listed peer.\<close>

lemma create_offers_run:
  fixes a :: "'j app"
  assumes "active this a" and "can_create cx" and "\<not> dbg cx"
    and "\<forall>i \<in> set is. jl_elem_string J peers i \<noteq> None"
  shows "\<exists>b. create_offers J cx this peers is a = Inr b \<and> active this b \<and>
    (\<forall>k. map_find (ct_peers (ap_ctls a this)) k \<noteq> None \<longrightarrow>
       map_find (ct_peers (ap_ctls b this)) k = map_find (ct_peers (ap_ctls a this)) k) \<and>
    (\<forall>k. map_find (ct_peers (ap_ctls b this)) k \<noteq> None \<longleftrightarrow>
       map_find (ct_peers (ap_ctls a this)) k \<noteq> None \<or> (\<exists>i \<in> set is. jl_elem_string J peers i = Some k))"
  using assms(1,4)
proof (induction "is" arbitrary: a)
  case Nil
  then show ?case by simp
next
  case (Cons i "is")
  obtain r where r: "jl_elem_string J peers i = Some r" using Cons.prems(2) by auto
  from start_peer_run [OF Cons.prems(1) starts_offer assms(2,3), of J r] obtain b where
    b: "start_peer J cx this r (PC_CreateOffer (cx_env cx)) a = Inr (b, True)" "active this b"
      "ct_peers (ap_ctls b this) = map_insert r (ap_next_pc a) (ct_peers (ap_ctls a this))" by blast
  have wf: "map_wf (ct_peers (ap_ctls a this))"
    using active_D(1) [OF Cons.prems(1)] by (simp add: app_inv_def table_inv_def)
  from Cons.IH [OF b(2)] Cons.prems(2) obtain c where
    c: "create_offers J cx this peers is b = Inr c" "active this c"
      "\<forall>k. map_find (ct_peers (ap_ctls b this)) k \<noteq> None \<longrightarrow>
         map_find (ct_peers (ap_ctls c this)) k = map_find (ct_peers (ap_ctls b this)) k"
      "\<forall>k. map_find (ct_peers (ap_ctls c this)) k \<noteq> None \<longleftrightarrow>
         map_find (ct_peers (ap_ctls b this)) k \<noteq> None \<or> (\<exists>i \<in> set is. jl_elem_string J peers i = Some k)"
    by auto
  have find: "map_find (ct_peers (ap_ctls b this)) k =
      (if k = r \<and> map_find (ct_peers (ap_ctls a this)) r = None then Some (ap_next_pc a)
       else map_find (ct_peers (ap_ctls a this)) k)" for k
    using wf by (simp add: b(3) std_map_facts)
  have run: "create_offers J cx this peers (i # is) a = Inr c" using r b(1) c(1) by simp
  have keep: "map_find (ct_peers (ap_ctls c this)) k = map_find (ct_peers (ap_ctls a this)) k"
    if "map_find (ct_peers (ap_ctls a this)) k \<noteq> None" for k
  proof -
    have "map_find (ct_peers (ap_ctls b this)) k = map_find (ct_peers (ap_ctls a this)) k"
      using that find [of k] by auto
    with c(3) that show ?thesis by metis
  qed
  have dom: "map_find (ct_peers (ap_ctls c this)) k \<noteq> None \<longleftrightarrow>
      map_find (ct_peers (ap_ctls a this)) k \<noteq> None \<or> (\<exists>j \<in> set (i # is). jl_elem_string J peers j = Some k)" for k
    unfolding c(4) [rule_format] find using r by auto
  show ?case using run c(2) keep dom by blast
qed

text \<open>
  C19. A \<open>createoffer\<close> command names the peers to connect to. In a release build, when WebRTC can
  create the objects and every element is a string, afterwards the table holds exactly the peers
  it held before and those named; entries that existed are not replaced.
\<close>

theorem createoffer_enters_all:
  fixes a :: "'j app"
  assumes "active this a" and "can_create cx" and "\<not> env_debug (cx_env cx)"
    and "jl_get_value J data ''peers'' = Some peers"
    and "\<forall>i < jl_size J peers. jl_elem_string J peers i \<noteq> None"
  shows "\<exists>b. Control_CreateOffer J cx this data a = Inr b \<and>
    (\<forall>k. map_find (ct_peers (ap_ctls a this)) k \<noteq> None \<longrightarrow>
       map_find (ct_peers (ap_ctls b this)) k = map_find (ct_peers (ap_ctls a this)) k) \<and>
    (\<forall>k. map_find (ct_peers (ap_ctls b this)) k \<noteq> None \<longleftrightarrow>
       map_find (ct_peers (ap_ctls a this)) k \<noteq> None \<or> (\<exists>i < jl_size J peers. jl_elem_string J peers i = Some k))"
  using create_offers_run [OF assms(1-3), of "[0..<jl_size J peers]" J peers] assms(4,5)
  by (auto simp: Control_CreateOffer_def Bex_def)

theorem createoffer_enters_all_witness:
  "\<exists>b. Control_CreateOffer J0 cx0 0 (JObject [(''peers'', JArray [JString ''c'', JString ''d''])]) app_handling = Inr b \<and>
    map_find (ct_peers (ap_ctls b 0)) ''d'' \<noteq> None \<and> map_find (ct_peers (ap_ctls b 0)) ''e'' = None"
proof -
  let ?p = "JArray [JString ''c'', JString ''d'']"
  have g: "jl_get_value J0 (JObject [(''peers'', ?p)]) ''peers'' = Some ?p"
    and n: "\<forall>i < jl_size J0 ?p. jl_elem_string J0 ?p i \<noteq> None" and sz: "jl_size J0 ?p = 2"
    by (simp_all add: J0_def jt_lib_def All_less_Suc numeral_2_eq_2)
  have e: "map_find (ct_peers (ap_ctls app_handling 0)) ''e'' = None" by code_simp
  obtain b where b: "Control_CreateOffer J0 cx0 0 (JObject [(''peers'', ?p)]) app_handling = Inr b"
    "\<forall>k. map_find (ct_peers (ap_ctls b 0)) k \<noteq> None \<longleftrightarrow>
       map_find (ct_peers (ap_ctls app_handling 0)) k \<noteq> None \<or> (\<exists>i < jl_size J0 ?p. jl_elem_string J0 ?p i = Some k)"
    using createoffer_enters_all [OF active_handling can_create_cx0 release_cx0 g n] by blast
  have "jl_elem_string J0 ?p 1 = Some ''d''" "\<forall>i < 2. jl_elem_string J0 ?p i \<noteq> Some ''e''"
    by (simp_all add: J0_def jt_lib_def All_less_Suc numeral_2_eq_2)
  then have "map_find (ct_peers (ap_ctls b 0)) ''d'' \<noteq> None"
    using b(2) [rule_format, of "''d''"] sz by (metis one_less_numeral_iff semiring_norm(76))
  moreover have "\<not> map_find (ct_peers (ap_ctls b 0)) ''e'' \<noteq> None"
    unfolding b(2) [rule_format] sz using e \<open>\<forall>i < 2. jl_elem_string J0 ?p i \<noteq> Some ''e''\<close> by simp
  then have "map_find (ct_peers (ap_ctls b 0)) ''e'' = None" by (rule notnotD)
  ultimately show ?thesis using b(1) by (intro exI [of _ b] conjI)
qed

end
