(* ===== verification/Logging.thy ===== *)
theory Logging
  imports Prelude "HOL-Library.Sublist"
begin

section \<open>Logging (\<open>logging.h\<close>, \<open>logging.cc\<close>)\<close>

text \<open>
  The static state of class \<open>LogMessage\<close> (thresholds, streams, format options), the life of one
  message from its constructor to its destructor, and the helpers \<open>FindLabel\<close>, \<open>ErrorName\<close>,
  \<open>FilenameFromPath\<close> and \<open>LogMultiline\<close>. The platform branches for Windows and the Mac call the
  operating system only and are left out; the branch for Android, which splits long messages, is
  modelled beside the POSIX one. A \<open>LogSink\<close> is an address (\<open>nat\<close>); what is sent to it is recorded.

  The string functions of WebRTC's base library (\<open>tokenize\<close>, \<open>hex_encode\<close>, \<open>strchrn\<close>) are not part
  of the repository; they are the record \<open>rtc_str\<close>, an argument of the operations that call them.
\<close>

subsection \<open>Severities\<close>

datatype LoggingSeverity = LS_SENSITIVE | LS_VERBOSE | LS_INFO | LS_WARNING | LS_ERROR | LS_NONE

fun sev_value :: "LoggingSeverity \<Rightarrow> nat" where
  "sev_value LS_SENSITIVE = 0"
| "sev_value LS_VERBOSE = 1"
| "sev_value LS_INFO = 2"
| "sev_value LS_WARNING = 3"
| "sev_value LS_ERROR = 4"
| "sev_value LS_NONE = 5"

lemma sev_value_inject [simp]: "sev_value a = sev_value b \<longleftrightarrow> a = b"
  by (cases a; cases b) simp_all

instantiation LoggingSeverity :: linorder
begin

definition less_eq_LoggingSeverity :: "LoggingSeverity \<Rightarrow> LoggingSeverity \<Rightarrow> bool" where
  "a \<le> b \<longleftrightarrow> sev_value a \<le> sev_value b"

definition less_LoggingSeverity :: "LoggingSeverity \<Rightarrow> LoggingSeverity \<Rightarrow> bool" where
  "a < b \<longleftrightarrow> sev_value a < sev_value b"

instance
  by standard (auto simp: less_eq_LoggingSeverity_def less_LoggingSeverity_def)

end

lemma LS_NONE_max [simp]: "s \<le> LS_NONE"
  by (cases s) (simp_all add: less_eq_LoggingSeverity_def)

subsection \<open>State and configuration\<close>

record log_state =
  lg_min_sev :: LoggingSeverity
  lg_dbg_sev :: LoggingSeverity
  lg_streams :: "(nat \<times> LoggingSeverity) list"
  lg_thread :: bool
  lg_timestamp :: bool
  lg_to_stderr :: bool

record rtc_str =
  rs_tokenize :: "string \<Rightarrow> char \<Rightarrow> string list"
  rs_hex_encode :: "nat \<Rightarrow> char"
  rs_strchrn :: "string \<Rightarrow> char \<Rightarrow> nat option"

text \<open>The initial values of the static members; \<open>ndebug\<close> is the macro \<open>NDEBUG\<close>.\<close>

definition log_init :: "bool \<Rightarrow> log_state" where
  "log_init ndebug = \<lparr>
     lg_min_sev = (if ndebug then LS_NONE else LS_INFO),
     lg_dbg_sev = (if ndebug then LS_NONE else LS_INFO),
     lg_streams = [], lg_thread = False, lg_timestamp = False, lg_to_stderr = True\<rparr>"

definition Loggable :: "LoggingSeverity \<Rightarrow> log_state \<Rightarrow> bool" where
  "Loggable sev st \<longleftrightarrow> sev \<ge> lg_min_sev st"

definition LogCheckLevel :: "LoggingSeverity \<Rightarrow> log_state \<Rightarrow> bool" where
  "LogCheckLevel sev st \<longleftrightarrow> lg_min_sev st \<le> sev"

definition UpdateMinLogSeverity :: "log_state \<Rightarrow> log_state" where
  "UpdateMinLogSeverity st =
     st\<lparr>lg_min_sev := fold (\<lambda>kv min_sev. min (lg_dbg_sev st) (snd kv)) (lg_streams st) (lg_dbg_sev st)\<rparr>"

definition LogThreads :: "bool \<Rightarrow> log_state \<Rightarrow> log_state" where
  "LogThreads on st = st\<lparr>lg_thread := on\<rparr>"

definition LogTimestamps :: "bool \<Rightarrow> log_state \<Rightarrow> log_state" where
  "LogTimestamps on st = st\<lparr>lg_timestamp := on\<rparr>"

definition LogToDebug :: "LoggingSeverity \<Rightarrow> log_state \<Rightarrow> log_state" where
  "LogToDebug min_sev st = UpdateMinLogSeverity (st\<lparr>lg_dbg_sev := min_sev\<rparr>)"

definition SetLogToStderr :: "bool \<Rightarrow> log_state \<Rightarrow> log_state" where
  "SetLogToStderr log_to_stderr st = st\<lparr>lg_to_stderr := log_to_stderr\<rparr>"

definition GetLogToStream :: "nat option \<Rightarrow> log_state \<Rightarrow> LoggingSeverity" where
  "GetLogToStream stream st =
     fold (\<lambda>kv sev. if stream = None \<or> stream = Some (fst kv) then min sev (snd kv) else sev)
       (lg_streams st) LS_NONE"

definition AddLogToStream :: "nat \<Rightarrow> LoggingSeverity \<Rightarrow> log_state \<Rightarrow> log_state" where
  "AddLogToStream stream min_sev st =
     UpdateMinLogSeverity (st\<lparr>lg_streams := lg_streams st @ [(stream, min_sev)]\<rparr>)"

fun erase_first :: "nat \<Rightarrow> (nat \<times> LoggingSeverity) list \<Rightarrow> (nat \<times> LoggingSeverity) list" where
  "erase_first stream [] = []"
| "erase_first stream (kv # kvs) = (if stream = fst kv then kvs else kv # erase_first stream kvs)"

definition RemoveLogToStream :: "nat \<Rightarrow> log_state \<Rightarrow> log_state" where
  "RemoveLogToStream stream st =
     UpdateMinLogSeverity (st\<lparr>lg_streams := erase_first stream (lg_streams st)\<rparr>)"

text \<open>One token of \<open>ConfigureLogging\<close>, on the options and the two local levels.\<close>

fun configure_token :: "string \<Rightarrow> log_state \<times> LoggingSeverity \<times> LoggingSeverity \<Rightarrow>
    log_state \<times> LoggingSeverity \<times> LoggingSeverity" where
  "configure_token token (st, current_level, debug_level) =
     (if token = [] then (st, current_level, debug_level)
      else if token = ''tstamp'' then (LogTimestamps True st, current_level, debug_level)
      else if token = ''thread'' then (LogThreads True st, current_level, debug_level)
      else if token = ''sensitive'' then (st, LS_SENSITIVE, debug_level)
      else if token = ''verbose'' then (st, LS_VERBOSE, debug_level)
      else if token = ''info'' then (st, LS_INFO, debug_level)
      else if token = ''warning'' then (st, LS_WARNING, debug_level)
      else if token = ''error'' then (st, LS_ERROR, debug_level)
      else if token = ''none'' then (st, LS_NONE, debug_level)
      else if token = ''debug'' then (st, current_level, current_level)
      else (st, current_level, debug_level))"

definition ConfigureLogging :: "rtc_str \<Rightarrow> string \<Rightarrow> log_state \<Rightarrow> log_state" where
  "ConfigureLogging R params st =
     (let (st, current_level, debug_level) =
        fold configure_token (rs_tokenize R params (CHR '' '')) (st, LS_VERBOSE, lg_dbg_sev st)
      in LogToDebug debug_level st)"

subsection \<open>Numbers and labels\<close>

text \<open>A C \<open>int\<close>, as its 32-bit pattern.\<close>

type_synonym i32 = "32 word"

fun dec :: "nat \<Rightarrow> string" where
  "dec n = (if n < 10 then [char_of (48 + n)] else dec (n div 10) @ [char_of (48 + n mod 10)])"

definition hex_digit :: "nat \<Rightarrow> char" where
  "hex_digit d = (if d < 10 then char_of (48 + d) else char_of (87 + d))"

fun hex :: "nat \<Rightarrow> string" where
  "hex n = (if n < 16 then [hex_digit n] else hex (n div 16) @ [hex_digit (n mod 16)])"

declare dec.simps [simp del] hex.simps [simp del]

definition pad0 :: "nat \<Rightarrow> string \<Rightarrow> string" where
  "pad0 w s = replicate (w - length s) (CHR ''0'') @ s"

text \<open>An array of labels up to its terminating entry with a null label.\<close>

fun FindLabel :: "i32 \<Rightarrow> (i32 \<times> string option) list \<Rightarrow> string option" where
  "FindLabel v [] = None"
| "FindLabel v ((w, None) # entries) = None"
| "FindLabel v ((w, Some label) # entries) = (if v = w then Some label else FindLabel v entries)"

definition ErrorName :: "i32 \<Rightarrow> (i32 \<times> string option) list option \<Rightarrow> string" where
  "ErrorName err err_table =
     (if err = 0 then ''No error''
      else
        case (case err_table of None \<Rightarrow> None | Some entries \<Rightarrow> FindLabel err entries) of
          Some v \<Rightarrow> v
        | None \<Rightarrow> ''0x'' @ pad0 8 (hex (unat err)))"

text \<open>\<open>strrchr\<close>, as the position of the last occurrence; a null pointer is below every position.\<close>

fun strrchr :: "string \<Rightarrow> char \<Rightarrow> nat option" where
  "strrchr [] c = None"
| "strrchr (x # xs) c =
     (case strrchr xs c of Some i \<Rightarrow> Some (Suc i) | None \<Rightarrow> if x = c then Some 0 else None)"

definition FilenameFromPath :: "string \<Rightarrow> string" where
  "FilenameFromPath file =
     (case (strrchr file (CHR ''/''), strrchr file (CHR 0x5C)) of
        (None, None) \<Rightarrow> file
      | (Some e1, None) \<Rightarrow> drop (e1 + 1) file
      | (None, Some e2) \<Rightarrow> drop (e2 + 1) file
      | (Some e1, Some e2) \<Rightarrow> if e1 > e2 then drop (e1 + 1) file else drop (e2 + 1) file)"

subsection \<open>One message\<close>

datatype LogErrorContext = ERRCTX_NONE | ERRCTX_ERRNO | ERRCTX_HRESULT | ERRCTX_OSSTATUS

datatype log_out =
    Stderr string
  | AndroidLog nat string string          \<comment> \<open>priority, tag, text\<close>
  | OnLogMessage nat string

record log_message =
  ms_stream :: string                     \<comment> \<open>\<open>print_stream_\<close>\<close>
  ms_severity :: LoggingSeverity
  ms_tag :: string
  ms_extra :: string

text \<open>
  The constructor. \<open>time\<close>: milliseconds since \<open>LogStartTime()\<close>; \<open>tid\<close>: \<open>CurrentThreadId()\<close>;
  \<open>strerror\<close>: the C library function.
\<close>

definition LogMessage_ctor ::
    "nat \<Rightarrow> nat \<Rightarrow> (i32 \<Rightarrow> string) \<Rightarrow> string option \<Rightarrow> nat \<Rightarrow> LoggingSeverity \<Rightarrow> LogErrorContext \<Rightarrow> i32 \<Rightarrow>
     log_state \<Rightarrow> log_message" where
  "LogMessage_ctor time tid strerror file line sev err_ctx err st =
     (let s1 = (if lg_timestamp st
                then ''['' @ pad0 3 (dec (time div 1000)) @ '':'' @ pad0 3 (dec (time mod 1000)) @ ''] ''
                else []);
          s2 = (if lg_thread st then ''['' @ dec tid @ ''] '' else []);
          s3 = (case file of
                  None \<Rightarrow> []
                | Some f \<Rightarrow> ''('' @ FilenameFromPath f @ '':'' @ dec line @ ''): '');
          extra = (if err_ctx \<noteq> ERRCTX_NONE
                   then ''[0x'' @ pad0 8 (hex (unat err)) @ '']'' @
                        (if err_ctx = ERRCTX_ERRNO then '' '' @ strerror err else [])
                   else [])
      in \<lparr>ms_stream = s1 @ s2 @ s3, ms_severity = sev, ms_tag = ''libjingle'', ms_extra = extra\<rparr>)"

definition LogMessage_ctor_tag ::
    "nat \<Rightarrow> nat \<Rightarrow> (i32 \<Rightarrow> string) \<Rightarrow> string option \<Rightarrow> nat \<Rightarrow> LoggingSeverity \<Rightarrow> string \<Rightarrow> log_state \<Rightarrow> log_message" where
  "LogMessage_ctor_tag time tid strerror file line sev tag st =
     (let m = LogMessage_ctor time tid strerror file line sev ERRCTX_NONE 0 st
      in m\<lparr>ms_tag := tag, ms_stream := ms_stream m @ tag @ '': ''\<rparr>)"

definition kMaxLogLineSize :: nat where
  "kMaxLogLineSize = 1024 - 60"

definition android_prio :: "LoggingSeverity \<Rightarrow> nat" where
  \<comment> \<open>\<open>ANDROID_LOG_VERBOSE\<close> 2, \<open>INFO\<close> 4, \<open>WARN\<close> 5, \<open>ERROR\<close> 6, \<open>UNKNOWN\<close> 0\<close>
  "android_prio sev =
     (case sev of LS_SENSITIVE \<Rightarrow> 4 | LS_VERBOSE \<Rightarrow> 2 | LS_INFO \<Rightarrow> 4 | LS_WARNING \<Rightarrow> 5 | LS_ERROR \<Rightarrow> 6 | LS_NONE \<Rightarrow> 0)"

text \<open>The loop over the pieces of a long message: line number and text of each.\<close>

function android_lines :: "nat \<Rightarrow> string \<Rightarrow> (nat \<times> string) list" where
  "android_lines line str =
     (if str = [] then []
      else (line + 1, take kMaxLogLineSize str) # android_lines (line + 1) (drop kMaxLogLineSize str))"
  by pat_completeness auto
termination
  by (relation "measure (\<lambda>(line, str). length str)") (auto simp: kMaxLogLineSize_def)

declare android_lines.simps [simp del]

definition android_log :: "string \<Rightarrow> LoggingSeverity \<Rightarrow> string \<Rightarrow> log_out list" where
  "android_log str sev tag =
     (let max_lines = length str div kMaxLogLineSize + 1
      in if max_lines = 1 then [AndroidLog (android_prio sev) tag str]
         else map (\<lambda>(line, piece). AndroidLog (android_prio sev) tag
                     (''['' @ dec line @ ''/'' @ dec max_lines @ ''] '' @ piece)) (android_lines 0 str))"

definition OutputToDebug :: "bool \<Rightarrow> string \<Rightarrow> LoggingSeverity \<Rightarrow> string \<Rightarrow> log_state \<Rightarrow> log_out list" where
  "OutputToDebug android str severity tag st =
     (if android \<and> severity = LS_SENSITIVE
      then AndroidLog (android_prio LS_INFO) tag ''SENSITIVE'' #
           (if lg_to_stderr st then [Stderr ''SENSITIVE''] else [])
      else (if android then android_log str severity tag else []) @
           (if lg_to_stderr st then [Stderr str] else []))"

definition LogMessage_dtor :: "bool \<Rightarrow> log_message \<Rightarrow> log_state \<Rightarrow> log_out list" where
  "LogMessage_dtor android m st =
     (let str = ms_stream m @ (if ms_extra m \<noteq> [] then '' : '' @ ms_extra m else []) @ [CHR 0x0A]
      in (if ms_severity m \<ge> lg_dbg_sev st then OutputToDebug android str (ms_severity m) (ms_tag m) st else []) @
         map (\<lambda>kv. OnLogMessage (fst kv) str) (filter (\<lambda>kv. ms_severity m \<ge> snd kv) (lg_streams st)))"

text \<open>\<open>LOG(sev) << body\<close>: the macro, with its short circuit.\<close>

definition LOG :: "bool \<Rightarrow> nat \<Rightarrow> nat \<Rightarrow> (i32 \<Rightarrow> string) \<Rightarrow> string \<Rightarrow> nat \<Rightarrow> LoggingSeverity \<Rightarrow> string \<Rightarrow>
    log_state \<Rightarrow> log_out list" where
  "LOG android time tid strerror file line sev body st =
     (if \<not> Loggable sev st then []
      else let m = LogMessage_ctor time tid strerror (Some file) line sev ERRCTX_NONE 0 st
           in LogMessage_dtor android (m\<lparr>ms_stream := ms_stream m @ body\<rparr>) st)"

subsection \<open>\<open>LogMultiline\<close>\<close>

record LogMultilineState =
  lm_unprintable :: "bool \<Rightarrow> nat"          \<comment> \<open>\<open>unprintable_count_[input]\<close>\<close>

definition isspace :: "char \<Rightarrow> bool" where
  "isspace c \<longleftrightarrow> (let n = of_char c :: nat in n = 32 \<or> (9 \<le> n \<and> n \<le> 13))"

definition isprint :: "char \<Rightarrow> bool" where
  "isprint c \<longleftrightarrow> (let n = of_char c :: nat in 32 \<le> n \<and> n \<le> 126)"

definition LINE_SIZE :: nat where "LINE_SIZE = 24"

definition asc_size :: nat where "asc_size = LINE_SIZE + 1"

definition hex_size :: nat where "hex_size = LINE_SIZE * 9 div 4 + 2"

text \<open>The body of the loop over one line: the bytes written into the two buffers.\<close>

fun hex_fill :: "rtc_str \<Rightarrow> nat \<Rightarrow> string \<Rightarrow> string \<times> string \<Rightarrow> string \<times> string" where
  "hex_fill R i [] (asc_line, hex_line) = (asc_line, hex_line)"
| "hex_fill R i (ch # chs) (asc_line, hex_line) =
     hex_fill R (Suc i) chs
       (asc_line[i := if isprint ch then ch else CHR ''.''],
        hex_line[i * 2 + i div 4 := rs_hex_encode R (of_char ch div 16),
                 i * 2 + i div 4 + 1 := rs_hex_encode R (of_char ch mod 16)])"

definition hex_lines_of :: "rtc_str \<Rightarrow> string \<Rightarrow> string \<times> string" where
  "hex_lines_of R chunk =
     (let (asc_line, hex_line) = hex_fill R 0 chunk (replicate asc_size (CHR '' ''), replicate hex_size (CHR '' ''))
      in (asc_line[asc_size - 1 := CHR 0x00], hex_line[hex_size - 1 := CHR 0x00]))"

text \<open>A C string in a buffer, up to its terminator.\<close>

definition c_str :: "string \<Rightarrow> string" where
  "c_str buf = takeWhile (\<lambda>c. c \<noteq> CHR 0x00) buf"

function hex_dump :: "rtc_str \<Rightarrow> string \<Rightarrow> string \<Rightarrow> string list" where
  "hex_dump R pre data =
     (if data = [] then []
      else
        let (asc_line, hex_line) = hex_lines_of R (take LINE_SIZE data)
        in (pre @ c_str asc_line @ '' '' @ c_str hex_line @ '' '') # hex_dump R pre (drop LINE_SIZE data))"
  by pat_completeness auto
termination
  by (relation "measure (\<lambda>(R, pre, data). length data)") (auto simp: LINE_SIZE_def)

declare hex_dump.simps [simp del]

text \<open>The scan of one line: whether it is printable, and whether it is entirely whitespace.\<close>

fun scan_line :: "string \<Rightarrow> bool \<times> bool" where
  "scan_line [] = (True, True)"
| "scan_line (c # cs) =
     (if isspace c then scan_line cs
      else if \<not> isprint c then (False, False)
      else (fst (scan_line cs), False))"

definition strip_trailing :: "string \<Rightarrow> string" where
  "strip_trailing line = rev (dropWhile isspace (rev line))"

definition unprintable_message :: "string \<Rightarrow> nat \<Rightarrow> string" where
  "unprintable_message pre n = pre @ ''## '' @ dec n @ '' consecutive unprintable ##''"

definition line_message :: "string \<Rightarrow> string \<Rightarrow> string" where
  "line_message pre substr =
     (if sublist ''Email'' substr \<or> sublist ''Passwd'' substr
      then pre @ ''## omitted for privacy ##'' else pre @ substr)"

function text_lines :: "rtc_str \<Rightarrow> string \<Rightarrow> nat \<Rightarrow> string \<Rightarrow> nat \<times> string list" where
  "text_lines R pre consecutive data =
     (if data = [] then (consecutive, [])
      else
        let eol = rs_strchrn R data (CHR 0x0A);
            line = (case eol of None \<Rightarrow> data | Some i \<Rightarrow> take i data);
            rest = (case eol of None \<Rightarrow> [] | Some i \<Rightarrow> drop (i + 1) data);
            (printable, whitespace) = scan_line line;
            is_printable =
              (if consecutive \<noteq> 0 \<and> length line < 4 then False
               else printable \<and> \<not> (consecutive \<noteq> 0 \<and> whitespace))
        in if \<not> is_printable
           then text_lines R pre (consecutive + (length data - length rest)) rest
           else
             let (n, out) = text_lines R pre 0 rest
             in (n, (if consecutive \<noteq> 0 then [unprintable_message pre consecutive] else []) @
                    line_message pre (strip_trailing line) # out))"
  by pat_completeness auto
termination
  by (relation "measure (\<lambda>(R, pre, n, data). length data)") (auto split: option.splits)

declare text_lines.simps [simp del]

definition LogMultiline ::
    "rtc_str \<Rightarrow> LoggingSeverity \<Rightarrow> string \<Rightarrow> bool \<Rightarrow> string option \<Rightarrow> bool \<Rightarrow>
     LogMultilineState option \<Rightarrow> log_state \<Rightarrow> LogMultilineState option \<times> string list" where
  \<comment> \<open>the result: the new state, and the bodies of the messages logged with \<open>LOG_V(level)\<close>\<close>
  "LogMultiline R level label input data hex_mode state st =
     (if \<not> LogCheckLevel level st then (state, [])
      else
        let pre = label @ (if input then '' << '' else '' >> '')
        in case data of
             None \<Rightarrow>
               (case state of
                  None \<Rightarrow> (None, [])
                | Some s \<Rightarrow>
                    if lm_unprintable s input \<noteq> 0
                    then (Some (s\<lparr>lm_unprintable := (lm_unprintable s)(input := 0)\<rparr>),
                          [unprintable_message pre (lm_unprintable s input)])
                    else (state, []))
           | Some d \<Rightarrow>
               if hex_mode then (state, hex_dump R pre d)
               else
                 let (n, out) = text_lines R pre
                       (case state of None \<Rightarrow> 0 | Some s \<Rightarrow> lm_unprintable s input) d
                 in (map_option (\<lambda>s. s\<lparr>lm_unprintable := (lm_unprintable s)(input := n)\<rparr>) state, out))"

subsection \<open>Private data\<close>

lemma dec_digits: "c \<in> set (dec n) \<Longrightarrow> 48 \<le> (of_char c :: nat) \<and> (of_char c :: nat) \<le> 57"
proof (induction n rule: dec.induct)
  case (1 n)
  have digit: "48 \<le> (of_char (char_of (48 + d) :: char) :: nat) \<and> (of_char (char_of (48 + d) :: char) :: nat) \<le> 57"
    if "d < 10" for d :: nat
    using that by (simp add: of_char_of)
  show ?case
  proof (cases "n < 10")
    case True
    with "1.prems" show ?thesis using digit [of n] by (simp add: dec.simps [of n])
  next
    case False
    with "1.prems" have "c \<in> set (dec (n div 10)) \<or> c = char_of (48 + n mod 10)"
      by (auto simp: dec.simps [of n])
    with "1.IH" False show ?thesis using digit [of "n mod 10"] by auto
  qed
qed

lemma not_sublist_char: "c \<in> set p \<Longrightarrow> c \<notin> set s \<Longrightarrow> \<not> sublist p s"
  by (auto dest: set_mono_sublist)

definition public :: "string \<Rightarrow> bool" where
  "public s \<longleftrightarrow> \<not> sublist ''Email'' s \<and> \<not> sublist ''Passwd'' s"

lemma public_count: "public (''## '' @ dec n @ '' consecutive unprintable ##'')"
proof -
  have "CHR ''E'' \<notin> set (dec n)" "CHR ''P'' \<notin> set (dec n)"
    using dec_digits [of "CHR ''E''" n] dec_digits [of "CHR ''P''" n] by auto
  then show ?thesis
    unfolding public_def
    by (intro conjI not_sublist_char [of "CHR ''E''"] not_sublist_char [of "CHR ''P''"]) simp_all
qed

lemma public_omitted: "public ''## omitted for privacy ##''"
  unfolding public_def
  by (intro conjI not_sublist_char [of "CHR ''E''"] not_sublist_char [of "CHR ''P''"]) simp_all

lemma line_message_public: "\<exists>s. line_message pre t = pre @ s \<and> public s"
  using public_omitted by (auto simp: line_message_def public_def)

lemma text_lines_public:
  "text_lines R pre n d = (n', out) \<Longrightarrow> m \<in> set out \<Longrightarrow> \<exists>s. m = pre @ s \<and> public s"
proof (induction R pre n d arbitrary: n' out m rule: text_lines.induct)
  case (1 R pre n d)
  show ?case
  proof (cases "d = []")
    case True
    with "1.prems" show ?thesis by (simp add: text_lines.simps)
  next
    case False
    define line where "line = (case rs_strchrn R d (CHR 0x0A) of None \<Rightarrow> d | Some i \<Rightarrow> take i d)"
    define rest where "rest = (case rs_strchrn R d (CHR 0x0A) of None \<Rightarrow> [] | Some i \<Rightarrow> drop (i + 1) d)"
    obtain pr ws where scan: "scan_line line = (pr, ws)" by (cases "scan_line line")
    define ok where "ok = (if n \<noteq> 0 \<and> length line < 4 then False else pr \<and> \<not> (n \<noteq> 0 \<and> ws))"
    note IH = "1.IH" [OF False refl line_def rest_def scan [symmetric] refl ok_def, simplified]
    obtain n1 out1 where r: "text_lines R pre 0 rest = (n1, out1)" by (cases "text_lines R pre 0 rest")
    have run: "text_lines R pre n d =
        (if \<not> ok then text_lines R pre (n + (length d - length rest)) rest
         else (n1, (if n \<noteq> 0 then [unprintable_message pre n] else []) @
                   line_message pre (strip_trailing line) # out1))"
      using False r scan
      by (subst text_lines.simps) (simp add: Let_def line_def [symmetric] rest_def [symmetric] ok_def)
    show ?thesis
    proof (cases ok)
      case True
      have "\<exists>s. unprintable_message pre n = pre @ s \<and> public s"
        using public_count by (simp add: unprintable_message_def)
      moreover have "\<exists>s. m' = pre @ s \<and> public s" if "m' \<in> set out1" for m'
        using IH(2) [OF True r that] .
      ultimately show ?thesis
        using "1.prems" True line_message_public unfolding run by (auto split: if_splits)
    next
      case no: False
      with "1.prems" show ?thesis using IH(1) [OF no] unfolding run by simp
    qed
  qed
qed

text \<open>
  \<open>LogMultiline\<close> in text mode never logs private data: whatever the buffer holds and however the
  library splits it into lines, each message is the label and direction followed by a text that
  contains neither \<open>Email\<close> nor \<open>Passwd\<close>.
\<close>

theorem multiline_omits_private_data:
  assumes "LogMultiline R level label input (Some data) False state st = (state', out)"
  shows "\<forall>m \<in> set out. \<exists>s. m = label @ (if input then '' << '' else '' >> '') @ s \<and>
    \<not> sublist ''Email'' s \<and> \<not> sublist ''Passwd'' s"
proof
  fix m assume m: "m \<in> set out"
  then have "\<exists>s. m = (label @ (if input then '' << '' else '' >> '')) @ s \<and> public s"
    using assms by (auto simp: LogMultiline_def Let_def split: if_splits prod.splits dest!: text_lines_public)
  then show "\<exists>s. m = label @ (if input then '' << '' else '' >> '') @ s \<and>
      \<not> sublist ''Email'' s \<and> \<not> sublist ''Passwd'' s"
    by (simp add: public_def)
qed

text \<open>The first position of a character, as the library documents \<open>strchrn\<close>.\<close>

fun first_pos :: "string \<Rightarrow> char \<Rightarrow> nat option" where
  "first_pos [] c = None"
| "first_pos (x # xs) c = (if x = c then Some 0 else map_option Suc (first_pos xs c))"

definition rs_sample :: rtc_str where
  "rs_sample = \<lparr>rs_tokenize = (\<lambda>s c. [s]), rs_hex_encode = hex_digit, rs_strchrn = first_pos\<rparr>"

theorem multiline_omits_private_data_witness:
  "LogMultiline rs_sample LS_INFO ''x'' True (Some (''Passwd: 1'' @ [CHR 0x0A] @ ''hi'')) False None (log_init False) =
     (None, [''x << ## omitted for privacy ##'', ''x << hi'']) \<and> \<not> sublist ''Passwd'' '' << ## omitted for privacy ##''"
proof -
  have run: "LogMultiline rs_sample LS_INFO ''x'' True (Some (''Passwd: 1'' @ [CHR 0x0A] @ ''hi'')) False None (log_init False) =
     (None, [''x << ## omitted for privacy ##'', ''x << hi''])" by code_simp
  have "\<exists>s. ''x << ## omitted for privacy ##'' = ''x'' @ '' << '' @ s \<and> \<not> sublist ''Passwd'' s"
    using multiline_omits_private_data [OF run] by simp
  moreover have "\<not> sublist ''Passwd'' '' << ## omitted for privacy ##''"
    by (rule not_sublist_char [of "CHR ''P''"]) simp_all
  ultimately show ?thesis using run by simp
qed

subsection \<open>Thresholds\<close>

lemma min_sev_last:
  "lg_min_sev (UpdateMinLogSeverity st) =
     (if lg_streams st = [] then lg_dbg_sev st else min (lg_dbg_sev st) (snd (last (lg_streams st))))"
proof -
  have "fold (\<lambda>kv min_sev. min d (snd kv)) xs m = (if xs = [] then m else min d (snd (last xs)))"
    for d m :: LoggingSeverity and xs :: "(nat \<times> LoggingSeverity) list"
    by (induction xs arbitrary: m) auto
  then show ?thesis by (simp add: UpdateMinLogSeverity_def)
qed

lemma GetLogToStream_le:
  assumes "kv \<in> set (lg_streams st)"
  shows "GetLogToStream None st \<le> snd kv"
proof -
  have mono: "fold (\<lambda>kv sev. min sev (snd kv)) xs m \<le> m" for m :: LoggingSeverity and xs :: "(nat \<times> LoggingSeverity) list"
  proof (induction xs arbitrary: m)
    case (Cons x xs)
    have "fold (\<lambda>kv sev. min sev (snd kv)) (x # xs) m \<le> min m (snd x)"
      using Cons.IH [of "min m (snd x)"] by (simp del: min.bounded_iff)
    then show ?case by simp
  qed simp
  have "kv \<in> set xs \<Longrightarrow> fold (\<lambda>kv sev. min sev (snd kv)) xs m \<le> snd kv"
    for m :: LoggingSeverity and xs :: "(nat \<times> LoggingSeverity) list"
  proof (induction xs arbitrary: m)
    case (Cons x xs)
    have "fold (\<lambda>kv sev. min sev (snd kv)) (x # xs) m \<le> min m (snd x)"
      using mono [of xs "min m (snd x)"] by (simp del: min.bounded_iff)
    with Cons show ?case by auto
  qed simp
  with assms show ?thesis by (simp add: GetLogToStream_def)
qed

text \<open>
  The short circuit of the logging macros is exact when at most one stream is configured: a
  severity is loggable if and only if the debug output or the stream accepts it.
\<close>

theorem Loggable_exact_single_stream:
  assumes "length (lg_streams st) \<le> 1"
  shows "Loggable sev (UpdateMinLogSeverity st) \<longleftrightarrow>
    lg_dbg_sev st \<le> sev \<or> (\<exists>kv \<in> set (lg_streams st). snd kv \<le> sev)"
  using assms
  by (cases "lg_streams st") (auto simp: Loggable_def min_sev_last min_le_iff_disj)

theorem Loggable_exact_single_stream_witness:
  "Loggable LS_VERBOSE (AddLogToStream 4 LS_VERBOSE (log_init True)) \<and>
   \<not> Loggable LS_SENSITIVE (AddLogToStream 4 LS_VERBOSE (log_init True))"
  using Loggable_exact_single_stream [of "(log_init True)\<lparr>lg_streams := [(4, LS_VERBOSE)]\<rparr>"]
  by (simp add: AddLogToStream_def log_init_def less_eq_LoggingSeverity_def)

text \<open>
  With two streams it is not: \<open>UpdateMinLogSeverity\<close> takes the minimum of the debug level and the
  last stream only. A stream that was added earlier with a lower threshold gets nothing between
  its threshold and that minimum, although \<open>GetLogToStream\<close> reports a minimum that accepts it.
\<close>

theorem earlier_stream_starved:
  assumes "(k0, s0) \<in> set (lg_streams st)" and "s0 \<le> sev" and "sev < s" and "sev < lg_dbg_sev st"
  shows "LOG android time tid strerror file line sev body (AddLogToStream k s st) = [] \<and>
    GetLogToStream None (AddLogToStream k s st) \<le> sev"
proof -
  have "lg_min_sev (AddLogToStream k s st) = min (lg_dbg_sev st) s"
    by (simp add: AddLogToStream_def min_sev_last)
  then have "\<not> Loggable sev (AddLogToStream k s st)" using assms(3,4) by (auto simp: Loggable_def min_le_iff_disj)
  moreover have "(k0, s0) \<in> set (lg_streams (AddLogToStream k s st))"
    using assms(1) by (simp add: AddLogToStream_def UpdateMinLogSeverity_def)
  ultimately show ?thesis
    using GetLogToStream_le [of "(k0, s0)"] assms(2) by (auto simp: LOG_def intro: order_trans)
qed

theorem earlier_stream_starved_witness:
  "LOG False 0 0 (\<lambda>_. []) ''a.cc'' 1 LS_INFO ''hello''
     (AddLogToStream 2 LS_ERROR (AddLogToStream 1 LS_VERBOSE (log_init True))) = []"
  using earlier_stream_starved [where ?k0.0 = 1 and ?s0.0 = LS_VERBOSE and s = LS_ERROR and sev = LS_INFO
      and st = "AddLogToStream 1 LS_VERBOSE (log_init True)"]
  by (simp add: AddLogToStream_def UpdateMinLogSeverity_def log_init_def less_eq_LoggingSeverity_def
      less_LoggingSeverity_def)

subsection \<open>File names, long messages, hex dumps\<close>

lemma strrchr_None: "strrchr s c = None \<longleftrightarrow> c \<notin> set s"
  by (induction s) (auto split: option.splits)

lemma strrchr_Some:
  "strrchr s c = Some i \<Longrightarrow> i < length s \<and> s ! i = c \<and> c \<notin> set (drop (i + 1) s)"
proof (induction s arbitrary: i)
  case (Cons x xs)
  then show ?case by (auto split: option.splits if_splits simp: strrchr_None)
qed simp

text \<open>
  \<open>FilenameFromPath\<close> returns the part after the last separator, of either kind: the path is the
  result preceded by a directory that is empty or ends in a separator, and the result contains no
  separator.
\<close>

theorem FilenameFromPath_correct:
  "\<exists>dir. file = dir @ FilenameFromPath file \<and> (dir = [] \<or> last dir = CHR ''/'' \<or> last dir = CHR 0x5C) \<and>
     CHR ''/'' \<notin> set (FilenameFromPath file) \<and> CHR 0x5C \<notin> set (FilenameFromPath file)"
proof -
  have split: "\<exists>dir. file = dir @ drop (i + 1) file \<and> (dir = [] \<or> last dir = CHR ''/'' \<or> last dir = CHR 0x5C)"
    if "i < length file" "file ! i = CHR ''/'' \<or> file ! i = CHR 0x5C" for i
  proof (intro exI conjI)
    show "file = take (i + 1) file @ drop (i + 1) file" by simp
    show "take (i + 1) file = [] \<or> last (take (i + 1) file) = CHR ''/'' \<or> last (take (i + 1) file) = CHR 0x5C"
      using that by (simp add: take_Suc_conv_app_nth)
  qed
  have later: "c \<notin> set (drop (j + 1) file)" if "i \<le> j" "c \<notin> set (drop (i + 1) file)" for i j c
    using that by (meson add_le_mono1 set_drop_subset_set_drop subsetD)
  consider (none) "CHR ''/'' \<notin> set file" "CHR 0x5C \<notin> set file" "FilenameFromPath file = file"
    | (cut) i where "i < length file" "file ! i = CHR ''/'' \<or> file ! i = CHR 0x5C"
        "FilenameFromPath file = drop (i + 1) file"
        "CHR ''/'' \<notin> set (drop (i + 1) file)" "CHR 0x5C \<notin> set (drop (i + 1) file)"
  proof (cases "strrchr file (CHR ''/'')"; cases "strrchr file (CHR 0x5C)")
    fix i j assume a: "strrchr file (CHR ''/'') = Some i" "strrchr file (CHR 0x5C) = Some j"
    note s = strrchr_Some [OF a(1)] strrchr_Some [OF a(2)]
    show thesis
    proof (cases "i > j")
      case True
      then show thesis using that(2) [of i] s a later [of j i] by (simp add: FilenameFromPath_def)
    next
      case False
      then show thesis using that(2) [of j] s a later [of i j] by (simp add: FilenameFromPath_def)
    qed
  next
    fix i assume a: "strrchr file (CHR ''/'') = Some i" "strrchr file (CHR 0x5C) = None"
    from a(2) have "CHR 0x5C \<notin> set (drop (i + 1) file)" by (auto simp: strrchr_None dest: in_set_dropD)
    with a that(2) [of i] strrchr_Some [OF a(1)] show thesis by (simp add: FilenameFromPath_def)
  next
    fix j assume a: "strrchr file (CHR ''/'') = None" "strrchr file (CHR 0x5C) = Some j"
    from a(1) have "CHR ''/'' \<notin> set (drop (j + 1) file)" by (auto simp: strrchr_None dest: in_set_dropD)
    with a that(2) [of j] strrchr_Some [OF a(2)] show thesis by (simp add: FilenameFromPath_def)
  next
    assume a: "strrchr file (CHR ''/'') = None" "strrchr file (CHR 0x5C) = None"
    then have "FilenameFromPath file = file" by (simp add: FilenameFromPath_def)
    with a show thesis using that(1) by (simp add: strrchr_None)
  qed
  then show ?thesis
  proof cases
    case none
    then show ?thesis by simp
  next
    case (cut i)
    show ?thesis unfolding cut(3) using split [OF cut(1,2)] cut(4,5) by blast
  qed
qed

lemma android_lines_pieces:
  "concat (map snd (android_lines n str)) = str \<and>
   (\<forall>x \<in> set (android_lines n str). snd x \<noteq> [] \<and> length (snd x) \<le> kMaxLogLineSize) \<and>
   map fst (android_lines n str) = [n + 1..<n + 1 + length (android_lines n str)] \<and>
   length (android_lines n str) = (length str + kMaxLogLineSize - 1) div kMaxLogLineSize"
proof (induction n str rule: android_lines.induct)
  case (1 n str)
  show ?case
  proof (cases "str = []")
    case True
    then show ?thesis by (simp add: android_lines.simps kMaxLogLineSize_def)
  next
    case False
    have k: "kMaxLogLineSize > 0" by (simp add: kMaxLogLineSize_def)
    have ne: "length str \<ge> 1" using False by (simp add: Suc_le_eq)
    have len: "length (drop kMaxLogLineSize str) + kMaxLogLineSize - 1 =
        (if length str \<le> kMaxLogLineSize then kMaxLogLineSize - 1 else length str - 1)" by simp
    have "Suc ((length (drop kMaxLogLineSize str) + kMaxLogLineSize - 1) div kMaxLogLineSize) =
        (length str + kMaxLogLineSize - 1) div kMaxLogLineSize"
    proof (cases "length str \<le> kMaxLogLineSize")
      case True
      have "(length str + kMaxLogLineSize - 1) div kMaxLogLineSize = 1"
        using True ne k by (intro div_nat_eqI) simp_all
      with True k show ?thesis unfolding len by simp
    next
      case gt: False
      have eq: "length str + kMaxLogLineSize - 1 = (length str - 1) + kMaxLogLineSize" using ne by linarith
      have "((length str - 1) + kMaxLogLineSize) div kMaxLogLineSize = Suc ((length str - 1) div kMaxLogLineSize)"
        using k by (simp add: div_add_self2)
      with gt show ?thesis unfolding len eq by simp
    qed
    then have len': "length (android_lines n str) = (length str + kMaxLogLineSize - 1) div kMaxLogLineSize"
      using "1.IH" [OF False] False by (simp only: android_lines.simps [of n str]) simp
    have nums: "[n + 1..<n + 1 + Suc m] = (n + 1) # [n + 1 + 1..<n + 1 + 1 + m]" for m
      by (subst upt_conv_Cons) simp_all
    have "map fst (android_lines n str) = (n + 1) # map fst (android_lines (n + 1) (drop kMaxLogLineSize str))"
      using False by (simp add: android_lines.simps [of n str])
    also have "\<dots> = [n + 1..<n + 1 + length (android_lines n str)]"
      using "1.IH" [OF False] False nums
      by (simp only: android_lines.simps [of n str]) (simp only: if_False list.size add_Suc_right nums add_0_right)
    finally have "map fst (android_lines n str) = [n + 1..<n + 1 + length (android_lines n str)]" .
    moreover have "concat (map snd (android_lines n str)) = str"
      using "1.IH" [OF False] False by (simp add: android_lines.simps [of n str])
    moreover have "\<forall>x \<in> set (android_lines n str). snd x \<noteq> [] \<and> length (snd x) \<le> kMaxLogLineSize"
      using "1.IH" [OF False] False k by (simp add: android_lines.simps [of n str])
    ultimately show ?thesis using len' by blast
  qed
qed

text \<open>
  A long message on Android is split without loss: the pieces concatenate to the message, none is
  empty or longer than the limit, and they are numbered from one. The total announced with each
  piece is right except for messages whose length is a multiple of the limit, where it is one too
  high.
\<close>

theorem android_lines_lossless:
  "concat (map snd (android_lines 0 str)) = str \<and>
   (\<forall>x \<in> set (android_lines 0 str). snd x \<noteq> [] \<and> length (snd x) \<le> kMaxLogLineSize) \<and>
   map fst (android_lines 0 str) = [1..<1 + length (android_lines 0 str)] \<and>
   length str div kMaxLogLineSize + 1 =
     length (android_lines 0 str) + (if length str mod kMaxLogLineSize = 0 then 1 else 0)"
proof -
  have k: "kMaxLogLineSize > 0" by (simp add: kMaxLogLineSize_def)
  let ?q = "length str div kMaxLogLineSize" and ?r = "length str mod kMaxLogLineSize"
  have "length str = ?q * kMaxLogLineSize + ?r" by simp
  then have eq: "length str + kMaxLogLineSize - 1 = (?r + kMaxLogLineSize - 1) + ?q * kMaxLogLineSize"
    using k by linarith
  have "(length str + kMaxLogLineSize - 1) div kMaxLogLineSize =
      ?q + (?r + kMaxLogLineSize - 1) div kMaxLogLineSize"
    unfolding eq using k by (subst div_mult_self1) simp_all
  moreover have "(?r + kMaxLogLineSize - 1) div kMaxLogLineSize = (if ?r = 0 then 0 else 1)"
  proof (cases "?r = 0")
    case False
    have "?r < kMaxLogLineSize" using k by simp
    with False show ?thesis by (intro div_nat_eqI) (auto simp: Suc_le_eq)
  qed (use k in simp)
  ultimately show ?thesis using android_lines_pieces [of 0 str] by simp
qed

theorem android_lines_lossless_witness:
  "length (android_lines 0 (replicate 1928 (CHR ''x''))) = 2 \<and> 1928 div kMaxLogLineSize + 1 = (3 :: nat)"
  using android_lines_lossless [of "replicate 1928 (CHR ''x'')"] by (simp add: kMaxLogLineSize_def)

lemma hex_fill_result:
  assumes "length asc = asc_size" "length hx = hex_size" "i + length chs \<le> LINE_SIZE"
    and "hex_fill R i chs (asc, hx) = (asc', hx')"
  shows "length asc' = asc_size \<and> length hx' = hex_size \<and>
    (\<forall>j < i. asc' ! j = asc ! j \<and> hx' ! (j * 2 + j div 4) = hx ! (j * 2 + j div 4) \<and>
       hx' ! (j * 2 + j div 4 + 1) = hx ! (j * 2 + j div 4 + 1)) \<and>
    (\<forall>j < length chs. asc' ! (i + j) = (if isprint (chs ! j) then chs ! j else CHR ''.'') \<and>
       hx' ! ((i + j) * 2 + (i + j) div 4) = rs_hex_encode R (of_char (chs ! j) div 16) \<and>
       hx' ! ((i + j) * 2 + (i + j) div 4 + 1) = rs_hex_encode R (of_char (chs ! j) mod 16))"
  using assms
proof (induction chs arbitrary: i asc hx)
  case Nil
  then show ?case by simp
next
  case (Cons c chs)
  let ?k = "i * 2 + i div 4"
  let ?asc = "asc[i := if isprint c then c else CHR ''.'']"
  let ?hx = "hx[?k := rs_hex_encode R (of_char c div 16), ?k + 1 := rs_hex_encode R (of_char c mod 16)]"
  have i: "i < 24" using Cons.prems(3) by (simp add: LINE_SIZE_def)
  have bound: "i < length asc" "?k + 1 < length hx"
    using i Cons.prems(1,2) by (simp_all add: asc_size_def hex_size_def LINE_SIZE_def)
  have apart: "j * 2 + j div 4 + 1 < ?k" if "j < i" for j
  proof -
    have "j div 4 \<le> i div 4" using that by (intro div_le_mono) simp
    with that show ?thesis by linarith
  qed
  note IH = Cons.IH [of ?asc ?hx "Suc i"]
  have IH': "length asc' = asc_size \<and> length hx' = hex_size \<and>
    (\<forall>j < Suc i. asc' ! j = ?asc ! j \<and> hx' ! (j * 2 + j div 4) = ?hx ! (j * 2 + j div 4) \<and>
       hx' ! (j * 2 + j div 4 + 1) = ?hx ! (j * 2 + j div 4 + 1)) \<and>
    (\<forall>j < length chs. asc' ! (Suc i + j) = (if isprint (chs ! j) then chs ! j else CHR ''.'') \<and>
       hx' ! ((Suc i + j) * 2 + (Suc i + j) div 4) = rs_hex_encode R (of_char (chs ! j) div 16) \<and>
       hx' ! ((Suc i + j) * 2 + (Suc i + j) div 4 + 1) = rs_hex_encode R (of_char (chs ! j) mod 16))"
    by (rule IH) (use Cons.prems in simp_all)
  have old: "asc' ! j = asc ! j \<and> hx' ! (j * 2 + j div 4) = hx ! (j * 2 + j div 4) \<and>
      hx' ! (j * 2 + j div 4 + 1) = hx ! (j * 2 + j div 4 + 1)" if "j < i" for j
  proof -
    have "asc' ! j = ?asc ! j \<and> hx' ! (j * 2 + j div 4) = ?hx ! (j * 2 + j div 4) \<and>
        hx' ! (j * 2 + j div 4 + 1) = ?hx ! (j * 2 + j div 4 + 1)"
      using IH' that by (metis less_SucI)
    with apart [OF that] that show ?thesis by (simp add: nth_list_update)
  qed
  have own: "asc' ! i = (if isprint c then c else CHR ''.'') \<and> hx' ! ?k = rs_hex_encode R (of_char c div 16) \<and>
      hx' ! (?k + 1) = rs_hex_encode R (of_char c mod 16)"
  proof -
    have "asc' ! i = ?asc ! i \<and> hx' ! ?k = ?hx ! ?k \<and> hx' ! (?k + 1) = ?hx ! (?k + 1)"
      using IH' by (metis lessI)
    with bound show ?thesis by (simp add: nth_list_update)
  qed
  have all: "asc' ! (i + j) = (if isprint ((c # chs) ! j) then (c # chs) ! j else CHR ''.'') \<and>
      hx' ! ((i + j) * 2 + (i + j) div 4) = rs_hex_encode R (of_char ((c # chs) ! j) div 16) \<and>
      hx' ! ((i + j) * 2 + (i + j) div 4 + 1) = rs_hex_encode R (of_char ((c # chs) ! j) mod 16)"
    if "j < length (c # chs)" for j
  proof (cases j)
    case 0
    with own show ?thesis by simp
  next
    case (Suc j')
    then have "j' < length chs" using that by simp
    with IH' have "asc' ! (Suc i + j') = (if isprint (chs ! j') then chs ! j' else CHR ''.'') \<and>
       hx' ! ((Suc i + j') * 2 + (Suc i + j') div 4) = rs_hex_encode R (of_char (chs ! j') div 16) \<and>
       hx' ! ((Suc i + j') * 2 + (Suc i + j') div 4 + 1) = rs_hex_encode R (of_char (chs ! j') mod 16)"
      by blast
    with Suc show ?thesis by simp
  qed
  show ?case using IH' old all by blast
qed

text \<open>
  C39. The hex dump stays inside its two stack buffers and overwrites nothing: for a line of at most
  24 bytes every index written is below the terminator's, each byte's printable form and its two
  hex digits can be read back at their positions, and both buffers are terminated.
\<close>

theorem hex_dump_in_bounds:
  assumes "length chunk \<le> LINE_SIZE" and "hex_lines_of R chunk = (asc, hx)"
  shows "length asc = asc_size \<and> length hx = hex_size \<and> asc ! (asc_size - 1) = CHR 0x00 \<and> hx ! (hex_size - 1) = CHR 0x00 \<and>
    (\<forall>i < length chunk. i < asc_size - 1 \<and> i * 2 + i div 4 + 1 < hex_size - 1 \<and>
       asc ! i = (if isprint (chunk ! i) then chunk ! i else CHR ''.'') \<and>
       hx ! (i * 2 + i div 4) = rs_hex_encode R (of_char (chunk ! i) div 16) \<and>
       hx ! (i * 2 + i div 4 + 1) = rs_hex_encode R (of_char (chunk ! i) mod 16))"
proof -
  obtain asc' hx' where f: "hex_fill R 0 chunk (replicate asc_size (CHR '' ''), replicate hex_size (CHR '' '')) = (asc', hx')"
    by (cases "hex_fill R 0 chunk (replicate asc_size (CHR '' ''), replicate hex_size (CHR '' ''))")
  have r: "asc = asc'[asc_size - 1 := CHR 0x00]" "hx = hx'[hex_size - 1 := CHR 0x00]"
    using assms(2) by (simp_all add: hex_lines_of_def f)
  have f': "length asc' = asc_size \<and> length hx' = hex_size \<and>
    (\<forall>j < length chunk. asc' ! j = (if isprint (chunk ! j) then chunk ! j else CHR ''.'') \<and>
       hx' ! (j * 2 + j div 4) = rs_hex_encode R (of_char (chunk ! j) div 16) \<and>
       hx' ! (j * 2 + j div 4 + 1) = rs_hex_encode R (of_char (chunk ! j) mod 16))"
    using hex_fill_result [OF _ _ _ f] assms(1) by simp
  have bnd: "i < 24 \<and> i * 2 + i div 4 + 1 < 55" if "i < length chunk" for i
    using that assms(1) by (simp add: LINE_SIZE_def)
  have sz: "asc_size = 25" "hex_size = 56" by (simp_all add: asc_size_def hex_size_def LINE_SIZE_def)
  show ?thesis
    using f' bnd unfolding r sz by (auto simp: nth_list_update)
qed

theorem hex_dump_in_bounds_witness:
  "fst (hex_lines_of rs_sample (''A'' @ [CHR 0x0A])) ! 1 = CHR ''.'' \<and>
   snd (hex_lines_of rs_sample (''A'' @ [CHR 0x0A])) ! 3 = CHR ''a''"
proof -
  obtain asc hx where e: "hex_lines_of rs_sample (''A'' @ [CHR 0x0A]) = (asc, hx)"
    by (cases "hex_lines_of rs_sample (''A'' @ [CHR 0x0A])")
  have "length (''A'' @ [CHR 0x0A]) \<le> LINE_SIZE" by (simp add: LINE_SIZE_def)
  note r = hex_dump_in_bounds [OF this e]
  have "asc ! 1 = CHR ''.'' \<and> hx ! 3 = rs_hex_encode rs_sample 10"
    using r by (auto simp: isprint_def)
  moreover have "rs_hex_encode rs_sample 10 = CHR ''a''" by code_simp
  ultimately show ?thesis unfolding e by simp
qed

end
