(* ===== verification/Fake_Audio.thy ===== *)
theory Fake_Audio
  imports Prelude
begin

section \<open>The silent audio device (\<open>fakeaudiocapturemodule.h\<close>, \<open>fakeaudiocapturemodule.cc\<close>)\<close>

text \<open>
  Class \<open>FakeAudioCaptureModule\<close>, the audio device a \<open>Control\<close> gives to WebRTC: start and stop of
  playout and recording, the processing thread with its periodic frame, the pull and push of
  samples, and the functions that only answer a constant. The buffers are their samples
  (\<open>uint16_t\<close>); \<open>fa_queue\<close> is the queue of the processing thread, which exists iff
  \<open>fa_process_thread\<close>. Times are in milliseconds; the answers of the clock and of the registered
  \<open>AudioTransport\<close> during one frame are the record \<open>audio_env\<close>.

  \<open>RTC_CHECK\<close> stops the program in every build, \<open>RTC_NOTREACHED\<close> and \<open>RTC_DCHECK\<close> in a debug build.
\<close>

type_synonym sample = u16

definition kNumberSamples :: nat where "kNumberSamples = 440"
definition kHighSampleValue :: int where "kHighSampleValue = 10000"
definition kAdmMaxIdleTimeProcess :: int where "kAdmMaxIdleTimeProcess = 1000"
definition kTimePerFrameMs :: int where "kTimePerFrameMs = 10"
definition kMaxVolume :: u32 where "kMaxVolume = 14392"

datatype fa_msg = MSG_START_PROCESS | MSG_RUN_PROCESS

record fake_audio =
  fa_last_process_time :: int
  fa_audio_callback :: "nat option"
  fa_recording :: bool
  fa_playing :: bool
  fa_play_is_initialized :: bool
  fa_rec_is_initialized :: bool
  fa_mic_level :: u32
  fa_started :: bool
  fa_next_frame_time :: int
  fa_process_thread :: bool
  fa_queue :: "(fa_msg \<times> int) list"        \<comment> \<open>message and delay\<close>
  fa_rec_buffer :: "sample list"
  fa_send_buffer :: "sample list"
  fa_frames_received :: nat

record audio_env =
  ae_debug :: bool
  ae_time_first :: int                       \<comment> \<open>\<open>rtc::TimeMillis()\<close> at the start of a frame\<close>
  ae_time_end :: int                         \<comment> \<open>\<open>rtc::TimeMillis()\<close> at its end\<close>
  ae_pull :: "sample list \<times> nat \<times> bool"     \<comment> \<open>\<open>NeedMorePlayData\<close>: samples, \<open>nSamplesOut\<close>, success\<close>
  ae_push :: "u32 \<times> bool"                   \<comment> \<open>\<open>RecordedDataIsAvailable\<close>: new mic level, success\<close>

datatype fa_out =
    RecordedDataIsAvailable nat "sample list" u32
  | NeedMorePlayData nat

subsection \<open>Construction\<close>

definition FakeAudio_ctor :: "sample list \<Rightarrow> sample list \<Rightarrow> fake_audio" where
  \<comment> \<open>the buffers start with whatever the memory holds\<close>
  "FakeAudio_ctor rec_garbage send_garbage = \<lparr>
     fa_last_process_time = 0, fa_audio_callback = None, fa_recording = False, fa_playing = False,
     fa_play_is_initialized = False, fa_rec_is_initialized = False, fa_mic_level = kMaxVolume,
     fa_started = False, fa_next_frame_time = 0, fa_process_thread = False, fa_queue = [],
     fa_rec_buffer = rec_garbage, fa_send_buffer = send_garbage, fa_frames_received = 0\<rparr>"

definition FakeAudio_dtor :: "fake_audio \<Rightarrow> fake_audio" where
  "FakeAudio_dtor m = (if fa_process_thread m then m\<lparr>fa_queue := []\<rparr> else m)"

fun set_samples :: "sample \<Rightarrow> nat \<Rightarrow> nat \<Rightarrow> sample list \<Rightarrow> sample list" where
  "set_samples v i 0 buf = buf"
| "set_samples v i (Suc n) buf = set_samples v (Suc i) n (buf[i := v])"

definition SetSendBuffer :: "int \<Rightarrow> fake_audio \<Rightarrow> fake_audio" where
  "SetSendBuffer v m = m\<lparr>fa_send_buffer := set_samples (word_of_int v) 0 kNumberSamples (fa_send_buffer m)\<rparr>"

definition ResetRecBuffer :: "fake_audio \<Rightarrow> fake_audio" where
  "ResetRecBuffer m = m\<lparr>fa_rec_buffer := replicate kNumberSamples 0\<rparr>"

definition CheckRecBuffer :: "int \<Rightarrow> fake_audio \<Rightarrow> bool" where
  "CheckRecBuffer v m \<longleftrightarrow> (\<exists>s \<in> set (take kNumberSamples (fa_rec_buffer m)). uint s \<ge> v)"

definition Initialize :: "int \<Rightarrow> fake_audio \<Rightarrow> fake_audio \<times> bool" where
  "Initialize now m = ((SetSendBuffer kHighSampleValue m)\<lparr>fa_last_process_time := now\<rparr>, True)"

definition Create :: "int \<Rightarrow> sample list \<Rightarrow> sample list \<Rightarrow> fake_audio option" where
  "Create now rec_garbage send_garbage =
     (let (m, ok) = Initialize now (FakeAudio_ctor rec_garbage send_garbage)
      in if \<not> ok then None else Some m)"

subsection \<open>Idle time\<close>

definition frames_received :: "fake_audio \<Rightarrow> nat" where
  "frames_received m = fa_frames_received m"

definition TimeUntilNextProcess :: "int \<Rightarrow> fake_audio \<Rightarrow> int" where
  "TimeUntilNextProcess current_time m =
     (if current_time < fa_last_process_time m then 0
      else
        let elapsed_time = current_time - fa_last_process_time m
        in if kAdmMaxIdleTimeProcess < elapsed_time then 0 else kAdmMaxIdleTimeProcess - elapsed_time)"

definition Process :: "int \<Rightarrow> fake_audio \<Rightarrow> fake_audio" where
  "Process now m = m\<lparr>fa_last_process_time := now\<rparr>"

definition RegisterAudioCallback :: "nat option \<Rightarrow> fake_audio \<Rightarrow> fake_audio \<times> int" where
  "RegisterAudioCallback callback m = (m\<lparr>fa_audio_callback := callback\<rparr>, 0)"

subsection \<open>Starting and stopping\<close>

definition ShouldStartProcessing :: "fake_audio \<Rightarrow> bool" where
  "ShouldStartProcessing m \<longleftrightarrow> fa_recording m \<or> fa_playing m"

definition UpdateProcessing :: "bool \<Rightarrow> fake_audio \<Rightarrow> fake_audio" where
  "UpdateProcessing start m =
     (if start then
        let m = (if \<not> fa_process_thread m then m\<lparr>fa_process_thread := True, fa_queue := []\<rparr> else m)
        in m\<lparr>fa_queue := fa_queue m @ [(MSG_START_PROCESS, 0)]\<rparr>
      else
        let m = (if fa_process_thread m then m\<lparr>fa_process_thread := False, fa_queue := []\<rparr> else m)
        in m\<lparr>fa_started := False\<rparr>)"

definition SetPlayoutDevice :: "fake_audio \<Rightarrow> int" where
  "SetPlayoutDevice m = (if fa_play_is_initialized m then -1 else 0)"

definition SetRecordingDevice :: "fake_audio \<Rightarrow> int" where
  "SetRecordingDevice m = (if fa_rec_is_initialized m then -1 else 0)"

definition InitPlayout :: "fake_audio \<Rightarrow> fake_audio \<times> int" where
  "InitPlayout m = (m\<lparr>fa_play_is_initialized := True\<rparr>, 0)"

definition PlayoutIsInitialized :: "fake_audio \<Rightarrow> bool" where
  "PlayoutIsInitialized m = fa_play_is_initialized m"

definition InitRecording :: "fake_audio \<Rightarrow> fake_audio \<times> int" where
  "InitRecording m = (m\<lparr>fa_rec_is_initialized := True\<rparr>, 0)"

definition RecordingIsInitialized :: "fake_audio \<Rightarrow> bool" where
  "RecordingIsInitialized m = fa_rec_is_initialized m"

definition StartPlayout :: "fake_audio \<Rightarrow> fake_audio \<times> int" where
  "StartPlayout m =
     (if \<not> fa_play_is_initialized m then (m, -1)
      else (UpdateProcessing True (m\<lparr>fa_playing := True\<rparr>), 0))"

definition StopPlayout :: "fake_audio \<Rightarrow> fake_audio \<times> int" where
  "StopPlayout m =
     (let m = m\<lparr>fa_playing := False\<rparr> in (UpdateProcessing (ShouldStartProcessing m) m, 0))"

definition Playing :: "fake_audio \<Rightarrow> bool" where
  "Playing m = fa_playing m"

definition StartRecording :: "fake_audio \<Rightarrow> fake_audio \<times> int" where
  "StartRecording m =
     (if \<not> fa_rec_is_initialized m then (m, -1)
      else (UpdateProcessing True (m\<lparr>fa_recording := True\<rparr>), 0))"

definition StopRecording :: "fake_audio \<Rightarrow> fake_audio \<times> int" where
  "StopRecording m =
     (let m = m\<lparr>fa_recording := False\<rparr> in (UpdateProcessing (ShouldStartProcessing m) m, 0))"

definition Recording :: "fake_audio \<Rightarrow> bool" where
  "Recording m = fa_recording m"

definition SetMicrophoneVolume :: "u32 \<Rightarrow> fake_audio \<Rightarrow> fake_audio \<times> int" where
  "SetMicrophoneVolume volume m = (m\<lparr>fa_mic_level := volume\<rparr>, 0)"

definition MicrophoneVolume :: "fake_audio \<Rightarrow> u32 \<times> int" where
  "MicrophoneVolume m = (fa_mic_level m, 0)"

definition MaxMicrophoneVolume :: "u32 \<times> int" where
  "MaxMicrophoneVolume = (kMaxVolume, 0)"

subsection \<open>Frames\<close>

definition rtc_check :: "string \<Rightarrow> bool \<Rightarrow> unit res" where
  "rtc_check what c = rtc_dcheck True what c"

definition ReceiveFrameP :: "audio_env \<Rightarrow> fake_audio \<Rightarrow> (fake_audio \<times> fa_out list) res" where
  "ReceiveFrameP env m =
     and_then (rtc_check ''process_thread_->IsCurrent()'' (fa_process_thread m))
     (\<lambda>_. case fa_audio_callback m of
            None \<Rightarrow> Inr (m, [])
          | Some cb \<Rightarrow>
              let m = ResetRecBuffer m; (samples, nSamplesOut, ok) = ae_pull env;
                  m = m\<lparr>fa_rec_buffer := samples\<rparr>
              in and_then (rtc_dcheck (ae_debug env) ''NeedMorePlayData'' ok)
                 (\<lambda>_. and_then (rtc_check ''nSamplesOut == kNumberSamples'' (nSamplesOut = kNumberSamples))
                 (\<lambda>_. Inr (if CheckRecBuffer kHighSampleValue m
                           then m\<lparr>fa_frames_received := fa_frames_received m + 1\<rparr> else m,
                           [NeedMorePlayData cb]))))"

definition SendFrameP :: "audio_env \<Rightarrow> fake_audio \<Rightarrow> (fake_audio \<times> fa_out list) res" where
  "SendFrameP env m =
     and_then (rtc_check ''process_thread_->IsCurrent()'' (fa_process_thread m))
     (\<lambda>_. case fa_audio_callback m of
            None \<Rightarrow> Inr (m, [])
          | Some cb \<Rightarrow>
              let (level, _) = MicrophoneVolume m; (new_level, ok) = ae_push env
              in and_then (rtc_dcheck (ae_debug env) ''RecordedDataIsAvailable'' ok)
                 (\<lambda>_. Inr (fst (SetMicrophoneVolume new_level m),
                           [RecordedDataIsAvailable cb (fa_send_buffer m) level])))"

definition ProcessFrameP :: "audio_env \<Rightarrow> fake_audio \<Rightarrow> (fake_audio \<times> fa_out list) res" where
  "ProcessFrameP env m =
     and_then (rtc_check ''process_thread_->IsCurrent()'' (fa_process_thread m))
     (\<lambda>_. let m = (if \<not> fa_started m
                   then m\<lparr>fa_next_frame_time := ae_time_first env, fa_started := True\<rparr> else m)
          in and_then (if fa_playing m then ReceiveFrameP env m else Inr (m, []))
             (\<lambda>(m, out1). and_then (if fa_recording m then SendFrameP env m else Inr (m, []))
             (\<lambda>(m, out2).
                let m = m\<lparr>fa_next_frame_time := fa_next_frame_time m + kTimePerFrameMs\<rparr>;
                    wait_time = (if fa_next_frame_time m > ae_time_end env
                                 then fa_next_frame_time m - ae_time_end env else 0)
                in Inr (m\<lparr>fa_queue := fa_queue m @ [(MSG_RUN_PROCESS, wait_time)]\<rparr>, out1 @ out2))))"

definition StartProcessP :: "audio_env \<Rightarrow> fake_audio \<Rightarrow> (fake_audio \<times> fa_out list) res" where
  "StartProcessP env m =
     and_then (rtc_check ''process_thread_->IsCurrent()'' (fa_process_thread m))
     (\<lambda>_. if fa_started m then Inr (m, []) else ProcessFrameP env m)"

definition FakeAudio_OnMessage :: "audio_env \<Rightarrow> fa_msg \<Rightarrow> fake_audio \<Rightarrow> (fake_audio \<times> fa_out list) res" where
  "FakeAudio_OnMessage env msg m =
     (case msg of MSG_START_PROCESS \<Rightarrow> StartProcessP env m | MSG_RUN_PROCESS \<Rightarrow> ProcessFrameP env m)"

subsection \<open>Functions that only answer\<close>

text \<open>
  The remaining functions of the interface change nothing. Those WebRTC's peer connection calls
  return a constant; the others stop a debug build (\<open>RTC_NOTREACHED\<close>) and return a constant in a
  release build. They are listed in the order of the file.
\<close>

datatype adm_device_call =
    ActiveAudioLayer | LastError | RegisterEventObserver | Init | Terminate | Initialized
  | PlayoutDevices | RecordingDevices | PlayoutDeviceName u16 | RecordingDeviceName u16
  | SetPlayoutDevice_index u16 | SetRecordingDevice_index u16 | PlayoutIsAvailable | RecordingIsAvailable

definition not_reached :: "bool \<Rightarrow> int \<Rightarrow> int res" where
  "not_reached debug code = and_then (rtc_dcheck debug ''RTC_NOTREACHED'' False) (\<lambda>_. Inr code)"

fun adm_device :: "bool \<Rightarrow> adm_device_call \<Rightarrow> int res" where
  "adm_device debug ActiveAudioLayer = not_reached debug 0"
| "adm_device debug LastError = not_reached debug 0"
| "adm_device debug RegisterEventObserver = Inr 0"
| "adm_device debug Init = Inr 0"
| "adm_device debug Terminate = Inr 0"
| "adm_device debug Initialized = not_reached debug 0"
| "adm_device debug PlayoutDevices = not_reached debug 0"
| "adm_device debug RecordingDevices = not_reached debug 0"
| "adm_device debug (PlayoutDeviceName i) = not_reached debug 0"
| "adm_device debug (RecordingDeviceName i) = not_reached debug 0"
| "adm_device debug (SetPlayoutDevice_index i) = Inr 0"
| "adm_device debug (SetRecordingDevice_index i) = Inr 0"
| "adm_device debug PlayoutIsAvailable = not_reached debug 0"
| "adm_device debug RecordingIsAvailable = not_reached debug 0"

datatype adm_volume_call =
    SetAGC bool | AGC | SetWaveOutVolume u16 u16 | WaveOutVolume | InitSpeaker | SpeakerIsInitialized
  | InitMicrophone | MicrophoneIsInitialized | SpeakerVolumeIsAvailable | SetSpeakerVolume u32
  | SpeakerVolume | MaxSpeakerVolume | MinSpeakerVolume | SpeakerVolumeStepSize
  | MicrophoneVolumeIsAvailable

fun adm_volume :: "bool \<Rightarrow> adm_volume_call \<Rightarrow> int res" where
  "adm_volume debug (SetAGC enable) = Inr 0"
| "adm_volume debug InitSpeaker = Inr 0"
| "adm_volume debug InitMicrophone = Inr 0"
| "adm_volume debug _ = not_reached debug 0"

datatype adm_mute_call =
    MinMicrophoneVolume | MicrophoneVolumeStepSize | SpeakerMuteIsAvailable | SetSpeakerMute bool
  | SpeakerMute | MicrophoneMuteIsAvailable | SetMicrophoneMute bool | MicrophoneMute
  | MicrophoneBoostIsAvailable | SetMicrophoneBoost bool | MicrophoneBoost

fun adm_mute :: "bool \<Rightarrow> adm_mute_call \<Rightarrow> int res" where
  "adm_mute debug _ = not_reached debug 0"

datatype ChannelType = kChannelLeft | kChannelRight | kChannelBoth

definition StereoPlayoutIsAvailable :: "bool \<times> int" where
  "StereoPlayoutIsAvailable = (True, 0)"

definition StereoRecordingIsAvailable :: "bool \<times> int" where
  "StereoRecordingIsAvailable = (False, 0)"

definition SetStereoRecording :: "bool \<Rightarrow> int" where
  "SetStereoRecording enable = (if \<not> enable then 0 else -1)"

definition SetRecordingChannel :: "bool \<Rightarrow> ChannelType \<Rightarrow> int res" where
  "SetRecordingChannel debug channel =
     (if channel \<noteq> kChannelBoth then not_reached debug (-1) else Inr 0)"

definition RecordingChannel :: "ChannelType \<times> int" where
  "RecordingChannel = (kChannelBoth, 0)"

definition PlayoutDelay :: "u16 \<times> int" where
  "PlayoutDelay = (0, 0)"

datatype adm_other_call =
    SetStereoPlayout bool | StereoPlayout | StereoRecording | SetPlayoutBuffer | PlayoutBuffer
  | RecordingDelay | CPULoad | StartRawOutputFileRecording | StopRawOutputFileRecording
  | StartRawInputFileRecording | StopRawInputFileRecording | SetRecordingSampleRate u32
  | RecordingSampleRate | SetPlayoutSampleRate u32 | PlayoutSampleRate | ResetAudioDevice
  | SetLoudspeakerStatus bool | GetLoudspeakerStatus

fun adm_other :: "bool \<Rightarrow> adm_other_call \<Rightarrow> int res" where
  "adm_other debug (SetStereoPlayout enable) = Inr 0"
| "adm_other debug _ = not_reached debug 0"

subsection \<open>Reachable states\<close>

text \<open>
  One step of the module: a call of WebRTC, or a message of the processing thread, taken out of its
  queue at any position. The samples pulled always fill the buffer.
\<close>

inductive fa_step :: "fake_audio \<Rightarrow> fa_out list \<Rightarrow> fake_audio \<Rightarrow> bool" where
  process: "fa_step m [] (Process now m)"
| callback: "fa_step m [] (fst (RegisterAudioCallback cb m))"
| init_playout: "fa_step m [] (fst (InitPlayout m))"
| init_recording: "fa_step m [] (fst (InitRecording m))"
| start_playout: "fa_step m [] (fst (StartPlayout m))"
| stop_playout: "fa_step m [] (fst (StopPlayout m))"
| start_recording: "fa_step m [] (fst (StartRecording m))"
| stop_recording: "fa_step m [] (fst (StopRecording m))"
| volume: "fa_step m [] (fst (SetMicrophoneVolume v m))"
| message: "fa_queue m = before @ (msg, delay) # after \<Longrightarrow> length (fst (ae_pull env)) = kNumberSamples \<Longrightarrow>
     FakeAudio_OnMessage env msg (m\<lparr>fa_queue := before @ after\<rparr>) = Inr (m', out) \<Longrightarrow> fa_step m out m'"

inductive fa_reachable :: "fake_audio \<Rightarrow> bool" where
  initial: "length r = kNumberSamples \<Longrightarrow> length s = kNumberSamples \<Longrightarrow> Create now r s = Some m \<Longrightarrow> fa_reachable m"
| step: "fa_reachable m \<Longrightarrow> fa_step m out m' \<Longrightarrow> fa_reachable m'"

definition runs :: "(fa_msg \<times> int) list \<Rightarrow> nat" where
  "runs q = length (filter (\<lambda>x. fst x = MSG_RUN_PROCESS) q)"

lemma runs_simps [simp]:
  "runs [] = 0" "runs (xs @ ys) = runs xs + runs ys"
  "runs ((MSG_RUN_PROCESS, d) # xs) = Suc (runs xs)" "runs ((MSG_START_PROCESS, d) # xs) = runs xs"
  by (simp_all add: runs_def)

definition fa_inv :: "fake_audio \<Rightarrow> bool" where
  "fa_inv m \<longleftrightarrow>
     length (fa_rec_buffer m) = kNumberSamples \<and>
     fa_send_buffer m = replicate kNumberSamples (word_of_int kHighSampleValue) \<and>
     (fa_process_thread m \<longleftrightarrow> fa_playing m \<or> fa_recording m) \<and>
     (\<not> fa_process_thread m \<longrightarrow> fa_queue m = [] \<and> \<not> fa_started m) \<and>
     runs (fa_queue m) = (if fa_started m then 1 else 0) \<and>
     (fa_playing m \<longrightarrow> fa_play_is_initialized m) \<and> (fa_recording m \<longrightarrow> fa_rec_is_initialized m)"

lemma set_samples_prefix:
  "i + n \<le> length buf \<Longrightarrow>
   set_samples v i n buf = take i buf @ replicate n v @ drop (i + n) buf"
proof (induction n arbitrary: i buf)
  case 0
  then show ?case by simp
next
  case (Suc n)
  have "take (Suc i) (buf[i := v]) = take i buf @ [v]"
    using Suc.prems by (simp add: take_Suc_conv_app_nth)
  moreover have "drop (Suc i + n) (buf[i := v]) = drop (i + Suc n) buf" by simp
  ultimately show ?case using Suc.IH [of "Suc i" "buf[i := v]"] Suc.prems by simp
qed

lemma SetSendBuffer_fills:
  "length (fa_send_buffer m) = kNumberSamples \<Longrightarrow>
   fa_send_buffer (SetSendBuffer v m) = replicate kNumberSamples (word_of_int v)"
  using set_samples_prefix [of 0 kNumberSamples "fa_send_buffer m" "word_of_int v"]
  by (simp add: SetSendBuffer_def)

lemma Create_inv:
  assumes "length r = kNumberSamples" "length s = kNumberSamples" "Create now r s = Some m"
  shows "fa_inv m"
proof -
  have "fa_send_buffer (SetSendBuffer kHighSampleValue (FakeAudio_ctor r s)) =
      replicate kNumberSamples (word_of_int kHighSampleValue)"
    by (rule SetSendBuffer_fills) (simp add: FakeAudio_ctor_def assms(2))
  with assms show ?thesis
    by (auto simp: Create_def Initialize_def fa_inv_def) (auto simp: SetSendBuffer_def FakeAudio_ctor_def)
qed

lemma UpdateProcessing_inv:
  assumes "length (fa_rec_buffer m) = kNumberSamples"
    and "fa_send_buffer m = replicate kNumberSamples (word_of_int kHighSampleValue)"
    and "start = (fa_playing m \<or> fa_recording m)"
    and "\<not> fa_process_thread m \<longrightarrow> fa_queue m = [] \<and> \<not> fa_started m"
    and "runs (fa_queue m) = (if fa_started m then 1 else 0)"
    and "fa_playing m \<longrightarrow> fa_play_is_initialized m" "fa_recording m \<longrightarrow> fa_rec_is_initialized m"
  shows "fa_inv (UpdateProcessing start m)"
  using assms by (auto simp: fa_inv_def UpdateProcessing_def Let_def)

lemma ReceiveFrameP_frame:
  assumes "ReceiveFrameP env m = Inr (m', out)"
  shows "\<exists>buf n. m' = m\<lparr>fa_rec_buffer := buf, fa_frames_received := n\<rparr> \<and>
    (buf = fa_rec_buffer m \<or> buf = fst (ae_pull env))"
proof (cases "fa_audio_callback m")
  case None
  with assms show ?thesis by (intro exI [of _ "fa_rec_buffer m"] exI [of _ "fa_frames_received m"])
    (auto simp: ReceiveFrameP_def and_then_eq_Inr)
next
  case (Some cb)
  obtain samples n ok where e: "ae_pull env = (samples, n, ok)" by (cases "ae_pull env")
  from assms Some e show ?thesis
    by (intro exI [of _ samples] exI [of _ "fa_frames_received m'"])
       (auto simp: ReceiveFrameP_def and_then_eq_Inr ResetRecBuffer_def Let_def)
qed

lemma SendFrameP_frame:
  assumes "SendFrameP env m = Inr (m', out)"
  shows "\<exists>level. m' = m\<lparr>fa_mic_level := level\<rparr>"
proof (cases "fa_audio_callback m")
  case None
  with assms show ?thesis by (intro exI [of _ "fa_mic_level m"]) (auto simp: SendFrameP_def and_then_eq_Inr)
next
  case (Some cb)
  with assms show ?thesis
    by (cases "ae_push env") (auto simp: SendFrameP_def and_then_eq_Inr MicrophoneVolume_def SetMicrophoneVolume_def)
qed

lemma ProcessFrameP_result:
  assumes "ProcessFrameP env m = Inr (m', out)"
  shows "\<exists>buf n level. m' = m\<lparr>fa_started := True,
      fa_next_frame_time := (if fa_started m then fa_next_frame_time m else ae_time_first env) + kTimePerFrameMs,
      fa_rec_buffer := buf, fa_frames_received := n, fa_mic_level := level,
      fa_queue := fa_queue m @ [(MSG_RUN_PROCESS,
        max 0 ((if fa_started m then fa_next_frame_time m else ae_time_first env) + kTimePerFrameMs - ae_time_end env))]\<rparr> \<and>
    (buf = fa_rec_buffer m \<or> buf = fst (ae_pull env))"
proof -
  let ?m0 = "if \<not> fa_started m then m\<lparr>fa_next_frame_time := ae_time_first env, fa_started := True\<rparr> else m"
  obtain m1 out1 where 1: "(if fa_playing ?m0 then ReceiveFrameP env ?m0 else Inr (?m0, [])) = Inr (m1, out1)"
    using assms by (auto simp: ProcessFrameP_def and_then_eq_Inr Let_def split: if_splits)
  obtain m2 out2 where 2: "(if fa_recording m1 then SendFrameP env m1 else Inr (m1, [])) = Inr (m2, out2)"
    using assms 1 by (auto simp: ProcessFrameP_def and_then_eq_Inr Let_def split: if_splits)
  obtain buf n where m1: "m1 = ?m0\<lparr>fa_rec_buffer := buf, fa_frames_received := n\<rparr>"
    and buf: "buf = fa_rec_buffer ?m0 \<or> buf = fst (ae_pull env)"
  proof (cases "fa_playing ?m0")
    case True
    with 1 show thesis using that ReceiveFrameP_frame [of env ?m0 m1 out1] by auto
  next
    case False
    with 1 show thesis by (intro that [of "fa_frames_received ?m0" "fa_rec_buffer ?m0"]) simp_all
  qed
  obtain level where m2: "m2 = m1\<lparr>fa_mic_level := level\<rparr>"
  proof (cases "fa_recording m1")
    case True
    with 2 show thesis using that SendFrameP_frame [of env m1 m2 out2] by auto
  next
    case False
    with 2 show thesis by (intro that [of "fa_mic_level m1"]) simp
  qed
  have m': "m' = m2\<lparr>fa_next_frame_time := fa_next_frame_time m2 + kTimePerFrameMs,
      fa_queue := fa_queue m2 @ [(MSG_RUN_PROCESS,
        max 0 (fa_next_frame_time m2 + kTimePerFrameMs - ae_time_end env))]\<rparr>"
    using assms 1 2 by (auto simp: ProcessFrameP_def and_then_eq_Inr Let_def max_def)
  show ?thesis
    using buf unfolding m' m2 m1
    by (intro exI [of _ buf] exI [of _ n] exI [of _ level]) (cases m; cases "fa_started m"; simp)
qed

lemma ProcessFrameP_inv:
  assumes "ProcessFrameP env m = Inr (m', out)" and "length (fa_rec_buffer m) = kNumberSamples"
    and "fa_send_buffer m = replicate kNumberSamples (word_of_int kHighSampleValue)"
    and "fa_process_thread m" "fa_playing m \<or> fa_recording m"
    and "runs (fa_queue m) = 0" and "length (fst (ae_pull env)) = kNumberSamples"
    and "fa_playing m \<longrightarrow> fa_play_is_initialized m" "fa_recording m \<longrightarrow> fa_rec_is_initialized m"
  shows "fa_inv m'"
  using ProcessFrameP_result [OF assms(1)] assms(2-) by (auto simp: fa_inv_def)

lemma fa_step_inv: "fa_step m out m' \<Longrightarrow> fa_inv m \<Longrightarrow> fa_inv m'"
proof (induction rule: fa_step.induct)
  case (message m before msg delay after env m' out)
  let ?m = "m\<lparr>fa_queue := before @ after\<rparr>"
  have thread: "fa_process_thread m" using message by (auto simp: fa_inv_def)
  show ?case
  proof (cases msg)
    case MSG_RUN_PROCESS
    have started: "fa_started m"
      using message MSG_RUN_PROCESS by (auto simp: fa_inv_def split: if_splits)
    have run: "ProcessFrameP env ?m = Inr (m', out)"
      using message MSG_RUN_PROCESS by (simp add: FakeAudio_OnMessage_def)
    show ?thesis
      by (rule ProcessFrameP_inv [OF run])
         (use message MSG_RUN_PROCESS started thread in \<open>auto simp: fa_inv_def\<close>)
  next
    case MSG_START_PROCESS
    show ?thesis
    proof (cases "fa_started m")
      case True
      then have "m' = ?m"
        using message MSG_START_PROCESS by (auto simp: FakeAudio_OnMessage_def StartProcessP_def and_then_eq_Inr)
      with message MSG_START_PROCESS True thread show ?thesis by (auto simp: fa_inv_def)
    next
      case False
      have run: "ProcessFrameP env ?m = Inr (m', out)"
        using message MSG_START_PROCESS False
        by (auto simp: FakeAudio_OnMessage_def StartProcessP_def and_then_eq_Inr)
      show ?thesis
        by (rule ProcessFrameP_inv [OF run])
           (use message MSG_START_PROCESS False thread in \<open>auto simp: fa_inv_def\<close>)
    qed
  qed
next
  case (stop_playout m)
  have "fa_inv (UpdateProcessing (ShouldStartProcessing (m\<lparr>fa_playing := False\<rparr>)) (m\<lparr>fa_playing := False\<rparr>))"
    by (rule UpdateProcessing_inv) (use stop_playout in \<open>auto simp: fa_inv_def ShouldStartProcessing_def\<close>)
  then show ?case by (simp add: StopPlayout_def Let_def)
next
  case (stop_recording m)
  have "fa_inv (UpdateProcessing (ShouldStartProcessing (m\<lparr>fa_recording := False\<rparr>)) (m\<lparr>fa_recording := False\<rparr>))"
    by (rule UpdateProcessing_inv) (use stop_recording in \<open>auto simp: fa_inv_def ShouldStartProcessing_def\<close>)
  then show ?case by (simp add: StopRecording_def Let_def)
next
  case (start_playout m)
  have "fa_inv (UpdateProcessing True (m\<lparr>fa_playing := True\<rparr>))" if "fa_play_is_initialized m"
    by (rule UpdateProcessing_inv) (use start_playout that in \<open>auto simp: fa_inv_def\<close>)
  with start_playout show ?case by (simp add: StartPlayout_def)
next
  case (start_recording m)
  have "fa_inv (UpdateProcessing True (m\<lparr>fa_recording := True\<rparr>))" if "fa_rec_is_initialized m"
    by (rule UpdateProcessing_inv) (use start_recording that in \<open>auto simp: fa_inv_def\<close>)
  with start_recording show ?case by (simp add: StartRecording_def)
qed (auto simp: fa_inv_def Process_def RegisterAudioCallback_def InitPlayout_def InitRecording_def
      SetMicrophoneVolume_def)

lemma fa_reachable_inv: "fa_reachable m \<Longrightarrow> fa_inv m"
  by (induction rule: fa_reachable.induct) (auto intro: Create_inv fa_step_inv)

text \<open>
  C40. In every reachable state of the audio module, whatever the order of calls and messages: the
  processing thread exists exactly while audio is played or recorded; exactly one frame message
  is pending when processing has started and none otherwise (restarting never doubles the frame
  rate); and the module plays or records only after the corresponding initialisation.
\<close>

theorem audio_module_invariant:
  assumes "fa_reachable m"
  shows "(fa_process_thread m \<longleftrightarrow> fa_playing m \<or> fa_recording m) \<and>
    length (filter (\<lambda>x. fst x = MSG_RUN_PROCESS) (fa_queue m)) = (if fa_started m then 1 else 0) \<and>
    (fa_started m \<longrightarrow> fa_process_thread m) \<and>
    (fa_playing m \<longrightarrow> fa_play_is_initialized m) \<and> (fa_recording m \<longrightarrow> fa_rec_is_initialized m)"
  using fa_reachable_inv [OF assms] by (auto simp: fa_inv_def runs_def)

definition fa_sample :: fake_audio where
  "fa_sample = the (Create 5 (replicate kNumberSamples 0) (replicate kNumberSamples 7))"

lemma fa_sample_reachable: "fa_reachable fa_sample"
  by (rule fa_reachable.initial [of "replicate kNumberSamples 0" "replicate kNumberSamples 7" 5])
     (simp_all add: fa_sample_def Create_def Initialize_def)

lemma fa_playing_reachable: "fa_reachable (fst (StartPlayout (fst (InitPlayout fa_sample))))"
  by (intro fa_reachable.step [OF fa_reachable.step [OF fa_sample_reachable fa_step.init_playout]
        fa_step.start_playout])

theorem audio_module_invariant_witness:
  "fa_process_thread (fst (StartPlayout (fst (InitPlayout fa_sample))))"
proof -
  have "fa_playing (fst (StartPlayout (fst (InitPlayout fa_sample))))"
    by (simp add: StartPlayout_def InitPlayout_def UpdateProcessing_def Let_def)
  with audio_module_invariant [OF fa_playing_reachable] show ?thesis by simp
qed

text \<open>A sequence of frames, each taken from the queue.\<close>

fun run_frames :: "audio_env list \<Rightarrow> fake_audio \<Rightarrow> fake_audio res" where
  "run_frames [] m = Inr m"
| "run_frames (env # envs) m =
     and_then (ProcessFrameP env (m\<lparr>fa_queue := []\<rparr>)) (\<lambda>(m, out). run_frames envs m)"

lemma run_frames_result:
  "run_frames envs m = Inr m' \<Longrightarrow> fa_started m \<Longrightarrow>
     fa_started m' \<and> fa_next_frame_time m' = fa_next_frame_time m + 10 * int (length envs) \<and>
     (envs \<noteq> [] \<longrightarrow> fa_queue m' = [(MSG_RUN_PROCESS, max 0 (fa_next_frame_time m' - ae_time_end (last envs)))])"
proof (induction envs arbitrary: m)
  case Nil
  then show ?case by simp
next
  case (Cons env envs)
  obtain m1 out where 1: "ProcessFrameP env (m\<lparr>fa_queue := []\<rparr>) = Inr (m1, out)" "run_frames envs m1 = Inr m'"
    using Cons.prems(1) by (auto simp: and_then_eq_Inr)
  have m1: "fa_started m1" "fa_next_frame_time m1 = fa_next_frame_time m + 10"
    "fa_queue m1 = [(MSG_RUN_PROCESS, max 0 (fa_next_frame_time m1 - ae_time_end env))]"
    using ProcessFrameP_result [OF 1(1)] Cons.prems(2) by (auto simp: kTimePerFrameMs_def)
  show ?case
    using Cons.IH [OF 1(2) m1(1)] m1 1(2) by (cases envs) auto
qed

text \<open>
  Frames do not drift: running any number of frame messages, each with its own clock readings,
  moves the due time of the next frame by exactly ten milliseconds per frame, however late the
  frames run; the delay asked for is never negative and never more than the time left.
\<close>

theorem frames_do_not_drift:
  assumes "fa_started m" and "envs \<noteq> []" and "run_frames envs m = Inr m'"
  shows "fa_next_frame_time m' = fa_next_frame_time m + 10 * int (length envs) \<and>
    (\<exists>delay. fa_queue m' = [(MSG_RUN_PROCESS, delay)] \<and> 0 \<le> delay \<and>
       delay = max 0 (fa_next_frame_time m' - ae_time_end (last envs)))"
  using run_frames_result [OF assms(3,1)] assms(2) by simp

definition ae_sample :: audio_env where
  "ae_sample = \<lparr>ae_debug = True, ae_time_first = 100, ae_time_end = 103,
     ae_pull = (replicate kNumberSamples 10000, kNumberSamples, True), ae_push = (9, True)\<rparr>"

theorem frames_do_not_drift_witness:
  "\<exists>m'. run_frames [ae_sample, ae_sample]
      (fa_sample\<lparr>fa_started := True, fa_process_thread := True, fa_next_frame_time := 100\<rparr>) = Inr m' \<and>
    fa_next_frame_time m' = 120"
proof -
  let ?m = "fa_sample\<lparr>fa_started := True, fa_process_thread := True, fa_next_frame_time := 100\<rparr>"
  have "\<not> fa_playing fa_sample" "\<not> fa_recording fa_sample"
    by (simp_all add: fa_sample_def Create_def Initialize_def SetSendBuffer_def FakeAudio_ctor_def)
  then obtain m' where r: "run_frames [ae_sample, ae_sample] ?m = Inr m'"
    by (simp add: ProcessFrameP_def rtc_check_def Let_def)
  have "fa_started ?m" "[ae_sample, ae_sample] \<noteq> []" by simp_all
  from frames_do_not_drift [OF this r] r show ?thesis by simp
qed

text \<open>
  The idle time reported for \<open>Process\<close> is always between zero and one second, it is the full
  second right after a call of \<open>Process\<close>, and decreases with the clock.
\<close>

theorem TimeUntilNextProcess_bounds:
  "0 \<le> TimeUntilNextProcess now m \<and> TimeUntilNextProcess now m \<le> 1000 \<and>
   TimeUntilNextProcess now (Process now m) = 1000 \<and>
   TimeUntilNextProcess (now + 1) (Process now m) = 999"
  by (simp add: TimeUntilNextProcess_def Process_def kAdmMaxIdleTimeProcess_def Let_def)

text \<open>
  The module recognises its own frames and no silence: a frame that another module sent and that
  arrives unchanged raises the counter by one, a frame whose samples all stay below 10000 leaves
  it.
\<close>

theorem frame_counter_exact:
  assumes "fa_process_thread m" and "fa_audio_callback m = Some cb"
    and "ae_pull env = (samples, kNumberSamples, True)" and "length samples = kNumberSamples"
  shows "\<exists>m'. ReceiveFrameP env m = Inr (m', [NeedMorePlayData cb]) \<and>
    fa_frames_received m' = fa_frames_received m + (if \<exists>s \<in> set samples. 10000 \<le> uint s then 1 else 0)"
  using assms
  by (auto simp: ReceiveFrameP_def rtc_check_def ResetRecBuffer_def CheckRecBuffer_def kHighSampleValue_def Let_def)

theorem frame_counter_exact_witness:
  "\<exists>m'. ReceiveFrameP ae_sample (fa_sample\<lparr>fa_process_thread := True, fa_audio_callback := Some 3\<rparr>) =
      Inr (m', [NeedMorePlayData 3]) \<and> fa_frames_received m' = 1"
proof -
  have "fa_frames_received fa_sample = 0"
    by (simp add: fa_sample_def Create_def Initialize_def SetSendBuffer_def FakeAudio_ctor_def)
  moreover have "\<exists>s \<in> set (replicate kNumberSamples (10000 :: sample)). 10000 \<le> uint s"
    by (simp add: kNumberSamples_def)
  ultimately show ?thesis
    using frame_counter_exact [of "fa_sample\<lparr>fa_process_thread := True, fa_audio_callback := Some 3\<rparr>" 3
        ae_sample "replicate kNumberSamples 10000"]
    by (simp add: ae_sample_def)
qed

end
