(* ===== verification/Netcat.thy ===== *)
theory Netcat
  imports Prelude
begin

section \<open>The netcat example (\<open>examples/p2p_netcat/main.cc\<close>)\<close>

text \<open>
  The functions of the example that carry its logic: the command line, the copy loop from standard
  input to the peer and the one from the peer to standard output. What \<open>read\<close>, \<open>write\<close> and
  \<open>Peer::Send\<close> answer is given as the list of their results in call order; \<open>None\<close> says that the
  loop has used up the list without returning.
\<close>

record args =
  ar_local :: string
  ar_remote :: string
  ar_server :: bool

definition parse_args :: "string \<Rightarrow> string list \<Rightarrow> args option" where
  \<comment> \<open>\<open>uuid\<close>: the result of \<open>Peer::CreateRandomUuid()\<close>; \<open>argv\<close> without the program name\<close>
  "parse_args uuid argv =
     (if length argv = 1 then Some \<lparr>ar_local = uuid, ar_remote = argv ! 0, ar_server = False\<rparr>
      else if length argv = 2 \<and> argv ! 0 = ''-l''
      then Some \<lparr>ar_local = argv ! 1, ar_remote = [], ar_server = True\<rparr>
      else None)"

datatype nc_call = NcSend string bytes | NcClose string

text \<open>Each answer: the bytes \<open>read\<close> delivers (none at the end of input or on an error), and the
  result of the \<open>Send\<close> that follows.\<close>

fun read_stdin :: "string \<Rightarrow> (bytes \<times> bool) list \<Rightarrow> nc_call list option" where
  "read_stdin peer_id [] = None"
| "read_stdin peer_id ((chunk, sent) # answers) =
     (if chunk = [] then Some [NcClose peer_id]
      else if \<not> sent then Some [NcSend peer_id chunk]
      else map_option (Cons (NcSend peer_id chunk)) (read_stdin peer_id answers))"

text \<open>The bytes written, and the result; each call of \<open>write\<close> is given the whole buffer.\<close>

fun write_loop :: "bytes \<Rightarrow> int \<Rightarrow> int list \<Rightarrow> (bytes \<times> bool) option" where
  "write_loop buf remain [] = None"
| "write_loop buf remain (nbytes # answers) =
     (if nbytes \<le> 0 then Some ([], False)
      else
        let remain = remain - nbytes; out = take (nat nbytes) buf
        in if remain \<le> 0 then Some (out, True)
           else map_option (\<lambda>(rest, ok). (out @ rest, ok)) (write_loop buf remain answers))"

definition write_stdout :: "bytes \<Rightarrow> int list \<Rightarrow> (bytes \<times> bool) option" where
  "write_stdout buf answers = write_loop buf (int (length buf)) answers"

lemma write_loop_returns:
  "\<forall>n \<in> set answers. n \<ge> 1 \<Longrightarrow> remain \<le> int (length answers) \<Longrightarrow> answers \<noteq> [] \<Longrightarrow>
     \<exists>out. write_loop buf remain answers = Some (out, True)"
proof (induction answers arbitrary: remain)
  case Nil
  then show ?case by simp
next
  case (Cons n answers)
  show ?case
  proof (cases "remain - n \<le> 0")
    case True
    with Cons.prems(1) show ?thesis by auto
  next
    case False
    then have "answers \<noteq> []" using Cons.prems(1,2) by auto
    moreover have "remain - n \<le> int (length answers)" using Cons.prems(1,2) by auto
    ultimately obtain out where "write_loop buf (remain - n) answers = Some (out, True)"
      using Cons.IH [of "remain - n"] Cons.prems(1) by auto
    then show ?thesis using Cons.prems(1) False by auto
  qed
qed

text \<open>
  \<open>write_stdout\<close> always returns when every \<open>write\<close> makes progress: at most one call per byte of the
  buffer is needed.
\<close>

theorem write_stdout_returns:
  assumes "buf \<noteq> []" and "\<forall>n \<in> set answers. n \<ge> 1" and "length buf \<le> length answers"
  shows "\<exists>out. write_stdout buf answers = Some (out, True)"
  using write_loop_returns [of answers "int (length buf)" buf] assms by (fastforce simp: write_stdout_def)

theorem write_stdout_returns_witness: "\<exists>out. write_stdout [7, 8] [1, 1] = Some (out, True)"
  using write_stdout_returns [of "[7, 8]" "[1, 1]"] by simp

text \<open>
  When \<open>write\<close> takes the whole buffer at once the output is exactly the buffer. When it takes only
  a part, the next call starts again at the beginning of the buffer: the bytes after the first
  part are a repetition of the start, and the end of the message is lost.
\<close>

theorem write_stdout_restarts:
  assumes "0 < k" and "k < length buf"
  shows "write_stdout buf (int (length buf) # answers) = Some (buf, True) \<and>
    write_stdout buf [int k, int (length buf - k)] = Some (take k buf @ take (length buf - k) buf, True)"
proof -
  have "nat (int (length buf) - int k) = length buf - k" by simp
  with assms show ?thesis by (auto simp: write_stdout_def Let_def)
qed

theorem write_stdout_restarts_witness: "write_stdout [1, 2, 3] [1, 2] = Some ([1, 1, 2], True)"
  using write_stdout_restarts [of 1 "[1, 2, 3]" "[]"] by (simp add: numeral_2_eq_2)

lemma read_stdin_sends:
  assumes "read_stdin i answers = Some calls"
  shows "\<exists>n sent. sent = map fst (take n answers) \<and> n \<le> length answers \<and>
    (calls = map (NcSend i) sent @ [NcClose i] \<and> n < length answers \<and> fst (answers ! n) = [] \<and> (\<forall>a \<in> set (take n answers). snd a) \<or>
     calls = map (NcSend i) sent \<and> 0 < n \<and> \<not> snd (answers ! (n - 1)))"
  using assms
proof (induction i answers arbitrary: calls rule: read_stdin.induct)
  case (1 i)
  then show ?case by simp
next
  case (2 i chunk sent answers)
  show ?case
  proof (cases "chunk = [] \<or> \<not> sent")
    case True
    show ?thesis
    proof (cases "chunk = []")
      case True
      with 2 show ?thesis by (intro exI [of _ 0]) auto
    next
      case False
      with 2 \<open>chunk = [] \<or> \<not> sent\<close> show ?thesis by (intro exI [of _ 1]) auto
    qed
  next
    case False
    with 2 obtain rest where r: "read_stdin i answers = Some rest" "calls = NcSend i chunk # rest" by auto
    from 2(1) [OF _ _ r(1)] False obtain n where n: "n \<le> length answers"
      "rest = map (NcSend i) (map fst (take n answers)) @ [NcClose i] \<and> n < length answers \<and> fst (answers ! n) = [] \<and>
         (\<forall>a \<in> set (take n answers). snd a) \<or>
       rest = map (NcSend i) (map fst (take n answers)) \<and> 0 < n \<and> \<not> snd (answers ! (n - 1))" by auto
    show ?thesis
      using n r(2) False by (intro exI [of _ "Suc n"]) (auto simp: nth_Cons')
  qed
qed

text \<open>
  \<open>read_stdin\<close> forwards the input in order: the chunks it sends are exactly the first ones read,
  none skipped or repeated. It ends by closing the peer at the end of input, all sends before it
  having succeeded, or right after the first send that failed.
\<close>

theorem read_stdin_in_order:
  assumes "read_stdin i answers = Some calls"
  shows "\<exists>n. n \<le> length answers \<and>
    (calls = map (\<lambda>a. NcSend i (fst a)) (take n answers) @ [NcClose i] \<and> n < length answers \<and>
       fst (answers ! n) = [] \<and> (\<forall>a \<in> set (take n answers). snd a) \<or>
     calls = map (\<lambda>a. NcSend i (fst a)) (take n answers) \<and> 0 < n \<and> \<not> snd (answers ! (n - 1)))"
  using read_stdin_sends [OF assms] by (simp add: comp_def)

theorem read_stdin_in_order_witness:
  "\<exists>n \<le> 2. read_stdin ''b'' [([1], True), ([], False)] =
     Some (map (\<lambda>a. NcSend ''b'' (fst a)) (take n [([1], True), ([], False)]) @ [NcClose ''b''])"
proof -
  have r: "read_stdin ''b'' [([1], True), ([], False)] = Some [NcSend ''b'' [1], NcClose ''b'']" by simp
  from read_stdin_in_order [OF r] show ?thesis by (intro exI [of _ 1]) simp
qed

end
