(* ===== verification/Ws_Host.thy ===== *)
theory Ws_Host
  imports Prelude
begin

section \<open>Integers in memory\<close>

text \<open>
  The unions and byte order functions that the WebSocket library reads and writes headers with:
  \<open>websocketpp/common/network.hpp\<close> and the converter unions of \<open>frame.hpp\<close> and \<open>close.hpp\<close>.

  A \<open>host\<close> says what the C++ code leaves to the machine: the byte order, and the result of
  shifting a 64-bit value by 64, which C++ leaves undefined and \<open>circshift_prepared_key\<close> does.
  Machines of use give either the value itself (the shift count is taken modulo 64) or zero;
  that is the predicate \<open>host_ok\<close>. \<open>size_t\<close> has 64 bits.

  \<open>mem_of h n w\<close> is the memory of an \<open>n\<close>-byte integer and \<open>of_mem h\<close> reads it back. The lemmas
  show that the two are inverse and that the conversions to and from network byte order give the
  same bytes on every host.
\<close>

unbundle bit_operations_syntax

record host =
  h_little :: bool
  h_overshift :: "u64 \<Rightarrow> u64"

definition host_ok :: "host \<Rightarrow> bool" where
  "host_ok h \<longleftrightarrow> (\<forall>k. h_overshift h k = 0 \<or> h_overshift h k = k)"

definition x86_host :: host where
  "x86_host = \<lparr>h_little = True, h_overshift = (\<lambda>k. k)\<rparr>"

definition be_host :: host where
  "be_host = \<lparr>h_little = False, h_overshift = (\<lambda>k. 0)\<rparr>"

lemma example_hosts: "host_ok x86_host" "host_ok be_host"
  by (simp_all add: host_ok_def x86_host_def be_host_def)

subsection \<open>Memory images\<close>

primrec le_bytes :: "nat \<Rightarrow> 'a :: len word \<Rightarrow> bytes" where
  "le_bytes 0 w = []"
| "le_bytes (Suc n) w = ucast w # le_bytes n (drop_bit 8 w)"

primrec le_value :: "bytes \<Rightarrow> 'a :: len word" where
  "le_value [] = 0"
| "le_value (b # bs) = ucast b OR push_bit 8 (le_value bs)"

definition mem_of :: "host \<Rightarrow> nat \<Rightarrow> 'a :: len word \<Rightarrow> bytes" where
  "mem_of h n w = (if h_little h then le_bytes n w else rev (le_bytes n w))"

definition of_mem :: "host \<Rightarrow> bytes \<Rightarrow> 'a :: len word" where
  "of_mem h bs = (if h_little h then le_value bs else le_value (rev bs))"

definition is_little_endian :: "host \<Rightarrow> bool" where
  "is_little_endian h \<longleftrightarrow> mem_of h 2 (1 :: u16) ! 0 = 1"

subsection \<open>Network byte order\<close>

definition htons :: "host \<Rightarrow> u16 \<Rightarrow> u16" where
  "htons h w = (if h_little h then of_mem h (rev (mem_of h 2 w)) else w)"

definition ntohs :: "host \<Rightarrow> u16 \<Rightarrow> u16" where
  "ntohs h w = (if h_little h then of_mem h (rev (mem_of h 2 w)) else w)"

text \<open>\<open>_htonll\<close>: the type of the machine is probed through the union, then the eight bytes are
  swapped pairwise.\<close>

definition htonll :: "host \<Rightarrow> u64 \<Rightarrow> u64" where
  "htonll h src =
     (let big = mem_of h 8 (1 :: u64) ! 7 = 1
      in if big then src
         else
           let c = mem_of h 8 src;
               c = c[0 := c ! 7, 7 := c ! 0];
               c = c[1 := c ! 6, 6 := c ! 1];
               c = c[2 := c ! 5, 5 := c ! 2];
               c = c[3 := c ! 4, 4 := c ! 3]
           in of_mem h c)"

definition ntohll :: "host \<Rightarrow> u64 \<Rightarrow> u64" where
  "ntohll h src = htonll h src"

subsection \<open>Reading back what was written\<close>

lemma length_le_bytes [simp]: "length (le_bytes n w) = n"
  by (induction n arbitrary: w) simp_all

lemma length_mem_of [simp]: "length (mem_of h n w) = n"
  by (simp add: mem_of_def)

lemma le_value_bytes: "le_value (le_bytes n w) = (take_bit (8 * n) w :: 'a :: len word)"
proof (induction n arbitrary: w)
  case (Suc n)
  have "ucast (ucast w :: u8) OR push_bit 8 (take_bit (8 * n) (drop_bit 8 w)) = take_bit (8 * Suc n) w"
    by (rule bit_word_eqI) (auto simp: bit_simps)
  then show ?case using Suc by simp
qed simp

lemma le_bytes_value:
  assumes "8 * length bs \<le> LENGTH('a)"
  shows "le_bytes (length bs) (le_value bs :: 'a :: len word) = bs"
  using assms
proof (induction bs)
  case (Cons b bs)
  have "ucast (ucast b OR push_bit 8 (le_value bs) :: 'a word) = b"
    using Cons.prems by (intro bit_word_eqI) (auto simp: bit_simps)
  moreover have "drop_bit 8 (ucast b OR push_bit 8 (le_value bs)) = (take_bit (LENGTH('a) - 8) (le_value bs) :: 'a word)"
    by (rule bit_word_eqI) (auto simp: bit_simps dest: bit_imp_le_length)
  moreover have "le_bytes n (take_bit m w) = le_bytes n w" if "8 * n \<le> m" for n m and w :: "'a word"
    using that
  proof (induction n arbitrary: m w)
    case (Suc n)
    have "drop_bit 8 (take_bit m w) = take_bit (m - 8) (drop_bit 8 w)"
      using Suc.prems by (intro bit_word_eqI) (auto simp: bit_simps)
    moreover have "(ucast (take_bit m w) :: u8) = ucast w"
      using Suc.prems by (intro bit_word_eqI) (auto simp: bit_simps)
    ultimately show ?case using Suc.IH [of "m - 8"] Suc.prems by simp
  qed simp
  ultimately show ?case using Cons by simp
qed simp

lemma of_mem_of:
  assumes "LENGTH('a) \<le> 8 * n"
  shows "of_mem h (mem_of h n w) = (w :: 'a :: len word)"
  using assms by (simp add: of_mem_def mem_of_def le_value_bytes take_bit_word_eq_self)

lemma mem_of_of_mem:
  assumes "8 * length bs \<le> LENGTH('a)" and "n = length bs"
  shows "mem_of h n (of_mem h bs :: 'a :: len word) = bs"
  using assms le_bytes_value [of bs, where 'a = 'a] le_bytes_value [of "rev bs", where 'a = 'a]
  by (simp add: of_mem_def mem_of_def)

subsection \<open>Network order does not depend on the host\<close>

definition be_bytes :: "nat \<Rightarrow> 'a :: len word \<Rightarrow> bytes" where
  "be_bytes n w = rev (le_bytes n w)"

definition be_value :: "bytes \<Rightarrow> 'a :: len word" where
  "be_value bs = le_value (rev bs)"

lemma length_be_bytes [simp]: "length (be_bytes n w) = n"
  by (simp add: be_bytes_def)

lemma be_value_bytes: "LENGTH('a) \<le> 8 * n \<Longrightarrow> be_value (be_bytes n w) = (w :: 'a :: len word)"
  by (simp add: be_value_def be_bytes_def le_value_bytes take_bit_word_eq_self)

lemma little_endian_probe [simp]: "is_little_endian h \<longleftrightarrow> h_little h"
  by (simp add: is_little_endian_def mem_of_def numeral_2_eq_2)

lemma length_8E:
  assumes "length xs = 8"
  obtains a b c d e f g h where "xs = [a, b, c, d, e, f, g, h]"
  using assms by (auto simp: length_Suc_conv numeral_eq_Suc)

lemma htonll_swap: "htonll h w = (if h_little h then of_mem h (rev (mem_of h 8 w)) else w)"
proof -
  have probe: "mem_of h 8 (1 :: u64) ! 7 = 1 \<longleftrightarrow> \<not> h_little h"
    by (simp add: mem_of_def numeral_eq_Suc)
  obtain a b c d e f g i where "mem_of h 8 w = [a, b, c, d, e, f, g, i]"
    using length_mem_of by (rule length_8E)
  then show ?thesis by (simp add: htonll_def probe)
qed

lemma mem_of_htonll: "mem_of h 8 (htonll h w) = be_bytes 8 w"
  by (simp add: htonll_swap mem_of_of_mem) (simp add: mem_of_def be_bytes_def)

lemma ntohll_of_mem: "length bs = 8 \<Longrightarrow> ntohll h (of_mem h bs) = be_value bs"
  by (simp add: ntohll_def htonll_swap mem_of_of_mem) (simp add: of_mem_def be_value_def)

lemma mem_of_htons: "mem_of h 2 (htons h w) = be_bytes 2 w"
  by (simp add: htons_def mem_of_of_mem) (simp add: mem_of_def be_bytes_def)

lemma ntohs_of_mem: "length bs = 2 \<Longrightarrow> ntohs h (of_mem h bs) = be_value bs"
  by (simp add: ntohs_def mem_of_of_mem) (simp add: of_mem_def be_value_def)

end
