(* ===== verification/Ws_Frame.thy ===== *)
theory Ws_Frame
  imports Ws_Host
begin

section \<open>WebSocket frames\<close>

text \<open>
  Model of \<open>websocketpp/frame.hpp\<close>: opcodes, the basic and the extended frame header with their
  accessors, the header writer, and the masking functions. A masking key is the integer member
  of the union; its bytes are its memory on the host. The functions on buffers return the
  contents of the output buffer; every output position depends on the same input position only,
  so the in-place variants of the source, where both buffers are the same, compute the same.
\<close>

unbundle bit_operations_syntax

subsection \<open>Opcodes\<close>

datatype opcode =
    Continuation | Text | Binary | Rsv3 | Rsv4 | Rsv5 | Rsv6 | Rsv7
  | OpClose | Ping | Pong | Control_rsvb | Control_rsvc | Control_rsvd | Control_rsve | Control_rsvf

primrec opcode_value :: "opcode \<Rightarrow> nat" where
  "opcode_value Continuation = 0x0"
| "opcode_value Text = 0x1"
| "opcode_value Binary = 0x2"
| "opcode_value Rsv3 = 0x3"
| "opcode_value Rsv4 = 0x4"
| "opcode_value Rsv5 = 0x5"
| "opcode_value Rsv6 = 0x6"
| "opcode_value Rsv7 = 0x7"
| "opcode_value OpClose = 0x8"
| "opcode_value Ping = 0x9"
| "opcode_value Pong = 0xA"
| "opcode_value Control_rsvb = 0xB"
| "opcode_value Control_rsvc = 0xC"
| "opcode_value Control_rsvd = 0xD"
| "opcode_value Control_rsve = 0xE"
| "opcode_value Control_rsvf = 0xF"

text \<open>\<open>opcode::value(n)\<close>\<close>

definition opcode_of :: "nat \<Rightarrow> opcode" where
  "opcode_of n =
     [Continuation, Text, Binary, Rsv3, Rsv4, Rsv5, Rsv6, Rsv7, OpClose, Ping, Pong, Control_rsvb,
      Control_rsvc, Control_rsvd, Control_rsve, Control_rsvf] ! n"

lemma opcode_of_value [simp]: "opcode_of (opcode_value op) = op"
  by (cases op) (simp_all add: opcode_of_def)

instantiation opcode :: linorder
begin

definition less_eq_opcode :: "opcode \<Rightarrow> opcode \<Rightarrow> bool" where
  "less_eq_opcode a b \<longleftrightarrow> opcode_value a \<le> opcode_value b"

definition less_opcode :: "opcode \<Rightarrow> opcode \<Rightarrow> bool" where
  "less_opcode a b \<longleftrightarrow> opcode_value a < opcode_value b"

instance
proof
  fix x y :: opcode
  show "x \<le> y \<Longrightarrow> y \<le> x \<Longrightarrow> x = y"
    unfolding less_eq_opcode_def by (metis le_antisym opcode_of_value)
qed (auto simp: less_eq_opcode_def less_opcode_def)

end

definition opcode_reserved :: "opcode \<Rightarrow> bool" where
  "opcode_reserved v \<longleftrightarrow> v \<ge> Rsv3 \<and> v \<le> Rsv7 \<or> v \<ge> Control_rsvb \<and> v \<le> Control_rsvf"

definition opcode_invalid :: "opcode \<Rightarrow> bool" where
  "opcode_invalid v \<longleftrightarrow> int (opcode_value v) > 0xF \<or> int (opcode_value v) < 0"

definition is_control :: "opcode \<Rightarrow> bool" where
  "is_control v \<longleftrightarrow> opcode_value v \<ge> 0x8"

subsection \<open>Limits and field masks\<close>

definition BASIC_HEADER_LENGTH :: nat where "BASIC_HEADER_LENGTH = 2"
definition MAX_HEADER_LENGTH :: nat where "MAX_HEADER_LENGTH = 14"
definition MAX_EXTENDED_HEADER_LENGTH :: nat where "MAX_EXTENDED_HEADER_LENGTH = 12"
definition payload_size_basic :: u8 where "payload_size_basic = 125"
definition payload_size_extended :: u16 where "payload_size_extended = 0xFFFF"
definition BHB0_OPCODE :: u8 where "BHB0_OPCODE = 0x0F"
definition BHB0_RSV3 :: u8 where "BHB0_RSV3 = 0x10"
definition BHB0_RSV2 :: u8 where "BHB0_RSV2 = 0x20"
definition BHB0_RSV1 :: u8 where "BHB0_RSV1 = 0x40"
definition BHB0_FIN :: u8 where "BHB0_FIN = 0x80"
definition BHB1_PAYLOAD :: u8 where "BHB1_PAYLOAD = 0x7F"
definition BHB1_MASK :: u8 where "BHB1_MASK = 0x80"
definition payload_size_code_16bit :: u8 where "payload_size_code_16bit = 0x7E"
definition payload_size_code_64bit :: u8 where "payload_size_code_64bit = 0x7F"

lemmas frame_consts =
  BASIC_HEADER_LENGTH_def MAX_HEADER_LENGTH_def MAX_EXTENDED_HEADER_LENGTH_def payload_size_basic_def
  payload_size_extended_def BHB0_OPCODE_def BHB0_RSV3_def BHB0_RSV2_def BHB0_RSV1_def BHB0_FIN_def
  BHB1_PAYLOAD_def BHB1_MASK_def payload_size_code_16bit_def payload_size_code_64bit_def

subsection \<open>Headers\<close>

record basic_header =
  b0 :: u8
  b1 :: u8

definition basic_header_zero :: basic_header where
  "basic_header_zero = \<lparr>b0 = 0x00, b1 = 0x00\<rparr>"

definition basic_header_make ::
    "opcode \<Rightarrow> u64 \<Rightarrow> bool \<Rightarrow> bool \<Rightarrow> bool \<Rightarrow> bool \<Rightarrow> bool \<Rightarrow> basic_header" where
  "basic_header_make op payload_size fin masked rsv1 rsv2 rsv3 =
     (let c0 = 0x00;
          c0 = (if fin then c0 OR BHB0_FIN else c0);
          c0 = (if rsv1 then c0 OR BHB0_RSV1 else c0);
          c0 = (if rsv2 then c0 OR BHB0_RSV2 else c0);
          c0 = (if rsv3 then c0 OR BHB0_RSV3 else c0);
          c0 = c0 OR (of_nat (opcode_value op) AND BHB0_OPCODE);
          c1 = 0x00;
          c1 = (if masked then c1 OR BHB1_MASK else c1);
          basic_value =
            (if payload_size \<le> ucast payload_size_basic then ucast payload_size
             else if payload_size \<le> ucast payload_size_extended then payload_size_code_16bit
             else payload_size_code_64bit);
          c1 = c1 OR basic_value
      in \<lparr>b0 = c0, b1 = c1\<rparr>)"

text \<open>The array \<open>bytes\<close> of an extended header, and \<open>std::copy\<close> to a position of it.\<close>

type_synonym extended_header = bytes

definition copy_to :: "nat \<Rightarrow> bytes \<Rightarrow> bytes \<Rightarrow> bytes" where
  "copy_to pos src dst = take pos dst @ src @ drop (pos + length src) dst"

definition extended_header_zero :: extended_header where
  "extended_header_zero = replicate MAX_EXTENDED_HEADER_LENGTH 0x00"

definition copy_payload :: "host \<Rightarrow> u64 \<Rightarrow> extended_header \<Rightarrow> nat \<times> extended_header" where
  "copy_payload h payload_size e =
     (let payload_offset =
            (if payload_size \<le> ucast payload_size_basic then 8
             else if payload_size \<le> ucast payload_size_extended then 6 else 0);
          temp64 = mem_of h 8 (htonll h payload_size)
      in (8 - payload_offset, copy_to 0 (drop payload_offset temp64) e))"

definition extended_header_size :: "host \<Rightarrow> u64 \<Rightarrow> extended_header" where
  "extended_header_size h payload_size = snd (copy_payload h payload_size extended_header_zero)"

definition extended_header_key :: "host \<Rightarrow> u64 \<Rightarrow> u32 \<Rightarrow> extended_header" where
  "extended_header_key h payload_size masking_key =
     (let (offset, e) = copy_payload h payload_size extended_header_zero
      in copy_to offset (mem_of h 4 masking_key) e)"

definition get_fin :: "basic_header \<Rightarrow> bool" where
  "get_fin h \<longleftrightarrow> b0 h AND BHB0_FIN = BHB0_FIN"

definition set_fin :: "bool \<Rightarrow> basic_header \<Rightarrow> basic_header" where
  "set_fin value h = h\<lparr>b0 := if value then b0 h OR BHB0_FIN else b0 h AND NOT BHB0_FIN\<rparr>"

definition get_rsv1 :: "basic_header \<Rightarrow> bool" where
  "get_rsv1 h \<longleftrightarrow> b0 h AND BHB0_RSV1 = BHB0_RSV1"

definition set_rsv1 :: "bool \<Rightarrow> basic_header \<Rightarrow> basic_header" where
  "set_rsv1 value h = h\<lparr>b0 := if value then b0 h OR BHB0_RSV1 else b0 h AND NOT BHB0_RSV1\<rparr>"

definition get_rsv2 :: "basic_header \<Rightarrow> bool" where
  "get_rsv2 h \<longleftrightarrow> b0 h AND BHB0_RSV2 = BHB0_RSV2"

definition set_rsv2 :: "bool \<Rightarrow> basic_header \<Rightarrow> basic_header" where
  "set_rsv2 value h = h\<lparr>b0 := if value then b0 h OR BHB0_RSV2 else b0 h AND NOT BHB0_RSV2\<rparr>"

definition get_rsv3 :: "basic_header \<Rightarrow> bool" where
  "get_rsv3 h \<longleftrightarrow> b0 h AND BHB0_RSV3 = BHB0_RSV3"

definition set_rsv3 :: "bool \<Rightarrow> basic_header \<Rightarrow> basic_header" where
  "set_rsv3 value h = h\<lparr>b0 := if value then b0 h OR BHB0_RSV3 else b0 h AND NOT BHB0_RSV3\<rparr>"

definition get_opcode :: "basic_header \<Rightarrow> opcode" where
  "get_opcode h = opcode_of (unat (b0 h AND BHB0_OPCODE))"

definition get_masked :: "basic_header \<Rightarrow> bool" where
  "get_masked h \<longleftrightarrow> b1 h AND BHB1_MASK = BHB1_MASK"

definition set_masked :: "bool \<Rightarrow> basic_header \<Rightarrow> basic_header" where
  "set_masked value h = h\<lparr>b1 := if value then b1 h OR BHB1_MASK else b1 h AND NOT BHB1_MASK\<rparr>"

definition get_basic_size :: "basic_header \<Rightarrow> u8" where
  "get_basic_size h = b1 h AND BHB1_PAYLOAD"

definition get_masking_key_offset :: "basic_header \<Rightarrow> nat" where
  "get_masking_key_offset h =
     (if get_basic_size h = payload_size_code_16bit then 2
      else if get_basic_size h = payload_size_code_64bit then 8 else 0)"

definition get_header_len :: "basic_header \<Rightarrow> nat" where
  "get_header_len h =
     (let len = BASIC_HEADER_LENGTH + get_masking_key_offset h
      in if get_masked h then len + 4 else len)"

definition prepare_header :: "basic_header \<Rightarrow> extended_header \<Rightarrow> bytes" where
  "prepare_header h e = [b0 h, b1 h] @ take (get_header_len h - BASIC_HEADER_LENGTH) e"

definition get_masking_key :: "host \<Rightarrow> basic_header \<Rightarrow> extended_header \<Rightarrow> u32" where
  "get_masking_key ho h e =
     (if \<not> get_masked h then 0
      else let offset = get_masking_key_offset h in of_mem ho (take 4 (drop offset e)))"

definition get_extended_size :: "host \<Rightarrow> extended_header \<Rightarrow> u16" where
  "get_extended_size ho e = ntohs ho (of_mem ho (take 2 e))"

definition get_jumbo_size :: "host \<Rightarrow> extended_header \<Rightarrow> u64" where
  "get_jumbo_size ho e = ntohll ho (of_mem ho (take 8 e))"

definition get_payload_size :: "host \<Rightarrow> basic_header \<Rightarrow> extended_header \<Rightarrow> u64" where
  "get_payload_size ho h e =
     (let val = get_basic_size h
      in if val \<le> payload_size_basic then ucast val
         else if val = payload_size_code_16bit then ucast (get_extended_size ho e)
         else get_jumbo_size ho e)"

subsection \<open>Masking\<close>

definition prepare_masking_key :: "u32 \<Rightarrow> u64" where
  "prepare_masking_key key =
     (let low_bits = ucast key :: u64; high_bits = ucast key :: u64
      in push_bit 32 high_bits OR low_bits)"

definition shl64 :: "host \<Rightarrow> u64 \<Rightarrow> nat \<Rightarrow> u64" where
  "shl64 h k n = (if n < 64 then push_bit n k else h_overshift h k)"

definition shr64 :: "host \<Rightarrow> u64 \<Rightarrow> nat \<Rightarrow> u64" where
  "shr64 h k n = (if n < 64 then drop_bit n k else h_overshift h k)"

definition circshift_prepared_key :: "host \<Rightarrow> u64 \<Rightarrow> nat \<Rightarrow> u64" where
  "circshift_prepared_key h prepared_key offset =
     (if is_little_endian h
      then let temp = shl64 h prepared_key ((8 - offset) * 8)
           in shr64 h prepared_key (offset * 8) OR temp
      else let temp = shr64 h prepared_key ((8 - offset) * 8)
           in shl64 h prepared_key (offset * 8) OR temp)"

fun byte_mask_loop :: "bytes \<Rightarrow> nat \<Rightarrow> bytes \<Rightarrow> bytes" where
  "byte_mask_loop key key_index [] = []"
| "byte_mask_loop key key_index (x # xs) =
     (x XOR key ! key_index) # byte_mask_loop key ((key_index + 1) mod 4) xs"

definition byte_mask :: "host \<Rightarrow> bytes \<Rightarrow> u32 \<Rightarrow> nat \<Rightarrow> bytes" where
  "byte_mask h input key key_offset = byte_mask_loop (mem_of h 4 key) (key_offset mod 4) input"

definition mask_words :: "host \<Rightarrow> bytes \<Rightarrow> nat \<Rightarrow> u64 \<Rightarrow> bytes" where
  "mask_words h input n prepared_key =
     concat (map (\<lambda>i. mem_of h 8 (of_mem h (take 8 (drop (8 * i) input)) XOR prepared_key)) [0..<n])"

definition word_mask_exact :: "host \<Rightarrow> bytes \<Rightarrow> u32 \<Rightarrow> bytes" where
  "word_mask_exact h input key =
     (let prepared_key = prepare_masking_key key;
          n = length input div 8
      in mask_words h input n prepared_key @
         map (\<lambda>i. input ! i XOR mem_of h 4 key ! (i mod 4)) [n * 8..<length input])"

definition word_mask_circ :: "host \<Rightarrow> bytes \<Rightarrow> u64 \<Rightarrow> bytes \<times> u64" where
  "word_mask_circ h input prepared_key =
     (let n = length input div 8;
          l = length input - n * 8;
          start = length input - l;
          byte_key = mem_of h 8 prepared_key
      in (mask_words h input n prepared_key @
            map (\<lambda>i. input ! (start + i) XOR byte_key ! i) [0..<l],
          circshift_prepared_key h prepared_key l))"

definition byte_mask_circ :: "host \<Rightarrow> bytes \<Rightarrow> u64 \<Rightarrow> bytes \<times> u64" where
  "byte_mask_circ h input prepared_key =
     (let key = mem_of h 4 (ucast prepared_key :: u32)
      in (map (\<lambda>i. input ! i XOR key ! (i mod 4)) [0..<length input],
          circshift_prepared_key h prepared_key (length input mod 4)))"

subsection \<open>The basic header\<close>

lemma opcode_value_less: "opcode_value op < 16"
  by (cases op) simp_all

lemma opcode_value_of: "n < 16 \<Longrightarrow> opcode_value (opcode_of n) = n"
  unfolding opcode_of_def by (auto simp: less_Suc_eq numeral_eq_Suc)

lemma is_control_le: "is_control op \<longleftrightarrow> op \<ge> OpClose"
  by (simp add: is_control_def less_eq_opcode_def)

text \<open>Testing a single bit of a byte.\<close>

lemma flag_tests:
  fixes w :: u8
  shows "w AND 0x80 = 0x80 \<longleftrightarrow> bit w 7" "w AND 0x40 = 0x40 \<longleftrightarrow> bit w 6"
    "w AND 0x20 = 0x20 \<longleftrightarrow> bit w 5" "w AND 0x10 = 0x10 \<longleftrightarrow> bit w 4"
proof -
  have flag: "w AND f = f \<longleftrightarrow> bit w n" if "\<And>k. bit f k \<longleftrightarrow> k = n" "n < 8" for f :: u8 and n
  proof
    assume "w AND f = f"
    then show "bit w n" using that(1) [of n] by (metis bit_and_iff)
  next
    assume "bit w n"
    then show "w AND f = f" using that(1) by (intro bit_word_eqI) (auto simp: bit_and_iff)
  qed
  have "bit (0x80 :: u8) k \<longleftrightarrow> k = 7" "bit (0x40 :: u8) k \<longleftrightarrow> k = 6"
    "bit (0x20 :: u8) k \<longleftrightarrow> k = 5" "bit (0x10 :: u8) k \<longleftrightarrow> k = 4" for k
    using bit_exp_iff [where 'a = u8, of 7 k] bit_exp_iff [where 'a = u8, of 6 k]
      bit_exp_iff [where 'a = u8, of 5 k] bit_exp_iff [where 'a = u8, of 4 k] by auto
  then show "w AND 0x80 = 0x80 \<longleftrightarrow> bit w 7" "w AND 0x40 = 0x40 \<longleftrightarrow> bit w 6"
    "w AND 0x20 = 0x20 \<longleftrightarrow> bit w 5" "w AND 0x10 = 0x10 \<longleftrightarrow> bit w 4"
    by (auto intro!: flag)
qed

lemma get_bits:
  "get_fin h = bit (b0 h) 7" "get_rsv1 h = bit (b0 h) 6" "get_rsv2 h = bit (b0 h) 5"
  "get_rsv3 h = bit (b0 h) 4" "get_masked h = bit (b1 h) 7"
  by (simp_all add: get_fin_def get_rsv1_def get_rsv2_def get_rsv3_def get_masked_def frame_consts flag_tests)

lemma set_get_bits [simp]:
  "get_fin (set_fin v h) = v" "get_rsv1 (set_rsv1 v h) = v" "get_rsv2 (set_rsv2 v h) = v"
  "get_rsv3 (set_rsv3 v h) = v" "get_masked (set_masked v h) = v"
  by (simp_all add: get_bits set_fin_def set_rsv1_def set_rsv2_def set_rsv3_def set_masked_def frame_consts
      bit_simps)

lemma opcode_nibble:
  fixes f :: u8
  assumes "f AND 0x0F = 0"
  shows "unat ((f OR (of_nat (opcode_value op) AND 0x0F)) AND 0x0F) = opcode_value op"
proof -
  have "(f OR (of_nat (opcode_value op) AND 0x0F)) AND 0x0F = (of_nat (opcode_value op) :: u8)"
    using assms by (cases op) (simp_all add: bit.conj_disj_distrib2)
  then show ?thesis using opcode_value_less [of op] by (simp add: unat_of_nat)
qed

text \<open>The size code of a payload.\<close>

definition size_code :: "u64 \<Rightarrow> u8" where
  "size_code n = (if unat n \<le> 125 then ucast n else if unat n \<le> 65535 then 126 else 127)"

lemma unat_size_code: "unat (size_code n) = (if unat n \<le> 125 then unat n else if unat n \<le> 65535 then 126 else 127)"
  by (simp add: size_code_def unsigned_ucast_eq take_bit_nat_eq_self)

lemma size_code_7bit: "size_code n AND 0x7F = size_code n" "\<not> bit (size_code n) 7"
proof -
  have t: "take_bit 7 (size_code n) = size_code n"
    by (rule word_unat_eq_iff [THEN iffD2]) (simp add: unsigned_take_bit_eq take_bit_nat_eq_self unat_size_code)
  have "(0x7F :: u8) = mask 7" by (simp add: mask_eq_exp_minus_1)
  with t show "size_code n AND 0x7F = size_code n" by (simp only: take_bit_eq_mask)
  show "\<not> bit (size_code n) 7" by (subst t [symmetric]) (simp add: bit_simps)
qed

lemma basic_header_fields:
  fixes op n fin masked r1 r2 r3
  defines "h \<equiv> basic_header_make op n fin masked r1 r2 r3"
  shows "get_fin h = fin" "get_rsv1 h = r1" "get_rsv2 h = r2" "get_rsv3 h = r3" "get_opcode h = op"
    "get_masked h = masked" "get_basic_size h = size_code n"
proof -
  let ?f = "(if fin then 0x80 else 0) OR (if r1 then 0x40 else 0) OR (if r2 then 0x20 else 0) OR (if r3 then 0x10 else 0) :: u8"
  have c0: "b0 h = ?f OR (of_nat (opcode_value op) AND 0x0F)"
    unfolding h_def by (simp add: basic_header_make_def frame_consts)
  have c1: "b1 h = (if masked then 0x80 else 0) OR size_code n"
    unfolding h_def by (simp add: basic_header_make_def size_code_def frame_consts word_le_nat_alt)
  have "?f AND 0x0F = 0" by simp
  then show "get_opcode h = op" using opcode_nibble [of ?f op] by (simp only: get_opcode_def c0 frame_consts opcode_of_value)
  show "get_fin h = fin" "get_rsv1 h = r1" "get_rsv2 h = r2" "get_rsv3 h = r3"
    unfolding get_bits c0 by (simp_all add: bit_simps)
  show "get_masked h = masked"
    unfolding get_bits c1 using size_code_7bit(2) [of n] by (simp add: bit_simps)
  show "get_basic_size h = size_code n"
    unfolding get_basic_size_def c1 using size_code_7bit(1) [of n] by (simp add: frame_consts bit.conj_disj_distrib2)
qed

subsection \<open>The extended header\<close>

lemma length_copy_to [simp]: "pos + length src \<le> length dst \<Longrightarrow> length (copy_to pos src dst) = length dst"
  by (simp add: copy_to_def)

text \<open>How many bytes the length field takes, and what they are.\<close>

definition size_field :: "u64 \<Rightarrow> bytes" where
  "size_field n =
     (if unat n \<le> 125 then [] else if unat n \<le> 65535 then be_bytes 2 (ucast n :: u16) else be_bytes 8 n)"

lemma be_bytes_low: "drop 6 (be_bytes 8 (n :: u64)) = be_bytes 2 (ucast n :: u16)"
proof -
  have "take k (le_bytes (k + m) w) = le_bytes k w" for k m and w :: u64
    by (induction k arbitrary: w) simp_all
  from this [of 2 6 n] have "drop 6 (be_bytes 8 n) = be_bytes 2 n"
    by (simp add: be_bytes_def drop_rev)
  also have "\<dots> = be_bytes 2 (ucast n :: u16)"
    unfolding be_bytes_def numeral_2_eq_2 by simp (intro conjI; rule bit_word_eqI; auto simp: bit_simps)
  finally show ?thesis .
qed

lemma copy_payload_field:
  "copy_payload h n e = (length (size_field n), copy_to 0 (size_field n) e)"
  by (simp add: copy_payload_def size_field_def mem_of_htonll be_bytes_low frame_consts word_le_nat_alt)

lemma length_size_field: "length (size_field n) = (if unat n \<le> 125 then 0 else if unat n \<le> 65535 then 2 else 8)"
  by (simp add: size_field_def)

lemma masking_key_offset: "get_masking_key_offset (basic_header_make op n fin m r1 r2 r3) = length (size_field n)"
  by (simp add: get_masking_key_offset_def basic_header_fields length_size_field frame_consts
      word_unat_eq_iff unat_size_code)

lemma extended_header_key_bytes:
  "\<exists>rest. extended_header_key h n key = size_field n @ mem_of h 4 key @ rest \<and>
     length (extended_header_key h n key) = MAX_EXTENDED_HEADER_LENGTH"
  by (simp add: extended_header_key_def copy_payload_field copy_to_def extended_header_zero_def frame_consts
      length_size_field)

lemma extended_header_size_bytes:
  "\<exists>rest. extended_header_size h n = size_field n @ rest \<and>
     length (extended_header_size h n) = MAX_EXTENDED_HEADER_LENGTH"
  by (simp add: extended_header_size_def copy_payload_field copy_to_def extended_header_zero_def frame_consts
      length_size_field)

lemma payload_size_read:
  assumes "get_basic_size b = size_code n" and "e = size_field n @ rest"
  shows "get_payload_size h b e = n"
proof -
  consider "unat n \<le> 125" | "125 < unat n" "unat n \<le> 65535" | "65535 < unat n" by linarith
  then show ?thesis
  proof cases
    case 1
    then have "ucast (ucast n :: u8) = n" by (simp add: word_unat_eq_iff unsigned_ucast_eq unsigned_take_bit_eq take_bit_nat_eq_self)
    with 1 show ?thesis
      by (simp add: get_payload_size_def assms(1) frame_consts word_le_nat_alt unat_size_code) (simp add: size_code_def)
  next
    case 2
    then have "ucast (ucast n :: u16) = n" by (simp add: word_unat_eq_iff unsigned_ucast_eq unsigned_take_bit_eq take_bit_nat_eq_self)
    with 2 show ?thesis
      by (simp add: get_payload_size_def assms frame_consts word_le_nat_alt unat_size_code word_unat_eq_iff
          get_extended_size_def size_field_def ntohs_of_mem be_value_bytes)
  next
    case 3
    then show ?thesis
      by (simp add: get_payload_size_def assms frame_consts word_le_nat_alt unat_size_code word_unat_eq_iff
          get_jumbo_size_def size_field_def ntohll_of_mem be_value_bytes)
  qed
qed

subsection \<open>Writing and reading a header\<close>

text \<open>The header on the wire: its two fixed bytes, the length field and the masking key.\<close>

definition wire_header ::
    "host \<Rightarrow> opcode \<Rightarrow> u64 \<Rightarrow> bool \<Rightarrow> u32 option \<Rightarrow> bool \<Rightarrow> bytes" where
  "wire_header h op n fin key r1 =
     (let b = basic_header_make op n fin (key \<noteq> None) r1 False False
      in [b0 b, b1 b] @ size_field n @ (case key of None \<Rightarrow> [] | Some k \<Rightarrow> mem_of h 4 k))"

lemma header_len:
  "get_header_len (basic_header_make op n fin m r1 r2 r3) = 2 + length (size_field n) + (if m then 4 else 0)"
  by (simp add: get_header_len_def masking_key_offset basic_header_fields frame_consts)

lemma prepare_header_wire:
  "prepare_header (basic_header_make op n fin True r1 False False) (extended_header_key h n k) =
     wire_header h op n fin (Some k) r1"
  "prepare_header (basic_header_make op n fin False r1 False False) (extended_header_size h n) =
     wire_header h op n fin None r1"
  using extended_header_key_bytes [of h n k] extended_header_size_bytes [of h n]
  by (auto simp: prepare_header_def wire_header_def header_len frame_consts Let_def)

text \<open>
  Frame header round trip, on every machine: from the header built for an opcode, a payload
  size, the FIN and RSV bits and a masking key, the accessors read back every field, whatever
  the byte order of the host; the full header has the length that \<open>get_header_len\<close> computes
  from its first two bytes and never more than \<open>MAX_HEADER_LENGTH\<close>.
\<close>

theorem header_roundtrip:
  "let b = basic_header_make op n fin m r1 r2 r3;
       e = (if m then extended_header_key ho n k else extended_header_size ho n)
   in get_fin b = fin \<and> get_rsv1 b = r1 \<and> get_rsv2 b = r2 \<and> get_rsv3 b = r3 \<and>
    get_opcode b = op \<and> get_masked b = m \<and> get_payload_size ho b e = n \<and>
    get_masking_key ho b e = (if m then k else 0) \<and>
    length (prepare_header b e) = get_header_len b \<and> get_header_len b \<le> MAX_HEADER_LENGTH"
proof -
  define b where "b = basic_header_make op n fin m r1 r2 r3"
  define e where "e = (if m then extended_header_key ho n k else extended_header_size ho n)"
  obtain rest where e: "e = size_field n @ (if m then mem_of ho 4 k else []) @ rest"
    and len: "length e = MAX_EXTENDED_HEADER_LENGTH"
    using extended_header_key_bytes [of ho n k] extended_header_size_bytes [of ho n]
    unfolding e_def by (cases m) auto
  have "get_payload_size ho b e = n"
    by (rule payload_size_read [of _ _ _ "(if m then mem_of ho 4 k else []) @ rest"])
      (simp_all add: b_def basic_header_fields e)
  moreover have "get_masking_key ho b e = (if m then k else 0)"
    using of_mem_of [where 'a = 32, of 4 ho k]
    by (simp add: get_masking_key_def b_def masking_key_offset basic_header_fields e)
  moreover have "length (prepare_header b e) = get_header_len b" "get_header_len b \<le> MAX_HEADER_LENGTH"
    using len length_size_field [of n]
    by (simp_all add: prepare_header_def b_def header_len frame_consts)
  ultimately show ?thesis
    unfolding Let_def b_def [symmetric] e_def [symmetric] by (simp add: b_def basic_header_fields)
qed

end
