(* ===== verification/Ws_Masking.thy ===== *)
theory Ws_Masking
  imports Ws_Frame
begin

section \<open>Masking: the four routines compute the same\<close>

text \<open>
  The masking routines of \<open>frame.hpp\<close> work byte by byte or word by word, on a whole payload or on
  a stream of pieces with a key that is rotated between the pieces. The reference is
  \<open>xor_stream\<close>: byte \<open>i\<close> of the payload is combined with byte \<open>(o + i) mod 4\<close> of the key. The
  lemmas show that every routine computes it, on every host.
\<close>

unbundle bit_operations_syntax

definition xor_stream :: "bytes \<Rightarrow> nat \<Rightarrow> bytes \<Rightarrow> bytes" where
  "xor_stream c i bs = map (\<lambda>j. bs ! j XOR c ! ((i + j) mod 4)) [0..<length bs]"

lemma length_xor_stream [simp]: "length (xor_stream c i bs) = length bs"
  by (simp add: xor_stream_def)

lemma nth_xor_stream: "j < length bs \<Longrightarrow> xor_stream c i bs ! j = bs ! j XOR c ! ((i + j) mod 4)"
  by (simp add: xor_stream_def)

lemma xor_stream_mod: "xor_stream c (i mod 4) bs = xor_stream c i bs"
  by (simp add: xor_stream_def mod_add_left_eq)

lemma xor_stream_involution: "xor_stream c i (xor_stream c i bs) = bs"
  by (rule nth_equalityI) (simp_all add: nth_xor_stream xor.assoc)

lemma xor_stream_append: "xor_stream c i (as @ bs) = xor_stream c i as @ xor_stream c (i + length as) bs"
  by (rule nth_equalityI) (auto simp: nth_xor_stream nth_append)

lemma xor_stream_Cons: "xor_stream c i (b # bs) = (b XOR c ! (i mod 4)) # xor_stream c (Suc i) bs"
  using xor_stream_append [of c i "[b]" bs] by (simp add: xor_stream_def)

lemma byte_mask_stream: "byte_mask h bs key i = xor_stream (mem_of h 4 key) i bs"
proof -
  have "byte_mask_loop c i bs = xor_stream c i bs" if "i < 4" for c i bs
    using that
  proof (induction c i bs rule: byte_mask_loop.induct)
    case (2 c i x xs)
    then show ?case by (simp add: xor_stream_Cons xor_stream_mod [of c "Suc i"])
  qed (simp add: xor_stream_def)
  then show ?thesis by (simp add: byte_mask_def xor_stream_mod)
qed

subsection \<open>Bytes of words\<close>

lemma nth_le_bytes: "i < n \<Longrightarrow> le_bytes n w ! i = ucast (drop_bit (8 * i) w)"
proof (induction n arbitrary: w i)
  case (Suc n)
  then show ?case by (cases i) (simp_all add: ac_simps)
qed simp

lemma nth_mem_of:
  "i < n \<Longrightarrow> mem_of h n w ! i = ucast (drop_bit (8 * (if h_little h then i else n - Suc i)) w)"
  by (simp add: mem_of_def nth_le_bytes rev_nth)

lemma mem_of_xor: "i < n \<Longrightarrow> mem_of h n (v XOR w) ! i = mem_of h n v ! i XOR mem_of h n w ! i"
  by (auto simp: nth_mem_of bit_simps intro!: bit_word_eqI)

lemma bit_prepared: "m < 64 \<Longrightarrow> bit (prepare_masking_key key) m = bit key (m mod 32)"
proof (cases "m < 32")
  case False
  moreover assume "m < 64"
  moreover from this False have "m mod 32 = m - 32" by (simp add: mod_if)
  ultimately show ?thesis
    by (auto simp: prepare_masking_key_def bit_simps dest: bit_imp_le_length)
qed (auto simp: prepare_masking_key_def bit_simps)

lemma le_bytes_prepared: "le_bytes 8 (prepare_masking_key key) = le_bytes 4 key @ le_bytes 4 key"
proof (rule nth_equalityI)
  fix i assume "i < length (le_bytes 8 (prepare_masking_key key))"
  then have i: "i < 8" by simp
  have "le_bytes 8 (prepare_masking_key key) ! i = (ucast (drop_bit (8 * (i mod 4)) key) :: u8)"
  proof (rule bit_word_eqI)
    fix n assume "n < LENGTH(8)"
    then have "8 * i + n < 64" "(8 * i + n) mod 32 = 8 * (i mod 4) + n"
      using i by (auto simp: mod_if)
    then show "bit (le_bytes 8 (prepare_masking_key key) ! i) n = bit (ucast (drop_bit (8 * (i mod 4)) key) :: u8) n"
      using i \<open>n < LENGTH(8)\<close> by (simp add: nth_le_bytes bit_simps bit_prepared)
  qed
  also have "\<dots> = (le_bytes 4 key @ le_bytes 4 key) ! i"
    using i by (cases "i < 4") (simp_all add: nth_append nth_le_bytes mod_if)
  finally show "le_bytes 8 (prepare_masking_key key) ! i = (le_bytes 4 key @ le_bytes 4 key) ! i" .
qed simp

lemma mem_of_prepared: "mem_of h 8 (prepare_masking_key key) = mem_of h 4 key @ mem_of h 4 key"
  by (simp add: mem_of_def le_bytes_prepared)

lemma mem_of_low:
  assumes "mem_of h 8 (k :: u64) = c @ c" and "length c = 4"
  shows "mem_of h 4 (ucast k :: u32) = c"
proof (rule nth_equalityI)
  fix i assume "i < length (mem_of h 4 (ucast k :: u32))"
  then have i: "i < 4" by simp
  let ?j = "if h_little h then i else i + 4"
  have "mem_of h 4 (ucast k :: u32) ! i = mem_of h 8 k ! ?j"
    using i by (auto simp: nth_mem_of bit_simps intro!: bit_word_eqI)
  also have "\<dots> = c ! i" using i assms by (simp add: nth_append)
  finally show "mem_of h 4 (ucast k :: u32) ! i = c ! i" .
qed (simp add: assms)


text \<open>The circular shift rotates the memory of the key.\<close>

lemma bit_circshift:
  assumes "host_ok h" and "i < 8" and "m < 64"
  shows "bit (circshift_prepared_key h k i) m =
    bit k (if h_little h then (m + 8 * i) mod 64 else (m + 64 - 8 * i) mod 64)"
proof (cases "i = 0")
  case True
  have "h_overshift h k = 0 \<or> h_overshift h k = k" using assms(1) by (simp add: host_ok_def)
  then show ?thesis
    using True assms(3) by (auto simp: circshift_prepared_key_def shl64_def shr64_def mod_if)
next
  case False
  then have "(8 - i) * 8 < 64" "i * 8 < 64" using assms(2) by auto
  then show ?thesis
    using False assms(2,3)
    by (auto simp: circshift_prepared_key_def shl64_def shr64_def bit_simps mod_if algebra_simps
        dest: bit_imp_le_length)
qed

lemma mem_of_circshift:
  assumes "host_ok h" and "i < 8"
  shows "mem_of h 8 (circshift_prepared_key h k i) = rotate i (mem_of h 8 k)"
proof (rule nth_equalityI)
  fix j assume "j < length (mem_of h 8 (circshift_prepared_key h k i))"
  then have j: "j < 8" by simp
  let ?l = "\<lambda>j. 8 * (if h_little h then j else 7 - j)"
  have "mem_of h 8 (circshift_prepared_key h k i) ! j = mem_of h 8 k ! ((i + j) mod 8)"
  proof (rule bit_word_eqI)
    fix n assume "n < LENGTH(8)"
    then have n: "n < 8" by simp
    have lt: "?l j + n < 64" "(i + j) mod 8 < 8" using j n by auto
    have "(?l j + n + 8 * i) mod 64 = ?l ((i + j) mod 8) + n" if "h_little h"
      using that j n assms(2) by (auto simp: mod_if)
    moreover have "(?l j + n + 64 - 8 * i) mod 64 = ?l ((i + j) mod 8) + n" if "\<not> h_little h"
      using that j n assms(2) by (auto simp: mod_if)
    ultimately show "bit (mem_of h 8 (circshift_prepared_key h k i) ! j) n = bit (mem_of h 8 k ! ((i + j) mod 8)) n"
      using lt j n bit_circshift [OF assms, of "?l j + n" k] by (simp add: nth_mem_of bit_simps split: if_splits)
  qed
  then show "mem_of h 8 (circshift_prepared_key h k i) ! j = rotate i (mem_of h 8 k) ! j"
    using j by (simp add: nth_rotate)
qed simp

subsection \<open>Word by word\<close>

lemma nth_concat_blocks:
  assumes "\<And>i. i < n \<Longrightarrow> length (f i) = 8" and "j < 8 * n"
  shows "concat (map f [0..<n]) ! j = f (j div 8) ! (j mod 8)"
  using assms
proof (induction n)
  case (Suc n)
  have len: "length (concat (map f [0..<n])) = 8 * n"
    using Suc.prems(1) by (induction n) auto
  show ?case
  proof (cases "j < 8 * n")
    case True
    then show ?thesis using Suc len by (simp add: nth_append)
  next
    case False
    then obtain r where "j = 8 * n + r" by (metis le_iff_add not_less)
    then show ?thesis using Suc.prems(2) len by (simp add: nth_append)
  qed
qed simp

lemma length_mask_words: "length (mask_words h bs n k) = 8 * n"
  unfolding mask_words_def by (induction n) simp_all

lemma nth_mask_words:
  assumes "8 * n \<le> length bs" and "j < 8 * n"
  shows "mask_words h bs n k ! j = bs ! j XOR mem_of h 8 k ! (j mod 8)"
proof -
  let ?w = "take 8 (drop (8 * (j div 8)) bs)"
  have "j div 8 < n" using assms(2) by (simp add: less_mult_imp_div_less mult.commute)
  then have "8 * (j div 8) + 8 \<le> length bs" using assms(1) by linarith
  then have w: "length ?w = 8" "?w ! (j mod 8) = bs ! j" by simp_all
  have "mask_words h bs n k ! j = mem_of h 8 (of_mem h ?w XOR k) ! (j mod 8)"
    unfolding mask_words_def using assms(2) by (subst nth_concat_blocks) simp_all
  also have "\<dots> = mem_of h 8 (of_mem h ?w :: u64) ! (j mod 8) XOR mem_of h 8 k ! (j mod 8)"
    by (simp add: mem_of_xor)
  finally show ?thesis using w mem_of_of_mem [where 'a = 64, of ?w 8 h] by simp
qed

text \<open>A key that repeats a four-byte pattern, which is what \<open>prepare_masking_key\<close> makes.\<close>

definition key_pattern :: "host \<Rightarrow> u64 \<Rightarrow> bytes \<Rightarrow> bool" where
  "key_pattern h k c \<longleftrightarrow> length c = 4 \<and> mem_of h 8 k = c @ c"

lemma key_pattern_prepared: "key_pattern h (prepare_masking_key key) (mem_of h 4 key)"
  by (simp add: key_pattern_def mem_of_prepared)

lemma key_pattern_nth: "key_pattern h k c \<Longrightarrow> j < 8 \<Longrightarrow> mem_of h 8 k ! j = c ! (j mod 4)"
  by (auto simp: key_pattern_def nth_append mod_if)

lemma rotate_double: "rotate n (c @ c) = rotate n c @ rotate n c"
proof (induction n)
  case (Suc n)
  have "rotate1 (d @ d) = rotate1 d @ rotate1 d" for d :: "'a list" by (cases d) simp_all
  then show ?case using Suc by simp
qed simp

lemma key_pattern_circshift:
  assumes "host_ok h" and "key_pattern h k c" and "n < 8"
  shows "key_pattern h (circshift_prepared_key h k n) (rotate n c)"
  using assms mem_of_circshift [of h n k] by (simp add: key_pattern_def rotate_double)

lemma xor_stream_rotate: "length c = 4 \<Longrightarrow> xor_stream (rotate n c) i bs = xor_stream c (i + n) bs"
  by (rule nth_equalityI) (simp_all add: nth_xor_stream nth_rotate mod_add_right_eq ac_simps)

lemma block_mod: "(8 * n + i) mod 4 = i mod (4 :: nat)"
  by presburger

lemma words_and_rest:
  assumes "key_pattern h k c" and "length bs div 8 = n"
  shows "mask_words h bs n k @ map (\<lambda>i. bs ! (8 * n + i) XOR c ! (i mod 4)) [0..<length bs - 8 * n] =
    xor_stream c 0 bs"
proof (rule nth_equalityI)
  have n: "8 * n \<le> length bs" using assms(2) by linarith
  show len: "length (mask_words h bs n k @ map (\<lambda>i. bs ! (8 * n + i) XOR c ! (i mod 4)) [0..<length bs - 8 * n]) =
    length (xor_stream c 0 bs)"
    using n by (simp add: length_mask_words)
  fix j assume "j < length (mask_words h bs n k @ map (\<lambda>i. bs ! (8 * n + i) XOR c ! (i mod 4)) [0..<length bs - 8 * n])"
  then have j: "j < length bs" using len by simp
  have "(j - 8 * n) mod 4 = j mod 4" if "8 * n \<le> j"
    using that block_mod [of n "j - 8 * n"] by simp
  moreover have "j mod 8 mod 4 = j mod 4" by (simp add: mod_mod_cancel)
  ultimately show "(mask_words h bs n k @ map (\<lambda>i. bs ! (8 * n + i) XOR c ! (i mod 4)) [0..<length bs - 8 * n]) ! j =
    xor_stream c 0 bs ! j"
    using j n key_pattern_nth [OF assms(1), of "j mod 8"]
    by (cases "j < 8 * n") (simp_all add: nth_append length_mask_words nth_mask_words nth_xor_stream not_less)
qed

lemma word_mask_exact_stream: "word_mask_exact h bs key = xor_stream (mem_of h 4 key) 0 bs"
proof -
  let ?n = "length bs div 8"
  have "map (\<lambda>i. bs ! i XOR mem_of h 4 key ! (i mod 4)) [?n * 8..<length bs] =
      map (\<lambda>i. bs ! (8 * ?n + i) XOR mem_of h 4 key ! (i mod 4)) [0..<length bs - 8 * ?n]"
  proof (rule nth_equalityI)
    fix i assume "i < length (map (\<lambda>i. bs ! i XOR mem_of h 4 key ! (i mod 4)) [?n * 8..<length bs])"
    moreover have "(8 * ?n + i) mod 4 = i mod 4" by (rule block_mod)
    ultimately show "map (\<lambda>i. bs ! i XOR mem_of h 4 key ! (i mod 4)) [?n * 8..<length bs] ! i =
      map (\<lambda>i. bs ! (8 * ?n + i) XOR mem_of h 4 key ! (i mod 4)) [0..<length bs - 8 * ?n] ! i"
      by (simp add: mult.commute)
  qed simp
  then show ?thesis
    using words_and_rest [OF key_pattern_prepared, of bs ?n h key] by (simp add: word_mask_exact_def)
qed

lemma word_mask_circ_stream:
  assumes "key_pattern h k c" and "host_ok h"
  shows "fst (word_mask_circ h bs k) = xor_stream c 0 bs"
    and "key_pattern h (snd (word_mask_circ h bs k)) (rotate (length bs) c)"
proof -
  let ?n = "length bs div 8"
  let ?l = "length bs - ?n * 8"
  have l: "?l < 8" "?l = length bs mod 8" by (simp_all add: minus_div_mult_eq_mod)
  have "8 * ?n \<le> length bs" by simp
  then have l3: "length bs - ?l = 8 * ?n" by linarith
  have "map (\<lambda>i. bs ! (length bs - ?l + i) XOR mem_of h 8 k ! i) [0..<?l] =
      map (\<lambda>i. bs ! (8 * ?n + i) XOR c ! (i mod 4)) [0..<length bs - 8 * ?n]"
    using l(1) by (auto simp: l3 key_pattern_nth [OF assms(1)] mult.commute)
  then show "fst (word_mask_circ h bs k) = xor_stream c 0 bs"
    using words_and_rest [OF assms(1), of bs ?n] by (simp only: word_mask_circ_def Let_def fst_conv)
  have "rotate ?l c = rotate (length bs) c"
    using assms(1) rotate_conv_mod [of ?l c] rotate_conv_mod [of "length bs" c]
    by (simp add: key_pattern_def l(2) mod_mod_cancel)
  then show "key_pattern h (snd (word_mask_circ h bs k)) (rotate (length bs) c)"
    using key_pattern_circshift [OF assms(2,1) l(1)] by (simp add: word_mask_circ_def Let_def)
qed

lemma byte_mask_circ_stream:
  assumes "key_pattern h k c" and "host_ok h"
  shows "fst (byte_mask_circ h bs k) = xor_stream c 0 bs"
    and "key_pattern h (snd (byte_mask_circ h bs k)) (rotate (length bs) c)"
proof -
  have "mem_of h 4 (ucast k :: u32) = c" using assms(1) mem_of_low [of h k c] by (simp add: key_pattern_def)
  then show "fst (byte_mask_circ h bs k) = xor_stream c 0 bs"
    by (simp add: byte_mask_circ_def xor_stream_def)
  have "rotate (length bs mod 4) c = rotate (length bs) c"
    using assms(1) rotate_conv_mod [of "length bs" c] by (simp add: key_pattern_def)
  moreover have "length bs mod 4 < 8" by (rule less_trans [of _ 4]) simp_all
  ultimately show "key_pattern h (snd (byte_mask_circ h bs k)) (rotate (length bs) c)"
    using key_pattern_circshift [OF assms(2,1), of "length bs mod 4"] by (simp add: byte_mask_circ_def)
qed

subsection \<open>Masking a stream of pieces\<close>

text \<open>The contract of a routine that masks a stream in pieces: it masks the piece with the
  pattern of the key it is given, and returns the key for the next piece.\<close>

primrec mask_pieces ::
    "(host \<Rightarrow> bytes \<Rightarrow> u64 \<Rightarrow> bytes \<times> u64) \<Rightarrow> host \<Rightarrow> bytes list \<Rightarrow> u64 \<Rightarrow> bytes" where
  "mask_pieces f h [] k = []"
| "mask_pieces f h (p # ps) k = (let (out, k') = f h p k in out @ mask_pieces f h ps k')"

locale stream_mask =
  fixes mask_piece :: "host \<Rightarrow> bytes \<Rightarrow> u64 \<Rightarrow> bytes \<times> u64"
  assumes masks: "host_ok h \<Longrightarrow> key_pattern h k c \<Longrightarrow> fst (mask_piece h bs k) = xor_stream c 0 bs"
    and next_key: "host_ok h \<Longrightarrow> key_pattern h k c \<Longrightarrow>
      key_pattern h (snd (mask_piece h bs k)) (rotate (length bs) c)"
begin

lemma pieces:
  assumes "host_ok h" and "key_pattern h k c"
  shows "mask_pieces mask_piece h ps k = xor_stream c 0 (concat ps)"
  using assms(2)
proof (induction ps arbitrary: k c)
  case (Cons p ps)
  let ?r = "mask_piece h p k"
  have "mask_pieces mask_piece h ps (snd ?r) = xor_stream (rotate (length p) c) 0 (concat ps)"
    using next_key [OF assms(1) Cons.prems] by (rule Cons.IH)
  also have "\<dots> = xor_stream c (length p) (concat ps)"
    using Cons.prems by (simp add: key_pattern_def xor_stream_rotate)
  finally show ?case
    using masks [OF assms(1) Cons.prems, of p] by (simp add: split_beta xor_stream_append)
qed (simp add: xor_stream_def)

text \<open>Masking two pieces is masking their concatenation, also for the key returned.\<close>

lemma two_pieces:
  assumes "host_ok h" and "key_pattern h k c"
  shows "fst (mask_piece h (as @ bs) k) = fst (mask_piece h as k) @ fst (mask_piece h bs (snd (mask_piece h as k)))"
proof -
  note n = next_key [OF assms, of as]
  have "length c = 4" using assms(2) by (simp add: key_pattern_def)
  then show ?thesis
    by (simp add: masks [OF assms] masks [OF assms(1) n] xor_stream_append xor_stream_rotate)
qed

end

interpretation byte_circ: stream_mask byte_mask_circ
  by unfold_locales (auto intro: byte_mask_circ_stream)

interpretation word_circ: stream_mask word_mask_circ
  by unfold_locales (auto intro: word_mask_circ_stream)

text \<open>Two keys with the same memory are the same word.\<close>

lemma key_from_pattern: "key_pattern h k c \<Longrightarrow> key_pattern h k' c \<Longrightarrow> k = k'"
  using of_mem_of [where 'a = 64, of 8 h k] of_mem_of [where 'a = 64, of 8 h k'] by (simp add: key_pattern_def)

lemma rotated_key:
  assumes "host_ok h" and "i < 8"
  shows "key_pattern h (circshift_prepared_key h (prepare_masking_key key) i) (rotate i (mem_of h 4 key))"
  by (rule key_pattern_circshift [OF assms(1) key_pattern_prepared assms(2)])

lemma circular_masks:
  fixes key :: u32 and bs :: bytes
  assumes "host_ok h" and "i < 8"
  defines "k \<equiv> circshift_prepared_key h (prepare_masking_key key) i"
    and "k2 \<equiv> circshift_prepared_key h (prepare_masking_key key) ((i + length bs) mod 8)"
  shows "byte_mask_circ h bs k = (byte_mask h bs key i, k2)" and "word_mask_circ h bs k = (byte_mask h bs key i, k2)"
proof -
  let ?c = "mem_of h 4 key"
  have c: "length ?c = 4" by simp
  note k = rotated_key [OF assms(1,2), of key, folded k_def]
  have "rotate ((i + length bs) mod 8) ?c = rotate (length bs) (rotate i ?c)"
    using rotate_conv_mod [of "(i + length bs) mod 8" ?c] rotate_conv_mod [of "i + length bs" ?c]
    by (simp add: rotate_rotate mod_mod_cancel add.commute)
  then have n: "key_pattern h k2 (rotate (length bs) (rotate i ?c))"
    using rotated_key [OF assms(1), of "(i + length bs) mod 8" key] by (simp add: k2_def)
  have m: "xor_stream (rotate i ?c) 0 bs = byte_mask h bs key i"
    using xor_stream_rotate [OF c, of i 0 bs] by (simp add: byte_mask_stream)
  show "byte_mask_circ h bs k = (byte_mask h bs key i, k2)"
    using byte_mask_circ_stream [OF k assms(1), of bs] n m by (auto simp: prod_eq_iff intro: key_from_pattern)
  show "word_mask_circ h bs k = (byte_mask h bs key i, k2)"
    using word_mask_circ_stream [OF k assms(1), of bs] n m by (auto simp: prod_eq_iff intro: key_from_pattern)
qed

text \<open>
  C28. The optimised masking routines are equivalent to the simple one, for every payload length and
  on every host. \<open>word_mask_exact\<close>, which handles eight bytes at a time with a key prepared as a
  machine word, gives the same bytes as \<open>byte_mask\<close>; masking twice with the same key gives back the
  payload. The circular routines, by words and by bytes, given the prepared key rotated by any number
  \<open>i\<close> of bytes, both give the bytes that \<open>byte_mask\<close> gives from position \<open>i\<close> of the key on, and both
  return the key rotated by the length of the payload as well.
\<close>

theorem word_mask_is_byte_mask:
  "word_mask_exact h bs key = byte_mask h bs key 0 \<and> byte_mask h (byte_mask h bs key i) key i = bs \<and>
   length (byte_mask h bs key i) = length bs \<and>
   (host_ok h \<and> i < 8 \<longrightarrow>
     (let k = circshift_prepared_key h (prepare_masking_key key) i;
          r = (byte_mask h bs key i, circshift_prepared_key h (prepare_masking_key key) ((i + length bs) mod 8))
      in word_mask_circ h bs k = r \<and> byte_mask_circ h bs k = r))"
  by (simp add: word_mask_exact_stream byte_mask_stream xor_stream_involution circular_masks)

theorem word_mask_is_byte_mask_witness:
  "word_mask_circ x86_host [1, 2, 3, 4, 5, 6, 7, 8, 9] (circshift_prepared_key x86_host (prepare_masking_key 0x01020304) 3) =
     (byte_mask x86_host [1, 2, 3, 4, 5, 6, 7, 8, 9] 0x01020304 3,
      circshift_prepared_key x86_host (prepare_masking_key 0x01020304) 4)"
  using word_mask_is_byte_mask [of x86_host "[1, 2, 3, 4, 5, 6, 7, 8, 9]" "0x01020304" 3] example_hosts(1)
  by (simp add: Let_def)

text \<open>
  C29. Masking in pieces: when a payload arrives in any number of pieces of any lengths and each
  piece is masked with the key that the previous call returned, the circular routines, the one
  by bytes and the one by words, both give what masking the whole payload at once gives.
\<close>

theorem circular_masking_in_pieces:
  assumes "host_ok h"
  shows "mask_pieces byte_mask_circ h ps (prepare_masking_key key) = byte_mask h (concat ps) key 0 \<and>
    mask_pieces word_mask_circ h ps (prepare_masking_key key) = byte_mask h (concat ps) key 0"
  using byte_circ.pieces [OF assms key_pattern_prepared] word_circ.pieces [OF assms key_pattern_prepared]
  by (simp add: byte_mask_stream)

theorem circular_masking_in_pieces_witness:
  "mask_pieces byte_mask_circ x86_host [[1, 2, 3], [], [4, 5, 6, 7, 8, 9]] (prepare_masking_key 0x01020304) =
     byte_mask x86_host [1, 2, 3, 4, 5, 6, 7, 8, 9] 0x01020304 0 \<and>
   byte_mask x86_host [1, 2, 3, 4, 5, 6, 7, 8, 9] 0x01020304 0 = [5, 1, 1, 5, 1, 5, 5, 9, 13]"
proof
  show "mask_pieces byte_mask_circ x86_host [[1, 2, 3], [], [4, 5, 6, 7, 8, 9]] (prepare_masking_key 0x01020304) =
     byte_mask x86_host [1, 2, 3, 4, 5, 6, 7, 8, 9] 0x01020304 0"
    using circular_masking_in_pieces [OF example_hosts(1), of "[[1, 2, 3], [], [4, 5, 6, 7, 8, 9]]" "0x01020304"]
    by simp
  show "byte_mask x86_host [1, 2, 3, 4, 5, 6, 7, 8, 9] 0x01020304 0 = [5, 1, 1, 5, 1, 5, 5, 9, 13]"
    by code_simp
qed

end
