(* ===== verification/Ws_Utf8.thy ===== *)
theory Ws_Utf8
  imports Prelude
begin

section \<open>The UTF-8 validator of the WebSocket library\<close>

text \<open>
  Model of \<open>websocketpp/utf8_validator.hpp\<close>: the table-driven automaton \<open>decode\<close>, the class
  \<open>validator\<close> (a record) with its operations, and \<open>validate\<close>.

  The reference definition is the encoding side of UTF-8: \<open>utf8_encode\<close> maps a Unicode scalar
  value to its one to four bytes. The lemmas show that the automaton accepts exactly the
  concatenations of such encodings, that it never reads outside its table, and that validating
  a string in pieces is the same as validating it at once, which the frame processor relies on.
\<close>

unbundle bit_operations_syntax

subsection \<open>The automaton\<close>

definition utf8_accept :: nat where
  "utf8_accept = 0"

definition utf8_reject :: nat where
  "utf8_reject = 1"

definition utf8d :: "nat list" where
  "utf8d = [
   0,0,0,0,0,0,0,0,0,0,0,0,0,0,0,0,0,0,0,0,0,0,0,0,0,0,0,0,0,0,0,0,
   0,0,0,0,0,0,0,0,0,0,0,0,0,0,0,0,0,0,0,0,0,0,0,0,0,0,0,0,0,0,0,0,
   0,0,0,0,0,0,0,0,0,0,0,0,0,0,0,0,0,0,0,0,0,0,0,0,0,0,0,0,0,0,0,0,
   0,0,0,0,0,0,0,0,0,0,0,0,0,0,0,0,0,0,0,0,0,0,0,0,0,0,0,0,0,0,0,0,
   1,1,1,1,1,1,1,1,1,1,1,1,1,1,1,1,9,9,9,9,9,9,9,9,9,9,9,9,9,9,9,9,
   7,7,7,7,7,7,7,7,7,7,7,7,7,7,7,7,7,7,7,7,7,7,7,7,7,7,7,7,7,7,7,7,
   8,8,2,2,2,2,2,2,2,2,2,2,2,2,2,2,2,2,2,2,2,2,2,2,2,2,2,2,2,2,2,2,
   0xa,0x3,0x3,0x3,0x3,0x3,0x3,0x3,0x3,0x3,0x3,0x3,0x3,0x4,0x3,0x3,
   0xb,0x6,0x6,0x6,0x5,0x8,0x8,0x8,0x8,0x8,0x8,0x8,0x8,0x8,0x8,0x8,
   0x0,0x1,0x2,0x3,0x5,0x8,0x7,0x1,0x1,0x1,0x4,0x6,0x1,0x1,0x1,0x1,
   1,1,1,1,1,1,1,1,1,1,1,1,1,1,1,1,1,0,1,1,1,1,1,0,1,0,1,1,1,1,1,1,
   1,2,1,1,1,1,1,2,1,2,1,1,1,1,1,1,1,1,1,1,1,1,1,2,1,1,1,1,1,1,1,1,
   1,2,1,1,1,1,1,1,1,2,1,1,1,1,1,1,1,1,1,1,1,1,1,3,1,3,1,1,1,1,1,1,
   1,3,1,1,1,1,1,3,1,3,1,1,1,1,1,1,1,3,1,1,1,1,1,1,1,1,1,1,1,1,1,1]"

definition utf8_type :: "u8 \<Rightarrow> nat" where
  "utf8_type byte = utf8d ! unat byte"

definition utf8_next :: "nat \<Rightarrow> u8 \<Rightarrow> nat" where
  "utf8_next state byte = utf8d ! (256 + state * 16 + utf8_type byte)"

definition utf8_codep :: "nat \<Rightarrow> u32 \<Rightarrow> u8 \<Rightarrow> u32" where
  "utf8_codep state codep byte =
     (if state \<noteq> utf8_accept then (ucast byte AND 0x3f) OR push_bit 6 codep
      else drop_bit (utf8_type byte) 0xff AND ucast byte)"

definition utf8_decode :: "nat \<Rightarrow> u32 \<Rightarrow> u8 \<Rightarrow> nat \<times> u32" where
  "utf8_decode state codep byte = (utf8_next state byte, utf8_codep state codep byte)"

subsection \<open>The class validator\<close>

record validator =
  v_state :: nat
  v_codepoint :: u32

definition validator_init :: validator where
  "validator_init = \<lparr>v_state = utf8_accept, v_codepoint = 0\<rparr>"

definition validator_consume :: "u8 \<Rightarrow> validator \<Rightarrow> bool \<times> validator" where
  "validator_consume byte v =
     (let (s, c) = utf8_decode (v_state v) (v_codepoint v) byte
      in (s \<noteq> utf8_reject, v\<lparr>v_state := s, v_codepoint := c\<rparr>))"

fun validator_decode :: "bytes \<Rightarrow> validator \<Rightarrow> bool \<times> validator" where
  "validator_decode [] v = (True, v)"
| "validator_decode (b # bs) v =
     (let (s, c) = utf8_decode (v_state v) (v_codepoint v) b;
          v = v\<lparr>v_state := s, v_codepoint := c\<rparr>
      in if s = utf8_reject then (False, v) else validator_decode bs v)"

definition validator_complete :: "validator \<Rightarrow> bool" where
  "validator_complete v \<longleftrightarrow> v_state v = utf8_accept"

definition validator_reset :: "validator \<Rightarrow> validator" where
  "validator_reset v = v\<lparr>v_state := utf8_accept, v_codepoint := 0\<rparr>"

definition validate :: "bytes \<Rightarrow> bool" where
  "validate s =
     (let (ok, v) = validator_decode s validator_init
      in if \<not> ok then False else validator_complete v)"

subsection \<open>The transitions of the automaton\<close>

text \<open>The transition of each state, as a function of the value of the byte.\<close>

fun utf8_row :: "nat \<Rightarrow> nat \<Rightarrow> nat" where
  "utf8_row s b =
     (if s = 0 then
        (if b < 0x80 then 0 else if b < 0xC2 then 1 else if b < 0xE0 then 2 else if b = 0xE0 then 4
         else if b = 0xED then 5 else if b < 0xF0 then 3 else if b = 0xF0 then 6
         else if b < 0xF4 then 7 else if b = 0xF4 then 8 else 1)
      else if s = 2 then (if 0x80 \<le> b \<and> b < 0xC0 then 0 else 1)
      else if s = 3 then (if 0x80 \<le> b \<and> b < 0xC0 then 2 else 1)
      else if s = 4 then (if 0xA0 \<le> b \<and> b < 0xC0 then 2 else 1)
      else if s = 5 then (if 0x80 \<le> b \<and> b < 0xA0 then 2 else 1)
      else if s = 6 then (if 0x90 \<le> b \<and> b < 0xC0 then 3 else 1)
      else if s = 7 then (if 0x80 \<le> b \<and> b < 0xC0 then 3 else 1)
      else if s = 8 then (if 0x80 \<le> b \<and> b < 0x90 then 3 else 1)
      else 1)"

declare utf8_row.simps [simp del]

definition utf8_class :: "nat \<Rightarrow> nat" where
  "utf8_class b =
     (if b < 0x80 then 0 else if b < 0x90 then 1 else if b < 0xA0 then 9 else if b < 0xC0 then 7
      else if b < 0xC2 then 8 else if b < 0xE0 then 2 else if b = 0xE0 then 10 else if b = 0xED then 4
      else if b < 0xF0 then 3 else if b = 0xF0 then 11 else if b < 0xF4 then 6 else if b = 0xF4 then 5
      else 8)"

lemma utf8d_classes: "map utf8_class [0..<256] = take 256 utf8d"
  by code_simp

text \<open>The same transitions as a function of the class of the byte.\<close>

definition utf8_trans :: "nat \<Rightarrow> nat \<Rightarrow> nat" where
  "utf8_trans s c =
     (if s = 0 then
        (if c = 0 then 0 else if c = 2 then 2 else if c = 3 then 3 else if c = 4 then 5
         else if c = 5 then 8 else if c = 6 then 7 else if c = 10 then 4 else if c = 11 then 6 else 1)
      else if s = 2 then (if c = 1 \<or> c = 7 \<or> c = 9 then 0 else 1)
      else if s = 3 then (if c = 1 \<or> c = 7 \<or> c = 9 then 2 else 1)
      else if s = 4 then (if c = 7 then 2 else 1)
      else if s = 5 then (if c = 1 \<or> c = 9 then 2 else 1)
      else if s = 6 then (if c = 7 \<or> c = 9 then 3 else 1)
      else if s = 7 then (if c = 1 \<or> c = 7 \<or> c = 9 then 3 else 1)
      else if s = 8 then (if c = 1 then 3 else 1)
      else 1)"

lemma utf8d_trans: "map (\<lambda>k. utf8_trans (k div 16) (k mod 16)) [0..<144] = drop 256 utf8d"
  by code_simp

lemma length_utf8d: "length utf8d = 400"
  by (simp add: utf8d_def)

lemma utf8_type_class: "utf8_type b = utf8_class (unat b)"
proof -
  have "unat b < 256" using unat_bounds(1) [of b] by simp
  then have "take 256 utf8d ! unat b = map utf8_class [0..<256] ! unat b" "unat b < 256"
    by (simp_all add: utf8d_classes)
  then show ?thesis by (simp add: utf8_type_def)
qed

lemma utf8_class_less: "utf8_class b < 12"
  by (simp add: utf8_class_def)

lemma utf8_next_row:
  assumes "s < 9"
  shows "utf8_next s b = utf8_row s (unat b)"
proof -
  let ?c = "utf8_class (unat b)"
  have k: "s * 16 + ?c < 144" "(s * 16 + ?c) div 16 = s" "(s * 16 + ?c) mod 16 = ?c"
    using assms utf8_class_less [of "unat b"] by auto
  have "utf8_next s b = drop 256 utf8d ! (s * 16 + ?c)"
    by (simp add: utf8_next_def utf8_type_class length_utf8d add.assoc)
  also have "\<dots> = utf8_trans s ?c"
    using k by (subst utf8d_trans [symmetric]) (simp del: mod_mult_self3 div_mult_self3)
  also have "\<dots> = utf8_row s (unat b)"
    using unat_bounds(1) [of b] by (simp add: utf8_trans_def utf8_row.simps utf8_class_def)
  finally show ?thesis .
qed

lemma utf8_row_less: "utf8_row s b < 9"
  by (simp add: utf8_row.simps)

lemma utf8_next_less: "s < 9 \<Longrightarrow> utf8_next s b < 9"
  by (simp add: utf8_next_row utf8_row_less)

subsection \<open>Running the automaton\<close>

definition utf8_run :: "bytes \<Rightarrow> nat \<Rightarrow> nat" where
  "utf8_run bs s = foldl utf8_next s bs"

lemma utf8_run_simps [simp]:
  "utf8_run [] s = s"
  "utf8_run (b # bs) s = utf8_run bs (utf8_next s b)"
  "utf8_run (as @ bs) s = utf8_run bs (utf8_run as s)"
  by (simp_all add: utf8_run_def)

lemma utf8_run_less: "s < 9 \<Longrightarrow> utf8_run bs s < 9"
  by (induction bs arbitrary: s) (simp_all add: utf8_next_less)

lemma utf8_run_reject [simp]: "utf8_run bs (Suc 0) = Suc 0"
  by (induction bs) (simp_all add: utf8_next_row utf8_row.simps)

definition validator_next :: "u8 \<Rightarrow> validator \<Rightarrow> validator" where
  "validator_next b v =
     v\<lparr>v_state := utf8_next (v_state v) b, v_codepoint := utf8_codep (v_state v) (v_codepoint v) b\<rparr>"

lemma validator_next_state [simp]: "v_state (validator_next b v) = utf8_next (v_state v) b"
  by (simp add: validator_next_def)

lemma validator_decode_Cons:
  "validator_decode (b # bs) v =
     (if utf8_next (v_state v) b = utf8_reject then (False, validator_next b v)
      else validator_decode bs (validator_next b v))"
  by (simp add: utf8_decode_def validator_next_def)

lemma validator_decode_run:
  assumes "v_state v < 9" and "v_state v \<noteq> utf8_reject"
  shows "fst (validator_decode bs v) \<longleftrightarrow> utf8_run bs (v_state v) \<noteq> utf8_reject"
    and "fst (validator_decode bs v) \<Longrightarrow> v_state (snd (validator_decode bs v)) = utf8_run bs (v_state v)"
  using assms
proof (induction bs arbitrary: v)
  case Nil
  { case 1 then show ?case by simp next case 2 then show ?case by simp }
next
  case (Cons b bs)
  { case (1 v)
    then show ?case
      using Cons.IH(1) [of "validator_next b v"] utf8_run_reject [of bs]
      unfolding validator_decode_Cons
      by (cases "utf8_next (v_state v) b = utf8_reject") (simp_all add: utf8_next_less utf8_reject_def)
  next
    case (2 v)
    then show ?case
      using Cons.IH(2) [of "validator_next b v"]
      unfolding validator_decode_Cons
      by (cases "utf8_next (v_state v) b = utf8_reject") (simp_all add: utf8_next_less) }
qed

text \<open>Validating in pieces: the second piece continues where the first one stopped.\<close>

lemma validator_decode_append:
  "validator_decode (as @ bs) v =
     (let (ok, v') = validator_decode as v in if ok then validator_decode bs v' else (False, v'))"
proof (induction as arbitrary: v)
  case (Cons a as)
  then show ?case unfolding append_Cons validator_decode_Cons by simp
qed simp

lemma validate_run: "validate s \<longleftrightarrow> utf8_run s utf8_accept = utf8_accept"
  using validator_decode_run [of validator_init s]
  by (auto simp: validate_def validator_init_def validator_complete_def utf8_accept_def utf8_reject_def
      split: prod.splits)

subsection \<open>The reference: encodings of Unicode scalar values\<close>

definition scalar_value :: "nat \<Rightarrow> bool" where
  "scalar_value c \<longleftrightarrow> c < 0xD800 \<or> 0xE000 \<le> c \<and> c \<le> 0x10FFFF"

definition utf8_encode :: "nat \<Rightarrow> bytes" where
  "utf8_encode c = map of_nat
     (if c < 0x80 then [c]
      else if c < 0x800 then [0xC0 + c div 0x40, 0x80 + c mod 0x40]
      else if c < 0x10000 then [0xE0 + c div 0x1000, 0x80 + c div 0x40 mod 0x40, 0x80 + c mod 0x40]
      else [0xF0 + c div 0x40000, 0x80 + c div 0x1000 mod 0x40, 0x80 + c div 0x40 mod 0x40, 0x80 + c mod 0x40])"

lemma unat_of_nat_u8: "n < 256 \<Longrightarrow> unat (of_nat n :: u8) = n"
  by (simp add: unat_of_nat)

text \<open>Continuation bytes.\<close>

definition tail_byte :: "nat \<Rightarrow> u8" where
  "tail_byte x = of_nat (0x80 + x)"

lemma unat_tail_byte: "x < 0x40 \<Longrightarrow> unat (tail_byte x) = 0x80 + x"
  unfolding tail_byte_def by (rule unat_of_nat_u8) simp

text \<open>Where a continuation byte leads: from the state, for payload bits in the range, to the state.\<close>

definition tail_rows :: "(nat \<times> nat \<times> nat \<times> nat) set" where
  "tail_rows = {(2, 0, 0x40, 0), (3, 0, 0x40, 2), (4, 0x20, 0x40, 2), (5, 0, 0x20, 2),
     (6, 0x10, 0x40, 3), (7, 0, 0x40, 3), (8, 0, 0x10, 3)}"

lemma tail_rows_cases:
  assumes "(s, lo, hi, t) \<in> tail_rows"
  obtains "s = 2" "lo = 0" "hi = 0x40" "t = 0" | "s = 3" "lo = 0" "hi = 0x40" "t = 2"
    | "s = 4" "lo = 0x20" "hi = 0x40" "t = 2" | "s = 5" "lo = 0" "hi = 0x20" "t = 2"
    | "s = 6" "lo = 0x10" "hi = 0x40" "t = 3" | "s = 7" "lo = 0" "hi = 0x40" "t = 3"
    | "s = 8" "lo = 0" "hi = 0x10" "t = 3"
  using assms unfolding tail_rows_def by auto

lemma tail_step:
  assumes "(s, lo, hi, t) \<in> tail_rows" and "lo \<le> x" and "x < hi"
  shows "utf8_next s (tail_byte x) = t"
  using assms unat_tail_byte [of x]
  by (elim tail_rows_cases) (simp_all add: utf8_next_row utf8_row.simps)

lemma tail_stepD:
  assumes "(s, lo, hi, t) \<in> tail_rows" and "utf8_run bs s = 0"
  obtains x r where "lo \<le> x" "x < hi" "bs = tail_byte x # r" "utf8_run r t = 0"
proof (cases bs)
  case (Cons b r)
  have b: "0x80 + lo \<le> unat b \<and> unat b < 0x80 + hi \<and> utf8_run r t = 0"
    using assms unfolding Cons
    by (elim tail_rows_cases) (simp_all add: utf8_next_row utf8_row.simps split: if_splits)
  moreover have "b = tail_byte (unat b - 0x80)"
    using b unfolding tail_byte_def by (simp flip: of_nat_diff)
  ultimately show thesis using that [of "unat b - 0x80" r] Cons by auto
qed (use assms in \<open>auto simp: tail_rows_def\<close>)

text \<open>Splitting a code point into groups of six bits, and joining them.\<close>

lemma six_bits_split:
  "c = c div 0x1000 * 0x1000 + c div 0x40 mod 0x40 * 0x40 + c mod (0x40 :: nat)"
  "c = c div 0x40000 * 0x40000 + c div 0x1000 mod 0x40 * 0x1000 + c mod (0x1000 :: nat)"
proof -
  have "c div 0x1000 = c div 0x40 div 0x40" "c div 0x40000 = c div 0x1000 div 0x40"
    by (simp_all flip: div_mult2_eq)
  then show "c = c div 0x1000 * 0x1000 + c div 0x40 mod 0x40 * 0x40 + c mod (0x40 :: nat)"
    "c = c div 0x40000 * 0x40000 + c div 0x1000 mod 0x40 * 0x1000 + c mod (0x1000 :: nat)"
    using div_mult_mod_eq [of c "0x40"] div_mult_mod_eq [of "c div 0x40" "0x40"]
      div_mult_mod_eq [of c "0x1000"] div_mult_mod_eq [of "c div 0x1000" "0x40"] by linarith+
qed

lemma six_bits_join:
  fixes d x y z :: nat
  assumes "x < 0x40" "y < 0x40" "z < 0x40"
  shows "(d * 0x1000 + x * 0x40 + y) div 0x1000 = d" "(d * 0x1000 + x * 0x40 + y) div 0x40 mod 0x40 = x"
    "(d * 0x1000 + x * 0x40 + y) mod 0x40 = y"
    "(d * 0x40000 + x * 0x1000 + y * 0x40 + z) div 0x40000 = d"
    "(d * 0x40000 + x * 0x1000 + y * 0x40 + z) div 0x1000 mod 0x40 = x"
    "(d * 0x40000 + x * 0x1000 + y * 0x40 + z) div 0x40 mod 0x40 = y"
    "(d * 0x40000 + x * 0x1000 + y * 0x40 + z) mod 0x40 = z"
proof -
  have three: "(e * 0x1000 + v * 0x40 + w) div 0x1000 = e" "(e * 0x1000 + v * 0x40 + w) div 0x40 = e * 0x40 + v"
    "(e * 0x1000 + v * 0x40 + w) mod 0x40 = w" if "v < 0x40" "w < 0x40" for e v w :: nat
  proof -
    have "v * 0x40 + w < 0x1000" using that by linarith
    then show "(e * 0x1000 + v * 0x40 + w) div 0x1000 = e"
      by (simp add: add.assoc)
    have "e * 0x1000 + v * 0x40 + w = (e * 0x40 + v) * 0x40 + w" by simp
    then show "(e * 0x1000 + v * 0x40 + w) div 0x40 = e * 0x40 + v" "(e * 0x1000 + v * 0x40 + w) mod 0x40 = w"
      using that(2) by (simp_all only: div_mult_self3 mod_mult_self3 div_less mod_less)
  qed
  have four: "d * 0x40000 + x * 0x1000 + y * 0x40 + z = (d * 0x40 + x) * 0x1000 + y * 0x40 + z" by simp
  show "(d * 0x1000 + x * 0x40 + y) div 0x1000 = d" "(d * 0x1000 + x * 0x40 + y) mod 0x40 = y"
    "(d * 0x1000 + x * 0x40 + y) div 0x40 mod 0x40 = x"
    using three [of x y d] assms by simp_all
  have "(d * 0x40000 + x * 0x1000 + y * 0x40 + z) div 0x40000 = (d * 0x40000 + x * 0x1000 + y * 0x40 + z) div 0x1000 div 0x40"
    by (simp flip: div_mult2_eq)
  then show "(d * 0x40000 + x * 0x1000 + y * 0x40 + z) div 0x40000 = d"
    "(d * 0x40000 + x * 0x1000 + y * 0x40 + z) div 0x1000 mod 0x40 = x"
    "(d * 0x40000 + x * 0x1000 + y * 0x40 + z) div 0x40 mod 0x40 = y"
    "(d * 0x40000 + x * 0x1000 + y * 0x40 + z) mod 0x40 = z"
    unfolding four using three [of y z "d * 0x40 + x"] three(3) [of x y d] assms by (simp_all add: mult.commute)
qed

lemma utf8_encode_tail:
  "c < 0x80 \<Longrightarrow> utf8_encode c = [of_nat c]"
  "0x80 \<le> c \<Longrightarrow> c < 0x800 \<Longrightarrow> utf8_encode c = [of_nat (0xC0 + c div 0x40), tail_byte (c mod 0x40)]"
  "0x800 \<le> c \<Longrightarrow> c < 0x10000 \<Longrightarrow> utf8_encode c =
     [of_nat (0xE0 + c div 0x1000), tail_byte (c div 0x40 mod 0x40), tail_byte (c mod 0x40)]"
  "0x10000 \<le> c \<Longrightarrow> utf8_encode c =
     [of_nat (0xF0 + c div 0x40000), tail_byte (c div 0x1000 mod 0x40), tail_byte (c div 0x40 mod 0x40),
      tail_byte (c mod 0x40)]"
  unfolding utf8_encode_def tail_byte_def by simp_all

lemma lead_step: "n < 256 \<Longrightarrow> utf8_next 0 (of_nat n) = utf8_row 0 n"
  using utf8_next_row [of 0 "of_nat n"] unat_of_nat_u8 [of n] by simp

lemmas tails =
  tail_step [of 2 0 "0x40" 0] tail_step [of 3 0 "0x40" 2] tail_step [of 4 "0x20" "0x40" 2]
  tail_step [of 5 0 "0x20" 2] tail_step [of 6 "0x10" "0x40" 3] tail_step [of 7 0 "0x40" 3]
  tail_step [of 8 0 "0x10" 3]

lemma encode_accepted:
  assumes "scalar_value c"
  shows "utf8_run (utf8_encode c) 0 = 0"
proof -
  consider "c < 0x80" | "0x80 \<le> c" "c < 0x800" | "0x800 \<le> c" "c < 0x10000" | "0x10000 \<le> c" by linarith
  then show ?thesis
  proof cases
    case 1
    then show ?thesis by (simp add: utf8_encode_tail lead_step utf8_row.simps)
  next
    case 2
    then have "2 \<le> c div 0x40" "c div 0x40 < 0x20" by auto
    then have "utf8_next 0 (of_nat (0xC0 + c div 0x40)) = 2"
      by (subst lead_step) (auto simp: utf8_row.simps)
    then show ?thesis using 2 by (simp add: utf8_encode_tail tails tail_rows_def del: of_nat_add)
  next
    case 3
    define d where "d = c div 0x1000"
    define e where "e = c div 0x40 mod 0x40"
    have d: "d < 16" "e < 0x40" using 3 by (auto simp: d_def e_def)
    have c: "c = d * 0x1000 + e * 0x40 + c mod 0x40" "c mod 0x40 < 0x40"
      unfolding d_def e_def by (rule six_bits_split) simp
    have r: "d = 0 \<Longrightarrow> 0x20 \<le> e" "d = 13 \<Longrightarrow> e < 0x20"
      using 3 assms c d unfolding scalar_value_def by linarith+
    have "utf8_next 0 (of_nat (0xE0 + d)) = (if d = 0 then 4 else if d = 13 then 5 else 3)"
      using d by (subst lead_step) (auto simp: utf8_row.simps)
    moreover have "utf8_next (if d = 0 then 4 else if d = 13 then 5 else 3) (tail_byte e) = 2"
      using d r by (simp add: tails tail_rows_def)
    ultimately show ?thesis
      using 3 by (simp add: utf8_encode_tail tails tail_rows_def d_def e_def del: of_nat_add)
  next
    case 4
    define d where "d = c div 0x40000"
    define e where "e = c div 0x1000 mod 0x40"
    have d: "d < 5" "e < 0x40" using 4 assms by (auto simp: d_def e_def scalar_value_def)
    have c: "c = d * 0x40000 + e * 0x1000 + c mod 0x1000" "c mod 0x1000 < 0x1000"
      unfolding d_def e_def by (rule six_bits_split) simp
    have r: "d = 0 \<Longrightarrow> 0x10 \<le> e" "d = 4 \<Longrightarrow> e < 0x10"
      using 4 assms c d unfolding scalar_value_def by linarith+
    have "utf8_next 0 (of_nat (0xF0 + d)) = (if d = 0 then 6 else if d = 4 then 8 else 7)"
      using d by (subst lead_step) (auto simp: utf8_row.simps)
    moreover have "utf8_next (if d = 0 then 6 else if d = 4 then 8 else 7) (tail_byte e) = 3"
      using d r by (simp add: tails tail_rows_def)
    ultimately show ?thesis
      using 4 by (simp add: utf8_encode_tail tails tail_rows_def d_def e_def del: of_nat_add)
  qed
qed

lemma accepted_head:
  assumes "utf8_run s 0 = 0" and "s \<noteq> []"
  obtains c r where "scalar_value c" "s = utf8_encode c @ r" "utf8_run r 0 = 0"
proof -
  obtain b t where s: "s = b # t" using assms(2) by (cases s) auto
  have b: "b = of_nat (unat b)" "unat b < 256" using unat_bounds(1) [of b] by simp_all
  have run: "utf8_run t (utf8_row 0 (unat b)) = 0"
    using assms(1) by (simp add: s utf8_next_row)
  consider "unat b < 0x80" | "0xC2 \<le> unat b" "unat b < 0xE0" | "0xE0 \<le> unat b" "unat b < 0xF0"
    | "0xF0 \<le> unat b" "unat b \<le> 0xF4"
    using run by (force simp: utf8_row.simps split: if_splits)
  then show thesis
  proof cases
    case 1
    then have "scalar_value (unat b)" "s = utf8_encode (unat b) @ t" "utf8_run t 0 = 0"
      using run b by (simp_all add: s scalar_value_def utf8_encode_tail utf8_row.simps)
    then show thesis by (rule that)
  next
    case 2
    then have "utf8_run t 2 = 0" using run by (simp add: utf8_row.simps)
    then obtain x r where x: "x < 0x40" "t = tail_byte x # r" "utf8_run r 0 = 0"
      by (rule tail_stepD [rotated]) (auto simp: tail_rows_def)
    let ?c = "(unat b - 0xC0) * 0x40 + x"
    have "?c div 0x40 = unat b - 0xC0" "?c mod 0x40 = x" using x(1) by simp_all
    moreover have "0x80 \<le> ?c" "?c < 0x800" using 2 x(1) by auto
    ultimately have "utf8_encode ?c = [b, tail_byte x]"
      using 2 by (simp add: utf8_encode_tail del: of_nat_add)
    then show thesis using that [of ?c r] x \<open>?c < 0x800\<close> by (simp add: s scalar_value_def)
  next
    case 3
    let ?s = "if unat b = 0xE0 then 4 else if unat b = 0xED then 5 else 3 :: nat"
    let ?lo = "if unat b = 0xE0 then 0x20 else 0 :: nat" and ?hi = "if unat b = 0xED then 0x20 else 0x40 :: nat"
    have "(?s, ?lo, ?hi, 2) \<in> tail_rows" by (simp add: tail_rows_def)
    moreover have "utf8_run t ?s = 0" using 3 run by (simp add: utf8_row.simps split: if_splits)
    ultimately obtain x u where x: "?lo \<le> x" "x < ?hi" "t = tail_byte x # u" "utf8_run u 2 = 0"
      by (rule tail_stepD)
    have x64: "x < 0x40" using x(2) by (simp split: if_splits)
    obtain y r where y: "y < 0x40" "u = tail_byte y # r" "utf8_run r 0 = 0"
      using x(4) by (rule tail_stepD [rotated]) (auto simp: tail_rows_def)
    let ?c = "(unat b - 0xE0) * 0x1000 + x * 0x40 + y"
    have "?c div 0x1000 = unat b - 0xE0" "?c div 0x40 mod 0x40 = x" "?c mod 0x40 = y"
      using six_bits_join(1-3) [of x y 0] x64 y(1) by simp_all
    moreover have "0x800 \<le> ?c" "?c < 0x10000" "scalar_value ?c"
      using 3 x(1,2) x64 y(1) by (auto simp: scalar_value_def split: if_splits)
    ultimately have "utf8_encode ?c = [b, tail_byte x, tail_byte y]"
      using 3 by (simp add: utf8_encode_tail del: of_nat_add)
    then show thesis using that [of ?c r] x y \<open>scalar_value ?c\<close> by (simp add: s)
  next
    case 4
    let ?s = "if unat b = 0xF0 then 6 else if unat b = 0xF4 then 8 else 7 :: nat"
    let ?lo = "if unat b = 0xF0 then 0x10 else 0 :: nat" and ?hi = "if unat b = 0xF4 then 0x10 else 0x40 :: nat"
    have "(?s, ?lo, ?hi, 3) \<in> tail_rows" by (simp add: tail_rows_def)
    moreover have "utf8_run t ?s = 0" using 4 run by (simp add: utf8_row.simps split: if_splits)
    ultimately obtain x u where x: "?lo \<le> x" "x < ?hi" "t = tail_byte x # u" "utf8_run u 3 = 0"
      by (rule tail_stepD)
    have x64: "x < 0x40" using x(2) by (simp split: if_splits)
    obtain y w where y: "y < 0x40" "u = tail_byte y # w" "utf8_run w 2 = 0"
      using x(4) by (rule tail_stepD [rotated]) (auto simp: tail_rows_def)
    obtain z r where z: "z < 0x40" "w = tail_byte z # r" "utf8_run r 0 = 0"
      using y(3) by (rule tail_stepD [rotated]) (auto simp: tail_rows_def)
    let ?c = "(unat b - 0xF0) * 0x40000 + x * 0x1000 + y * 0x40 + z"
    have "?c div 0x40000 = unat b - 0xF0" "?c div 0x1000 mod 0x40 = x" "?c div 0x40 mod 0x40 = y" "?c mod 0x40 = z"
      using six_bits_join(4-7) [of x y z] x64 y(1) z(1) by simp_all
    moreover have "0x10000 \<le> ?c" "scalar_value ?c"
      using 4 x(1,2) x64 y(1) z(1) by (auto simp: scalar_value_def split: if_splits)
    ultimately have "utf8_encode ?c = [b, tail_byte x, tail_byte y, tail_byte z]"
      using 4 by (simp add: utf8_encode_tail del: of_nat_add)
    then show thesis using that [of ?c r] x y z \<open>scalar_value ?c\<close> by (simp add: s)
  qed
qed


lemma run_encodings: "list_all scalar_value cps \<Longrightarrow> utf8_run (concat (map utf8_encode cps)) 0 = 0"
  by (induction cps) (simp_all add: encode_accepted)

lemma utf8_encode_nonempty: "utf8_encode c \<noteq> []"
  by (simp add: utf8_encode_def)

lemma accepted_encodings:
  assumes "utf8_run s 0 = 0"
  shows "\<exists>cps. list_all scalar_value cps \<and> s = concat (map utf8_encode cps)"
  using assms
proof (induction s rule: length_induct)
  case (1 s)
  show ?case
  proof (cases "s = []")
    case True
    then show ?thesis by (intro exI [of _ "[]"]) simp
  next
    case False
    obtain c r where c: "scalar_value c" "s = utf8_encode c @ r" "utf8_run r 0 = 0"
      using "1.prems" False by (rule accepted_head)
    then have "length r < length s" using utf8_encode_nonempty [of c] by simp
    then obtain cps where "list_all scalar_value cps" "r = concat (map utf8_encode cps)"
      using "1.IH" c(3) by blast
    then show ?thesis using c by (intro exI [of _ "c # cps"]) simp
  qed
qed

text \<open>
  C30. \<open>validate\<close> accepts exactly the well-formed UTF-8 strings: a string is accepted if and
  only if it is the concatenation of the encodings of Unicode scalar values. So overlong forms,
  surrogates, values above 10FFFF, stray continuation bytes and truncated sequences are rejected
  and nothing else is.
\<close>

theorem validate_exact:
  "validate s \<longleftrightarrow> (\<exists>cps. list_all scalar_value cps \<and> s = concat (map utf8_encode cps))"
  using run_encodings accepted_encodings by (auto simp: validate_run utf8_accept_def)

end
