(* ===== verification/Ws_Error.thy ===== *)
theory Ws_Error
  imports Prelude
begin

section \<open>Error codes of the WebSocket library\<close>

text \<open>
  The error enumerations of the library with their messages: \<open>websocketpp/error.hpp\<close> (prefix
  \<open>E_\<close>) and \<open>websocketpp/processors/base.hpp\<close> (prefix \<open>PE_\<close>), and those of
  \<open>websocketpp/extensions/extension.hpp\<close> (prefix \<open>XE_\<close>), and the errors of transports: \<open>transport/base/connection.hpp\<close>
  (\<open>TE_\<close>) and \<open>transport/asio/base.hpp\<close> (\<open>AE_\<close>). A \<open>lib::error_code\<close> is a value of one
  of the categories; \<open>None\<close> stands for the code without an error.
\<close>

datatype ws_error =
    E_general | E_send_queue_full | E_payload_violation | E_endpoint_not_secure
  | E_endpoint_unavailable | E_invalid_uri | E_no_outgoing_buffers | E_no_incoming_buffers
  | E_invalid_state | E_bad_close_code | E_reserved_close_code | E_invalid_close_code
  | E_invalid_utf8 | E_invalid_subprotocol | E_bad_connection | E_test | E_con_creation_failed
  | E_unrequested_subprotocol | E_client_only | E_server_only | E_http_connection_ended
  | E_open_handshake_timeout | E_close_handshake_timeout | E_invalid_port
  | E_async_accept_not_listening | E_operation_canceled | E_rejected | E_upgrade_required
  | E_invalid_version | E_unsupported_version | E_http_parse_error | E_extension_neg_failed

datatype processor_error =
    PE_general | PE_bad_request | PE_protocol_violation | PE_message_too_big | PE_invalid_payload
  | PE_invalid_arguments | PE_invalid_opcode | PE_control_too_big | PE_invalid_rsv_bit
  | PE_fragmented_control | PE_invalid_continuation | PE_masking_required | PE_masking_forbidden
  | PE_non_minimal_encoding | PE_requires_64bit | PE_invalid_utf8 | PE_not_implemented
  | PE_invalid_http_method | PE_invalid_http_version | PE_invalid_http_status
  | PE_missing_required_header | PE_sha1_library | PE_no_protocol_support | PE_reserved_close_code
  | PE_invalid_close_code | PE_reason_requires_code | PE_subprotocol_parse_error
  | PE_extension_parse_error | PE_extensions_disabled | PE_short_key3

datatype extension_error = XE_general | XE_disabled

datatype transport_error =
    TE_general | TE_pass_through | TE_invalid_num_bytes | TE_double_read | TE_operation_aborted
  | TE_operation_not_supported | TE_eof | TE_tls_short_read | TE_timeout | TE_action_after_shutdown | TE_tls_error

datatype asio_error =
    AE_general | AE_invalid_num_bytes | AE_pass_through | AE_proxy_failed | AE_proxy_invalid | AE_invalid_host_service

text \<open>The last constructor stands for the codes of categories outside of the library, with their messages.\<close>

datatype error_code =
    WsError ws_error | ProcessorError processor_error | ExtensionError extension_error
  | TransportError transport_error | AsioError asio_error | OtherError nat string

type_synonym ec = "error_code option"

primrec ws_message :: "ws_error \<Rightarrow> string" where
  "ws_message E_general = ''Generic error''"
| "ws_message E_send_queue_full = ''send queue full''"
| "ws_message E_payload_violation = ''payload violation''"
| "ws_message E_endpoint_not_secure = ''endpoint not secure''"
| "ws_message E_endpoint_unavailable = ''endpoint not available''"
| "ws_message E_invalid_uri = ''invalid uri''"
| "ws_message E_no_outgoing_buffers = ''no outgoing message buffers''"
| "ws_message E_no_incoming_buffers = ''no incoming message buffers''"
| "ws_message E_invalid_state = ''invalid state''"
| "ws_message E_bad_close_code = ''Unable to extract close code''"
| "ws_message E_reserved_close_code = ''Extracted close code is in a reserved range''"
| "ws_message E_invalid_close_code = ''Extracted close code is in an invalid range''"
| "ws_message E_invalid_utf8 = ''Invalid UTF-8''"
| "ws_message E_invalid_subprotocol = ''Invalid subprotocol''"
| "ws_message E_bad_connection = ''Bad Connection''"
| "ws_message E_test = ''Test Error''"
| "ws_message E_con_creation_failed = ''Connection creation attempt failed''"
| "ws_message E_unrequested_subprotocol = ''Selected subprotocol was not requested by the client''"
| "ws_message E_client_only = ''Feature not available on server endpoints''"
| "ws_message E_server_only = ''Feature not available on client endpoints''"
| "ws_message E_http_connection_ended = ''HTTP connection ended''"
| "ws_message E_open_handshake_timeout = ''The opening handshake timed out''"
| "ws_message E_close_handshake_timeout = ''The closing handshake timed out''"
| "ws_message E_invalid_port = ''Invalid URI port''"
| "ws_message E_async_accept_not_listening = ''Async Accept not listening''"
| "ws_message E_operation_canceled = ''Operation canceled''"
| "ws_message E_rejected = ''Connection rejected''"
| "ws_message E_upgrade_required = ''Upgrade required''"
| "ws_message E_invalid_version = ''Invalid version''"
| "ws_message E_unsupported_version = ''Unsupported version''"
| "ws_message E_http_parse_error = ''HTTP parse error''"
| "ws_message E_extension_neg_failed = ''Extension negotiation failed''"

primrec processor_message :: "processor_error \<Rightarrow> string" where
  "processor_message PE_general = ''Generic processor error''"
| "processor_message PE_bad_request = ''invalid user input''"
| "processor_message PE_protocol_violation = ''Generic protocol violation''"
| "processor_message PE_message_too_big = ''A message was too large''"
| "processor_message PE_invalid_payload = ''A payload contained invalid data''"
| "processor_message PE_invalid_arguments = ''invalid function arguments''"
| "processor_message PE_invalid_opcode = ''invalid opcode''"
| "processor_message PE_control_too_big = ''Control messages are limited to fewer than 125 characters''"
| "processor_message PE_invalid_rsv_bit = ''Invalid use of reserved bits''"
| "processor_message PE_fragmented_control = ''Control messages cannot be fragmented''"
| "processor_message PE_invalid_continuation = ''Invalid message continuation''"
| "processor_message PE_masking_required = ''Clients may not send unmasked frames''"
| "processor_message PE_masking_forbidden = ''Servers may not send masked frames''"
| "processor_message PE_non_minimal_encoding = ''Payload length was not minimally encoded''"
| "processor_message PE_requires_64bit = ''64 bit frames are not supported on 32 bit systems''"
| "processor_message PE_invalid_utf8 = ''Invalid UTF8 encoding''"
| "processor_message PE_not_implemented = ''Operation required not implemented functionality''"
| "processor_message PE_invalid_http_method = ''Invalid HTTP method.''"
| "processor_message PE_invalid_http_version = ''Invalid HTTP version.''"
| "processor_message PE_invalid_http_status = ''Invalid HTTP status.''"
| "processor_message PE_missing_required_header = ''A required HTTP header is missing''"
| "processor_message PE_sha1_library = ''SHA-1 library error''"
| "processor_message PE_no_protocol_support = ''The WebSocket protocol version in use does not support this feature''"
| "processor_message PE_reserved_close_code = ''Reserved close code used''"
| "processor_message PE_invalid_close_code = ''Invalid close code used''"
| "processor_message PE_reason_requires_code = ''Using a close reason requires a valid close code''"
| "processor_message PE_subprotocol_parse_error = ''Error parsing subprotocol header''"
| "processor_message PE_extension_parse_error = ''Error parsing extension header''"
| "processor_message PE_extensions_disabled = ''Extensions are disabled''"
| "processor_message PE_short_key3 = ''Short Hybi00 Key 3 read''"

primrec extension_message :: "extension_error \<Rightarrow> string" where
  "extension_message XE_general = ''Generic extension error''"
| "extension_message XE_disabled = ''Use of methods from disabled extension''"

primrec transport_message :: "transport_error \<Rightarrow> string" where
  "transport_message TE_general = ''Generic transport policy error''"
| "transport_message TE_pass_through = ''Underlying Transport Error''"
| "transport_message TE_invalid_num_bytes = ''async_read_at_least call requested more bytes than buffer can store''"
| "transport_message TE_double_read = ''Unknown''"
| "transport_message TE_operation_aborted = ''The operation was aborted''"
| "transport_message TE_operation_not_supported = ''The operation is not supported by this transport''"
| "transport_message TE_eof = ''End of File''"
| "transport_message TE_tls_short_read = ''TLS Short Read''"
| "transport_message TE_timeout = ''Timer Expired''"
| "transport_message TE_action_after_shutdown = ''A transport action was requested after shutdown''"
| "transport_message TE_tls_error = ''Generic TLS related error''"

primrec asio_message :: "asio_error \<Rightarrow> string" where
  "asio_message AE_general = ''Generic asio transport policy error''"
| "asio_message AE_invalid_num_bytes = ''async_read_at_least call requested more bytes than buffer can store''"
| "asio_message AE_pass_through = ''Underlying Transport Error''"
| "asio_message AE_proxy_failed = ''Proxy connection failed''"
| "asio_message AE_proxy_invalid = ''Invalid proxy URI''"
| "asio_message AE_invalid_host_service = ''Invalid host or service''"

fun error_message :: "error_code \<Rightarrow> string" where
  "error_message (WsError e) = ws_message e"
| "error_message (ProcessorError e) = processor_message e"
| "error_message (ExtensionError e) = extension_message e"
| "error_message (TransportError e) = transport_message e"
| "error_message (AsioError e) = asio_message e"
| "error_message (OtherError n msg) = msg"

end
