(* ===== verification/Ws_Close.thy ===== *)
theory Ws_Close
  imports Ws_Host Ws_Utf8 Ws_Error
begin

section \<open>Close codes\<close>

text \<open>
  Model of \<open>websocketpp/close.hpp\<close> (status codes, their classification, and reading the payload
  of a close frame) and of \<open>to_ws\<close> of \<open>processors/base.hpp\<close>, which chooses the close code to send
  after an error. Reasons are byte strings.
\<close>

subsection \<open>Status values\<close>

type_synonym status = u16

definition st_blank :: status where "st_blank = 0"
definition st_omit_handshake :: status where "st_omit_handshake = 1"
definition st_force_tcp_drop :: status where "st_force_tcp_drop = 2"
definition st_normal :: status where "st_normal = 1000"
definition st_going_away :: status where "st_going_away = 1001"
definition st_protocol_error :: status where "st_protocol_error = 1002"
definition st_unsupported_data :: status where "st_unsupported_data = 1003"
definition st_no_status :: status where "st_no_status = 1005"
definition st_abnormal_close :: status where "st_abnormal_close = 1006"
definition st_invalid_payload :: status where "st_invalid_payload = 1007"
definition st_policy_violation :: status where "st_policy_violation = 1008"
definition st_message_too_big :: status where "st_message_too_big = 1009"
definition st_extension_required :: status where "st_extension_required = 1010"
definition st_internal_endpoint_error :: status where "st_internal_endpoint_error = 1011"
definition st_service_restart :: status where "st_service_restart = 1012"
definition st_try_again_later :: status where "st_try_again_later = 1013"
definition st_tls_handshake :: status where "st_tls_handshake = 1015"
definition st_subprotocol_error :: status where "st_subprotocol_error = 3000"
definition st_invalid_subprotocol_data :: status where "st_invalid_subprotocol_data = 3001"
definition st_rsv_start :: status where "st_rsv_start = 1016"
definition st_rsv_end :: status where "st_rsv_end = 2999"
definition st_invalid_low :: status where "st_invalid_low = 999"
definition st_invalid_high :: status where "st_invalid_high = 5000"

lemmas status_defs =
  st_blank_def st_omit_handshake_def st_force_tcp_drop_def st_normal_def st_going_away_def
  st_protocol_error_def st_unsupported_data_def st_no_status_def st_abnormal_close_def
  st_invalid_payload_def st_policy_violation_def st_message_too_big_def st_extension_required_def
  st_internal_endpoint_error_def st_service_restart_def st_try_again_later_def st_tls_handshake_def
  st_subprotocol_error_def st_invalid_subprotocol_data_def st_rsv_start_def st_rsv_end_def
  st_invalid_low_def st_invalid_high_def

definition status_reserved :: "status \<Rightarrow> bool" where
  "status_reserved code \<longleftrightarrow> code \<ge> st_rsv_start \<and> code \<le> st_rsv_end \<or> code = 1004 \<or> code = 1014"

definition status_invalid :: "status \<Rightarrow> bool" where
  "status_invalid code \<longleftrightarrow> code \<le> st_invalid_low \<or> code \<ge> st_invalid_high \<or>
     code = st_no_status \<or> code = st_abnormal_close \<or> code = st_tls_handshake"

definition status_terminal :: "status \<Rightarrow> bool" where
  "status_terminal code \<longleftrightarrow> code = st_protocol_error \<or> code = st_invalid_payload \<or>
     code = st_policy_violation \<or> code = st_message_too_big \<or> code = st_internal_endpoint_error"

definition status_get_string :: "status \<Rightarrow> string" where
  "status_get_string code =
     (if code = st_normal then ''Normal close''
      else if code = st_going_away then ''Going away''
      else if code = st_protocol_error then ''Protocol error''
      else if code = st_unsupported_data then ''Unsupported data''
      else if code = st_no_status then ''No status set''
      else if code = st_abnormal_close then ''Abnormal close''
      else if code = st_invalid_payload then ''Invalid payload''
      else if code = st_policy_violation then ''Policy violoation''
      else if code = st_message_too_big then ''Message too big''
      else if code = st_extension_required then ''Extension required''
      else if code = st_internal_endpoint_error then ''Internal endpoint error''
      else if code = st_tls_handshake then ''TLS handshake failure''
      else if code = st_subprotocol_error then ''Generic subprotocol error''
      else if code = st_invalid_subprotocol_data then ''Invalid subprotocol data''
      else ''Unknown'')"

subsection \<open>The payload of a close frame\<close>

definition extract_code :: "host \<Rightarrow> bytes \<Rightarrow> status \<times> ec" where
  "extract_code h payload =
     (if length payload = 0 then (st_no_status, None)
      else if length payload = 1 then (st_protocol_error, Some (WsError E_bad_close_code))
      else
        let code = ntohs h (of_mem h [payload ! 0, payload ! 1]);
            ec = None;
            ec = (if status_invalid code then Some (WsError E_invalid_close_code) else ec);
            ec = (if status_reserved code then Some (WsError E_reserved_close_code) else ec)
        in (code, ec))"

definition extract_reason :: "bytes \<Rightarrow> bytes \<times> ec" where
  "extract_reason payload =
     (let reason = (if length payload > 2 then drop 2 payload else [])
      in (reason, if \<not> validate reason then Some (WsError E_invalid_utf8) else None))"

subsection \<open>The close code for an error\<close>

definition to_ws :: "error_code \<Rightarrow> status" where
  "to_ws ec =
     (case ec of
        ProcessorError e \<Rightarrow>
          (if e \<in> {PE_protocol_violation, PE_control_too_big, PE_invalid_opcode, PE_invalid_rsv_bit,
               PE_fragmented_control, PE_invalid_continuation, PE_masking_required, PE_masking_forbidden,
               PE_reserved_close_code, PE_invalid_close_code} then st_protocol_error
           else if e \<in> {PE_invalid_payload, PE_invalid_utf8} then st_invalid_payload
           else if e = PE_message_too_big then st_message_too_big
           else st_internal_endpoint_error)
      | _ \<Rightarrow> st_blank)"

subsection \<open>Classification\<close>

text \<open>The codes that may appear on the wire.\<close>

definition wire_code :: "status \<Rightarrow> bool" where
  "wire_code code \<longleftrightarrow> 1000 \<le> unat code \<and> unat code \<le> 1003 \<or> 1007 \<le> unat code \<and> unat code \<le> 1013 \<or>
     3000 \<le> unat code \<and> unat code < 5000"

lemma wire_code_iff: "\<not> status_invalid code \<and> \<not> status_reserved code \<longleftrightarrow> wire_code code"
proof -
  have eq: "code = numeral n \<longleftrightarrow> unat code = numeral n" if "unat (numeral n :: status) = numeral n" for n
    using that by (simp add: word_unat_eq_iff)
  show ?thesis
    unfolding status_invalid_def status_reserved_def wire_code_def status_defs word_le_nat_alt
    by (auto simp: eq)
qed

lemma to_ws_wire: "ec = ProcessorError e \<Longrightarrow> wire_code (to_ws ec) \<and> status_terminal (to_ws ec)"
  by (simp add: to_ws_def wire_code_def status_terminal_def status_defs)

lemma extract_code_payload:
  assumes "wire_code code"
  shows "extract_code h (be_bytes 2 code @ reason) = (code, None)"
proof -
  obtain a b where ab: "be_bytes 2 code = [a, b]"
    by (simp add: be_bytes_def numeral_2_eq_2)
  have "ntohs h (of_mem h [a, b]) = code"
    using be_value_bytes [where 'a = 16, of 2 code] by (simp add: ntohs_of_mem ab)
  then show ?thesis
    using assms wire_code_iff [of code] by (simp add: extract_code_def ab)
qed

lemma extract_reason_payload:
  "length hd2 = 2 \<Longrightarrow> validate reason \<Longrightarrow> extract_reason (hd2 @ reason) = (reason, None)"
  by (cases reason) (simp_all add: extract_reason_def)

end
