(* ===== verification/Ws_Hybi13.thy ===== *)
theory Ws_Hybi13
  imports Ws_Masking Ws_Close
begin

section \<open>The frame processor of RFC 6455\<close>

text \<open>
  Model of the framing half of \<open>websocketpp/processors/hybi13.hpp\<close>: the incoming state machine
  (\<open>consume\<close> and what it calls, \<open>get_message\<close>) and the outgoing frames (\<open>prepare_data_frame\<close>,
  \<open>prepare_ping\<close>, \<open>prepare_pong\<close>, \<open>prepare_close\<close>), with the messages of
  \<open>message_buffer/message.hpp\<close> and the extension stub \<open>permessage_deflate/disabled.hpp\<close> that the
  client configuration selects.

  The state of a processor is the record \<open>hybi13\<close>. \<open>m_current_msg\<close>, a pointer to one of the two
  metadata members, is a tag. \<open>m_bytes_needed\<close> keeps its 64 bits, because the sum in the check of
  the message size can wrap around. Random masking keys are arguments. A member call through a
  null message pointer is the fault of the result type \<open>res\<close>.
\<close>

unbundle bit_operations_syntax

subsection \<open>Messages\<close>

record message =
  m_header :: bytes
  m_extension_data :: bytes
  m_payload :: bytes
  m_opcode :: opcode
  m_prepared :: bool
  m_fin :: bool
  m_terminal :: bool
  m_compressed :: bool

text \<open>\<open>con_msg_manager::get_message(op, size)\<close> makes a new message; \<open>size\<close> only reserves memory. Here and
  at \<open>out.reserve\<close> in \<open>start_payload\<close> memory is assumed to be available: that a reservation throws (\<open>std::bad_alloc\<close>, or
  \<open>std::length_error\<close> for a size beyond \<open>max_size()\<close>, which a \<open>max_message_size\<close> of the default 32 MB excludes) is
  outside of the model.\<close>

definition message_new :: "opcode \<Rightarrow> message" where
  "message_new op = \<lparr>m_header = [], m_extension_data = [], m_payload = [], m_opcode = op,
     m_prepared = False, m_fin = True, m_terminal = False, m_compressed = False\<rparr>"

subsection \<open>The disabled compression extension\<close>

definition pmd_is_enabled :: bool where
  "pmd_is_enabled = False"

definition pmd_compress :: "bytes \<Rightarrow> bytes \<Rightarrow> ec \<times> bytes" where
  "pmd_compress i out = (Some (ExtensionError XE_disabled), out)"

definition pmd_decompress :: "bytes \<Rightarrow> bytes \<Rightarrow> ec \<times> bytes" where
  "pmd_decompress buf out = (Some (ExtensionError XE_disabled), out)"

subsection \<open>The state of the processor\<close>

datatype pstate = HEADER_BASIC | HEADER_EXTENDED | EXTENSION | APPLICATION | READY | FATAL_ERROR

record msg_metadata =
  md_msg :: "message option"
  md_key :: u64
  md_validator :: validator

definition msg_metadata_make :: "message \<Rightarrow> u32 \<Rightarrow> msg_metadata" where
  "msg_metadata_make m key =
     \<lparr>md_msg = Some m, md_key = prepare_masking_key key, md_validator = validator_init\<rparr>"

datatype current = DataMsg | ControlMsg

record hybi13 =
  p_server :: bool
  p_max_message_size :: u64
  p_basic_header :: basic_header
  p_bytes_needed :: u64
  p_cursor :: nat
  p_data_msg :: msg_metadata
  p_control_msg :: msg_metadata
  p_current_msg :: current
  p_extended_header :: extended_header
  p_state :: pstate

definition current_msg :: "hybi13 \<Rightarrow> msg_metadata" where
  "current_msg st = (case p_current_msg st of DataMsg \<Rightarrow> p_data_msg st | ControlMsg \<Rightarrow> p_control_msg st)"

definition set_current_msg :: "msg_metadata \<Rightarrow> hybi13 \<Rightarrow> hybi13" where
  "set_current_msg md st =
     (case p_current_msg st of
        DataMsg \<Rightarrow> st\<lparr>p_data_msg := md\<rparr>
      | ControlMsg \<Rightarrow> st\<lparr>p_control_msg := md\<rparr>)"

definition reset_headers :: "hybi13 \<Rightarrow> hybi13" where
  "reset_headers st =
     st\<lparr>p_state := HEADER_BASIC, p_bytes_needed := of_nat BASIC_HEADER_LENGTH,
        p_basic_header := \<lparr>b0 = 0x00, b1 = 0x00\<rparr>,
        p_extended_header := replicate MAX_EXTENDED_HEADER_LENGTH 0x00\<rparr>"

text \<open>The constructor. The members it leaves uninitialised are arguments.\<close>

definition hybi13_init :: "bool \<Rightarrow> u64 \<Rightarrow> nat \<Rightarrow> current \<Rightarrow> u64 \<Rightarrow> u64 \<Rightarrow> hybi13" where
  "hybi13_init server max_message_size cursor current key1 key2 =
     reset_headers
       \<lparr>p_server = server, p_max_message_size = max_message_size, p_basic_header = basic_header_zero,
        p_bytes_needed = 0, p_cursor = cursor,
        p_data_msg = \<lparr>md_msg = None, md_key = key1, md_validator = validator_init\<rparr>,
        p_control_msg = \<lparr>md_msg = None, md_key = key2, md_validator = validator_init\<rparr>,
        p_current_msg = current, p_extended_header = extended_header_zero, p_state = HEADER_BASIC\<rparr>"

subsection \<open>Reading headers\<close>

definition copy_basic_header_bytes :: "bytes \<Rightarrow> hybi13 \<Rightarrow> nat \<times> hybi13" where
  "copy_basic_header_bytes buf st =
     (if length buf = 0 \<or> p_bytes_needed st = 0 then (0, st)
      else if length buf > 1 then
        (if p_bytes_needed st = 2
         then (2, st\<lparr>p_basic_header := \<lparr>b0 = buf ! 0, b1 = buf ! 1\<rparr>, p_bytes_needed := p_bytes_needed st - 2\<rparr>)
         else (1, st\<lparr>p_basic_header := (p_basic_header st)\<lparr>b1 := buf ! 0\<rparr>, p_bytes_needed := p_bytes_needed st - 1\<rparr>))
      else
        (if p_bytes_needed st = 2
         then (1, st\<lparr>p_basic_header := (p_basic_header st)\<lparr>b0 := buf ! 0\<rparr>, p_bytes_needed := p_bytes_needed st - 1\<rparr>)
         else (1, st\<lparr>p_basic_header := (p_basic_header st)\<lparr>b1 := buf ! 0\<rparr>, p_bytes_needed := p_bytes_needed st - 1\<rparr>)))"

definition copy_extended_header_bytes :: "bytes \<Rightarrow> hybi13 \<Rightarrow> nat \<times> hybi13" where
  "copy_extended_header_bytes buf st =
     (let bytes_to_read = min (unat (p_bytes_needed st)) (length buf)
      in (bytes_to_read,
          st\<lparr>p_extended_header := copy_to (p_cursor st) (take bytes_to_read buf) (p_extended_header st),
             p_cursor := p_cursor st + bytes_to_read,
             p_bytes_needed := p_bytes_needed st - of_nat bytes_to_read\<rparr>))"

definition validate_incoming_basic_header :: "basic_header \<Rightarrow> bool \<Rightarrow> bool \<Rightarrow> processor_error option" where
  "validate_incoming_basic_header h is_server new_msg =
     (let op = get_opcode h
      in if is_control op \<and> get_basic_size h > payload_size_basic then Some PE_control_too_big
         else if get_rsv1 h \<and> (\<not> pmd_is_enabled \<or> is_control op) then Some PE_invalid_rsv_bit
         else if get_rsv2 h \<or> get_rsv3 h then Some PE_invalid_rsv_bit
         else if opcode_reserved op then Some PE_invalid_opcode
         else if opcode_invalid op then Some PE_invalid_opcode
         else if is_control op \<and> \<not> get_fin h then Some PE_fragmented_control
         else if new_msg \<and> op = Continuation then Some PE_invalid_continuation
         else if \<not> new_msg \<and> \<not> is_control op \<and> op \<noteq> Continuation then Some PE_invalid_continuation
         else if is_server \<and> \<not> get_masked h then Some PE_masking_required
         else if \<not> is_server \<and> get_masked h then Some PE_masking_forbidden
         else None)"

text \<open>\<open>sizeof(size_t)\<close> is 8, so the last check of the source never applies.\<close>

definition validate_incoming_extended_header ::
    "host \<Rightarrow> basic_header \<Rightarrow> extended_header \<Rightarrow> processor_error option" where
  "validate_incoming_extended_header ho h e =
     (let basic_size = get_basic_size h;
          payload_size = get_payload_size ho h e
      in if basic_size = payload_size_code_16bit \<and> payload_size \<le> ucast payload_size_basic
         then Some PE_non_minimal_encoding
         else if basic_size = payload_size_code_64bit \<and> payload_size \<le> ucast payload_size_extended
         then Some PE_non_minimal_encoding
         else None)"

subsection \<open>Payload\<close>

definition process_payload_bytes :: "host \<Rightarrow> bytes \<Rightarrow> hybi13 \<Rightarrow> (nat \<times> ec \<times> hybi13) res" where
  "process_payload_bytes h buf st =
     (let md = current_msg st;
          (buf, md) =
            (if get_masked (p_basic_header st)
             then let (out, k) = byte_mask_circ h buf (md_key md) in (out, md\<lparr>md_key := k\<rparr>)
             else (buf, md))
      in and_then (deref ''msg_ptr'' (md_msg md))
         (\<lambda>msg.
            let out = m_payload msg;
                offset = length out;
                (ec, out) =
                  (if pmd_is_enabled \<and> m_compressed msg then pmd_decompress buf out
                   else (None, out @ buf));
                msg = msg\<lparr>m_payload := out\<rparr>;
                md = md\<lparr>md_msg := Some msg\<rparr>
            in if ec \<noteq> None then Inr (0, ec, set_current_msg md st)
               else if m_opcode msg = Text then
                 (let (ok, v) = validator_decode (drop offset out) (md_validator md);
                      md = md\<lparr>md_validator := v\<rparr>
                  in if \<not> ok then Inr (0, Some (ProcessorError PE_invalid_utf8), set_current_msg md st)
                     else Inr (length buf, None,
                       (set_current_msg md st)\<lparr>p_bytes_needed := p_bytes_needed st - of_nat (length buf)\<rparr>))
               else Inr (length buf, None,
                 (set_current_msg md st)\<lparr>p_bytes_needed := p_bytes_needed st - of_nat (length buf)\<rparr>)))"

definition finalize_message :: "hybi13 \<Rightarrow> (ec \<times> hybi13) res" where
  "finalize_message st =
     (let md = current_msg st
      in and_then (deref ''msg_ptr'' (md_msg md))
         (\<lambda>msg.
            let (ec, out) =
                  (if pmd_is_enabled \<and> m_compressed msg then pmd_decompress [0x00, 0x00, 0xff, 0xff] (m_payload msg)
                   else (None, m_payload msg));
                st = set_current_msg (md\<lparr>md_msg := Some (msg\<lparr>m_payload := out\<rparr>)\<rparr>) st
            in if ec \<noteq> None then Inr (ec, st)
               else if get_opcode (p_basic_header st) = Text \<and> \<not> validator_complete (md_validator md)
               then Inr (Some (ProcessorError PE_invalid_utf8), st)
               else Inr (None, st\<lparr>p_state := READY\<rparr>)))"

subsection \<open>The state machine\<close>

text \<open>One pass of the loop of \<open>consume\<close>: go on with the number of bytes used, or leave the loop.\<close>

datatype step =
    Go_on hybi13 nat          \<comment> \<open>next pass, after so many more bytes\<close>
  | Break hybi13 nat ec       \<comment> \<open>\<open>break\<close>, after so many more bytes\<close>
  | Return0 hybi13 ec         \<comment> \<open>\<open>return 0\<close>\<close>

definition start_payload :: "host \<Rightarrow> nat \<Rightarrow> hybi13 \<Rightarrow> step" where
  "start_payload h n st =
     (let st = st\<lparr>p_state := APPLICATION,
                  p_bytes_needed := get_payload_size h (p_basic_header st) (p_extended_header st)\<rparr>;
          op = get_opcode (p_basic_header st);
          key = get_masking_key h (p_basic_header st) (p_extended_header st)
      in if is_control op
         then Go_on (st\<lparr>p_control_msg := msg_metadata_make (message_new op) key, p_current_msg := ControlMsg\<rparr>) n
         else
           case md_msg (p_data_msg st) of
             None \<Rightarrow>
               (if p_bytes_needed st > p_max_message_size st
                then Break st n (Some (ProcessorError PE_message_too_big))
                else
                  let msg = message_new op;
                      msg = (if pmd_is_enabled then msg\<lparr>m_compressed := get_rsv1 (p_basic_header st)\<rparr> else msg)
                  in Go_on (st\<lparr>p_data_msg := msg_metadata_make msg key, p_current_msg := DataMsg\<rparr>) n)
           | Some msg \<Rightarrow>
               (if of_nat (length (m_payload msg)) + p_bytes_needed st > p_max_message_size st
                then Break st n (Some (ProcessorError PE_message_too_big))
                else Go_on (st\<lparr>p_data_msg := (p_data_msg st)\<lparr>md_key := prepare_masking_key key\<rparr>,
                               p_current_msg := DataMsg\<rparr>) n))"

definition end_frame :: "nat \<Rightarrow> hybi13 \<Rightarrow> step res" where
  "end_frame n st =
     (if p_bytes_needed st > 0 then Inr (Go_on st n)
      else if get_fin (p_basic_header st)
      then and_then (finalize_message st)
             (\<lambda>(ec, st). if ec \<noteq> None then Inr (Break st n ec) else Inr (Go_on st n))
      else Inr (Go_on (reset_headers st) n))"

definition consume_step :: "host \<Rightarrow> bytes \<Rightarrow> hybi13 \<Rightarrow> step res" where
  "consume_step h buf st =
     (case p_state st of
        HEADER_BASIC \<Rightarrow>
          (let (n, st) = copy_basic_header_bytes buf st
           in if p_bytes_needed st > 0 then Inr (Go_on st n)
              else
                case validate_incoming_basic_header (p_basic_header st) (p_server st)
                       (md_msg (p_data_msg st) = None) of
                  Some e \<Rightarrow> Inr (Break st n (Some (ProcessorError e)))
                | None \<Rightarrow>
                    Inr (Go_on (st\<lparr>p_state := HEADER_EXTENDED, p_cursor := 0,
                      p_bytes_needed := of_nat (get_header_len (p_basic_header st) - BASIC_HEADER_LENGTH)\<rparr>) n))
      | HEADER_EXTENDED \<Rightarrow>
          (let (n, st) = copy_extended_header_bytes buf st
           in if p_bytes_needed st > 0 then Inr (Go_on st n)
              else
                case validate_incoming_extended_header h (p_basic_header st) (p_extended_header st) of
                  Some e \<Rightarrow> Inr (Break st n (Some (ProcessorError e)))
                | None \<Rightarrow> Inr (start_payload h n st))
      | EXTENSION \<Rightarrow> Inr (Go_on (st\<lparr>p_state := APPLICATION\<rparr>) 0)
      | APPLICATION \<Rightarrow>
          (let bytes_to_process = min (unat (p_bytes_needed st)) (length buf)
           in if bytes_to_process > 0
              then and_then (process_payload_bytes h (take bytes_to_process buf) st)
                     (\<lambda>(n, ec, st). if ec \<noteq> None then Inr (Break st n ec) else end_frame n st)
              else end_frame 0 st)
      | _ \<Rightarrow> Inr (Return0 st (Some (ProcessorError PE_general))))"

text \<open>The condition of the loop.\<close>

definition consume_guard :: "bytes \<Rightarrow> hybi13 \<Rightarrow> bool" where
  "consume_guard buf st \<longleftrightarrow>
     p_state st \<noteq> READY \<and> p_state st \<noteq> FATAL_ERROR \<and> (0 < length buf \<or> p_bytes_needed st = 0)"

text \<open>Every pass uses bytes or gets closer to the end of a frame.\<close>

definition step_rank :: "hybi13 \<Rightarrow> nat" where
  "step_rank st =
     (case p_state st of
        HEADER_BASIC \<Rightarrow> (if p_bytes_needed st = 0 then 4 else 1)
      | HEADER_EXTENDED \<Rightarrow> 3
      | EXTENSION \<Rightarrow> 3
      | APPLICATION \<Rightarrow> 2
      | _ \<Rightarrow> 0)"

lemma pos_u64: "0 < (w :: u64) \<longleftrightarrow> w \<noteq> 0" "0 < unat w \<longleftrightarrow> w \<noteq> 0"
  by (simp_all add: word_neq_0_conv unat_gt_0)

lemma set_current_msg_fields [simp]:
  "p_state (set_current_msg md st) = p_state st"
  "p_bytes_needed (set_current_msg md st) = p_bytes_needed st"
  "p_basic_header (set_current_msg md st) = p_basic_header st"
  "p_extended_header (set_current_msg md st) = p_extended_header st"
  "p_server (set_current_msg md st) = p_server st"
  "p_max_message_size (set_current_msg md st) = p_max_message_size st"
  "p_cursor (set_current_msg md st) = p_cursor st"
  "p_current_msg (set_current_msg md st) = p_current_msg st"
  "current_msg (set_current_msg md st) = md"
  by (simp_all add: set_current_msg_def current_msg_def split: current.split)

lemma end_frame_rank:
  assumes "end_frame n st = Inr (Go_on st' k)" and "p_state st = APPLICATION"
  shows "k = n \<and> (p_bytes_needed st = 0 \<longrightarrow> step_rank st' < 2)"
  using assms
  by (auto simp: end_frame_def finalize_message_def pos_u64 step_rank_def reset_headers_def frame_consts
      and_then_eq_Inr Let_def split: if_splits prod.splits)

lemma process_payload_count:
  "process_payload_bytes h buf st = Inr (n, ec, st') \<Longrightarrow>
     p_state st' = p_state st \<and> (ec = None \<longrightarrow> n = length buf)"
  by (auto simp: process_payload_bytes_def and_then_eq_Inr Let_def byte_mask_circ_def split: if_splits prod.splits)

lemma start_payload_rank: "start_payload h n st = Go_on st' k \<Longrightarrow> k = n \<and> step_rank st' = 2"
  by (auto simp: start_payload_def step_rank_def Let_def split: if_splits option.splits)

lemma copy_basic_count:
  "copy_basic_header_bytes buf st = (n, st') \<Longrightarrow>
     n \<le> length buf \<and> p_state st' = p_state st \<and> (buf \<noteq> [] \<and> p_bytes_needed st \<noteq> 0 \<longrightarrow> 0 < n) \<and> (n = 0 \<longrightarrow> st' = st)"
  by (cases buf) (auto simp: copy_basic_header_bytes_def Suc_le_eq split: if_splits)

lemma consume_step_decreases:
  assumes "consume_step h buf st = Inr (Go_on st' n)" and "consume_guard buf st"
  shows "n \<le> length buf \<and> (0 < n \<or> step_rank st' < step_rank st)"
proof (cases "p_state st")
  case HEADER_BASIC
  then show ?thesis
    using assms
    by (auto simp: consume_step_def consume_guard_def step_rank_def Let_def pos_u64
        split: if_splits option.splits prod.splits dest!: copy_basic_count)
next
  case HEADER_EXTENDED
  then show ?thesis
    using assms start_payload_rank
    by (auto simp: consume_step_def consume_guard_def copy_extended_header_bytes_def step_rank_def Let_def pos_u64
        split: if_splits option.splits prod.splits dest!: start_payload_rank)
next
  case EXTENSION
  then show ?thesis using assms by (auto simp: consume_step_def step_rank_def)
next
  case APPLICATION
  let ?k = "min (unat (p_bytes_needed st)) (length buf)"
  show ?thesis
  proof (cases "0 < ?k")
    case True
    then obtain m st1 where p: "process_payload_bytes h (take ?k buf) st = Inr (m, None, st1)"
      "end_frame m st1 = Inr (Go_on st' n)"
      using assms(1) APPLICATION
      by (auto simp: consume_step_def and_then_eq_Inr Let_def split: if_splits)
    then have "m = ?k" "p_state st1 = APPLICATION"
      using process_payload_count [OF p(1)] APPLICATION by simp_all
    then show ?thesis using end_frame_rank [OF p(2)] True by simp
  next
    case False
    then have z: "p_bytes_needed st = 0" "end_frame 0 st = Inr (Go_on st' n)"
      using assms APPLICATION by (auto simp: consume_step_def consume_guard_def pos_u64 Let_def)
    show ?thesis using end_frame_rank [OF z(2) APPLICATION] z(1) APPLICATION by (simp add: step_rank_def)
  qed
qed (use assms in \<open>simp_all add: consume_guard_def\<close>)

function consume_loop :: "host \<Rightarrow> nat \<Rightarrow> bytes \<Rightarrow> hybi13 \<Rightarrow> (nat \<times> ec \<times> hybi13) res" where
  "consume_loop h p buf st =
     (if consume_guard buf st
      then case consume_step h buf st of
             Inl e \<Rightarrow> Inl e
           | Inr (Go_on st' n) \<Rightarrow> consume_loop h (p + n) (drop n buf) st'
           | Inr (Break st' n ec) \<Rightarrow> Inr (p + n, ec, st')
           | Inr (Return0 st' ec) \<Rightarrow> Inr (0, ec, st')
      else Inr (p, None, st))"
  by pat_completeness auto
termination
proof (relation "measures [\<lambda>(h, p, buf, st). length buf, \<lambda>(h, p, buf, st). step_rank st]", goal_cases)
  case (2 h p buf st s st' n)
  then show ?case using consume_step_decreases [of h buf st st' n] by auto
qed simp

declare consume_loop.simps [simp del]

definition consume :: "host \<Rightarrow> bytes \<Rightarrow> hybi13 \<Rightarrow> (nat \<times> ec \<times> hybi13) res" where
  "consume h buf st = consume_loop h 0 buf st"

definition ready :: "hybi13 \<Rightarrow> bool" where
  "ready st \<longleftrightarrow> p_state st = READY"

text \<open>\<open>get_message\<close>. \<open>m_current_msg\<close> points to one of the two members, so both resets go through
  the same object unless the opcode of the message disagrees with the member.\<close>

definition get_message :: "hybi13 \<Rightarrow> (message option \<times> hybi13) res" where
  "get_message st =
     (if \<not> ready st then Inr (None, st)
      else
        let ret = md_msg (current_msg st);
            st = set_current_msg ((current_msg st)\<lparr>md_msg := None\<rparr>) st
        in and_then (deref ''ret'' ret)
           (\<lambda>msg.
              let st = (if is_control (m_opcode msg)
                        then st\<lparr>p_control_msg := (p_control_msg st)\<lparr>md_msg := None\<rparr>\<rparr>
                        else st\<lparr>p_data_msg := (p_data_msg st)\<lparr>md_msg := None\<rparr>\<rparr>)
              in Inr (Some msg, reset_headers st)))"

definition get_error :: "hybi13 \<Rightarrow> bool" where
  "get_error st \<longleftrightarrow> p_state st = FATAL_ERROR"

definition get_bytes_needed :: "hybi13 \<Rightarrow> u64" where
  "get_bytes_needed st = p_bytes_needed st"

subsection \<open>Outgoing frames\<close>

definition masked_copy :: "host \<Rightarrow> bytes \<Rightarrow> u32 \<Rightarrow> bytes" where
  "masked_copy h i key = byte_mask h i key 0"

text \<open>\<open>rng\<close> is the next value of the random generator.\<close>

definition prepare_data_frame ::
    "host \<Rightarrow> bool \<Rightarrow> u32 \<Rightarrow> message option \<Rightarrow> message option \<Rightarrow> ec \<times> message option" where
  "prepare_data_frame h server rng inm outm =
     (case (inm, outm) of
        (Some inp, Some out) \<Rightarrow>
          (let op = m_opcode inp
           in if is_control op then (Some (ProcessorError PE_invalid_opcode), outm)
              else
                let i = m_payload inp
                in if op = Text \<and> \<not> validate i then (Some (ProcessorError PE_invalid_payload), outm)
                   else
                     let masked = \<not> server;
                         compressed = (pmd_is_enabled \<and> m_compressed inp);
                         fin = m_fin inp;
                         key = (if masked then rng else 0);
                         z = snd (pmd_compress i (m_payload out))
                     in if compressed \<and> length z < 4 then (Some (ProcessorError PE_general), Some (out\<lparr>m_payload := z\<rparr>))
                        else
                          let ob = (if compressed
                                    then (let z = take (length z - 4) z in if masked then masked_copy h z key else z)
                                    else (if masked then masked_copy h i key else i));
                              hd = basic_header_make op (of_nat (length ob)) fin masked compressed False False;
                              e = (if masked then extended_header_key h (of_nat (length ob)) key
                                   else extended_header_size h (of_nat (length ob)))
                          in (None, Some (out\<lparr>m_payload := ob, m_header := prepare_header hd e,
                                              m_prepared := True, m_opcode := op\<rparr>)))
      | _ \<Rightarrow> (Some (ProcessorError PE_invalid_arguments), outm))"

definition prepare_control ::
    "host \<Rightarrow> bool \<Rightarrow> u32 \<Rightarrow> opcode \<Rightarrow> bytes \<Rightarrow> message option \<Rightarrow> ec \<times> message option" where
  "prepare_control h server rng op payload outm =
     (case outm of
        None \<Rightarrow> (Some (ProcessorError PE_invalid_arguments), outm)
      | Some out \<Rightarrow>
          (if \<not> is_control op then (Some (ProcessorError PE_invalid_opcode), outm)
           else if length payload > unat payload_size_basic then (Some (ProcessorError PE_control_too_big), outm)
           else
             let masked = \<not> server;
                 n = of_nat (length payload);
                 hd = basic_header_make op n True masked False False False;
                 out = (if masked
                        then out\<lparr>m_header := prepare_header hd (extended_header_key h n rng),
                                 m_payload := masked_copy h payload rng\<rparr>
                        else out\<lparr>m_header := prepare_header hd (extended_header_size h n),
                                 m_payload := payload\<rparr>)
             in (None, Some (out\<lparr>m_opcode := op, m_prepared := True\<rparr>))))"

definition prepare_ping :: "host \<Rightarrow> bool \<Rightarrow> u32 \<Rightarrow> bytes \<Rightarrow> message option \<Rightarrow> ec \<times> message option" where
  "prepare_ping h server rng i out = prepare_control h server rng Ping i out"

definition prepare_pong :: "host \<Rightarrow> bool \<Rightarrow> u32 \<Rightarrow> bytes \<Rightarrow> message option \<Rightarrow> ec \<times> message option" where
  "prepare_pong h server rng i out = prepare_control h server rng Pong i out"

definition prepare_close ::
    "host \<Rightarrow> bool \<Rightarrow> u32 \<Rightarrow> status \<Rightarrow> bytes \<Rightarrow> message option \<Rightarrow> ec \<times> message option" where
  "prepare_close h server rng code reason out =
     (if status_reserved code then (Some (ProcessorError PE_reserved_close_code), out)
      else if status_invalid code \<and> code \<noteq> st_no_status then (Some (ProcessorError PE_invalid_close_code), out)
      else if code = st_no_status \<and> length reason > 0 then (Some (ProcessorError PE_reason_requires_code), out)
      else if length reason > unat payload_size_basic - 2 then (Some (ProcessorError PE_control_too_big), out)
      else
        let payload = (if code \<noteq> st_no_status
                       then (let c = mem_of h 2 (htons h code) in [c ! 0, c ! 1] @ reason)
                       else [])
        in prepare_control h server rng OpClose payload out)"

subsection \<open>Reading a buffer\<close>

text \<open>The loop of \<open>connection::handle_read_frame\<close> over one buffer of bytes, without the handlers:
  the messages it dispatches, the error it stops with, and the state of the processor. The loop
  has no bound of its own; \<open>None\<close> would be a run that does not end.\<close>

definition add_message ::
    "message option \<Rightarrow> (message list \<times> ec \<times> hybi13) res \<Rightarrow> (message list \<times> ec \<times> hybi13) res" where
  "add_message m r =
     and_then r (\<lambda>(ms, ec, st). Inr (case m of None \<Rightarrow> ms | Some x \<Rightarrow> x # ms, ec, st))"

partial_function (option) read_buffer ::
    "host \<Rightarrow> bytes \<Rightarrow> hybi13 \<Rightarrow> (message list \<times> ec \<times> hybi13) res option" where
  "read_buffer h buf st =
     (if buf = [] then Some (Inr ([], None, st))
      else
        case consume h buf st of
          Inl e \<Rightarrow> Some (Inl e)
        | Inr (n, ec, st') \<Rightarrow>
            (if ec \<noteq> None then Some (Inr ([], ec, st'))
             else if ready st'
             then (case get_message st' of
                     Inl e \<Rightarrow> Some (Inl e)
                   | Inr (m, st'') \<Rightarrow>
                       Option.bind (read_buffer h (drop n buf) st'') (\<lambda>r. Some (add_message m r)))
             else read_buffer h (drop n buf) st'))"

declare read_buffer.simps [code]

end
