(* ===== verification/Ws_Receive.thy ===== *)
theory Ws_Receive
  imports Ws_Hybi13
begin

section \<open>The incoming state machine never goes wrong\<close>

text \<open>
  The invariant of a frame processor and the lemmas that every pass of \<open>consume\<close>, every call of
  \<open>get_message\<close> and the whole reading loop keep it: no null message is dereferenced, the branch
  marked as unreachable in the source is not reached, and the loops end.
\<close>

unbundle bit_operations_syntax

lemma unat_minus_of_nat:
  assumes "k \<le> unat (w :: u64)"
  shows "unat (w - of_nat k) = unat w - k"
proof -
  have "unat (of_nat k :: u64) = k" using assms unat_bounds(4) [of w] by (simp add: unat_of_nat)
  then show ?thesis using unat_sub [of "of_nat k" w] assms by (simp add: word_le_nat_alt)
qed

subsection \<open>The invariant of the processor\<close>

text \<open>What is in place in each state: the bytes still needed, a message to write to, a key that
  repeats a pattern, and a header that passed validation.\<close>

definition opcode_fits :: "hybi13 \<Rightarrow> message \<Rightarrow> bool" where
  "opcode_fits st msg \<longleftrightarrow> (is_control (m_opcode msg) \<longleftrightarrow> p_current_msg st = ControlMsg)"

definition current_ok :: "host \<Rightarrow> hybi13 \<Rightarrow> bool" where
  "current_ok h st \<longleftrightarrow>
     (\<exists>msg. md_msg (current_msg st) = Some msg \<and> opcode_fits st msg) \<and>
     (\<exists>c. key_pattern h (md_key (current_msg st)) c)"

definition header_ok :: "hybi13 \<Rightarrow> bool" where
  "header_ok st \<longleftrightarrow>
     validate_incoming_basic_header (p_basic_header st) (p_server st) (md_msg (p_data_msg st) = None) = None"

definition data_ok :: "hybi13 \<Rightarrow> bool" where
  "data_ok st \<longleftrightarrow> (case md_msg (p_data_msg st) of None \<Rightarrow> True | Some msg \<Rightarrow> \<not> is_control (m_opcode msg))"

definition hybi_ok :: "host \<Rightarrow> hybi13 \<Rightarrow> bool" where
  "hybi_ok h st \<longleftrightarrow>
     length (p_extended_header st) = MAX_EXTENDED_HEADER_LENGTH \<and> data_ok st \<and>
     (case p_state st of
        HEADER_BASIC \<Rightarrow> p_bytes_needed st = 1 \<or> p_bytes_needed st = 2
      | HEADER_EXTENDED \<Rightarrow>
          header_ok st \<and>
          p_cursor st + unat (p_bytes_needed st) = get_header_len (p_basic_header st) - BASIC_HEADER_LENGTH
      | APPLICATION \<Rightarrow> current_ok h st
      | READY \<Rightarrow> current_ok h st
      | _ \<Rightarrow> False)"

lemma current_msg_updates [simp]:
  "current_msg (st\<lparr>p_bytes_needed := x\<rparr>) = current_msg st"
  "current_msg (st\<lparr>p_state := s\<rparr>) = current_msg st"
  by (simp_all add: current_msg_def split: current.split)

lemma current_ok_msgE:
  assumes "current_ok h st"
  obtains msg c where "md_msg (current_msg st) = Some msg" "opcode_fits st msg"
    "key_pattern h (md_key (current_msg st)) c"
  using assms by (auto simp: current_ok_def)

lemma hybi_ok_init: "hybi_ok h (hybi13_init server mx cur c k1 k2)"
  by (simp add: hybi_ok_def hybi13_init_def reset_headers_def frame_consts data_ok_def)

lemma hybi_ok_reset: "data_ok st \<Longrightarrow> hybi_ok h (reset_headers st)"
  by (simp add: hybi_ok_def reset_headers_def frame_consts data_ok_def)

lemma header_len_bound: "get_header_len b - BASIC_HEADER_LENGTH \<le> MAX_EXTENDED_HEADER_LENGTH"
  by (simp add: get_header_len_def get_masking_key_offset_def frame_consts)

text \<open>Writing the current message keeps the data message well formed.\<close>

lemma data_ok_set_current:
  assumes "data_ok st" and "md_msg md = Some msg" and "opcode_fits st msg"
  shows "data_ok (set_current_msg md st)"
  using assms by (simp add: data_ok_def set_current_msg_def opcode_fits_def split: current.split)

subsection \<open>Payload bytes\<close>

text \<open>The unmasked bytes of a piece of payload, and the metadata after it.\<close>

definition unmasked :: "host \<Rightarrow> bytes \<Rightarrow> hybi13 \<Rightarrow> bytes" where
  "unmasked h buf st =
     (if get_masked (p_basic_header st) then fst (byte_mask_circ h buf (md_key (current_msg st))) else buf)"

definition next_key :: "host \<Rightarrow> bytes \<Rightarrow> hybi13 \<Rightarrow> u64" where
  "next_key h buf st =
     (if get_masked (p_basic_header st) then snd (byte_mask_circ h buf (md_key (current_msg st)))
      else md_key (current_msg st))"

definition payload_md :: "host \<Rightarrow> bytes \<Rightarrow> hybi13 \<Rightarrow> message \<Rightarrow> validator \<Rightarrow> msg_metadata" where
  "payload_md h buf st msg v =
     \<lparr>md_msg = Some (msg\<lparr>m_payload := m_payload msg @ unmasked h buf st\<rparr>), md_key = next_key h buf st,
      md_validator = v\<rparr>"

lemma length_unmasked [simp]: "length (unmasked h buf st) = length buf"
  by (simp add: unmasked_def byte_mask_circ_def)

lemma process_payload_unfold:
  assumes "md_msg (current_msg st) = Some msg"
  shows "process_payload_bytes h buf st =
    (let (ok, v) = (if m_opcode msg = Text then validator_decode (unmasked h buf st) (md_validator (current_msg st))
                    else (True, md_validator (current_msg st)));
         st' = set_current_msg (payload_md h buf st msg v) st
     in if ok then Inr (length buf, None, st'\<lparr>p_bytes_needed := p_bytes_needed st - of_nat (length buf)\<rparr>)
        else Inr (0, Some (ProcessorError PE_invalid_utf8), st'))"
  using assms
  by (cases "current_msg st")
    (auto simp: process_payload_bytes_def unmasked_def next_key_def payload_md_def pmd_is_enabled_def
      byte_mask_circ_def Let_def split: prod.splits)

lemma next_key_pattern:
  assumes "host_ok h" and "key_pattern h (md_key (current_msg st)) c"
  shows "\<exists>d. key_pattern h (next_key h buf st) d"
  using assms byte_circ.next_key [OF assms, of buf] by (auto simp: next_key_def)

lemma process_payload_ok:
  assumes "host_ok h" and "hybi_ok h st" and "p_state st = APPLICATION"
    and "process_payload_bytes h buf st = Inr (n, None, st')"
  shows "hybi_ok h st' \<and> p_state st' = APPLICATION"
proof -
  obtain msg c where m: "md_msg (current_msg st) = Some msg" "opcode_fits st msg"
    "key_pattern h (md_key (current_msg st)) c"
    using assms(2,3) by (auto simp: hybi_ok_def elim: current_ok_msgE)
  obtain v where st': "st' = (set_current_msg (payload_md h buf st msg v) st)\<lparr>p_bytes_needed := p_bytes_needed st - of_nat (length buf)\<rparr>"
    using assms(4) by (auto simp: process_payload_unfold [OF m(1)] Let_def split: prod.splits if_splits)
  have fits: "opcode_fits st (msg\<lparr>m_payload := x\<rparr>)" for x
    using m(2) by (simp add: opcode_fits_def)
  have d: "data_ok (set_current_msg (payload_md h buf st msg v) st)"
    by (rule data_ok_set_current [OF _ _ fits]) (use assms(2) in \<open>simp_all add: hybi_ok_def payload_md_def\<close>)
  have cm: "current_msg st' = payload_md h buf st msg v"
    by (simp add: st')
  have "current_ok h st'"
    using next_key_pattern [OF assms(1) m(3), of buf] m(2)
    by (auto simp: current_ok_def cm payload_md_def opcode_fits_def st')
  then show ?thesis
    using assms(2,3) d by (simp add: hybi_ok_def st' data_ok_def)
qed


lemma finalize_message_ok:
  assumes "hybi_ok h st" and "p_state st = APPLICATION"
  obtains "finalize_message st = Inr (None, st\<lparr>p_state := READY\<rparr>)"
      "hybi_ok h (st\<lparr>p_state := READY\<rparr>)"
      "get_opcode (p_basic_header st) = Text \<Longrightarrow> validator_complete (md_validator (current_msg st))"
    | "finalize_message st = Inr (Some (ProcessorError PE_invalid_utf8), st)"
      "get_opcode (p_basic_header st) = Text" "\<not> validator_complete (md_validator (current_msg st))"
proof -
  obtain msg c where m: "md_msg (current_msg st) = Some msg" "opcode_fits st msg"
    using assms by (auto simp: hybi_ok_def elim: current_ok_msgE)
  have same: "set_current_msg (current_msg st) st = st"
    by (simp add: set_current_msg_def current_msg_def split: current.split)
  have upd: "(current_msg st)\<lparr>md_msg := Some msg\<rparr> = current_msg st"
    using m(1) by (cases "current_msg st") simp
  have f: "finalize_message st =
      (if get_opcode (p_basic_header st) = Text \<and> \<not> validator_complete (md_validator (current_msg st))
       then Inr (Some (ProcessorError PE_invalid_utf8), st) else Inr (None, st\<lparr>p_state := READY\<rparr>))"
    using m(1) by (simp add: finalize_message_def pmd_is_enabled_def same upd Let_def)
  have "hybi_ok h (st\<lparr>p_state := READY\<rparr>)"
    using assms by (simp add: hybi_ok_def current_ok_def opcode_fits_def data_ok_def)
  then show thesis using f that by (auto split: if_splits)
qed

text \<open>A pass that goes on keeps the invariant; one that stops has an error to report.\<close>

definition step_fine :: "host \<Rightarrow> nat \<Rightarrow> step \<Rightarrow> bool" where
  "step_fine h len r \<longleftrightarrow>
     (case r of
        Go_on st n \<Rightarrow> n \<le> len \<and> hybi_ok h st
      | Break st n e \<Rightarrow> n \<le> len \<and> e \<noteq> None
      | Return0 st e \<Rightarrow> False)"

lemma step_fine_simps [simp]:
  "step_fine h len (Go_on st n) \<longleftrightarrow> n \<le> len \<and> hybi_ok h st"
  "step_fine h len (Break st n e) \<longleftrightarrow> n \<le> len \<and> e \<noteq> None"
  "step_fine h len (Return0 st e) \<longleftrightarrow> False"
  by (simp_all add: step_fine_def)

lemma end_frame_ok:
  assumes "hybi_ok h st" and "p_state st = APPLICATION" and "n \<le> len"
  shows "\<exists>r. end_frame n st = Inr r \<and> step_fine h len r"
proof -
  have "data_ok st" using assms(1) by (simp add: hybi_ok_def)
  show ?thesis
    by (rule finalize_message_ok [OF assms(1,2)]) (use assms(1,3) hybi_ok_reset [OF \<open>data_ok st\<close>] in \<open>auto simp: end_frame_def\<close>)
qed

lemma start_payload_ok:
  assumes "length (p_extended_header st) = MAX_EXTENDED_HEADER_LENGTH" and "data_ok st" and "n \<le> len"
  shows "step_fine h len (start_payload h n st)"
proof -
  have p: "\<exists>c. key_pattern h (prepare_masking_key key) c" for key using key_pattern_prepared by blast
  show ?thesis
    using assms p
    by (auto simp: start_payload_def hybi_ok_def data_ok_def current_ok_def current_msg_def opcode_fits_def
        msg_metadata_make_def message_new_def pmd_is_enabled_def Let_def split: option.splits)
qed

lemma copy_extended_ok:
  assumes "hybi_ok h st" and "p_state st = HEADER_EXTENDED" and "copy_extended_header_bytes buf st = (n, st')"
  shows "hybi_ok h st' \<and> n \<le> length buf \<and> p_state st' = HEADER_EXTENDED"
proof -
  let ?k = "min (unat (p_bytes_needed st)) (length buf)"
  have st': "st' = st\<lparr>p_extended_header := copy_to (p_cursor st) (take ?k buf) (p_extended_header st),
      p_cursor := p_cursor st + ?k, p_bytes_needed := p_bytes_needed st - of_nat ?k\<rparr>" "n = ?k"
    using assms(3) by (auto simp: copy_extended_header_bytes_def Let_def)
  have "unat (p_bytes_needed st - of_nat ?k) = unat (p_bytes_needed st) - ?k"
    by (rule unat_minus_of_nat) simp
  moreover have "p_cursor st + ?k \<le> MAX_EXTENDED_HEADER_LENGTH"
    using assms(1,2) header_len_bound [of "p_basic_header st"] by (auto simp: hybi_ok_def)
  ultimately show ?thesis
    using assms(1,2) unfolding st' by (auto simp: hybi_ok_def header_ok_def data_ok_def)
qed

lemma consume_step_ok:
  assumes "host_ok h" and "hybi_ok h st" and "consume_guard buf st"
  shows "\<exists>r. consume_step h buf st = Inr r \<and> step_fine h (length buf) r"
proof (cases "p_state st")
  case HEADER_BASIC
  obtain n st1 where c: "copy_basic_header_bytes buf st = (n, st1)" by fastforce
  have n: "n \<le> length buf" using copy_basic_count [OF c] by simp
  have inv: "length (p_extended_header st1) = MAX_EXTENDED_HEADER_LENGTH" "data_ok st1" "p_state st1 = HEADER_BASIC"
    "p_bytes_needed st1 = 0 \<or> p_bytes_needed st1 = 1"
    using c assms(2,3) HEADER_BASIC
    by (auto simp: copy_basic_header_bytes_def hybi_ok_def data_ok_def consume_guard_def split: if_splits)
  have "unat (of_nat (get_header_len b - BASIC_HEADER_LENGTH) :: u64) = get_header_len b - BASIC_HEADER_LENGTH" for b
    using header_len_bound [of b] by (simp add: unat_of_nat frame_consts)
  then show ?thesis
    using n inv HEADER_BASIC
    by (auto simp: consume_step_def c hybi_ok_def header_ok_def data_ok_def split: option.splits)
next
  case HEADER_EXTENDED
  obtain n st1 where c: "copy_extended_header_bytes buf st = (n, st1)" by fastforce
  note e = copy_extended_ok [OF assms(2) HEADER_EXTENDED c]
  then show ?thesis
    using start_payload_ok [of st1 n "length buf" h] HEADER_EXTENDED
    by (auto simp: consume_step_def c hybi_ok_def split: option.splits)
next
  case APPLICATION
  let ?k = "min (unat (p_bytes_needed st)) (length buf)"
  obtain msg where m: "md_msg (current_msg st) = Some msg"
    using assms(2) APPLICATION by (auto simp: hybi_ok_def elim: current_ok_msgE)
  show ?thesis
  proof (cases "0 < ?k")
    case True
    obtain n e st1 where p: "process_payload_bytes h (take ?k buf) st = Inr (n, e, st1)"
      by (cases "process_payload_bytes h (take ?k buf) st")
        (auto simp: process_payload_unfold [OF m] Let_def split: prod.splits if_splits)
    have n: "n \<le> length buf"
      using p by (auto simp: process_payload_unfold [OF m] Let_def split: prod.splits if_splits)
    show ?thesis
    proof (cases e)
      case None
      then have "hybi_ok h st1 \<and> p_state st1 = APPLICATION"
        using process_payload_ok [OF assms(1,2) APPLICATION] p by simp
      then show ?thesis
        using end_frame_ok [of h st1 n "length buf"] n True APPLICATION p None
        by (auto simp: consume_step_def Let_def)
    qed (use n True APPLICATION p in \<open>simp add: consume_step_def Let_def\<close>)
  next
    case False
    then show ?thesis
      using end_frame_ok [OF assms(2) APPLICATION, of 0 "length buf"] APPLICATION
      by (auto simp: consume_step_def Let_def)
  qed
qed (use assms in \<open>simp_all add: hybi_ok_def consume_guard_def\<close>)
subsection \<open>Consuming a buffer\<close>

lemma consume_loop_ok:
  assumes "host_ok h" and "hybi_ok h st"
  shows "\<exists>n ec st'. consume_loop h p buf st = Inr (p + n, ec, st') \<and> n \<le> length buf \<and>
    (ec = None \<longrightarrow> hybi_ok h st' \<and> (ready st' \<or> n = length buf))"
  using assms
proof (induction h p buf st rule: consume_loop.induct)
  case (1 h p buf st)
  show ?case
  proof (cases "consume_guard buf st")
    case True
    obtain r where r: "consume_step h buf st = Inr r" "step_fine h (length buf) r"
      using consume_step_ok [OF "1.prems" True] by blast
    show ?thesis
    proof (cases r)
      case (Go_on st1 n)
      then have "n \<le> length buf" "hybi_ok h st1" using r(2) by simp_all
      then obtain k ec st' where "consume_loop h (p + n) (drop n buf) st1 = Inr (p + n + k, ec, st')"
          "k \<le> length buf - n" "ec = None \<longrightarrow> hybi_ok h st' \<and> (ready st' \<or> k = length buf - n)"
        using "1.IH" [OF True r(1) Go_on "1.prems"(1)] by auto
      then show ?thesis
        using \<open>n \<le> length buf\<close> True r(1) Go_on
        by (intro exI [of _ "n + k"] exI [of _ ec] exI [of _ st']) (auto simp: consume_loop.simps [of h p buf])
    qed (use True r in \<open>auto simp: consume_loop.simps [of h p buf]\<close>)
  next
    case False
    then show ?thesis
      using "1.prems" by (auto simp: consume_loop.simps [of h p buf] consume_guard_def ready_def hybi_ok_def)
  qed
qed

lemma consume_ok:
  assumes "host_ok h" and "hybi_ok h st"
  obtains n ec st' where "consume h buf st = Inr (n, ec, st')" "n \<le> length buf"
    "ec = None \<Longrightarrow> hybi_ok h st'" "ec = None \<Longrightarrow> ready st' \<or> n = length buf"
  using consume_loop_ok [OF assms, of 0 buf] by (auto simp: consume_def)

lemma consume_progress:
  assumes "host_ok h" and "hybi_ok h st" and "p_state st = HEADER_BASIC" and "buf \<noteq> []"
    and "consume h buf st = Inr (n, None, st')"
  shows "0 < n"
proof -
  have g: "consume_guard buf st" using assms(3,4) by (simp add: consume_guard_def)
  obtain r where r: "consume_step h buf st = Inr r" "step_fine h (length buf) r"
    using consume_step_ok [OF assms(1,2) g] by blast
  show ?thesis
  proof (cases r)
    case (Go_on st1 k)
    have nz: "p_bytes_needed st \<noteq> 0" using assms(2,3) by (auto simp: hybi_ok_def)
    have "0 < k"
      using r(1) Go_on nz assms(3,4)
      by (auto simp: consume_step_def split: if_splits option.splits prod.splits dest!: copy_basic_count)
    moreover have "k \<le> n"
      using consume_loop_ok [OF assms(1), of st1 k "drop k buf"] r Go_on g assms(5)
      by (auto simp: consume_def consume_loop.simps [of h 0 buf])
    ultimately show ?thesis by simp
  qed (use r g assms(5) in \<open>auto simp: consume_def consume_loop.simps [of h 0 buf]\<close>)
qed

lemma get_message_ok:
  assumes "hybi_ok h st" and "ready st"
  obtains msg st' where "get_message st = Inr (Some msg, st')" "md_msg (current_msg st) = Some msg"
    "hybi_ok h st'" "p_state st' = HEADER_BASIC" "p_bytes_needed st' = 2"
proof -
  obtain msg c where m: "md_msg (current_msg st) = Some msg" "opcode_fits st msg"
    using assms by (auto simp: hybi_ok_def ready_def elim: current_ok_msgE)
  let ?s = "set_current_msg ((current_msg st)\<lparr>md_msg := None\<rparr>) st"
  let ?s' = "if is_control (m_opcode msg) then ?s\<lparr>p_control_msg := (p_control_msg ?s)\<lparr>md_msg := None\<rparr>\<rparr>
    else ?s\<lparr>p_data_msg := (p_data_msg ?s)\<lparr>md_msg := None\<rparr>\<rparr>"
  have "data_ok ?s'"
    using assms(1) by (auto simp: hybi_ok_def data_ok_def set_current_msg_def current_msg_def split: current.splits)
  moreover have "get_message st = Inr (Some msg, reset_headers ?s')"
    using assms(2) m by (simp add: get_message_def Let_def)
  ultimately show thesis
    using that [of msg "reset_headers ?s'"] m hybi_ok_reset by (simp add: reset_headers_def frame_consts)
qed

subsection \<open>Reading ends\<close>

lemma read_buffer_ok:
  assumes "host_ok h" and "hybi_ok h st"
  shows "\<exists>ms ec st'. read_buffer h buf st = Some (Inr (ms, ec, st')) \<and>
    (ec = None \<longrightarrow> hybi_ok h st' \<and> (ready st' \<longrightarrow> ready st))"
  using assms(2)
proof (induction "2 * length buf + (if p_state st = HEADER_BASIC then 0 else 1)" arbitrary: buf st
    rule: less_induct)
  case less
  show ?case
  proof (cases "buf = []")
    case True
    then show ?thesis using less.prems by (subst read_buffer.simps) simp
  next
    case False
    obtain n ec st1 where c: "consume h buf st = Inr (n, ec, st1)" "n \<le> length buf"
      and i: "ec = None \<Longrightarrow> hybi_ok h st1" "ec = None \<Longrightarrow> ready st1 \<or> n = length buf"
      using consume_ok [OF assms(1) less.prems] by metis
    consider "ec = None" "ready st1" | "ec \<noteq> None" | "ec = None" "\<not> ready st1" "n = length buf" using i by blast
    then show ?thesis
    proof cases
      case 1
      obtain msg st2 where g: "get_message st1 = Inr (Some msg, st2)" "hybi_ok h st2" "p_state st2 = HEADER_BASIC"
        using get_message_ok [OF i(1) [OF 1(1)] 1(2)] by metis
      have "2 * length (drop n buf) + (if p_state st2 = HEADER_BASIC then 0 else 1) <
          2 * length buf + (if p_state st = HEADER_BASIC then 0 else 1)"
        using c 1 g(3) consume_progress [OF assms(1) less.prems _ False, of n st1] by auto
      from less.hyps [OF this g(2)] obtain ms e st' where "read_buffer h (drop n buf) st2 = Some (Inr (ms, e, st'))"
          "e = None \<longrightarrow> hybi_ok h st' \<and> (ready st' \<longrightarrow> ready st2)"
        by auto
      then show ?thesis
        using False c 1 g by (subst read_buffer.simps) (auto simp: add_message_def ready_def)
    next
      case 2
      then show ?thesis using False c by (subst read_buffer.simps) auto
    next
      case 3
      then show ?thesis using False c i by (subst read_buffer.simps, subst read_buffer.simps) auto
    qed
  qed
qed

end
