(* ===== verification/Ws_Text.thy ===== *)
theory Ws_Text
  imports Prelude
begin

section \<open>Strings of the HTTP layer\<close>

text \<open>
  Model of \<open>websocketpp/utilities.hpp\<close> and \<open>impl/utilities_impl.hpp\<close> and of what the HTTP layer uses of the
  standard library: \<open>std::search\<close>, \<open>std::lexicographical_compare\<close>, \<open>std::map\<close> with the comparison
  \<open>ci_less\<close>, and the conversions between numbers and text (\<open>operator>>\<close>, \<open>strtoul\<close>, \<open>atoi\<close>, \<open>operator<<\<close>).

  A \<open>std::string\<close> is a list of bytes; \<open>ascii\<close> gives the bytes of a literal. An iterator into a string is
  the list of the bytes that are still to be read. The character functions are those of the \<open>C\<close> locale.
\<close>

definition ascii :: "string \<Rightarrow> bytes" where
  "ascii s = map of_char s"

lemma ascii_simps [simp]:
  "ascii [] = []"
  "ascii (c # s) = of_char c # ascii s"
  "length (ascii s) = length s"
  by (simp_all add: ascii_def)

lemma ascii_append: "ascii (s @ t) = ascii s @ ascii t"
  by (simp add: ascii_def)

subsection \<open>Letters\<close>

definition tolower :: "u8 \<Rightarrow> u8" where
  "tolower c = (if 65 \<le> c \<and> c \<le> 90 then c + 32 else c)"

definition toupper :: "u8 \<Rightarrow> u8" where
  "toupper c = (if 97 \<le> c \<and> c \<le> 122 then c - 32 else c)"

definition to_lower :: "bytes \<Rightarrow> bytes" where
  "to_lower i = map tolower i"

definition my_equal :: "u8 \<Rightarrow> u8 \<Rightarrow> bool" where
  "my_equal ch1 ch2 \<longleftrightarrow> toupper ch1 = toupper ch2"

definition to_hex :: "bytes \<Rightarrow> bytes" where
  "to_hex i = (let hex = ascii ''0123456789ABCDEF''
     in concat (map (\<lambda>b. [hex ! (unat b div 16), hex ! (unat b mod 16), of_char CHR '' '']) i))"

subsection \<open>Searching\<close>

fun matches :: "(u8 \<Rightarrow> u8 \<Rightarrow> bool) \<Rightarrow> bytes \<Rightarrow> bytes \<Rightarrow> bool" where
  "matches eq xs [] = True"
| "matches eq [] (y # ys) = False"
| "matches eq (x # xs) (y # ys) = (eq x y \<and> matches eq xs ys)"

text \<open>\<open>std::search\<close>: the offset of the first match, or the length of the text.\<close>

fun search :: "(u8 \<Rightarrow> u8 \<Rightarrow> bool) \<Rightarrow> bytes \<Rightarrow> bytes \<Rightarrow> nat" where
  "search eq [] ys = 0"
| "search eq (x # xs) ys = (if matches eq (x # xs) ys then 0 else Suc (search eq xs ys))"

definition ci_find_substr :: "bytes \<Rightarrow> bytes \<Rightarrow> nat" where
  "ci_find_substr haystack needle = search my_equal haystack needle"

text \<open>\<open>std::string::find(s, pos)\<close>; \<open>None\<close> is \<open>npos\<close>.\<close>

definition string_find :: "bytes \<Rightarrow> nat \<Rightarrow> bytes \<Rightarrow> nat option" where
  "string_find subject pos needle =
     (if needle = [] then (if pos \<le> length subject then Some pos else None)
      else let i = search (=) (drop pos subject) needle
           in if pos + i < length subject then Some (pos + i) else None)"

text \<open>\<open>string_replace_all\<close>. An empty search string is found everywhere, so with one the loop would not
  end; the library only calls it with a quote.\<close>

partial_function (option) replace_from :: "bytes \<Rightarrow> bytes \<Rightarrow> bytes \<Rightarrow> nat \<Rightarrow> bytes option" where
  "replace_from subject what by pos =
     (case string_find subject pos what of
        None \<Rightarrow> Some subject
      | Some pos \<Rightarrow>
          replace_from (take pos subject @ by @ drop (pos + length what) subject) what by (pos + length by))"

definition string_replace_all :: "bytes \<Rightarrow> bytes \<Rightarrow> bytes \<Rightarrow> bytes option" where
  "string_replace_all subject what by = replace_from subject what by 0"

lemma search_le: "search eq xs ys \<le> length xs"
  by (induction xs) auto

text \<open>A delimiter whose first byte does not occur before it is found where it is.\<close>

lemma search_not_first: "y \<notin> set xs \<Longrightarrow> search (=) (xs @ zs) (y # ys) = length xs + search (=) zs (y # ys)"
  by (induction xs) auto

lemma matches_eq: "matches (=) xs ys \<longleftrightarrow> ys = take (length ys) xs"
proof (induction "(=) :: u8 \<Rightarrow> u8 \<Rightarrow> bool" xs ys rule: matches.induct)
  case (3 x xs y ys)
  then show ?case by auto
qed auto

lemma search_found: "matches eq zs ys \<Longrightarrow> search eq zs ys = 0"
  by (cases zs) auto

subsection \<open>Headers: a map whose keys ignore case\<close>

text \<open>\<open>nocase_compare\<close> and \<open>ci_less\<close>.\<close>

fun ci_less :: "bytes \<Rightarrow> bytes \<Rightarrow> bool" where
  "ci_less xs [] = False"
| "ci_less [] (y # ys) = True"
| "ci_less (x # xs) (y # ys) =
     (if tolower x < tolower y then True
      else if tolower y < tolower x then False
      else ci_less xs ys)"

type_synonym header_list = "(bytes \<times> bytes) list"

definition ci_same :: "bytes \<Rightarrow> bytes \<Rightarrow> bool" where
  "ci_same a b \<longleftrightarrow> \<not> ci_less a b \<and> \<not> ci_less b a"

fun hdr_find :: "header_list \<Rightarrow> bytes \<Rightarrow> bytes option" where
  "hdr_find [] k = None"
| "hdr_find ((a, b) # m) k = (if ci_same a k then Some b else hdr_find m k)"

text \<open>\<open>m[k] = v\<close>: a key that is already there keeps its spelling.\<close>

fun hdr_assign :: "bytes \<Rightarrow> bytes \<Rightarrow> header_list \<Rightarrow> header_list" where
  "hdr_assign k v [] = [(k, v)]"
| "hdr_assign k v ((a, b) # m) =
     (if ci_less k a then (k, v) # (a, b) # m
      else if ci_less a k then (a, b) # hdr_assign k v m
      else (a, v) # m)"

fun hdr_erase :: "bytes \<Rightarrow> header_list \<Rightarrow> header_list" where
  "hdr_erase k [] = []"
| "hdr_erase k ((a, b) # m) = (if ci_same a k then m else (a, b) # hdr_erase k m)"

definition hdr_wf :: "header_list \<Rightarrow> bool" where
  "hdr_wf m \<longleftrightarrow> sorted_wrt ci_less (map fst m)"

lemma ci_less_lower: "ci_less xs ys \<longleftrightarrow> map tolower xs < map tolower ys"
  by (induction xs ys rule: ci_less.induct) auto

lemma ci_same_lower: "ci_same a b \<longleftrightarrow> map tolower a = map tolower b"
  by (auto simp: ci_same_def ci_less_lower)

text \<open>What the clients of a map with keys up to an equivalence rely on.\<close>

locale assign_store =
  fixes same :: "'k \<Rightarrow> 'k \<Rightarrow> bool"
    and find :: "'m \<Rightarrow> 'k \<Rightarrow> 'v option"
    and assign :: "'k \<Rightarrow> 'v \<Rightarrow> 'm \<Rightarrow> 'm"
    and erase :: "'k \<Rightarrow> 'm \<Rightarrow> 'm"
    and wf :: "'m \<Rightarrow> bool"
  assumes same_equiv: "equivp same"
    and wf_assign: "wf m \<Longrightarrow> wf (assign k v m)"
    and wf_erase: "wf m \<Longrightarrow> wf (erase k m)"
    and find_assign: "wf m \<Longrightarrow> find (assign k v m) j = (if same k j then Some v else find m j)"
    and find_erase: "wf m \<Longrightarrow> find (erase k m) j = (if same k j then None else find m j)"
begin

lemma same_refl: "same k k"
  using same_equiv by (rule equivp_reflp)

lemma find_assign_same: "wf m \<Longrightarrow> find (assign k v m) k = Some v"
  by (simp add: find_assign same_refl)

lemma assign_last_wins: "wf m \<Longrightarrow> find (assign k v (assign k u m)) j = find (assign k v m) j"
  by (simp add: find_assign wf_assign)

lemma assign_commute:
  assumes "wf m" and "\<not> same k j"
  shows "find (assign k v (assign j u m)) i = find (assign j u (assign k v m)) i"
proof -
  have "\<not> (same k i \<and> same j i)"
    using assms(2) same_equiv by (metis equivp_symp equivp_transp)
  then show ?thesis using assms(1) by (auto simp: find_assign wf_assign)
qed

lemma erase_assign: "wf m \<Longrightarrow> find (erase k (assign k v m)) j = find (erase k m) j"
  by (simp add: find_erase find_assign wf_assign)

end

lemma hdr_wf_simps [simp]:
  "hdr_wf []"
  "hdr_wf ((k, v) # m) \<longleftrightarrow> (\<forall>x \<in> set m. ci_less k (fst x)) \<and> hdr_wf m"
  by (auto simp: hdr_wf_def)

lemma set_hdr_assign: "fst ` set (hdr_assign k v m) \<subseteq> insert k (fst ` set m)"
proof (induction k v m rule: hdr_assign.induct)
  case (2 k v a b m)
  then show ?case by (cases "ci_less k a"; cases "ci_less a k") auto
qed simp

lemma hdr_wf_assign: "hdr_wf m \<Longrightarrow> hdr_wf (hdr_assign k v m)"
proof (induction m)
  case (Cons p m)
  obtain a b where p: "p = (a, b)" by (cases p)
  have "\<forall>x \<in> set (hdr_assign k v m). ci_less a (fst x)" if "ci_less a k"
    using that Cons.prems set_hdr_assign [of k v m] by (fastforce simp: p)
  with Cons show ?case by (auto simp: p ci_less_lower)
qed simp

lemma hdr_find_None: "hdr_wf ((a, b) # m) \<Longrightarrow> ci_same a k \<or> ci_less k a \<Longrightarrow> hdr_find m k = None"
  by (induction m) (auto simp: ci_less_lower ci_same_lower)

lemma hdr_find_assign:
  "hdr_wf m \<Longrightarrow> hdr_find (hdr_assign k v m) j = (if ci_same k j then Some v else hdr_find m j)"
proof (induction m)
  case (Cons p m)
  obtain a b where p: "p = (a, b)" by (cases p)
  show ?case using Cons by (auto simp: p ci_same_lower ci_less_lower)
qed simp

lemma hdr_set_erase: "set (hdr_erase k m) \<subseteq> set m"
  by (induction k m rule: hdr_erase.induct) auto

lemma hdr_wf_erase: "hdr_wf m \<Longrightarrow> hdr_wf (hdr_erase k m)"
proof (induction k m rule: hdr_erase.induct)
  case (2 k a b m)
  then show ?case using hdr_set_erase [of k m] by auto
qed simp

lemma hdr_find_erase:
  "hdr_wf m \<Longrightarrow> hdr_find (hdr_erase k m) j = (if ci_same k j then None else hdr_find m j)"
proof (induction m)
  case (Cons p m)
  obtain a b where p: "p = (a, b)" by (cases p)
  have "hdr_find m j = None" if "ci_same a j" using Cons.prems that hdr_find_None [of a b m j] by (simp add: p)
  with Cons show ?case by (auto simp: p ci_same_lower)
qed simp

interpretation headers: assign_store ci_same hdr_find hdr_assign hdr_erase hdr_wf
proof unfold_locales
  show "equivp ci_same"
    by (rule equivpI) (auto simp: reflp_def symp_def transp_def ci_same_lower)
qed (simp_all add: hdr_wf_assign hdr_wf_erase hdr_find_assign hdr_find_erase)

subsection \<open>Numbers\<close>

definition is_digit :: "u8 \<Rightarrow> bool" where
  "is_digit c \<longleftrightarrow> 48 \<le> c \<and> c \<le> 57"

definition is_space :: "u8 \<Rightarrow> bool" where
  "is_space c \<longleftrightarrow> 9 \<le> c \<and> c \<le> 13 \<or> c = 32"

definition digits_value :: "bytes \<Rightarrow> nat" where
  "digits_value ds = foldl (\<lambda>n d. 10 * n + (unat d - 48)) 0 ds"

text \<open>The number a text starts with: white space, a sign, digits. \<open>None\<close> if there is no digit.\<close>

definition scan_number :: "bytes \<Rightarrow> (bool \<times> nat) option" where
  "scan_number s =
     (let s = dropWhile is_space s;
          neg = (s \<noteq> [] \<and> hd s = of_char CHR ''-'');
          s = (if s \<noteq> [] \<and> (hd s = of_char CHR ''-'' \<or> hd s = of_char CHR ''+'') then tl s else s);
          ds = takeWhile is_digit s
      in if ds = [] then None else Some (neg, digits_value ds))"

text \<open>\<open>std::istringstream >> int\<close> and \<open>>> size_t\<close>; \<open>None\<close> is a failed stream. An unsigned number may
  have a minus sign, which negates it.\<close>

definition read_int :: "bytes \<Rightarrow> int option" where
  "read_int s =
     (case scan_number s of
        None \<Rightarrow> None
      | Some (neg, n) \<Rightarrow>
          let v = (if neg then - int n else int n)
          in if - (2 ^ 31) \<le> v \<and> v < 2 ^ 31 then Some v else None)"

definition read_size :: "bytes \<Rightarrow> u64 option" where
  "read_size s =
     (case scan_number s of
        None \<Rightarrow> None
      | Some (neg, n) \<Rightarrow>
          if n < 2 ^ 64 then Some (if neg then - of_nat n else of_nat n) else None)"

text \<open>\<open>strtoul\<close> with base 10 on the characters before the first null character.\<close>

definition strtoul :: "bytes \<Rightarrow> u64" where
  "strtoul s =
     (case scan_number (takeWhile (\<lambda>c. c \<noteq> 0) s) of
        None \<Rightarrow> 0
      | Some (neg, n) \<Rightarrow>
          if n < 2 ^ 64 then (if neg then - of_nat n else of_nat n) else - 1)"

text \<open>\<open>atoi\<close>. A number out of range is undefined behaviour, so its result \<open>over s\<close> is an argument.\<close>

definition atoi :: "(bytes \<Rightarrow> u32) \<Rightarrow> bytes \<Rightarrow> u32" where
  "atoi over s =
     (case scan_number (takeWhile (\<lambda>c. c \<noteq> 0) s) of
        None \<Rightarrow> 0
      | Some (neg, n) \<Rightarrow>
          let v = (if neg then - int n else int n)
          in if - (2 ^ 31) \<le> v \<and> v < 2 ^ 31 then of_int v else over s)"

fun show_nat :: "nat \<Rightarrow> bytes" where
  "show_nat n = (if n < 10 then [of_nat (48 + n)] else show_nat (n div 10) @ [of_nat (48 + n mod 10)])"

declare show_nat.simps [simp del]

definition show_int :: "int \<Rightarrow> bytes" where
  "show_int i = (if i < 0 then of_char CHR ''-'' # show_nat (nat (- i)) else show_nat (nat i))"

lemma digit_byte: "d < 10 \<Longrightarrow> is_digit (of_nat (48 + d)) \<and> unat (of_nat (48 + d) :: u8) = 48 + d"
proof -
  assume "d < 10"
  then have "unat (of_nat (48 + d) :: u8) = 48 + d" by (subst unat_of_nat) simp
  with \<open>d < 10\<close> show ?thesis by (simp only: is_digit_def word_le_nat_alt) simp
qed

lemma show_nat_digits: "show_nat n \<noteq> [] \<and> (\<forall>d \<in> set (show_nat n). is_digit d) \<and> digits_value (show_nat n) = n"
proof (induction n rule: show_nat.induct)
  case (1 n)
  show ?case
  proof (cases "n < 10")
    case True
    then show ?thesis using digit_byte [of n] by (simp add: show_nat.simps [of n] digits_value_def)
  next
    case False
    then show ?thesis using 1 digit_byte [of "n mod 10"] by (simp add: show_nat.simps [of n] digits_value_def)
  qed
qed

end
