(* ===== verification/Ws_Http.thy ===== *)
theory Ws_Http
  imports Ws_Text Std_Map "HOL-Library.Sublist"
begin

section \<open>HTTP messages\<close>

text \<open>
  Model of \<open>websocketpp/http\<close>: \<open>constants.hpp\<close>, \<open>parser.hpp\<close> with \<open>impl/parser.hpp\<close>, \<open>request.hpp\<close> and
  \<open>response.hpp\<close> with their \<open>impl\<close> files. The class \<open>parser\<close> is a record that the records of requests and
  responses extend. An iterator is the list of the bytes from it to the end, so \<open>begin\<close> is the whole range and
  two iterators of a range are equal if the lists are. A member function that may throw returns a sum, \<open>Inl\<close>
  for the exception; what the object holds after an exception is not used by any caller.

  Not modelled: \<open>response::consume(std::istream &)\<close>, which only splits a stream into the other overload.
\<close>

subsection \<open>Constants\<close>

definition header_delimiter :: bytes where "header_delimiter = [13, 10]"
definition header_separator :: bytes where "header_separator = [58]"
definition max_header_size :: nat where "max_header_size = 16000"
definition max_body_size :: u64 where "max_body_size = 32000000"

definition header_token :: "nat list" where
  "header_token = [
   0,0,0,0,0,0,0,0,0,0,0,0,0,0,0,0,
   0,0,0,0,0,0,0,0,0,0,0,0,0,0,0,0,
   0,1,0,1,1,1,1,1,0,0,1,1,0,1,1,0,
   1,1,1,1,1,1,1,1,1,1,0,0,0,0,0,0,
   0,1,1,1,1,1,1,1,1,1,1,1,1,1,1,1,
   1,1,1,1,1,1,1,1,1,1,1,0,0,0,1,1,
   1,1,1,1,1,1,1,1,1,1,1,1,1,1,1,1,
   1,1,1,1,1,1,1,1,1,1,1,0,1,0,1,0,
   0,0,0,0,0,0,0,0,0,0,0,0,0,0,0,0,
   0,0,0,0,0,0,0,0,0,0,0,0,0,0,0,0,
   0,0,0,0,0,0,0,0,0,0,0,0,0,0,0,0,
   0,0,0,0,0,0,0,0,0,0,0,0,0,0,0,0,
   0,0,0,0,0,0,0,0,0,0,0,0,0,0,0,0,
   0,0,0,0,0,0,0,0,0,0,0,0,0,0,0,0,
   0,0,0,0,0,0,0,0,0,0,0,0,0,0,0,0,
   0,0,0,0,0,0,0,0,0,0,0,0,0,0,0,0]"

definition is_token_char :: "u8 \<Rightarrow> bool" where
  "is_token_char c \<longleftrightarrow> header_token ! unat c = 1"

definition is_not_token_char :: "u8 \<Rightarrow> bool" where
  "is_not_token_char c \<longleftrightarrow> header_token ! unat c = 0"

definition is_whitespace_char :: "u8 \<Rightarrow> bool" where
  "is_whitespace_char c \<longleftrightarrow> c = 9 \<or> c = 32"

definition is_not_whitespace_char :: "u8 \<Rightarrow> bool" where
  "is_not_whitespace_char c \<longleftrightarrow> c \<noteq> 9 \<and> c \<noteq> 32"

text \<open>A status code is any \<open>int\<close>: the parser casts what it reads.\<close>

type_synonym status_code = int

definition sc_uninitialized :: status_code where "sc_uninitialized = 0"
definition sc_switching_protocols :: status_code where "sc_switching_protocols = 101"
definition sc_bad_request :: status_code where "sc_bad_request = 400"
definition sc_request_entity_too_large :: status_code where "sc_request_entity_too_large = 413"
definition sc_upgrade_required :: status_code where "sc_upgrade_required = 426"
definition sc_request_header_fields_too_large :: status_code where "sc_request_header_fields_too_large = 431"
definition sc_internal_server_error :: status_code where "sc_internal_server_error = 500"

definition status_table :: "(status_code \<times> string) list" where
  "status_table =
     [(0, ''Uninitialized''), (100, ''Continue''), (101, ''Switching Protocols''),
      (200, ''OK''), (201, ''Created''), (202, ''Accepted''), (203, ''Non Authoritative Information''),
      (204, ''No Content''), (205, ''Reset Content''), (206, ''Partial Content''),
      (300, ''Multiple Choices''), (301, ''Moved Permanently''), (302, ''Found''), (303, ''See Other''),
      (304, ''Not Modified''), (305, ''Use Proxy''), (307, ''Temporary Redirect''),
      (400, ''Bad Request''), (401, ''Unauthorized''), (402, ''Payment Required''), (403, ''Forbidden''),
      (404, ''Not Found''), (405, ''Method Not Allowed''), (406, ''Not Acceptable''),
      (407, ''Proxy Authentication Required''), (408, ''Request Timeout''), (409, ''Conflict''), (410, ''Gone''),
      (411, ''Length Required''), (412, ''Precondition Failed''), (413, ''Request Entity Too Large''),
      (414, ''Request-URI Too Long''), (415, ''Unsupported Media Type''),
      (416, ''Requested Range Not Satisfiable''), (417, ''Expectation Failed''), (418, ''I'' @ [CHR 0x27] @ ''m a teapot''),
      (426, ''Upgrade Required''), (428, ''Precondition Required''), (429, ''Too Many Requests''),
      (431, ''Request Header Fields Too Large''),
      (500, ''Internal Server Error''), (501, ''Not Implemented''), (502, ''Bad Gateway''),
      (503, ''Service Unavailable''), (504, ''Gateway Timeout''), (505, ''HTTP Version Not Supported''),
      (510, ''Not Extended''), (511, ''Network Authentication Required'')]"

definition status_string :: "status_code \<Rightarrow> bytes" where
  "status_string c = ascii (case map_of status_table c of Some s \<Rightarrow> s | None \<Rightarrow> ''Unknown'')"

record http_exception =
  he_msg :: string
  he_error_msg :: bytes
  he_body :: bytes
  he_error_code :: status_code

type_synonym 'a http = "http_exception + 'a"

definition throw :: "string \<Rightarrow> status_code \<Rightarrow> 'a http" where
  "throw msg code = Inl \<lparr>he_msg = msg, he_error_msg = [], he_body = [], he_error_code = code\<rparr>"

definition http_then :: "'a http \<Rightarrow> ('a \<Rightarrow> 'b http) \<Rightarrow> 'b http" where
  "http_then r f = (case r of Inl e \<Rightarrow> Inl e | Inr x \<Rightarrow> f x)"

lemma http_then_simps [simp]:
  "http_then (Inl e) f = Inl e"
  "http_then (Inr x) f = f x"
  "http_then (throw msg code) f = throw msg code"
  by (simp_all add: http_then_def throw_def)

lemma http_then_eq_Inr: "http_then r f = Inr y \<longleftrightarrow> (\<exists>x. r = Inr x \<and> f x = Inr y)"
  by (cases r) simp_all

lemma throw_neq [simp]: "throw msg code \<noteq> Inr x"
  by (simp add: throw_def)

subsection \<open>Tokens and white space\<close>

definition extract_token :: "bytes \<Rightarrow> bytes \<times> bytes" where
  "extract_token s = (takeWhile (\<lambda>c. \<not> is_not_token_char c) s, dropWhile (\<lambda>c. \<not> is_not_token_char c) s)"

text \<open>The loop of \<open>extract_quoted_string\<close>: \<open>s\<close> is what was collected, the list starts at \<open>marker\<close>. The
  character before \<open>marker\<close> is a quote, so an empty piece is not preceded by a backslash.\<close>

function quoted_loop :: "bytes \<Rightarrow> bytes \<Rightarrow> (bytes \<times> bytes) option" where
  "quoted_loop s rest =
     (let piece = takeWhile (\<lambda>c. c \<noteq> 34) rest; cursor = dropWhile (\<lambda>c. c \<noteq> 34) rest
      in if cursor = [] then None
         else if piece \<noteq> [] \<and> last piece = 92 then quoted_loop (s @ butlast piece @ [34]) (tl cursor)
         else Some (s @ piece, tl cursor))"
  by pat_completeness auto
termination
proof (relation "measure (\<lambda>(s, rest). length rest)", goal_cases)
  case (2 s rest piece cursor)
  then have "0 < length cursor" "length cursor \<le> length rest" by (simp_all add: length_dropWhile_le)
  then show ?case by (simp del: length_greater_0_conv)
qed simp

declare quoted_loop.simps [simp del]

definition extract_quoted_string :: "bytes \<Rightarrow> bytes \<times> bytes" where
  "extract_quoted_string s =
     (if s = [] then ([], s)
      else if hd s \<noteq> 34 then ([], s)
      else case quoted_loop [] (tl s) of Some r \<Rightarrow> r | None \<Rightarrow> ([], s))"

definition extract_lws :: "bytes \<Rightarrow> bytes" where
  "extract_lws s =
     dropWhile (\<lambda>c. \<not> is_not_whitespace_char c)
       (if length s > 2 \<and> s ! 0 = 13 \<and> s ! 1 = 10 \<and> is_whitespace_char (s ! 2) then drop 3 s else s)"

text \<open>What is left of a range is a suffix of it, so a range that changed got shorter.\<close>

lemma suffix_less: "suffix t s \<Longrightarrow> t \<noteq> s \<Longrightarrow> length t < length s"
  by (auto simp: suffix_def)

lemma extract_lws_suffix: "suffix (extract_lws s) s"
  unfolding extract_lws_def by (auto intro: suffix_dropWhile suffix_order.trans [OF suffix_dropWhile suffix_drop])

function extract_all_lws :: "bytes \<Rightarrow> bytes" where
  "extract_all_lws old_it =
     (let new_it = extract_lws old_it
      in if new_it \<noteq> [] \<and> old_it \<noteq> new_it then extract_all_lws new_it else new_it)"
  by pat_completeness auto
termination
  by (relation "measure length") (use suffix_less [OF extract_lws_suffix] in fastforce)+

declare extract_all_lws.simps [simp del]

lemma extract_all_lws_suffix: "suffix (extract_all_lws s) s"
proof (induction s rule: extract_all_lws.induct)
  case (1 s)
  then show ?case
    using extract_lws_suffix [of s] by (subst extract_all_lws.simps) (auto simp: Let_def intro: suffix_order.trans)
qed

lemma extract_token_suffix: "suffix (snd (extract_token s)) s" "fst (extract_token s) @ snd (extract_token s) = s"
  by (simp_all add: extract_token_def suffix_dropWhile)

lemma quoted_loop_suffix: "quoted_loop s rest = Some (q, c) \<Longrightarrow> suffix c rest \<and> length c < length rest"
proof (induction s rest rule: quoted_loop.induct)
  case (1 s rest)
  define piece cur where pc: "piece = takeWhile (\<lambda>c. c \<noteq> 34) rest" "cur = dropWhile (\<lambda>c. c \<noteq> 34) rest"
  have eq: "quoted_loop s rest = (if cur = [] then None
      else if piece \<noteq> [] \<and> last piece = 92 then quoted_loop (s @ butlast piece @ [34]) (tl cur)
      else Some (s @ piece, tl cur))"
    unfolding pc by (subst quoted_loop.simps) (simp only: Let_def)
  with 1(2) have "cur \<noteq> []" by (auto split: if_splits)
  then obtain y ys where "cur = y # ys" by (cases cur) auto
  moreover have "rest = piece @ cur" by (simp add: pc)
  ultimately have "suffix (tl cur) rest" "length (tl cur) < length rest" by (auto intro: suffixI [of _ "piece @ [y]"])
  then show ?case
    using 1(1) [OF pc \<open>cur \<noteq> []\<close>] 1(2) eq \<open>cur \<noteq> []\<close> by (auto split: if_splits intro: suffix_order.trans)
qed

subsection \<open>Parameter lists\<close>

type_synonym attribute_list = "(bytes, bytes) std_map"
type_synonym parameter_list = "(bytes \<times> attribute_list) list"

text \<open>\<open>m[k] = v\<close> on a \<open>std::map\<close>.\<close>

definition map_assign :: "'k::linorder \<Rightarrow> 'v \<Rightarrow> ('k, 'v) std_map \<Rightarrow> ('k, 'v) std_map" where
  "map_assign k v m = map_insert k v (map_erase k m)"

datatype 'a list_pass =
    Stop bytes 'a        \<comment> \<open>\<open>break\<close> or \<open>return\<close>, with the iterator returned\<close>
  | Next bytes 'a        \<comment> \<open>the next pass, at the iterator\<close>

text \<open>One pass of \<open>extract_attributes\<close>; \<open>start\<close> is the argument \<open>begin\<close>, which is returned on an error.\<close>

definition attribute_pass :: "bytes \<Rightarrow> bool \<Rightarrow> bytes \<Rightarrow> attribute_list \<Rightarrow> attribute_list list_pass" where
  "attribute_pass start first cursor attributes =
     (let cursor = extract_all_lws cursor
      in if cursor = [] then Stop cursor attributes
         else if \<not> first \<and> hd cursor \<noteq> 59 then Stop cursor attributes
         else
           let cursor = (if first then cursor else tl cursor);
               cursor = extract_all_lws cursor;
               (name, cursor) = extract_token cursor
           in if name = [] then Stop start attributes
              else
                let cursor = extract_all_lws cursor
                in if cursor = [] \<or> hd cursor \<noteq> 61 then Next cursor (map_assign name [] attributes)
                   else
                     let cursor = extract_all_lws (tl cursor)
                     in if cursor = [] then Stop start attributes
                        else
                          let (q, c) = extract_quoted_string cursor
                          in if c \<noteq> cursor then Next c (map_assign name q attributes)
                             else
                               let (v, c) = extract_token cursor
                               in if v = [] then Stop start attributes
                                  else Next c (map_assign name v attributes))"

lemma extract_token_less: "extract_token s = (t, c) \<Longrightarrow> t \<noteq> [] \<Longrightarrow> suffix c s \<and> length c < length s"
  using extract_token_suffix [of s] by (auto simp: suffix_def)

lemma extract_quoted_suffix: "extract_quoted_string s = (q, c) \<Longrightarrow> suffix c s"
  using quoted_loop_suffix [of "[]" "tl s" q c]
  by (auto simp: extract_quoted_string_def suffix_def split: if_splits option.splits)
    (metis append_Cons list.collapse)

lemmas range_suffix = extract_all_lws_suffix extract_quoted_suffix

lemma suffix_length_trans:
  "suffix a b \<Longrightarrow> length b < length s \<Longrightarrow> length a < length s"
  "suffix a b \<Longrightarrow> length b \<le> length s \<Longrightarrow> length a \<le> length s"
  using suffix_length_le [of a b] by simp_all

lemma attribute_pass_less:
  assumes "attribute_pass start first cursor attributes = Next c a"
  shows "length c < length cursor"
proof -
  define c1 where "c1 = extract_all_lws cursor"
  define c2 where "c2 = extract_all_lws (if first then c1 else tl c1)"
  obtain name c3 where t: "extract_token c2 = (name, c3)" by fastforce
  have 1: "length c2 \<le> length cursor"
    using suffix_length_le [OF extract_all_lws_suffix [of cursor]]
      suffix_length_le [OF extract_all_lws_suffix [of "if first then c1 else tl c1"]]
    by (simp add: c1_def c2_def split: if_splits)
  define c4 where "c4 = extract_all_lws c3"
  have name: "name \<noteq> []" using assms by (auto simp: attribute_pass_def c1_def [symmetric] c2_def [symmetric] t Let_def split: if_splits)
  then have 2: "length c4 < length cursor"
    using extract_token_less [OF t] 1 suffix_length_le [OF extract_all_lws_suffix [of c3]] by (simp add: c4_def)
  define c5 where "c5 = extract_all_lws (tl c4)"
  have 3: "length c5 \<le> length c4"
    using suffix_length_le [OF extract_all_lws_suffix [of "tl c4"]] by (simp add: c5_def)
  have cases: "c = c4 \<or> (\<exists>q. extract_quoted_string c5 = (q, c)) \<or> (\<exists>v. extract_token c5 = (v, c))"
    using assms name
    by (auto simp: attribute_pass_def c1_def [symmetric] c2_def [symmetric] t c4_def [symmetric] c5_def [symmetric] Let_def
        split: if_splits prod.splits)
  then have "length c \<le> length c4"
    using 3 extract_quoted_suffix [of c5] extract_token_suffix(1) [of c5]
    by (fastforce dest: suffix_length_le)
  with 2 show ?thesis by simp
qed

function attribute_loop :: "bytes \<Rightarrow> bool \<Rightarrow> bytes \<Rightarrow> attribute_list \<Rightarrow> bytes \<times> attribute_list" where
  "attribute_loop start first cursor attributes =
     (if cursor = [] then (cursor, attributes)
      else case attribute_pass start first cursor attributes of
             Stop c a \<Rightarrow> (c, a)
           | Next c a \<Rightarrow> attribute_loop start False c a)"
  by pat_completeness auto
termination
  by (relation "measure (\<lambda>(start, first, cursor, attributes). length cursor)") (simp_all add: attribute_pass_less)

declare attribute_loop.simps [simp del]

definition extract_attributes :: "bytes \<Rightarrow> attribute_list \<Rightarrow> bytes \<times> attribute_list" where
  "extract_attributes start attributes = attribute_loop start True start attributes"

lemma attribute_loop_le: "length cursor \<le> length start \<Longrightarrow> length (fst (attribute_loop start first cursor attributes)) \<le> length start"
proof (induction start first cursor attributes rule: attribute_loop.induct)
  case (1 start first cursor attributes)
  have "length c \<le> length start" if "attribute_pass start first cursor attributes = Stop c a" for c a
    using that "1.prems" suffix_length_le [OF extract_all_lws_suffix [of cursor]]
    by (auto simp: attribute_pass_def Let_def split: if_splits prod.splits)
  moreover have "length c \<le> length start" if "attribute_pass start first cursor attributes = Next c a" for c a
    using attribute_pass_less [OF that] "1.prems" by simp
  ultimately show ?case
    using 1 by (subst attribute_loop.simps) (auto split: list_pass.split)
qed

text \<open>One pass of \<open>extract_parameters\<close>.\<close>

definition parameter_pass :: "bytes \<Rightarrow> bytes \<Rightarrow> parameter_list \<Rightarrow> parameter_list list_pass" where
  "parameter_pass start cursor parameters =
     (let cursor = extract_all_lws cursor
      in if cursor = [] then Stop cursor parameters
         else
           let (name, cursor) = extract_token cursor
           in if name = [] then Stop start parameters
              else
                let cursor = extract_all_lws cursor
                in if cursor = [] then Stop cursor (parameters @ [(name, [])])
                   else
                     let (acursor, attributes) =
                           (if hd cursor = 59 then extract_attributes (tl cursor) [] else (cursor, []))
                     in if hd cursor = 59 \<and> acursor = tl cursor then Stop start parameters
                        else
                          let parameters = parameters @ [(name, attributes)];
                              cursor = extract_all_lws acursor
                          in if cursor = [] \<or> hd cursor \<noteq> 44 then Stop cursor parameters
                             else if tl cursor = [] then Stop start parameters
                             else Next (tl cursor) parameters)"

lemma parameter_pass_less:
  assumes "parameter_pass start cursor parameters = Next c a"
  shows "length c < length cursor"
proof -
  define c1 where "c1 = extract_all_lws cursor"
  obtain name c2 where t: "extract_token c1 = (name, c2)" by fastforce
  define c3 where "c3 = extract_all_lws c2"
  obtain ac at where ac: "(if hd c3 = 59 then extract_attributes (tl c3) [] else (c3, [])) = (ac, at)" by fastforce
  define c4 where "c4 = extract_all_lws ac"
  have *: "c3 \<noteq> []" "c4 \<noteq> []" "c = tl c4" "name \<noteq> []"
    using assms by (auto simp: parameter_pass_def c1_def [symmetric] t c3_def [symmetric] ac c4_def [symmetric] Let_def
        simp del: length_greater_0_conv split: if_splits)
  have "length ac \<le> length c3"
    using ac attribute_loop_le [of "tl c3" "tl c3" True "[]"] by (auto simp: extract_attributes_def split: if_splits)
  then have "length c4 \<le> length c3" using suffix_length_le [OF extract_all_lws_suffix [of ac]] by (simp add: c4_def)
  moreover have "length c3 < length cursor"
    using suffix_length_le [OF extract_all_lws_suffix [of c2]] suffix_length_le [OF extract_all_lws_suffix [of cursor]]
      extract_token_less [OF t \<open>name \<noteq> []\<close>] by (simp add: c1_def c3_def)
  ultimately show ?thesis using * by simp
qed

function parameter_loop :: "bytes \<Rightarrow> bytes \<Rightarrow> parameter_list \<Rightarrow> bytes \<times> parameter_list" where
  "parameter_loop start cursor parameters =
     (if cursor = [] then (cursor, parameters)
      else case parameter_pass start cursor parameters of
             Stop c ps \<Rightarrow> (c, ps)
           | Next c ps \<Rightarrow> parameter_loop start c ps)"
  by pat_completeness auto
termination
  by (relation "measure (\<lambda>(start, cursor, parameters). length cursor)") (simp_all add: parameter_pass_less)

declare parameter_loop.simps [simp del]

definition extract_parameters :: "bytes \<Rightarrow> parameter_list \<Rightarrow> bytes \<times> parameter_list" where
  "extract_parameters start parameters = parameter_loop start start parameters"

text \<open>\<open>strip_lws\<close>: white space from both ends; the second search runs backwards over the whole input.\<close>

definition strip_lws :: "bytes \<Rightarrow> bytes" where
  "strip_lws input =
     (let start = extract_all_lws input
      in if start = [] then []
         else
           let rstart = extract_all_lws (rev input)
           in if rstart = [] then []
              else take (length rstart - (length input - length start)) start)"

subsection \<open>The parser base class\<close>

datatype body_encoding = be_unknown | be_plain | be_chunked

record http_parser =
  hp_version :: bytes
  hp_headers :: header_list
  hp_header_bytes :: nat
  hp_body :: bytes
  hp_body_bytes_needed :: u64
  hp_body_bytes_max :: u64
  hp_body_encoding :: body_encoding

definition set_version :: "bytes \<Rightarrow> 'a http_parser_scheme \<Rightarrow> 'a http_parser_scheme" where
  "set_version version p = p\<lparr>hp_version := version\<rparr>"

definition get_header :: "'a http_parser_scheme \<Rightarrow> bytes \<Rightarrow> bytes" where
  "get_header p key = (case hdr_find (hp_headers p) key of None \<Rightarrow> [] | Some v \<Rightarrow> v)"

definition parse_parameter_list :: "bytes \<Rightarrow> parameter_list \<Rightarrow> bool \<times> parameter_list" where
  "parse_parameter_list i out =
     (if length i = 0 then (False, out)
      else let (it, out) = extract_parameters i out in (it = i, out))"

definition get_header_as_plist :: "'a http_parser_scheme \<Rightarrow> bytes \<Rightarrow> parameter_list \<Rightarrow> bool \<times> parameter_list" where
  "get_header_as_plist p key out =
     (case hdr_find (hp_headers p) key of
        None \<Rightarrow> (False, out)
      | Some v \<Rightarrow> if length v = 0 then (False, out) else parse_parameter_list v out)"

definition append_header :: "bytes \<Rightarrow> bytes \<Rightarrow> 'a http_parser_scheme \<Rightarrow> 'a http_parser_scheme http" where
  "append_header key val p =
     (if \<exists>c \<in> set key. is_not_token_char c then throw ''Invalid header name'' sc_bad_request
      else if get_header p key = [] then Inr (p\<lparr>hp_headers := hdr_assign key val (hp_headers p)\<rparr>)
      else Inr (p\<lparr>hp_headers := hdr_assign key (get_header p key @ ascii '', '' @ val) (hp_headers p)\<rparr>))"

definition replace_header :: "bytes \<Rightarrow> bytes \<Rightarrow> 'a http_parser_scheme \<Rightarrow> 'a http_parser_scheme" where
  "replace_header key val p = p\<lparr>hp_headers := hdr_assign key val (hp_headers p)\<rparr>"

definition remove_header :: "bytes \<Rightarrow> 'a http_parser_scheme \<Rightarrow> 'a http_parser_scheme" where
  "remove_header key p = p\<lparr>hp_headers := hdr_erase key (hp_headers p)\<rparr>"

definition set_body :: "bytes \<Rightarrow> 'a http_parser_scheme \<Rightarrow> 'a http_parser_scheme" where
  "set_body val p =
     (if length val = 0 then (remove_header (ascii ''Content-Length'') p)\<lparr>hp_body := []\<rparr>
      else (replace_header (ascii ''Content-Length'') (show_nat (length val)) p)\<lparr>hp_body := val\<rparr>)"

definition prepare_body :: "'a http_parser_scheme \<Rightarrow> (bool \<times> 'a http_parser_scheme) http" where
  "prepare_body p =
     (if get_header p (ascii ''Content-Length'') \<noteq> []
      then
        let needed = strtoul (get_header p (ascii ''Content-Length''))
        in if needed > hp_body_bytes_max p
           then throw ''HTTP message body too large'' sc_request_entity_too_large
           else Inr (True, p\<lparr>hp_body_bytes_needed := needed, hp_body_encoding := be_plain\<rparr>)
      else Inr (False, p))"

definition process_body :: "bytes \<Rightarrow> 'a http_parser_scheme \<Rightarrow> (nat \<times> 'a http_parser_scheme) http" where
  "process_body buf p =
     (if hp_body_encoding p = be_plain
      then
        let processed = min (unat (hp_body_bytes_needed p)) (length buf)
        in Inr (processed, p\<lparr>hp_body := hp_body p @ take processed buf,
                            hp_body_bytes_needed := hp_body_bytes_needed p - of_nat processed\<rparr>)
      else throw ''Unexpected body encoding'' sc_internal_server_error)"

definition body_ready :: "'a http_parser_scheme \<Rightarrow> bool" where
  "body_ready p \<longleftrightarrow> hp_body_bytes_needed p = 0"

definition process_header :: "bytes \<Rightarrow> 'a http_parser_scheme \<Rightarrow> 'a http_parser_scheme http" where
  "process_header line p =
     (let cursor = search (=) line header_separator
      in if cursor = length line then throw ''Invalid header line'' sc_bad_request
         else append_header (strip_lws (take cursor line)) (strip_lws (drop (cursor + 1) line)) p)"

definition raw_headers :: "'a http_parser_scheme \<Rightarrow> bytes" where
  "raw_headers p = concat (map (\<lambda>(k, v). k @ ascii '': '' @ v @ header_delimiter) (hp_headers p))"

subsection \<open>Responses\<close>

datatype response_state = RESPONSE_LINE | HEADERS | BODY | DONE

record http_response = http_parser +
  rs_status_msg :: bytes
  rs_read :: u64
  rs_buf :: bytes
  rs_status_code :: status_code
  rs_state :: response_state

definition response_init :: http_response where
  "response_init =
     \<lparr>hp_version = [], hp_headers = [], hp_header_bytes = 0, hp_body = [], hp_body_bytes_needed = 0,
      hp_body_bytes_max = max_body_size, hp_body_encoding = be_unknown,
      rs_status_msg = [], rs_read = 0, rs_buf = [], rs_status_code = sc_uninitialized, rs_state = RESPONSE_LINE\<rparr>"

definition response_ready :: "http_response \<Rightarrow> bool" where
  "response_ready r \<longleftrightarrow> rs_state r = DONE"

definition headers_ready :: "http_response \<Rightarrow> bool" where
  "headers_ready r \<longleftrightarrow> rs_state r = BODY \<or> rs_state r = DONE"

definition set_status :: "status_code \<Rightarrow> http_response \<Rightarrow> http_response" where
  "set_status code r = r\<lparr>rs_status_code := code, rs_status_msg := status_string code\<rparr>"

definition set_status_msg :: "status_code \<Rightarrow> bytes \<Rightarrow> http_response \<Rightarrow> http_response" where
  "set_status_msg code msg r = r\<lparr>rs_status_code := code, rs_status_msg := msg\<rparr>"

text \<open>The words of a line: before the first space, and after it if there is one.\<close>

definition first_word :: "bytes \<Rightarrow> (bytes \<times> bytes) option" where
  "first_word s =
     (let cursor_end = dropWhile (\<lambda>c. c \<noteq> 32) s
      in if cursor_end = [] then None else Some (takeWhile (\<lambda>c. c \<noteq> 32) s, tl cursor_end))"

definition response_process :: "bytes \<Rightarrow> http_response \<Rightarrow> http_response http" where
  "response_process line r =
     (case first_word line of
        None \<Rightarrow> throw ''Invalid response line'' sc_bad_request
      | Some (version, rest) \<Rightarrow>
          let r = set_version version r
          in case first_word rest of
               None \<Rightarrow> throw ''Invalid request line'' sc_bad_request
             | Some (number, msg) \<Rightarrow>
                 (case read_int number of
                    None \<Rightarrow> throw ''Unable to parse response code'' sc_bad_request
                  | Some code \<Rightarrow> Inr (set_status_msg code msg r)))"

definition response_process_body :: "bytes \<Rightarrow> http_response \<Rightarrow> nat \<times> http_response" where
  "response_process_body buf r =
     (if rs_read r = 0 then (0, r\<lparr>rs_state := DONE\<rparr>)
      else
        let (to_read, r) =
              (if length buf \<ge> unat (rs_read r) then (unat (rs_read r), r\<lparr>rs_state := DONE\<rparr>)
               else (length buf, r))
        in (to_read, r\<lparr>hp_body := hp_body r @ take to_read buf, rs_read := rs_read r - of_nat to_read\<rparr>))"

text \<open>The blank line after the headers. \<open>rest\<close> is the part of \<open>m_buf\<close> that starts with it.\<close>

definition response_blank :: "bytes \<Rightarrow> bytes \<Rightarrow> http_response \<Rightarrow> (nat \<times> http_response) http" where
  "response_blank buf rest r =
     (if rs_state r = RESPONSE_LINE then throw ''Incomplete Request'' sc_bad_request
      else
        let len = get_header r (ascii ''Content-Length'')
        in case (if len = [] then Some 0 else read_size len) of
             None \<Rightarrow> throw ''Unable to parse Content-Length header'' sc_bad_request
           | Some n \<Rightarrow>
               let r = r\<lparr>rs_read := n, rs_state := BODY\<rparr>;
                   read = length buf + 2 - length rest;
                   (body, r) = (if read < length buf then response_process_body (drop read buf) r else (0, r))
               in Inr (read + body, r\<lparr>rs_buf := []\<rparr>))"

text \<open>The loop over the lines in \<open>m_buf\<close>; \<open>rest\<close> starts at \<open>begin\<close>, \<open>n\<close> is \<open>end - begin\<close>.\<close>

function response_lines :: "bytes \<Rightarrow> bytes \<Rightarrow> http_response \<Rightarrow> (nat \<times> http_response) http" where
  "response_lines buf rest r =
     (let n = search (=) rest header_delimiter;
          r = r\<lparr>hp_header_bytes := hp_header_bytes r + (n + 3)\<rparr>
      in if hp_header_bytes r > max_header_size
         then throw ''Maximum header size exceeded.'' sc_request_header_fields_too_large
         else if n = length rest
         then Inr (length buf, r\<lparr>rs_buf := rest, rs_read := rs_read r + of_nat (length buf),
                               hp_header_bytes := hp_header_bytes r - length rest\<rparr>)
         else if n = 0 then response_blank buf rest r
         else
           case (if rs_state r = RESPONSE_LINE
                 then http_then (response_process (take n rest) r) (\<lambda>r. Inr (r\<lparr>rs_state := HEADERS\<rparr>))
                 else process_header (take n rest) r) of
             Inl e \<Rightarrow> Inl e
           | Inr r \<Rightarrow> response_lines buf (drop (n + 2) rest) r)"
  by pat_completeness auto
termination
proof (relation "measure (\<lambda>(buf, rest, r). length rest)", goal_cases)
  case (2 buf rest r n)
  then have "0 < length rest" using search_le [of "(=)" rest header_delimiter] by (cases rest) auto
  then show ?case by (simp add: diff_less)
qed simp

declare response_lines.simps [simp del]

definition response_consume :: "bytes \<Rightarrow> http_response \<Rightarrow> (nat \<times> http_response) http" where
  "response_consume buf r =
     (case rs_state r of
        DONE \<Rightarrow> Inr (0, r)
      | BODY \<Rightarrow> Inr (response_process_body buf r)
      | _ \<Rightarrow> response_lines buf (rs_buf r @ buf) r)"

definition response_raw :: "http_response \<Rightarrow> bytes" where
  "response_raw r =
     hp_version r @ ascii '' '' @ show_int (rs_status_code r) @ ascii '' '' @ rs_status_msg r @
     header_delimiter @ raw_headers r @ header_delimiter @ hp_body r"

subsection \<open>Requests\<close>

record http_request = http_parser +
  rq_buf :: bytes
  rq_method :: bytes
  rq_uri :: bytes
  rq_ready :: bool

definition request_init :: http_request where
  "request_init =
     \<lparr>hp_version = [], hp_headers = [], hp_header_bytes = 0, hp_body = [], hp_body_bytes_needed = 0,
      hp_body_bytes_max = max_body_size, hp_body_encoding = be_unknown,
      rq_buf = [], rq_method = [], rq_uri = [], rq_ready = False\<rparr>"

definition set_method :: "bytes \<Rightarrow> http_request \<Rightarrow> http_request http" where
  "set_method m r =
     (if \<exists>c \<in> set m. is_not_token_char c then throw ''Invalid method token.'' sc_bad_request
      else Inr (r\<lparr>rq_method := m\<rparr>))"

definition set_uri :: "bytes \<Rightarrow> http_request \<Rightarrow> http_request" where
  "set_uri u r = r\<lparr>rq_uri := u\<rparr>"

definition request_process :: "bytes \<Rightarrow> http_request \<Rightarrow> http_request http" where
  "request_process line r =
     (case first_word line of
        None \<Rightarrow> throw ''Invalid request line1'' sc_bad_request
      | Some (m, rest) \<Rightarrow>
          http_then (set_method m r)
            (\<lambda>r. case first_word rest of
                   None \<Rightarrow> throw ''Invalid request line2'' sc_bad_request
                 | Some (u, version) \<Rightarrow> Inr (set_version version (set_uri u r))))"

definition request_body :: "bytes \<Rightarrow> http_request \<Rightarrow> (nat \<times> http_request) http" where
  "request_body buf r =
     http_then (process_body buf r)
       (\<lambda>(n, r). Inr (n, if body_ready r then r\<lparr>rq_ready := True\<rparr> else r))"

definition request_blank :: "bytes \<Rightarrow> bytes \<Rightarrow> http_request \<Rightarrow> (nat \<times> http_request) http" where
  "request_blank buf rest r =
     (if rq_method r = [] \<or> get_header r (ascii ''Host'') = [] then throw ''Incomplete Request'' sc_bad_request
      else
        let bytes_processed = length buf + 2 - length rest;
            r = r\<lparr>rq_buf := []\<rparr>
        in http_then (prepare_body r)
             (\<lambda>(more, r).
                if more
                then http_then (request_body (drop bytes_processed buf) r) (\<lambda>(n, r). Inr (bytes_processed + n, r))
                else Inr (bytes_processed, r\<lparr>rq_ready := True\<rparr>)))"

function request_lines :: "bytes \<Rightarrow> bytes \<Rightarrow> http_request \<Rightarrow> (nat \<times> http_request) http" where
  "request_lines buf rest r =
     (let n = search (=) rest header_delimiter;
          r = r\<lparr>hp_header_bytes := hp_header_bytes r + (n + 3)\<rparr>
      in if hp_header_bytes r > max_header_size
         then throw ''Maximum header size exceeded.'' sc_request_header_fields_too_large
         else if n = length rest
         then Inr (length buf, r\<lparr>rq_buf := rest, hp_header_bytes := hp_header_bytes r - length rest\<rparr>)
         else if n = 0 then request_blank buf rest r
         else
           case (if rq_method r = [] then request_process (take n rest) r else process_header (take n rest) r) of
             Inl e \<Rightarrow> Inl e
           | Inr r \<Rightarrow> request_lines buf (drop (n + 2) rest) r)"
  by pat_completeness auto
termination
proof (relation "measure (\<lambda>(buf, rest, r). length rest)", goal_cases)
  case (2 buf rest r n)
  then have "0 < length rest" using search_le [of "(=)" rest header_delimiter] by (cases rest) auto
  then show ?case by (simp add: diff_less)
qed simp

declare request_lines.simps [simp del]

definition request_consume :: "bytes \<Rightarrow> http_request \<Rightarrow> (nat \<times> http_request) http" where
  "request_consume buf r =
     (if rq_ready r then Inr (0, r)
      else if hp_body_bytes_needed r > 0 then request_body buf r
      else request_lines buf (rq_buf r @ buf) r)"

definition request_raw_head :: "http_request \<Rightarrow> bytes" where
  "request_raw_head r =
     rq_method r @ ascii '' '' @ rq_uri r @ ascii '' '' @ hp_version r @ header_delimiter @
     raw_headers r @ header_delimiter"

definition request_raw :: "http_request \<Rightarrow> bytes" where
  "request_raw r =
     rq_method r @ ascii '' '' @ rq_uri r @ ascii '' '' @ hp_version r @ header_delimiter @
     raw_headers r @ header_delimiter @ hp_body r"

end
