(* ===== verification/Ws_Http_Lines.thy ===== *)
theory Ws_Http_Lines
  imports Ws_Http
begin

section \<open>What HTTP messages print, they parse\<close>

text \<open>
  The raw text of a request or a response is read back by the corresponding parser: the request line or status
  line, then every header, then the end of the headers with the number of bytes used. The conditions are those
  the format itself needs: names are tokens, values contain no carriage return and have no white space at their ends.
  The theory ends with the limit on the size of the headers, which the code counts differently when the text
  arrives in pieces.
\<close>

subsection \<open>Characters\<close>

definition token_code :: "nat \<Rightarrow> bool" where
  "token_code c \<longleftrightarrow> 33 \<le> c \<and> c < 127 \<and> c \<notin> {34, 40, 41, 44, 47, 58, 59, 60, 61, 62, 63, 64, 91, 92, 93, 123, 125}"

lemma header_token_codes: "map (\<lambda>c. if token_code c then 1 else 0) [0..<256] = header_token"
  by (simp add: token_code_def header_token_def upt_conv_Cons [of 0] upt_conv_Cons [of "Suc 0"] Suc_1 [unfolded One_nat_def])

lemma is_not_token_char_iff: "is_not_token_char c \<longleftrightarrow> \<not> token_code (unat c)"
proof -
  have "unat c < 256" using unat_bounds(1) [of c] by simp
  then have "header_token ! unat c = (if token_code (unat c) then 1 else 0)"
    by (subst header_token_codes [symmetric]) simp
  then show ?thesis by (simp add: is_not_token_char_def)
qed

definition token :: "bytes \<Rightarrow> bool" where
  "token k \<longleftrightarrow> k \<noteq> [] \<and> (\<forall>c \<in> set k. token_code (unat c))"

definition edge_free :: "bytes \<Rightarrow> bool" where
  "edge_free v \<longleftrightarrow> v \<noteq> [] \<longrightarrow> hd v \<notin> {9, 32} \<and> last v \<notin> {9, 32}"

definition plain :: "bytes \<Rightarrow> bool" where
  "plain v \<longleftrightarrow> 13 \<notin> set v \<and> edge_free v"

lemma token_not_in:
  assumes "token k"
  shows "13 \<notin> set k" "58 \<notin> set k" "32 \<notin> set k" "9 \<notin> set k"
  using assms by (force simp: token_def token_code_def)+

lemma token_plain: "token k \<Longrightarrow> plain k"
  using token_not_in [of k] by (auto simp: plain_def edge_free_def dest: hd_in_set last_in_set)

lemma token_ascii: "token (ascii s) \<longleftrightarrow> s \<noteq> [] \<and> (\<forall>c \<in> set s. token_code (of_char c))"
proof -
  have "unat (of_char c :: u8) = of_char c" for c
    by (cases c) simp
  then show ?thesis by (auto simp: token_def ascii_def)
qed

subsection \<open>White space around a value\<close>

lemma extract_lws_id: "s \<noteq> [] \<Longrightarrow> hd s \<notin> {9, 32, 13} \<Longrightarrow> extract_lws s = s"
  by (cases s) (auto simp: extract_lws_def is_not_whitespace_char_def)

lemma extract_all_lws_id: "s \<noteq> [] \<Longrightarrow> hd s \<notin> {9, 32, 13} \<Longrightarrow> extract_all_lws s = s"
  by (subst extract_all_lws.simps) (simp add: extract_lws_id)

lemma extract_all_lws_Nil [simp]: "extract_all_lws [] = []"
  by (subst extract_all_lws.simps) (simp add: extract_lws_def)

lemma extract_all_lws_space: "s \<noteq> [] \<Longrightarrow> hd s \<notin> {9, 32, 13} \<Longrightarrow> extract_all_lws (32 # s) = s"
  by (subst extract_all_lws.simps, cases s)
    (auto simp: extract_lws_def is_not_whitespace_char_def extract_all_lws_id)

lemma extract_all_lws_blank [simp]: "extract_all_lws [32] = []"
  by (subst extract_all_lws.simps) (simp add: extract_lws_def is_not_whitespace_char_def)

lemma plain_edges:
  assumes "plain v" and "v \<noteq> []"
  shows "hd v \<notin> {9, 32, 13}" and "last v \<notin> {9, 32, 13}"
proof -
  have "hd v \<noteq> 13" "last v \<noteq> 13"
    using assms by (metis hd_in_set plain_def) (metis assms last_in_set plain_def)
  then show "hd v \<notin> {9, 32, 13}" "last v \<notin> {9, 32, 13}"
    using assms by (simp_all add: plain_def edge_free_def)
qed

lemma strip_lws_plain: "plain v \<Longrightarrow> strip_lws v = v"
proof (cases "v = []")
  case False
  assume "plain v"
  then have "hd v \<notin> {9, 32, 13}" "hd (rev v) \<notin> {9, 32, 13}"
    using False plain_edges [of v] by (simp_all add: hd_rev)
  then show ?thesis using False by (simp add: strip_lws_def extract_all_lws_id)
qed (simp add: strip_lws_def)

lemma strip_lws_space: "plain v \<Longrightarrow> strip_lws (32 # v) = v"
proof (cases "v = []")
  case False
  assume "plain v"
  then have "hd v \<notin> {9, 32, 13}" "hd (rev v @ [32]) \<notin> {9, 32, 13}"
    using False plain_edges [of v] by (simp_all add: hd_append hd_rev)
  then show ?thesis using False extract_all_lws_id [of "rev v @ [32]"] by (simp add: strip_lws_def extract_all_lws_space)
qed (simp add: strip_lws_def)

subsection \<open>Header lines\<close>

definition header_line :: "bytes \<times> bytes \<Rightarrow> bytes" where
  "header_line = (\<lambda>(k, v). k @ ascii '': '' @ v)"

definition good_header :: "bytes \<times> bytes \<Rightarrow> bool" where
  "good_header = (\<lambda>(k, v). token k \<and> plain v)"

lemma raw_headers_lines: "raw_headers p = concat (map (\<lambda>h. header_line h @ header_delimiter) (hp_headers p))"
  by (simp add: raw_headers_def header_line_def case_prod_unfold)

lemma find_delimiter: "13 \<notin> set line \<Longrightarrow> search (=) (line @ header_delimiter @ rest) header_delimiter = length line"
  by (simp add: header_delimiter_def search_not_first search_found)

lemma hdr_assign_last: "\<forall>x \<in> set m. ci_less (fst x) k \<Longrightarrow> hdr_assign k v m = m @ [(k, v)]"
  by (induction m) (auto simp: ci_less_lower)

lemma hdr_find_above: "\<forall>x \<in> set m. ci_less (fst x) k \<Longrightarrow> hdr_find m k = None"
  by (induction m) (auto simp: ci_same_def)

lemma process_header_line:
  assumes "good_header (k, v)" and "\<forall>x \<in> set (hp_headers p). ci_less (fst x) k"
  shows "process_header (header_line (k, v)) p = Inr (p\<lparr>hp_headers := hp_headers p @ [(k, v)]\<rparr>)"
proof -
  have k: "token k" and v: "plain v" using assms(1) by (simp_all add: good_header_def)
  have "search (=) (k @ 58 # 32 # v) header_separator = length k"
    using token_not_in(2) [OF k] by (simp add: header_separator_def search_not_first search_found)
  moreover have "\<not> (\<exists>c \<in> set k. is_not_token_char c)"
    using k by (simp add: token_def is_not_token_char_iff)
  moreover have "get_header p k = []" using hdr_find_above [OF assms(2)] by (simp add: get_header_def)
  ultimately show ?thesis
    using strip_lws_plain [OF token_plain [OF k]] strip_lws_space [OF v] hdr_assign_last [OF assms(2), of v]
    by (simp add: process_header_def header_line_def append_header_def)
qed

lemma header_line_plain: "good_header h \<Longrightarrow> 13 \<notin> set (header_line h) \<and> header_line h \<noteq> []"
  using token_not_in(1) [of "fst h"] by (cases h) (auto simp: good_header_def header_line_def plain_def token_def)

text \<open>The bytes the code counts for a list of lines: two for the delimiter and one for its null character.\<close>

definition counted :: "bytes list \<Rightarrow> nat" where
  "counted ls = (\<Sum>l\<leftarrow>ls. length l + 3)"

lemma hdr_wf_append_Cons:
  "hdr_wf (m @ (k, v) # m') \<Longrightarrow> (\<forall>x \<in> set m. ci_less (fst x) k) \<and> hdr_wf ((m @ [(k, v)]) @ m')"
  by (auto simp: hdr_wf_def sorted_wrt_append)

subsection \<open>Responses\<close>

lemma delimiter_length [simp]: "length header_delimiter = 2"
  by (simp add: header_delimiter_def)

lemma after_delimiter: "drop (length line + 2) (line @ header_delimiter @ t) = t"
  by (simp add: header_delimiter_def)

lemma response_line_step:
  assumes "13 \<notin> set line" and "line \<noteq> []" and "hp_header_bytes r + (length line + 3) \<le> max_header_size"
  defines "r1 \<equiv> r\<lparr>hp_header_bytes := hp_header_bytes r + (length line + 3)\<rparr>"
  shows "response_lines buf (line @ header_delimiter @ t) r =
    (case (if rs_state r = RESPONSE_LINE
           then http_then (response_process line r1) (\<lambda>r. Inr (r\<lparr>rs_state := HEADERS\<rparr>))
           else process_header line r1) of
       Inl e \<Rightarrow> Inl e
     | Inr r \<Rightarrow> response_lines buf t r)"
  using assms(2,3) unfolding r1_def
  by (subst response_lines.simps) (simp add: find_delimiter [OF assms(1)] after_delimiter Let_def cong: sum.case_cong)

lemma response_header_lines:
  assumes "rs_state r = HEADERS" and "\<forall>h \<in> set m. good_header h" and "hdr_wf (hp_headers r @ m)"
    and "hp_header_bytes r + counted (map header_line m) \<le> max_header_size"
  shows "response_lines buf (concat (map (\<lambda>h. header_line h @ header_delimiter) m) @ rest) r =
    response_lines buf rest (r\<lparr>hp_headers := hp_headers r @ m,
      hp_header_bytes := hp_header_bytes r + counted (map header_line m)\<rparr>)"
  using assms
proof (induction m arbitrary: r)
  case Nil
  then show ?case by (simp add: counted_def)
next
  case (Cons h m)
  obtain k v where h: "h = (k, v)" by (cases h)
  let ?line = "header_line h"
  let ?r1 = "r\<lparr>hp_header_bytes := hp_header_bytes r + (length ?line + 3)\<rparr>"
  have line: "13 \<notin> set ?line" "?line \<noteq> []" using header_line_plain Cons.prems(2) by auto
  have low: "\<forall>x \<in> set (hp_headers r). ci_less (fst x) k" and wf: "hdr_wf ((hp_headers r @ [h]) @ m)"
    using hdr_wf_append_Cons Cons.prems(3) unfolding h by blast+
  have ph: "process_header ?line ?r1 = Inr (?r1\<lparr>hp_headers := hp_headers r @ [h]\<rparr>)"
    using process_header_line [of k v ?r1] low Cons.prems(2) by (simp add: h)
  have "response_lines buf (?line @ header_delimiter @ t) r = response_lines buf t (?r1\<lparr>hp_headers := hp_headers r @ [h]\<rparr>)" for t
    using Cons.prems(1,4) ph by (subst response_line_step [OF line]) (simp_all add: counted_def)
  then show ?case
    using Cons.IH [of "?r1\<lparr>hp_headers := hp_headers r @ [h]\<rparr>"] Cons.prems wf by (simp add: counted_def add.assoc)
qed

lemma digit_not: "is_digit c \<Longrightarrow> c \<noteq> 13 \<and> c \<noteq> 32 \<and> \<not> is_space c \<and> c \<noteq> of_char CHR ''-'' \<and> c \<noteq> of_char CHR ''+''"
  by (auto simp: is_digit_def is_space_def word_le_nat_alt)

lemma scan_show_nat: "scan_number (show_nat n) = Some (False, n)"
proof -
  obtain d ds where s: "show_nat n = d # ds" using show_nat_digits [of n] by (cases "show_nat n") auto
  have dig: "\<forall>c \<in> set (d # ds). is_digit c" using show_nat_digits [of n] by (simp add: s)
  then have tw: "takeWhile is_digit ds = ds" by (simp add: takeWhile_eq_all_conv)
  show ?thesis
    using dig digit_not [of d] show_nat_digits [of n]
    by (simp only: scan_number_def s Let_def) (simp add: tw)
qed

lemma read_int_show: "0 \<le> i \<Longrightarrow> i < 2 ^ 31 \<Longrightarrow> read_int (show_int i) = Some i"
  by (simp add: show_int_def read_int_def scan_show_nat)

lemma show_int_digits: "0 \<le> i \<Longrightarrow> \<forall>c \<in> set (show_int i). is_digit c"
  using show_nat_digits by (simp add: show_int_def)

lemma first_word_append: "32 \<notin> set w \<Longrightarrow> first_word (w @ 32 # rest) = Some (w, rest)"
  by (auto simp: first_word_def takeWhile_append dropWhile_append)

definition status_line :: "http_response \<Rightarrow> bytes" where
  "status_line r = hp_version r @ 32 # show_int (rs_status_code r) @ 32 # rs_status_msg r"

text \<open>A response that can be printed.\<close>

definition printable_response :: "http_response \<Rightarrow> bool" where
  "printable_response r \<longleftrightarrow>
     13 \<notin> set (hp_version r) \<and> 32 \<notin> set (hp_version r) \<and> 0 \<le> rs_status_code r \<and> rs_status_code r < 2 ^ 31 \<and>
     13 \<notin> set (rs_status_msg r) \<and> (\<forall>h \<in> set (hp_headers r). good_header h) \<and> hdr_wf (hp_headers r) \<and>
     counted (status_line r # map header_line (hp_headers r) @ [[]]) \<le> max_header_size"

lemma response_process_line:
  assumes "32 \<notin> set (hp_version r)" and "0 \<le> rs_status_code r" "rs_status_code r < 2 ^ 31"
  shows "response_process (status_line r) q =
    Inr (q\<lparr>hp_version := hp_version r, rs_status_code := rs_status_code r, rs_status_msg := rs_status_msg r\<rparr>)"
proof -
  have "32 \<notin> set (show_int (rs_status_code r))" using show_int_digits [OF assms(2)] digit_not by auto
  then show ?thesis
    using assms by (simp add: response_process_def status_line_def first_word_append read_int_show set_version_def set_status_msg_def)
qed

lemma response_raw_lines:
  "response_raw r = status_line r @ header_delimiter @
     concat (map (\<lambda>h. header_line h @ header_delimiter) (hp_headers r)) @ header_delimiter @ hp_body r"
  by (simp add: response_raw_def status_line_def raw_headers_lines)

lemma response_printed:
  assumes "printable_response r"
  defines "n \<equiv> counted (status_line r # map header_line (hp_headers r))"
  shows "response_lines buf (response_raw r @ rest) response_init =
    response_lines buf (header_delimiter @ hp_body r @ rest)
      (response_init\<lparr>hp_version := hp_version r, hp_headers := hp_headers r, hp_header_bytes := n,
        rs_status_code := rs_status_code r, rs_status_msg := rs_status_msg r, rs_state := HEADERS\<rparr>)"
proof -
  have line: "13 \<notin> set (status_line r)" "status_line r \<noteq> []"
    using assms(1) show_int_digits [of "rs_status_code r"] digit_not
    by (auto simp: printable_response_def status_line_def)
  have proc: "response_process (status_line r) q =
      Inr (q\<lparr>hp_version := hp_version r, rs_status_code := rs_status_code r, rs_status_msg := rs_status_msg r\<rparr>)" for q
    using assms(1) response_process_line by (simp add: printable_response_def)
  show ?thesis
    unfolding response_raw_lines
    using assms(1) line
    by (simp add: printable_response_def response_line_step proc response_header_lines counted_def n_def response_init_def)
qed

text \<open>The header and the body agree: no body and no length, or the length of the body.\<close>

definition content_ok :: "'a http_parser_scheme \<Rightarrow> bool" where
  "content_ok p \<longleftrightarrow>
     (let l = get_header p (ascii ''Content-Length'')
      in if hp_body p = [] then l = [] else l = show_nat (length (hp_body p)) \<and> length (hp_body p) < 2 ^ 64)"

lemma search_delimiter_here: "search (=) (header_delimiter @ t) header_delimiter = 0"
  by (simp add: header_delimiter_def)

lemma response_blank_content:
  assumes "content_ok p" and "rs_state r = HEADERS" and "hp_headers r = hp_headers p" and "hp_body r = []"
    and "length buf = k + length (hp_body p @ rest)" and "drop k buf = hp_body p @ rest"
  shows "\<exists>st. response_blank buf (header_delimiter @ hp_body p @ rest) r =
      Inr (k + length (hp_body p), r\<lparr>rs_read := 0, rs_state := st, rs_buf := [], hp_body := hp_body p\<rparr>) \<and> (st = BODY \<or> st = DONE)"
proof -
  have eq: "get_header r = get_header p" by (simp add: fun_eq_iff get_header_def assms(3))
  have k: "length buf + 2 - length (header_delimiter @ hp_body p @ rest) = k" using assms(5) by simp
  show ?thesis
  proof (cases "hp_body p = []")
    case True
    then have "get_header r (ascii ''Content-Length'') = []" using assms(1) by (simp add: content_ok_def eq Let_def)
    then show ?thesis
      unfolding response_blank_def Let_def k
      using assms(2,4) True by (intro exI [of _ "if k < length buf then DONE else BODY"]) (simp add: response_process_body_def)
  next
    case False
    then have l: "get_header r (ascii ''Content-Length'') = show_nat (length (hp_body p))" "length (hp_body p) < 2 ^ 64"
      using assms(1) by (simp_all add: content_ok_def eq Let_def)
    then have n: "read_size (get_header r (ascii ''Content-Length'')) = Some (of_nat (length (hp_body p)))"
      by (simp add: read_size_def scan_show_nat)
    have u: "unat (of_nat (length (hp_body p)) :: u64) = length (hp_body p)"
      using l(2) by (simp add: unat_of_nat)
    then have "(of_nat (length (hp_body p)) :: u64) \<noteq> 0" using False by (metis length_0_conv unat_0)
    moreover have "get_header r (ascii ''Content-Length'') \<noteq> []" using l(1) show_nat_digits by simp
    moreover have "k < length buf" using False assms(5) by simp
    ultimately show ?thesis
      unfolding response_blank_def Let_def k
      using assms(2,4,6) n u by (intro exI [of _ DONE]) (simp add: response_process_body_def)
  qed
qed

lemma response_roundtrip:
  assumes "printable_response r" and "content_ok r"
  shows "\<exists>st. response_consume (response_raw r @ rest) response_init =
    Inr (length (response_raw r), response_init\<lparr>hp_version := hp_version r, hp_headers := hp_headers r,
      hp_header_bytes := counted (status_line r # map header_line (hp_headers r) @ [[]]), hp_body := hp_body r,
      rs_status_code := rs_status_code r, rs_status_msg := rs_status_msg r, rs_state := st\<rparr>) \<and> (st = BODY \<or> st = DONE)"
proof -
  let ?buf = "response_raw r @ rest"
  define r1 where "r1 = response_init\<lparr>hp_version := hp_version r, hp_headers := hp_headers r,
      hp_header_bytes := counted (status_line r # map header_line (hp_headers r) @ [[]]),
      rs_status_code := rs_status_code r, rs_status_msg := rs_status_msg r, rs_state := HEADERS\<rparr>"
  obtain hd where raw: "response_raw r = hd @ hp_body r" unfolding response_raw_lines by (metis append.assoc)
  have fit: "counted (status_line r # map header_line (hp_headers r)) + 3 \<le> max_header_size"
    using assms(1) by (simp add: printable_response_def counted_def)
  have "response_consume ?buf response_init = response_blank ?buf (header_delimiter @ hp_body r @ rest) r1"
    unfolding response_consume_def
    using response_printed [OF assms(1), of ?buf rest] fit
    by (simp add: response_init_def) (subst response_lines.simps, simp add: search_delimiter_here Let_def r1_def response_init_def counted_def)
  moreover have "\<exists>st. response_blank ?buf (header_delimiter @ hp_body r @ rest) r1 =
      Inr (length hd + length (hp_body r), r1\<lparr>rs_read := 0, rs_state := st, rs_buf := [], hp_body := hp_body r\<rparr>) \<and> (st = BODY \<or> st = DONE)"
    by (rule response_blank_content [OF assms(2)]) (simp_all add: r1_def response_init_def raw)
  ultimately show ?thesis by (auto simp: r1_def response_init_def raw)
qed

subsection \<open>Requests\<close>

lemma request_line_step:
  assumes "13 \<notin> set line" and "line \<noteq> []" and "hp_header_bytes r + (length line + 3) \<le> max_header_size"
  defines "r1 \<equiv> r\<lparr>hp_header_bytes := hp_header_bytes r + (length line + 3)\<rparr>"
  shows "request_lines buf (line @ header_delimiter @ t) r =
    (case (if rq_method r = [] then request_process line r1 else process_header line r1) of
       Inl e \<Rightarrow> Inl e
     | Inr r \<Rightarrow> request_lines buf t r)"
  using assms(2,3) unfolding r1_def
  by (subst request_lines.simps) (simp add: find_delimiter [OF assms(1)] after_delimiter Let_def cong: sum.case_cong)

lemma request_header_lines:
  assumes "rq_method r \<noteq> []" and "\<forall>h \<in> set m. good_header h" and "hdr_wf (hp_headers r @ m)"
    and "hp_header_bytes r + counted (map header_line m) \<le> max_header_size"
  shows "request_lines buf (concat (map (\<lambda>h. header_line h @ header_delimiter) m) @ rest) r =
    request_lines buf rest (r\<lparr>hp_headers := hp_headers r @ m,
      hp_header_bytes := hp_header_bytes r + counted (map header_line m)\<rparr>)"
  using assms
proof (induction m arbitrary: r)
  case Nil
  then show ?case by (simp add: counted_def)
next
  case (Cons h m)
  obtain k v where h: "h = (k, v)" by (cases h)
  let ?line = "header_line h"
  let ?r1 = "r\<lparr>hp_header_bytes := hp_header_bytes r + (length ?line + 3)\<rparr>"
  have line: "13 \<notin> set ?line" "?line \<noteq> []" using header_line_plain Cons.prems(2) by auto
  have low: "\<forall>x \<in> set (hp_headers r). ci_less (fst x) k" and wf: "hdr_wf ((hp_headers r @ [h]) @ m)"
    using hdr_wf_append_Cons Cons.prems(3) unfolding h by blast+
  have ph: "process_header ?line ?r1 = Inr (?r1\<lparr>hp_headers := hp_headers r @ [h]\<rparr>)"
    using process_header_line [of k v ?r1] low Cons.prems(2) by (simp add: h)
  have "request_lines buf (?line @ header_delimiter @ t) r = request_lines buf t (?r1\<lparr>hp_headers := hp_headers r @ [h]\<rparr>)" for t
    using Cons.prems(1,4) ph by (subst request_line_step [OF line]) (simp_all add: counted_def)
  then show ?case
    using Cons.IH [of "?r1\<lparr>hp_headers := hp_headers r @ [h]\<rparr>"] Cons.prems wf by (simp add: counted_def add.assoc)
qed

definition request_line :: "http_request \<Rightarrow> bytes" where
  "request_line r = rq_method r @ 32 # rq_uri r @ 32 # hp_version r"

text \<open>A request that can be printed: it has a method and a host, and no body.\<close>

definition printable_request :: "http_request \<Rightarrow> bool" where
  "printable_request r \<longleftrightarrow>
     token (rq_method r) \<and> 13 \<notin> set (rq_uri r) \<and> 32 \<notin> set (rq_uri r) \<and> 13 \<notin> set (hp_version r) \<and>
     (\<forall>h \<in> set (hp_headers r). good_header h) \<and> hdr_wf (hp_headers r) \<and>
     get_header r (ascii ''Host'') \<noteq> [] \<and> get_header r (ascii ''Content-Length'') = [] \<and> hp_body r = [] \<and>
     counted (request_line r # map header_line (hp_headers r) @ [[]]) \<le> max_header_size"

lemma request_process_line:
  assumes "printable_request r"
  shows "request_process (request_line r) q =
    Inr (q\<lparr>rq_method := rq_method r, rq_uri := rq_uri r, hp_version := hp_version r\<rparr>)"
proof -
  have "\<not> (\<exists>c \<in> set (rq_method r). is_not_token_char c)" "32 \<notin> set (rq_method r)" "32 \<notin> set (rq_uri r)"
    using assms token_not_in(3) [of "rq_method r"] by (auto simp: printable_request_def token_def is_not_token_char_iff)
  then show ?thesis
    by (simp add: request_process_def request_line_def first_word_append set_method_def set_uri_def set_version_def)
qed

lemma request_roundtrip:
  assumes "printable_request r"
  shows "request_consume (request_raw r @ rest) request_init =
    Inr (length (request_raw r), request_init\<lparr>hp_version := hp_version r, hp_headers := hp_headers r,
      hp_header_bytes := counted (request_line r # map header_line (hp_headers r) @ [[]]),
      rq_method := rq_method r, rq_uri := rq_uri r, rq_ready := True\<rparr>)"
proof -
  let ?buf = "request_raw r @ rest"
  define r1 where "r1 = request_init\<lparr>hp_version := hp_version r, hp_headers := hp_headers r,
      hp_header_bytes := counted (request_line r # map header_line (hp_headers r) @ [[]]),
      rq_method := rq_method r, rq_uri := rq_uri r\<rparr>"
  have raw: "request_raw r = request_line r @ header_delimiter @
      concat (map (\<lambda>h. header_line h @ header_delimiter) (hp_headers r)) @ header_delimiter"
    using assms by (simp add: request_raw_def request_line_def raw_headers_lines printable_request_def)
  have line: "13 \<notin> set (request_line r)" "request_line r \<noteq> []"
    using assms token_not_in(1) [of "rq_method r"] by (auto simp: printable_request_def request_line_def)
  have fit: "counted (request_line r # map header_line (hp_headers r)) + 3 \<le> max_header_size"
    using assms by (simp add: printable_request_def counted_def)
  have "request_lines ?buf ?buf request_init = request_lines ?buf (header_delimiter @ rest)
      (r1\<lparr>hp_header_bytes := counted (request_line r # map header_line (hp_headers r))\<rparr>)"
    using assms line unfolding raw
    by (simp add: printable_request_def request_line_step request_process_line [OF assms] request_header_lines
        token_def counted_def r1_def request_init_def)
  also have "\<dots> = request_blank ?buf (header_delimiter @ rest) r1"
    using fit by (subst request_lines.simps) (simp add: search_delimiter_here Let_def r1_def counted_def request_init_def)
  also have "\<dots> = Inr (length (request_raw r), r1\<lparr>rq_ready := True\<rparr>)"
  proof -
    have "get_header r1 = get_header r" by (simp add: fun_eq_iff get_header_def r1_def)
    moreover have "rq_method r1 \<noteq> []" using assms by (simp add: r1_def printable_request_def token_def)
    moreover have "get_header (r1\<lparr>rq_buf := []\<rparr>) = get_header r1" by (simp add: fun_eq_iff get_header_def)
    ultimately show ?thesis
      using assms by (simp add: request_blank_def prepare_body_def printable_request_def Let_def)
        (simp add: r1_def request_init_def)
  qed
  finally show ?thesis by (simp add: request_consume_def request_init_def r1_def)
qed

subsection \<open>The size limit and the pieces\<close>

primrec feed :: "bytes list \<Rightarrow> http_response \<Rightarrow> http_response http" where
  "feed [] r = Inr r"
| "feed (b # bs) r = http_then (response_consume b r) (\<lambda>(n, r). feed bs r)"

lemma search_no_delimiter: "13 \<notin> set xs \<Longrightarrow> search (=) xs header_delimiter = length xs"
  using search_not_first [of 13 xs "[]" "[10]"] by (simp add: header_delimiter_def)

lemma feed_no_delimiter:
  assumes "rs_state r = RESPONSE_LINE" and "13 \<notin> set (rs_buf r @ b)"
  shows "response_consume b r =
    (if hp_header_bytes r + (length (rs_buf r @ b) + 3) > max_header_size
     then throw ''Maximum header size exceeded.'' sc_request_header_fields_too_large
     else Inr (length b, r\<lparr>rs_buf := rs_buf r @ b, rs_read := rs_read r + of_nat (length b),
                           hp_header_bytes := hp_header_bytes r + 3\<rparr>))"
  using assms search_no_delimiter [OF assms(2)]
  by (simp add: response_consume_def response_lines.simps [of b "rs_buf r @ b" r] Let_def)

lemma feed_bytes:
  assumes "rs_state r = RESPONSE_LINE" and "13 \<notin> set (rs_buf r @ l)" and "hp_header_bytes r = 3 * length (rs_buf r)"
    and "length (rs_buf r) \<le> 4000" and "4000 < length (rs_buf r) + length l"
  shows "feed (map (\<lambda>b. [b]) l) r = throw ''Maximum header size exceeded.'' sc_request_header_fields_too_large"
  using assms
proof (induction l arbitrary: r)
  case (Cons b l)
  have step: "response_consume [b] r =
    (if hp_header_bytes r + (length (rs_buf r @ [b]) + 3) > max_header_size
     then throw ''Maximum header size exceeded.'' sc_request_header_fields_too_large
     else Inr (1, r\<lparr>rs_buf := rs_buf r @ [b], rs_read := rs_read r + 1, hp_header_bytes := hp_header_bytes r + 3\<rparr>))"
    using feed_no_delimiter [of r "[b]"] Cons.prems by simp
  show ?case
  proof (cases "length (rs_buf r) = 4000")
    case True
    then show ?thesis using step Cons.prems by (simp add: max_header_size_def)
  next
    case False
    then show ?thesis
      using step Cons.prems Cons.IH [of "r\<lparr>rs_buf := rs_buf r @ [b], rs_read := rs_read r + 1, hp_header_bytes := hp_header_bytes r + 3\<rparr>"]
      by (simp add: max_header_size_def)
  qed
qed simp

text \<open>C35. The limit on the size of the headers depends on how the network cuts the text. Every call of
  \<open>response::consume\<close> that ends inside a line leaves three bytes too many in \<open>m_header_bytes\<close>, so a status line
  of up to 15997 bytes is accepted in one piece, but refused as too large if it arrives byte by byte and is
  longer than 4000 bytes.\<close>

theorem header_limit_shrinks:
  assumes "13 \<notin> set line" and "4000 < length line" and "length line + 3 \<le> max_header_size"
  shows "(\<exists>r. feed [line] response_init = Inr r) \<and>
    feed (map (\<lambda>b. [b]) line) response_init = throw ''Maximum header size exceeded.'' sc_request_header_fields_too_large"
proof
  show "\<exists>r. feed [line] response_init = Inr r"
    using feed_no_delimiter [of response_init line] assms by (simp add: response_init_def)
  show "feed (map (\<lambda>b. [b]) line) response_init = throw ''Maximum header size exceeded.'' sc_request_header_fields_too_large"
    by (rule feed_bytes) (use assms in \<open>simp_all add: response_init_def\<close>)
qed

theorem header_limit_shrinks_witness:
  "feed (map (\<lambda>b. [b]) (replicate 5000 65)) response_init =
     throw ''Maximum header size exceeded.'' sc_request_header_fields_too_large"
  by (rule header_limit_shrinks [THEN conjunct2]) (simp_all add: max_header_size_def)

end
