(* ===== verification/Ws_Uri.thy ===== *)
theory Ws_Uri
  imports Ws_Http_Lines Ws_Error
begin

section \<open>URIs\<close>

text \<open>
  Model of \<open>websocketpp/uri.hpp\<close>. The constructors of class \<open>uri\<close> are functions that return the record; the
  members a constructor leaves unset keep what was in memory, which the arguments \<open>port\<close> and \<open>secure\<close> stand for.
  \<open>over\<close> is the result of \<open>atoi\<close> for a number that does not fit into an \<open>int\<close>, which C leaves undefined.
\<close>

definition uri_default_port :: u16 where "uri_default_port = 80"
definition uri_default_secure_port :: u16 where "uri_default_secure_port = 443"

record uri =
  u_scheme :: bytes
  u_host :: bytes
  u_resource :: bytes
  u_port :: u16
  u_secure :: bool
  u_valid :: bool

definition default_port :: "bool \<Rightarrow> u16" where
  "default_port secure = (if secure then uri_default_secure_port else uri_default_port)"

definition get_port_from_string :: "(bytes \<Rightarrow> u32) \<Rightarrow> bool \<Rightarrow> bytes \<Rightarrow> u16 \<times> ec" where
  "get_port_from_string over secure port =
     (if port = [] then (default_port secure, None)
      else
        let t_port = atoi over port;
            ec = (if t_port > 65535 then Some (WsError E_invalid_port) else None);
            ec = (if t_port = 0 then Some (WsError E_invalid_port) else ec)
        in (ucast t_port, ec))"

text \<open>The host of an IPv4 address or a name: up to a colon (the port follows), a slash or the end. The flag
  says whether a port follows.\<close>

fun scan_host :: "bytes \<Rightarrow> bytes \<Rightarrow> bytes \<times> bool \<times> bytes" where
  "scan_host host [] = (host, False, [])"
| "scan_host host (c # it) =
     (if c = of_char CHR ''/'' then (host, False, it)
      else if c = of_char CHR '':'' then (host, True, it)
      else scan_host (host @ [c]) it)"

fun scan_port :: "bytes \<Rightarrow> bytes \<Rightarrow> bytes \<times> bytes" where
  "scan_port port [] = (port, [])"
| "scan_port port (c # it) = (if c = of_char CHR ''/'' then (port, it) else scan_port (port @ [c]) it)"

text \<open>The host, whether a port follows, and the rest; \<open>None\<close> if the host is malformed.\<close>

definition uri_host :: "bytes \<Rightarrow> (bytes \<times> bool \<times> bytes) option" where
  "uri_host it =
     (if it \<noteq> [] \<and> hd it = of_char CHR ''[''
      then
        let host = takeWhile (\<lambda>c. c \<noteq> of_char CHR '']'') (tl it);
            temp = dropWhile (\<lambda>c. c \<noteq> of_char CHR '']'') (tl it)
        in if temp = [] then None
           else
             (case tl temp of
                [] \<Rightarrow> Some (host, False, [])
              | c # it \<Rightarrow>
                  if c = of_char CHR ''/'' then Some (host, False, it)
                  else if c = of_char CHR '':'' then Some (host, True, it)
                  else None)
      else Some (scan_host [] it))"

text \<open>The four schemes, in the order the constructor tests them: the text, whether it is secure.\<close>

definition uri_schemes :: "(string \<times> bool) list" where
  "uri_schemes = [(''wss'', True), (''ws'', False), (''http'', False), (''https'', True)]"

fun find_scheme :: "(string \<times> bool) list \<Rightarrow> bytes \<Rightarrow> (bytes \<times> bool \<times> bytes) option" where
  "find_scheme [] s = None"
| "find_scheme ((n, secure) # xs) s =
     (let p = ascii (n @ ''://'')
      in if length s \<ge> length p + 1 \<and> take (length p) s = p then Some (ascii n, secure, drop (length p) s)
         else find_scheme xs s)"

definition uri_of_string :: "(bytes \<Rightarrow> u32) \<Rightarrow> u16 \<Rightarrow> bool \<Rightarrow> bytes \<Rightarrow> uri" where
  "uri_of_string over port secure uri_string =
     (case find_scheme uri_schemes uri_string of
        None \<Rightarrow> \<lparr>u_scheme = [], u_host = [], u_resource = [], u_port = port, u_secure = secure, u_valid = False\<rparr>
      | Some (scheme, secure, it) \<Rightarrow>
          (case uri_host it of
             None \<Rightarrow> \<lparr>u_scheme = scheme,
                       u_host = (let temp = dropWhile (\<lambda>c. c \<noteq> of_char CHR '']'') (tl it)
                                 in if temp = [] then [] else takeWhile (\<lambda>c. c \<noteq> of_char CHR '']'') (tl it)),
                       u_resource = [], u_port = port, u_secure = secure, u_valid = False\<rparr>
           | Some (host, has_port, it) \<Rightarrow>
               let (port_str, it) = (if has_port then scan_port [] it else ([], it));
                   (port, ec) = get_port_from_string over secure port_str
               in \<lparr>u_scheme = scheme, u_host = host,
                   u_resource = (if ec = None then ascii ''/'' @ it else []),
                   u_port = port, u_secure = secure, u_valid = (ec = None)\<rparr>))"

definition some_resource :: "bytes \<Rightarrow> bytes" where
  "some_resource resource = (if resource = [] then ascii ''/'' else resource)"

definition scheme_secure :: "bytes \<Rightarrow> bool" where
  "scheme_secure scheme \<longleftrightarrow> scheme = ascii ''wss'' \<or> scheme = ascii ''https''"

definition uri_parts :: "bytes \<Rightarrow> bytes \<Rightarrow> u16 \<Rightarrow> bytes \<Rightarrow> uri" where
  "uri_parts scheme host port resource =
     \<lparr>u_scheme = scheme, u_host = host, u_resource = some_resource resource, u_port = port,
      u_secure = scheme_secure scheme, u_valid = True\<rparr>"

definition uri_no_port :: "bytes \<Rightarrow> bytes \<Rightarrow> bytes \<Rightarrow> uri" where
  "uri_no_port scheme host resource =
     \<lparr>u_scheme = scheme, u_host = host, u_resource = some_resource resource,
      u_port = default_port (scheme_secure scheme), u_secure = scheme_secure scheme, u_valid = True\<rparr>"

definition uri_port_string :: "(bytes \<Rightarrow> u32) \<Rightarrow> bytes \<Rightarrow> bytes \<Rightarrow> bytes \<Rightarrow> bytes \<Rightarrow> uri" where
  "uri_port_string over scheme host port resource =
     (let (p, ec) = get_port_from_string over (scheme_secure scheme) port
      in \<lparr>u_scheme = scheme, u_host = host, u_resource = some_resource resource, u_port = p,
          u_secure = scheme_secure scheme, u_valid = (ec = None)\<rparr>)"

text \<open>The constructors that take a flag instead of the scheme.\<close>

definition ws_scheme :: "bool \<Rightarrow> bytes" where
  "ws_scheme secure = (if secure then ascii ''wss'' else ascii ''ws'')"

definition uri_secure_parts :: "bool \<Rightarrow> bytes \<Rightarrow> u16 \<Rightarrow> bytes \<Rightarrow> uri" where
  "uri_secure_parts secure host port resource =
     \<lparr>u_scheme = ws_scheme secure, u_host = host, u_resource = some_resource resource, u_port = port,
      u_secure = secure, u_valid = True\<rparr>"

definition uri_secure_no_port :: "bool \<Rightarrow> bytes \<Rightarrow> bytes \<Rightarrow> uri" where
  "uri_secure_no_port secure host resource =
     \<lparr>u_scheme = ws_scheme secure, u_host = host, u_resource = some_resource resource,
      u_port = default_port secure, u_secure = secure, u_valid = True\<rparr>"

definition uri_secure_port_string :: "(bytes \<Rightarrow> u32) \<Rightarrow> bool \<Rightarrow> bytes \<Rightarrow> bytes \<Rightarrow> bytes \<Rightarrow> uri" where
  "uri_secure_port_string over secure host port resource =
     (let (p, ec) = get_port_from_string over secure port
      in \<lparr>u_scheme = ws_scheme secure, u_host = host, u_resource = some_resource resource, u_port = p,
          u_secure = secure, u_valid = (ec = None)\<rparr>)"

definition show_port :: "u16 \<Rightarrow> bytes" where
  "show_port p = show_nat (unat p)"

definition get_host_port :: "uri \<Rightarrow> bytes" where
  "get_host_port u =
     (if u_port u = default_port (u_secure u) then u_host u
      else u_host u @ ascii '':'' @ show_port (u_port u))"

definition get_authority :: "uri \<Rightarrow> bytes" where
  "get_authority u = u_host u @ ascii '':'' @ show_port (u_port u)"

definition get_port_str :: "uri \<Rightarrow> bytes" where
  "get_port_str u = show_port (u_port u)"

definition uri_str :: "uri \<Rightarrow> bytes" where
  "uri_str u =
     u_scheme u @ ascii ''://'' @ u_host u @
     (if u_port u \<noteq> default_port (u_secure u) then ascii '':'' @ show_port (u_port u) else []) @ u_resource u"

definition get_query :: "uri \<Rightarrow> bytes" where
  "get_query u = tl (dropWhile (\<lambda>c. c \<noteq> of_char CHR ''?'') (u_resource u))"

subsection \<open>Printing and parsing\<close>

lemma scan_host_name:
  assumes "\<forall>c \<in> set h. c \<noteq> 47 \<and> c \<noteq> 58"
  shows "scan_host acc (h @ 47 # r) = (acc @ h, False, r)" and "scan_host acc (h @ 58 # r) = (acc @ h, True, r)"
  using assms by (induction h arbitrary: acc) auto

lemma scan_port_digits: "47 \<notin> set ds \<Longrightarrow> scan_port acc (ds @ 47 # r) = (acc @ ds, r)"
  by (induction ds arbitrary: acc) auto

lemma atoi_show: "n < 2 ^ 31 \<Longrightarrow> atoi over (show_nat n) = of_nat n"
proof -
  assume n: "n < 2 ^ 31"
  have "\<forall>c \<in> set (show_nat n). c \<noteq> 0" using show_nat_digits [of n] by (auto simp: is_digit_def)
  then have "takeWhile (\<lambda>c. c \<noteq> 0) (show_nat n) = show_nat n" by (simp add: takeWhile_eq_all_conv)
  then show ?thesis using n by (simp only: atoi_def scan_show_nat) (simp add: Let_def)
qed

lemma port_from_show: "p \<noteq> 0 \<Longrightarrow> get_port_from_string over secure (show_port p) = (p, None)"
proof -
  assume "p \<noteq> 0"
  have p: "unat p < 65536" using unat_bounds(2) [of p] by simp
  then have a: "atoi over (show_nat (unat p)) = ucast p" by (subst atoi_show) simp_all
  have u: "unat (ucast p :: u32) = unat p" using p by (simp add: unsigned_ucast_eq take_bit_nat_eq_self)
  then have "ucast p \<le> (65535 :: u32)" using p by (simp add: word_le_nat_alt)
  moreover have "ucast p \<noteq> (0 :: u32)" using \<open>p \<noteq> 0\<close> u by (metis unat_0 unat_eq_zero)
  moreover have "ucast (ucast p :: u32) = p" by (rule bit_word_eqI) (simp add: bit_simps)
  moreover have "show_nat (unat p) \<noteq> []" using show_nat_digits by simp
  ultimately show ?thesis
    by (simp add: get_port_from_string_def show_port_def a Let_def not_less)
qed

text \<open>A URI that has a text: one of the schemes, a host that is not an IPv6 literal, a port, an absolute resource.\<close>

definition uri_ok :: "uri \<Rightarrow> bool" where
  "uri_ok u \<longleftrightarrow>
     u_valid u \<and> (u_scheme u, u_secure u) \<in> set (map (\<lambda>(n, s). (ascii n, s)) uri_schemes) \<and>
     (\<forall>c \<in> set (u_host u). c \<noteq> 47 \<and> c \<noteq> 58) \<and> (u_host u \<noteq> [] \<longrightarrow> hd (u_host u) \<noteq> 91) \<and>
     u_port u \<noteq> 0 \<and> u_resource u \<noteq> [] \<and> hd (u_resource u) = 47"

lemma find_scheme_ok:
  assumes "(scheme, secure) \<in> set (map (\<lambda>(n, s). (ascii n, s)) uri_schemes)" and "it \<noteq> []"
  shows "find_scheme uri_schemes (scheme @ ascii ''://'' @ it) = Some (scheme, secure, it)"
  using assms by (cases it) (auto simp: uri_schemes_def)

text \<open>C33. The text of a URI determines it: parsing what \<open>str\<close> prints gives the same scheme, host, port and
  resource, whether or not the port is the default one of the scheme. This is the form in which \<open>Signal\<close> hands
  its URL to the library.\<close>

theorem uri_roundtrip:
  assumes "uri_ok u"
  shows "uri_of_string over port secure (uri_str u) = u"
proof -
  obtain r where r: "u_resource u = 47 # r" using assms by (cases "u_resource u") (auto simp: uri_ok_def)
  have host: "\<forall>c \<in> set (u_host u). c \<noteq> 47 \<and> c \<noteq> 58" and hd: "u_host u \<noteq> [] \<longrightarrow> hd (u_host u) \<noteq> 91"
    and scheme: "(u_scheme u, u_secure u) \<in> set (map (\<lambda>(n, s). (ascii n, s)) uri_schemes)"
    and p: "u_port u \<noteq> 0" and v: "u_valid u"
    using assms by (simp_all add: uri_ok_def)
  have ds: "47 \<notin> set (show_port (u_port u))"
    using show_nat_digits [of "unat (u_port u)"] by (auto simp: show_port_def is_digit_def word_le_nat_alt)
  show ?thesis
  proof (cases "u_port u = default_port (u_secure u)")
    case True
    then have s: "uri_str u = u_scheme u @ ascii ''://'' @ (u_host u @ 47 # r)" by (simp add: uri_str_def r)
    have "uri_host (u_host u @ 47 # r) = Some (u_host u, False, r)"
      using hd by (simp add: uri_host_def scan_host_name [OF host] hd_append del: scan_host.simps)
    then show ?thesis
      unfolding uri_of_string_def s using find_scheme_ok [OF scheme, of "u_host u @ 47 # r"] True v r
      by (simp add: get_port_from_string_def)
  next
    case False
    then have s: "uri_str u = u_scheme u @ ascii ''://'' @ (u_host u @ 58 # show_port (u_port u) @ 47 # r)"
      by (simp add: uri_str_def r)
    have "uri_host (u_host u @ 58 # show_port (u_port u) @ 47 # r) = Some (u_host u, True, show_port (u_port u) @ 47 # r)"
      using hd by (simp add: uri_host_def scan_host_name [OF host] hd_append del: scan_host.simps)
    then show ?thesis
      unfolding uri_of_string_def s using find_scheme_ok [OF scheme, of "u_host u @ 58 # show_port (u_port u) @ 47 # r"] v r
      by (simp add: scan_port_digits [OF ds, of "[]", simplified] port_from_show [OF p])
  qed
qed

theorem uri_roundtrip_witness:
  "uri_of_string (\<lambda>_. 0) 0 False (uri_str \<lparr>u_scheme = ascii ''wss'', u_host = ascii ''signal.example'',
     u_resource = ascii ''/hello'', u_port = 8080, u_secure = True, u_valid = True\<rparr>) =
   \<lparr>u_scheme = ascii ''wss'', u_host = ascii ''signal.example'', u_resource = ascii ''/hello'', u_port = 8080,
     u_secure = True, u_valid = True\<rparr>"
  by (rule uri_roundtrip) (simp add: uri_ok_def uri_schemes_def)

text \<open>The brackets of an IPv6 literal are dropped by the parser and not printed again: neither by \<open>str\<close> nor in
  the \<open>Host\<close> header, which is made from \<open>get_host_port\<close>.\<close>

lemma uri_ipv6_brackets:
  assumes "93 \<notin> set h"
  shows "let u = uri_of_string over port secure (ascii ''ws://['' @ h @ ascii '']/'' @ r)
    in u_valid u \<and> u_host u = h \<and> get_host_port u = h \<and> uri_str u = ascii ''ws://'' @ h @ ascii ''/'' @ r"
proof -
  have "takeWhile (\<lambda>c. c \<noteq> 93) (h @ 93 # t) = h" "dropWhile (\<lambda>c. c \<noteq> 93) (h @ 93 # t) = 93 # t" for t
    using assms by (auto simp: takeWhile_append dropWhile_append)
  then show ?thesis
    by (simp add: uri_of_string_def uri_schemes_def uri_host_def get_port_from_string_def get_host_port_def uri_str_def Let_def)
qed

end
