(* ===== verification/Ws_Sha1.thy ===== *)
theory Ws_Sha1
  imports Ws_Host
begin

section \<open>SHA-1, as the WebSocket handshake uses it\<close>

text \<open>
  Model of \<open>websocketpp/sha1/sha1.hpp\<close>. The buffer \<open>w\<close> of 80 words is not initialised in the source;
  here its first contents are an argument. The five loops of \<open>innerHash\<close> are folds over their rounds.

  The second part of the theory is the hash as FIPS 180-4 describes it: padding, blocks of sixteen
  words, the message schedule, eighty rounds. The main lemma says that \<open>calc\<close> computes it for every
  message whose length in bits fits into 32 bits, whatever the buffer held.
\<close>

unbundle bit_operations_syntax

subsection \<open>The code\<close>

definition rol :: "u32 \<Rightarrow> nat \<Rightarrow> u32" where
  "rol v steps = push_bit steps v OR drop_bit (32 - steps) v"

definition clearWBuffert :: "u32 list \<Rightarrow> u32 list" where
  "clearWBuffert buffert = fold (\<lambda>pos buffert. buffert[pos := 0]) (rev [0..<16]) buffert"

type_synonym regs = "u32 \<times> u32 \<times> u32 \<times> u32 \<times> u32"

text \<open>\<open>sha1macro(func, val)\<close>: \<open>func\<close> is evaluated on the registers before the assignment.\<close>

definition sha1macro :: "(u32 \<Rightarrow> u32 \<Rightarrow> u32 \<Rightarrow> u32) \<Rightarrow> u32 \<Rightarrow> nat \<Rightarrow> u32 list \<Rightarrow> regs \<Rightarrow> regs" where
  "sha1macro func val round w = (\<lambda>(a, b, c, d, e).
     let t = rol a 5 + func b c d + e + val + w ! round
     in (t, a, rol b 30, c, d))"

definition next_w :: "nat \<Rightarrow> u32 list \<Rightarrow> u32 list" where
  "next_w round w =
     w[round := rol (w ! (round - 3) XOR w ! (round - 8) XOR w ! (round - 14) XOR w ! (round - 16)) 1]"

definition first_round :: "nat \<Rightarrow> regs \<times> u32 list \<Rightarrow> regs \<times> u32 list" where
  "first_round round = (\<lambda>(r, w). (sha1macro (\<lambda>b c d. (b AND c) OR (NOT b AND d)) 0x5a827999 round w r, w))"

definition later_round :: "(u32 \<Rightarrow> u32 \<Rightarrow> u32 \<Rightarrow> u32) \<Rightarrow> u32 \<Rightarrow> nat \<Rightarrow> regs \<times> u32 list \<Rightarrow> regs \<times> u32 list" where
  "later_round func val round = (\<lambda>(r, w). let w = next_w round w in (sha1macro func val round w r, w))"

definition innerHash :: "regs \<Rightarrow> u32 list \<Rightarrow> regs \<times> u32 list" where
  "innerHash result w =
     (let s = fold first_round [0..<16] (result, w);
          s = fold (later_round (\<lambda>b c d. (b AND c) OR (NOT b AND d)) 0x5a827999) [16..<20] s;
          s = fold (later_round (\<lambda>b c d. b XOR c XOR d) 0x6ed9eba1) [20..<40] s;
          s = fold (later_round (\<lambda>b c d. (b AND c) OR (b AND d) OR (c AND d)) 0x8f1bbcdc) [40..<60] s;
          s = fold (later_round (\<lambda>b c d. b XOR c XOR d) 0xca62c1d6) [60..<80] s;
          ((a, b, c, d, e), w) = s;
          (r0, r1, r2, r3, r4) = result
      in ((r0 + a, r1 + b, r2 + c, r3 + d, r4 + e), w))"

text \<open>The buffer filled with one block of 64 bytes.\<close>

definition load_word :: "bytes \<Rightarrow> nat \<Rightarrow> u32" where
  "load_word sarray cur =
     ucast (sarray ! (cur + 3)) OR push_bit 8 (ucast (sarray ! (cur + 2))) OR
     push_bit 16 (ucast (sarray ! (cur + 1))) OR push_bit 24 (ucast (sarray ! cur))"

definition load_block :: "bytes \<Rightarrow> nat \<Rightarrow> u32 list \<Rightarrow> u32 list" where
  "load_block sarray cur w = fold (\<lambda>i w. w[i := load_word sarray (cur + 4 * i)]) [0..<16] w"

text \<open>The loop over the complete blocks; \<open>cur\<close> is \<open>currentBlock\<close>.\<close>

function full_blocks :: "bytes \<Rightarrow> nat \<Rightarrow> regs \<times> u32 list \<Rightarrow> nat \<times> regs \<times> u32 list" where
  "full_blocks sarray cur s =
     (if length sarray \<ge> 64 \<and> cur \<le> length sarray - 64
      then full_blocks sarray (cur + 64) (innerHash (fst s) (load_block sarray cur (snd s)))
      else (cur, s))"
  by pat_completeness auto
termination
  by (relation "measure (\<lambda>(sarray, cur, s). length sarray + 1 - cur)") auto

declare full_blocks.simps [simp del]

definition or_byte :: "nat \<Rightarrow> u32 \<Rightarrow> u32 list \<Rightarrow> u32 list" where
  "or_byte i b w = w[i div 4 := w ! (i div 4) OR push_bit ((3 - i mod 4) * 8) b]"

text \<open>What is hashed at the end: the remaining bytes, the bit that ends the message, its length.\<close>

definition last_blocks :: "bytes \<Rightarrow> nat \<times> regs \<times> u32 list \<Rightarrow> regs" where
  "last_blocks sarray = (\<lambda>(cur, result, w).
     let endCurrentBlock = length sarray - cur;
         w = clearWBuffert w;
         w = fold (\<lambda>i w. or_byte i (ucast (sarray ! (i + cur))) w) [0..<endCurrentBlock] w;
         w = or_byte endCurrentBlock 0x80 w;
         (result, w) =
           (if endCurrentBlock \<ge> 56
            then (let (result, w) = innerHash result w in (result, clearWBuffert w))
            else (result, w));
         w = w[15 := ucast (push_bit 3 (of_nat (length sarray) :: u64))]
     in fst (innerHash result w))"

fun reg_list :: "regs \<Rightarrow> u32 list" where
  "reg_list (a, b, c, d, e) = [a, b, c, d, e]"

definition calc :: "u32 list \<Rightarrow> bytes \<Rightarrow> bytes" where
  "calc w src =
     (let result = last_blocks src
            (full_blocks src 0 ((0x67452301, 0xefcdab89, 0x98badcfe, 0x10325476, 0xc3d2e1f0), w))
      in map (\<lambda>i. ucast (drop_bit (((3 + 4 - i mod 4) mod 4) * 8) (reg_list result ! (i div 4)) AND 0xff)) [0..<20])"

subsection \<open>The hash of FIPS 180-4\<close>

definition sha1_pad :: "bytes \<Rightarrow> bytes" where
  "sha1_pad m = m @ 0x80 # replicate ((119 - length m mod 64) mod 64) 0 @ be_bytes 8 (of_nat (8 * length m) :: u64)"

fun chunks :: "nat \<Rightarrow> 'a list \<Rightarrow> 'a list list" where
  "chunks n xs = (if n = 0 \<or> xs = [] then [] else take n xs # chunks n (drop n xs))"

declare chunks.simps [simp del]

definition words_of :: "bytes \<Rightarrow> u32 list" where
  "words_of b = map be_value (chunks 4 b)"

definition schedule :: "u32 list \<Rightarrow> u32 list" where
  "schedule ws = fold (\<lambda>t ws. ws @ [rol (ws ! (t - 3) XOR ws ! (t - 8) XOR ws ! (t - 14) XOR ws ! (t - 16)) 1]) [16..<80] ws"

definition sha1_f :: "nat \<Rightarrow> u32 \<Rightarrow> u32 \<Rightarrow> u32 \<Rightarrow> u32" where
  "sha1_f t x y z =
     (if t < 20 then (x AND y) XOR (NOT x AND z)
      else if t < 40 then x XOR y XOR z
      else if t < 60 then (x AND y) XOR (x AND z) XOR (y AND z)
      else x XOR y XOR z)"

definition sha1_K :: "nat \<Rightarrow> u32" where
  "sha1_K t = (if t < 20 then 0x5a827999 else if t < 40 then 0x6ed9eba1 else if t < 60 then 0x8f1bbcdc else 0xca62c1d6)"

definition sha1_round :: "u32 list \<Rightarrow> nat \<Rightarrow> regs \<Rightarrow> regs" where
  "sha1_round ws t = (\<lambda>(a, b, c, d, e). (rol a 5 + sha1_f t b c d + e + sha1_K t + ws ! t, a, rol b 30, c, d))"

definition compress :: "bytes \<Rightarrow> regs \<Rightarrow> regs" where
  "compress block = (\<lambda>(h0, h1, h2, h3, h4).
     let (a, b, c, d, e) = fold (sha1_round (schedule (words_of block))) [0..<80] (h0, h1, h2, h3, h4)
     in (h0 + a, h1 + b, h2 + c, h3 + d, h4 + e))"

definition sha1 :: "bytes \<Rightarrow> bytes" where
  "sha1 m = concat (map (be_bytes 4) (reg_list
     (fold compress (chunks 64 (sha1_pad m)) (0x67452301, 0xefcdab89, 0x98badcfe, 0x10325476, 0xc3d2e1f0))))"

subsection \<open>The rounds\<close>

lemma choose_eq: "(b AND c) OR (NOT b AND d) = (b AND c) XOR (NOT b AND (d :: u32))"
  by (rule bit_eqI) (auto simp: bit_simps)

lemma majority_eq: "(b AND c) OR (b AND d) OR (c AND d) = (b AND c) XOR (b AND d) XOR (c AND (d :: u32))"
  by (rule bit_eqI) (auto simp: bit_simps)

definition sched_step :: "nat \<Rightarrow> u32 list \<Rightarrow> u32 list" where
  "sched_step t ws = ws @ [rol (ws ! (t - 3) XOR ws ! (t - 8) XOR ws ! (t - 14) XOR ws ! (t - 16)) 1]"

lemma schedule_fold: "schedule ws = fold sched_step [16..<80] ws"
  by (simp add: schedule_def sched_step_def [abs_def] del: upt_rec_numeral)

lemma sched_length: "length (fold sched_step ts ws) = length ws + length ts"
  by (induction ts arbitrary: ws) (simp_all add: sched_step_def)

lemma sched_nth: "i < length ws \<Longrightarrow> fold sched_step ts ws ! i = ws ! i"
  by (induction ts arbitrary: ws) (simp_all add: sched_step_def nth_append)

lemma length_schedule [simp]: "length ws = 16 \<Longrightarrow> length (schedule ws) = 80"
  by (simp add: schedule_fold sched_length del: upt_rec_numeral)

lemma schedule_nth_low: "length ws = 16 \<Longrightarrow> i < 16 \<Longrightarrow> schedule ws ! i = ws ! i"
  by (simp add: schedule_fold sched_nth del: upt_rec_numeral)

lemma schedule_nth:
  assumes "length ws = 16" and "16 \<le> t" and "t < 80"
  shows "schedule ws ! t =
    rol (schedule ws ! (t - 3) XOR schedule ws ! (t - 8) XOR schedule ws ! (t - 14) XOR schedule ws ! (t - 16)) 1"
proof -
  define p where "p = fold sched_step [16..<t] ws"
  have len: "length p = t" using assms by (simp add: p_def sched_length)
  have "[16..<80] = [16..<t] @ t # [Suc t..<80]"
    using assms upt_add_eq_append [of 16 t "80 - t"] by (simp add: upt_conv_Cons del: upt_rec_numeral)
  then have s: "schedule ws = fold sched_step [Suc t..<80] (sched_step t p)"
    by (simp add: schedule_fold p_def del: upt_rec_numeral)
  have low: "schedule ws ! i = p ! i" if "i < t" for i
    using that len by (simp add: s sched_nth sched_step_def nth_append del: upt_rec_numeral)
  have "schedule ws ! t = sched_step t p ! t"
    using len by (simp add: s sched_nth sched_step_def del: upt_rec_numeral)
  then show ?thesis
    using assms len by (simp add: sched_step_def nth_append low)
qed

text \<open>One pass of the loop the code is in at the round, and one round of the standard.\<close>

definition code_round :: "nat \<Rightarrow> regs \<times> u32 list \<Rightarrow> regs \<times> u32 list" where
  "code_round t = (\<lambda>(r, w). let w = (if t < 16 then w else next_w t w) in (sha1macro (sha1_f t) (sha1_K t) t w r, w))"

lemma innerHash_fold:
  "innerHash (h0, h1, h2, h3, h4) w =
     (let ((a, b, c, d, e), w) = fold code_round [0..<80] ((h0, h1, h2, h3, h4), w)
      in ((h0 + a, h1 + b, h2 + c, h3 + d, h4 + e), w))"
proof -
  have parts: "[0..<80] = [0..<16] @ [16..<20] @ [20..<40] @ [40..<60] @ [60..<80]"
    using upt_add_eq_append [of 0 16 64] upt_add_eq_append [of 16 20 60] upt_add_eq_append [of 20 40 40]
      upt_add_eq_append [of 40 60 20] by (simp del: upt_rec_numeral)
  have f: "fold first_round [0..<16] s = fold code_round [0..<16] s"
    "fold (later_round (\<lambda>b c d. (b AND c) OR (NOT b AND d)) 0x5a827999) [16..<20] s = fold code_round [16..<20] s"
    "fold (later_round (\<lambda>b c d. b XOR c XOR d) 0x6ed9eba1) [20..<40] s = fold code_round [20..<40] s"
    "fold (later_round (\<lambda>b c d. (b AND c) OR (b AND d) OR (c AND d)) 0x8f1bbcdc) [40..<60] s = fold code_round [40..<60] s"
    "fold (later_round (\<lambda>b c d. b XOR c XOR d) 0xca62c1d6) [60..<80] s = fold code_round [60..<80] s" for s
    by (rule fold_cong; simp add: code_round_def first_round_def later_round_def sha1_f_def [abs_def] sha1_K_def
        choose_eq majority_eq fun_eq_iff del: upt_rec_numeral)+
  show ?thesis
    by (simp add: innerHash_def f parts Let_def split: prod.split del: upt_rec_numeral)
qed

lemma code_rounds:
  assumes "length w = 80" and "n \<le> 80"
  defines "S \<equiv> schedule (take 16 w)"
  shows "\<exists>w'. fold code_round [0..<n] (r, w) = (fold (sha1_round S) [0..<n] r, w') \<and> length w' = 80
    \<and> (\<forall>i < max 16 n. w' ! i = S ! i)"
  using assms(2)
proof (induction n)
  case 0
  then show ?case using assms(1) by (simp add: S_def schedule_nth_low)
next
  case (Suc n)
  then obtain w1 where w1: "fold code_round [0..<n] (r, w) = (fold (sha1_round S) [0..<n] r, w1)"
    "length w1 = 80" "\<And>i. i < max 16 n \<Longrightarrow> w1 ! i = S ! i" by auto
  define w2 where "w2 = (if n < 16 then w1 else next_w n w1)"
  have w2: "length w2 = 80" "\<And>i. i < max 16 (Suc n) \<Longrightarrow> w2 ! i = S ! i"
    using w1(2,3) Suc.prems schedule_nth [of "take 16 w" n] assms(1)
    by (auto simp: w2_def next_w_def S_def nth_list_update less_Suc_eq split: if_splits)
  have "code_round n (fold (sha1_round S) [0..<n] r, w1) = (sha1_round S n (fold (sha1_round S) [0..<n] r), w2)"
    using w2(2) [of n] by (simp add: code_round_def w2_def [symmetric] sha1macro_def sha1_round_def Let_def split: prod.split)
  then show ?case using w1(1) w2 by (intro exI [of _ w2]) simp
qed

subsection \<open>Blocks in the buffer\<close>

definition block_words :: "bytes \<Rightarrow> u32 list" where
  "block_words b = map (\<lambda>i. load_word b (4 * i)) [0..<16]"

lemma chunks_simps:
  "chunks n [] = []"
  "xs \<noteq> [] \<Longrightarrow> 0 < n \<Longrightarrow> chunks n xs = take n xs # chunks n (drop n xs)"
  by (simp_all add: chunks.simps [of n])

lemma chunks_append: "length xs = n \<Longrightarrow> 0 < n \<Longrightarrow> chunks n (xs @ ys) = xs # chunks n ys"
  by (subst chunks_simps(2)) auto

lemma chunks_nth:
  assumes "0 < n" and "length xs = n * k"
  shows "chunks n xs = map (\<lambda>i. take n (drop (n * i) xs)) [0..<k]"
  using assms(2)
proof (induction k arbitrary: xs)
  case (Suc k)
  then have "chunks n xs = take n xs # map (\<lambda>i. take n (drop (n * i) (drop n xs))) [0..<k]"
    using assms(1) by (subst chunks_simps(2)) auto
  moreover have "[0..<Suc k] = 0 # map Suc [0..<k]"
    by (simp add: upt_conv_Cons map_Suc_upt del: upt_Suc)
  ultimately show ?case by (simp add: o_def add.commute del: upt_Suc)
qed (simp add: chunks_simps)

lemma be_value_4: "be_value [a, b, c, d] = ucast d OR push_bit 8 (ucast c) OR push_bit 16 (ucast b) OR push_bit 24 (ucast a :: u32)"
  by (simp add: be_value_def push_bit_or)

lemma words_of_block: "length b = 64 \<Longrightarrow> words_of b = block_words b"
proof -
  assume len: "length b = 64"
  have "be_value (take 4 (drop (4 * i) b)) = load_word b (4 * i)" if "i < 16" for i
  proof -
    have "take 4 (drop (4 * i) b) = [b ! (4 * i), b ! (4 * i + 1), b ! (4 * i + 2), b ! (4 * i + 3)]"
      using len that by (intro nth_equalityI) (auto simp: less_Suc_eq numeral_eq_Suc)
    then show ?thesis by (simp add: be_value_4 load_word_def)
  qed
  then show ?thesis
    using chunks_nth [of 4 b 16] len by (simp add: words_of_def block_words_def del: upt_rec_numeral)
qed

text \<open>The buffer holds a block.\<close>

definition holds :: "u32 list \<Rightarrow> bytes \<Rightarrow> bool" where
  "holds w b \<longleftrightarrow> length w = 80 \<and> length b = 64 \<and> (\<forall>i<16. w ! i = load_word b (4 * i))"

lemma holds_take: "holds w b \<Longrightarrow> take 16 w = words_of b"
  by (auto simp: holds_def words_of_block block_words_def intro!: nth_equalityI simp del: upt_rec_numeral)

lemma innerHash_compress:
  assumes "holds w b"
  shows "\<exists>w'. innerHash r w = (compress b r, w') \<and> length w' = 80"
proof -
  obtain h0 h1 h2 h3 h4 where r: "r = (h0, h1, h2, h3, h4)" by (cases r)
  have "length w = 80" using assms by (simp add: holds_def)
  from code_rounds [OF this, of 80 r] obtain w' where
    "fold code_round [0..<80] (r, w) = (fold (sha1_round (schedule (words_of b))) [0..<80] r, w')" "length w' = 80"
    using holds_take [OF assms] by (auto simp del: upt_rec_numeral)
  then show ?thesis
    by (auto simp: r innerHash_fold compress_def Let_def split: prod.split simp del: upt_rec_numeral)
qed

lemma holds_clear: "length w = 80 \<Longrightarrow> holds (clearWBuffert w) (replicate 64 0)"
  by (auto simp: holds_def clearWBuffert_def load_word_def less_Suc_eq numeral_eq_Suc)

lemma fold_update_nth:
  "k \<le> length w \<Longrightarrow> length (fold (\<lambda>i w. w[i := f i]) [0..<k] w) = length w \<and>
     (\<forall>i<length w. fold (\<lambda>i w. w[i := f i]) [0..<k] w ! i = (if i < k then f i else w ! i))"
  by (induction k) (auto simp: nth_list_update)

lemma holds_load:
  assumes "length w = 80" and "cur + 64 \<le> length s"
  shows "holds (load_block s cur w) (take 64 (drop cur s))"
  using fold_update_nth [of 16 w "\<lambda>i. load_word s (cur + 4 * i)"] assms
  by (simp add: holds_def load_block_def load_word_def add.assoc del: upt_rec_numeral)

lemma load_word_update_other: "i div 4 \<noteq> j \<Longrightarrow> load_word (b[i := x]) (4 * j) = load_word b (4 * j)"
proof -
  assume "i div 4 \<noteq> j"
  then have "i \<noteq> 4 * j" "i \<noteq> 4 * j + 1" "i \<noteq> 4 * j + 2" "i \<noteq> 4 * j + 3" by auto
  then show ?thesis by (simp add: load_word_def)
qed

lemma load_word_update:
  assumes "i < length b" and "b ! i = 0"
  shows "load_word (b[i := x]) (4 * (i div 4)) =
    load_word b (4 * (i div 4)) OR push_bit ((3 - i mod 4) * 8) (ucast x)"
proof -
  define j where "j = i div 4"
  have "i = 4 * j \<or> i = 4 * j + 1 \<or> i = 4 * j + 2 \<or> i = 4 * j + 3" by (auto simp: j_def)
  moreover have "(4 * j + 1) mod 4 = 1" "(4 * j + 2) mod 4 = 2" "(4 * j + 3) mod 4 = 3" by presburger+
  ultimately show ?thesis
    unfolding j_def [symmetric] using assms by (elim disjE) (auto simp: load_word_def or.assoc or.commute or.left_commute)
qed

lemma holds_or_byte:
  assumes "holds w b" and "i < 64" and "b ! i = 0"
  shows "holds (or_byte i (ucast x) w) (b[i := x])"
proof -
  have "or_byte i (ucast x) w ! j = load_word (b[i := x]) (4 * j)" if "j < 16" for j
    using assms that by (cases "i div 4 = j") (auto simp: or_byte_def holds_def load_word_update load_word_update_other)
  then show ?thesis using assms(1) by (simp add: holds_def or_byte_def)
qed

lemma holds_bytes:
  assumes "length w = 80" and "k \<le> length m" and "k < 64"
  shows "holds (fold (\<lambda>i w. or_byte i (ucast (m ! i)) w) [0..<k] (clearWBuffert w)) (take k m @ replicate (64 - k) 0)"
  using assms(2,3)
proof (induction k)
  case 0
  then show ?case using holds_clear [OF assms(1)] by simp
next
  case (Suc k)
  then have "holds (or_byte k (ucast (m ! k)) (fold (\<lambda>i w. or_byte i (ucast (m ! i)) w) [0..<k] (clearWBuffert w)))
    ((take k m @ replicate (64 - k) 0)[k := m ! k])"
    by (intro holds_or_byte) (simp_all add: nth_append)
  moreover have "(take k m @ replicate (64 - k) 0)[k := m ! k] = take (Suc k) m @ replicate (64 - Suc k) 0"
    using Suc.prems by (simp add: list_update_append take_Suc_conv_app_nth Suc_diff_Suc [symmetric])
  ultimately show ?case by simp
qed

lemma holds_set_length:
  assumes "holds w (x @ replicate 8 0)"
  shows "holds (w[15 := L]) (x @ replicate 4 0 @ be_bytes 4 L)"
proof -
  have len: "length x = 56" and w: "length w = 80" using assms by (simp_all add: holds_def)
  have other: "load_word (x @ replicate 4 0 @ be_bytes 4 L) (4 * i) = load_word (x @ replicate 8 0) (4 * i)" if "i < 15" for i
  proof -
    have "(x @ replicate 4 0 @ be_bytes 4 L) ! k = (x @ replicate 8 0) ! k" if "k < 60" for k
      using that len by (auto simp: nth_append)
    then show ?thesis using that by (simp add: load_word_def)
  qed
  have "load_word (x @ replicate 4 0 @ be_bytes 4 L) 60 = be_value (be_bytes 4 L)"
    using len by (simp add: load_word_def nth_append be_value_4 be_bytes_def numeral_eq_Suc)
  then have last: "load_word (x @ replicate 4 0 @ be_bytes 4 L) (4 * 15) = L"
    by (simp add: be_value_bytes)
  have "w[15 := L] ! i = load_word (x @ replicate 4 0 @ be_bytes 4 L) (4 * i)" if "i < 16" for i
    using that assms w other last by (cases "i = 15") (auto simp: holds_def)
  then show ?thesis using w len by (simp add: holds_def)
qed

subsection \<open>The whole message\<close>

lemma full_blocks_compress:
  assumes "length w = 80" and "cur \<le> length s"
  shows "\<exists>cur' r' w'. full_blocks s cur (r, w) = (cur', r', w') \<and> length w' = 80 \<and> cur' \<le> length s \<and>
    length s - cur' < 64 \<and> cur' mod 64 = cur mod 64 \<and>
    (\<forall>t. fold compress (chunks 64 (drop cur s @ t)) r = fold compress (chunks 64 (drop cur' s @ t)) r')"
  using assms
proof (induction s cur "(r, w)" arbitrary: r w rule: full_blocks.induct)
  case (1 s cur)
  show ?case
  proof (cases "length s \<ge> 64 \<and> cur \<le> length s - 64")
    case True
    obtain w1 where w1: "innerHash r (load_block s cur w) = (compress (take 64 (drop cur s)) r, w1)" "length w1 = 80"
      using innerHash_compress [OF holds_load [of w cur s], of r] "1.prems" True by (auto simp: le_diff_conv2)
    have "chunks 64 (drop cur s @ t) = take 64 (drop cur s) # chunks 64 (drop (cur + 64) s @ t)" for t
    proof -
      have "drop cur s @ t = take 64 (drop cur s) @ drop (cur + 64) s @ t"
        using append_take_drop_id [of 64 "drop cur s"] by (simp add: add.commute flip: append.assoc)
      moreover have "length (take 64 (drop cur s)) = 64" using True by auto
      ultimately show ?thesis
        using chunks_append [of "take 64 (drop cur s)" 64 "drop (cur + 64) s @ t"] by (simp only: zero_less_numeral)
    qed
    moreover have "cur + 64 \<le> length s" using True by linarith
    ultimately show ?thesis
      using "1.hyps" [OF True, of "compress (take 64 (drop cur s)) r" w1] w1 True
      by (simp add: full_blocks.simps [of s cur])
  next
    case False
    then have "length s - cur < 64" by linarith
    moreover have "full_blocks s cur (r, w) = (cur, r, w)"
      using False by (subst full_blocks.simps) auto
    ultimately show ?thesis
      using "1.prems" by (intro exI [of _ cur] exI [of _ r] exI [of _ w]) simp
  qed
qed

lemma le_bytes_ucast: "le_bytes 8 (ucast (L :: u32) :: u64) = le_bytes 4 L @ replicate 4 0"
proof -
  have low: "ucast (drop_bit k (ucast L :: u64)) = (ucast (drop_bit k L) :: u8)" for k
    by (rule bit_eqI) (force simp: bit_simps dest: bit_imp_le_length)
  have high: "drop_bit (32 + k) L = 0" for k
    by (rule bit_eqI) (auto simp: bit_simps dest: bit_imp_le_length)
  show ?thesis
    using low [of 0] low [of 8] low [of 16] low [of 24] low [of 32] low [of 40] low [of 48] low [of 56]
      high [of 0] high [of 8] high [of 16] high [of 24]
    by (simp add: numeral_eq_Suc)
qed

lemma message_length_words:
  assumes "8 * n < 2 ^ 32"
  shows "be_bytes 8 (of_nat (8 * n) :: u64) = replicate 4 0 @ be_bytes 4 (ucast (push_bit 3 (of_nat n :: u64)) :: u32)"
proof -
  have "push_bit 3 (of_nat n :: u64) = of_nat (8 * n)"
    by (simp add: push_bit_eq_mult)
  moreover have "m < 2 ^ 32 \<Longrightarrow> ucast (ucast (of_nat m :: u64) :: u32) = (of_nat m :: u64)" for m
    by (simp add: unsigned_of_nat take_bit_nat_eq_self)
  ultimately show ?thesis
    using le_bytes_ucast [of "ucast (of_nat (8 * n) :: u64)"] assms by (simp add: be_bytes_def del: of_nat_mult)
qed

lemma rest_blocks:
  assumes "length m < 64"
  shows "chunks 64 (m @ 0x80 # replicate ((119 - length m) mod 64) 0 @ replicate 4 0 @ be_bytes 4 (L :: u32)) =
    (if length m < 56
     then [m @ 0x80 # replicate (55 - length m) 0 @ replicate 4 0 @ be_bytes 4 L]
     else [m @ 0x80 # replicate (63 - length m) 0, replicate 60 0 @ be_bytes 4 L])"
proof (cases "length m < 56")
  case True
  then have "(119 - length m) mod 64 = 55 - length m" by (simp add: mod_if)
  with True show ?thesis by (simp add: chunks_simps)
next
  case False
  then have k: "(119 - length m) mod 64 = 119 - length m" using assms by simp
  have "replicate (119 - length m) 0 @ replicate 4 (0 :: u8) = replicate (63 - length m) 0 @ replicate 60 0"
    using assms by (simp only: replicate_add [symmetric]) (rule arg_cong2 [of _ _ _ _ replicate], simp_all)
  then have "m @ 0x80 # replicate (119 - length m) 0 @ replicate 4 0 @ be_bytes 4 L =
      (m @ 0x80 # replicate (63 - length m) 0) @ (replicate 60 0 @ be_bytes 4 L)"
    by (metis append.assoc append_Cons)
  moreover have "chunks 64 (replicate 60 0 @ be_bytes 4 L) = [replicate 60 0 @ be_bytes 4 L]"
    using chunks_append [of "replicate 60 0 @ be_bytes 4 L" 64 "[]"] by (simp add: chunks_simps(1))
  moreover have "length (m @ 0x80 # replicate (63 - length m) 0) = 64" using False assms by simp
  ultimately have "chunks 64 (m @ 0x80 # replicate (119 - length m) 0 @ replicate 4 0 @ be_bytes 4 L) =
      [m @ 0x80 # replicate (63 - length m) 0, replicate 60 0 @ be_bytes 4 L]"
    by (simp only: chunks_append zero_less_numeral)
  with False k show ?thesis by simp
qed

lemma last_blocks_compress:
  assumes w: "length w = 80" and cur: "cur \<le> length s" "length s - cur < 64" and short: "8 * length s < 2 ^ 32"
  defines "L \<equiv> ucast (push_bit 3 (of_nat (length s) :: u64)) :: u32"
  shows "last_blocks s (cur, r, w) =
    fold compress (chunks 64 (drop cur s @ 0x80 # replicate ((119 - (length s - cur)) mod 64) 0 @ replicate 4 0 @ be_bytes 4 L)) r"
proof -
  define m where "m = drop cur s"
  have m: "length m < 64" "length s - cur = length m" using cur by (simp_all add: m_def)
  define w1 where "w1 = or_byte (length m) 0x80 (fold (\<lambda>i w. or_byte i (ucast (m ! i)) w) [0..<length m] (clearWBuffert w))"
  have "holds w1 ((m @ replicate (64 - length m) 0)[length m := 0x80])"
    using holds_or_byte [OF holds_bytes [OF w order.refl m(1)], where i = "length m" and x = "0x80"] m(1)
    by (simp add: w1_def nth_append)
  then have w1: "holds w1 (m @ 0x80 # replicate (63 - length m) 0)"
    using m(1) by (simp add: list_update_append Suc_diff_Suc [symmetric] numeral_eq_Suc)
  have bytes: "fold (\<lambda>i w. or_byte i (ucast (s ! (i + cur))) w) [0..<length m] v =
      fold (\<lambda>i w. or_byte i (ucast (m ! i)) w) [0..<length m] v" for v
    using cur by (intro fold_cong) (auto simp: m_def add.commute)
  show ?thesis
  proof (cases "length m < 56")
    case True
    have "63 - length m = (55 - length m) + 8" using True by simp
    then have "replicate (63 - length m) (0 :: u8) = replicate (55 - length m) 0 @ replicate 8 0"
      by (simp only: replicate_add)
    with w1 have "holds (w1[15 := L]) ((m @ 0x80 # replicate (55 - length m) 0) @ replicate 4 0 @ be_bytes 4 L)"
      by (intro holds_set_length) simp
    from innerHash_compress [OF this, of r] True m rest_blocks [OF m(1), of L] show ?thesis
      unfolding last_blocks_def m_def [symmetric]
      by (auto simp: bytes w1_def [symmetric] L_def [symmetric])
  next
    case False
    obtain w2 where w2: "innerHash r w1 = (compress (m @ 0x80 # replicate (63 - length m) 0) r, w2)" "length w2 = 80"
      using innerHash_compress [OF w1, of r] by auto
    have "replicate 64 (0 :: u8) = replicate 56 0 @ replicate 8 0" by (simp only: replicate_add [symmetric]) simp
    then have "holds ((clearWBuffert w2)[15 := L]) (replicate 56 0 @ replicate 4 0 @ be_bytes 4 L)"
      using holds_clear [OF w2(2)] by (intro holds_set_length) simp
    moreover have "replicate 56 (0 :: u8) @ replicate 4 0 @ be_bytes 4 L = replicate 60 0 @ be_bytes 4 L"
      by (simp only: replicate_add [symmetric] append.assoc [symmetric]) simp
    ultimately have w3: "holds ((clearWBuffert w2)[15 := L]) (replicate 60 0 @ be_bytes 4 L)" by simp
    from innerHash_compress [OF w3, of "compress (m @ 0x80 # replicate (63 - length m) 0) r"] False m w2(1)
      rest_blocks [OF m(1), of L] show ?thesis
      unfolding last_blocks_def m_def [symmetric]
      by (auto simp: bytes w1_def [symmetric] L_def [symmetric])
  qed
qed

lemma be_bytes_4: "be_bytes 4 (x :: u32) = [ucast (drop_bit 24 x), ucast (drop_bit 16 x), ucast (drop_bit 8 x), ucast x]"
  by (simp add: be_bytes_def numeral_eq_Suc)

lemma digest_bytes:
  "map (\<lambda>i. ucast (drop_bit (((3 + 4 - i mod 4) mod 4) * 8) (reg_list r ! (i div 4)) AND 0xff)) [0..<20] =
     concat (map (be_bytes 4) (reg_list r))"
proof -
  obtain a b c d e where r: "r = (a, b, c, d, e)" by (cases r)
  have "ucast (x AND mask 8) = (ucast x :: u8)" for x :: u32
    by (rule bit_eqI) (auto simp: bit_simps)
  then have low: "ucast (x AND 0xff) = (ucast x :: u8)" for x :: u32
    by (simp add: mask_eq_exp_minus_1)
  show ?thesis by (simp add: r low be_bytes_4 upt_conv_Cons [of 0] upt_conv_Cons [of "Suc 0"] Suc_1 [unfolded One_nat_def])
qed

lemma block_rest: "cur \<le> n \<Longrightarrow> n - cur < 64 \<Longrightarrow> cur mod 64 = 0 \<Longrightarrow> n mod 64 = n - (cur :: nat)"
proof -
  assume "cur \<le> n" "n - cur < 64" "cur mod 64 = 0"
  moreover from this(3) obtain q where "cur = 64 * q" by (auto elim: dvdE)
  ultimately show ?thesis by (metis le_add_diff_inverse mod_less mod_mult_self4)
qed

lemma calc_sha1:
  assumes "length w = 80" and "length src < 2 ^ 29"
  shows "calc w src = sha1 src"
proof -
  let ?iv = "(0x67452301, 0xefcdab89, 0x98badcfe, 0x10325476, 0xc3d2e1f0) :: regs"
  obtain cur r w' where b: "full_blocks src 0 (?iv, w) = (cur, r, w')" "length w' = 80" "cur \<le> length src"
    "length src - cur < 64" "cur mod 64 = 0 mod 64"
    "\<forall>t. fold compress (chunks 64 (drop 0 src @ t)) ?iv = fold compress (chunks 64 (drop cur src @ t)) r"
    using full_blocks_compress [OF assms(1) le0, of src ?iv] by blast
  have short: "8 * length src < 2 ^ 32" using assms(2) by simp
  have "length src mod 64 = length src - cur"
    using b(3-5) by (intro block_rest) simp_all
  then have "last_blocks src (cur, r, w') = fold compress (chunks 64 (sha1_pad src)) ?iv"
    using last_blocks_compress [OF b(2,3,4) short, of r] b(6)
    by (simp only: sha1_pad_def message_length_words [OF short] drop_0)
  then show ?thesis
    by (simp only: calc_def b(1) sha1_def Let_def digest_bytes)
qed

lemma length_sha1: "length (sha1 m) = 20"
proof -
  have "length (concat (map (be_bytes 4) (reg_list r))) = 20" for r
    by (cases r) simp
  then show ?thesis by (simp only: sha1_def)
qed

text \<open>C32. The hash of the library is SHA-1: for every message of less than 512 MiB, and whatever its work
  buffer held before, \<open>sha1::calc\<close> computes the digest that FIPS 180-4 defines by padding, message schedule and
  compression of 64-byte blocks, which has twenty bytes.\<close>

theorem calc_is_sha1:
  assumes "length w = 80" and "length src < 2 ^ 29"
  shows "calc w src = sha1 src \<and> length (calc w src) = 20"
  using calc_sha1 [OF assms] length_sha1 by simp

theorem calc_is_sha1_witness:
  "calc (replicate 80 0) (map of_char ''abc'') = sha1 (map of_char ''abc'')"
  by (rule calc_is_sha1 [THEN conjunct1]) simp_all

end
