(* ===== verification/Ws_Base64.thy ===== *)
theory Ws_Base64
  imports Prelude
begin

section \<open>Base64, as the WebSocket handshake uses it\<close>

text \<open>
  Model of \<open>websocketpp/base64/base64.hpp\<close>. The loops keep the working array of the source
  (\<open>char_array_3\<close> while encoding, \<open>char_array_4\<close> while decoding) and its fill count \<open>i\<close>; the
  arrays are not initialised in the source, here they start with zeros, and every entry read
  has been written. Characters are bytes. The main lemma is the round trip: decoding an
  encoding gives back the input.
\<close>

unbundle bit_operations_syntax

subsection \<open>Definitions\<close>

definition base64_chars :: bytes where
  "base64_chars = map of_char
     ''ABCDEFGHIJKLMNOPQRSTUVWXYZabcdefghijklmnopqrstuvwxyz0123456789+/''"

definition is_base64 :: "u8 \<Rightarrow> bool" where
  "is_base64 c \<longleftrightarrow> c = 43 \<or> 47 \<le> c \<and> c \<le> 57 \<or> 65 \<le> c \<and> c \<le> 90 \<or> 97 \<le> c \<and> c \<le> 122"

text \<open>The four sextets of three bytes.\<close>

definition sextets :: "bytes \<Rightarrow> bytes" where
  "sextets a =
     [drop_bit 2 (a ! 0 AND 0xfc),
      push_bit 4 (a ! 0 AND 0x03) + drop_bit 4 (a ! 1 AND 0xf0),
      push_bit 2 (a ! 1 AND 0x0f) + drop_bit 6 (a ! 2 AND 0xc0),
      a ! 2 AND 0x3f]"

fun base64_encode_loop :: "bytes \<Rightarrow> nat \<Rightarrow> bytes \<Rightarrow> bytes \<Rightarrow> nat \<times> bytes \<times> bytes" where
  "base64_encode_loop char_array_3 i ret [] = (i, char_array_3, ret)"
| "base64_encode_loop char_array_3 i ret (x # input) =
     (let char_array_3 = char_array_3[i := x]; i = i + 1
      in if i = 3
         then base64_encode_loop char_array_3 0
                (ret @ map (\<lambda>c. base64_chars ! unat c) (sextets char_array_3)) input
         else base64_encode_loop char_array_3 i ret input)"

definition base64_encode_rest :: "nat \<times> bytes \<times> bytes \<Rightarrow> bytes" where
  "base64_encode_rest = (\<lambda>(i, char_array_3, ret).
     if i \<noteq> 0
     then let char_array_3 = take i char_array_3 @ replicate (3 - i) 0
          in ret @ map (\<lambda>c. base64_chars ! unat c) (take (i + 1) (sextets char_array_3)) @
             replicate (3 - i) (of_char (CHR ''=''))
     else ret)"

definition base64_encode :: "bytes \<Rightarrow> bytes" where
  "base64_encode input = base64_encode_rest (base64_encode_loop [0, 0, 0] 0 [] input)"

text \<open>\<open>base64_chars.find(c)\<close>, cast to \<open>unsigned char\<close>: \<open>npos\<close> becomes 255.\<close>

fun find_from :: "nat \<Rightarrow> u8 \<Rightarrow> bytes \<Rightarrow> u8" where
  "find_from n c [] = 255"
| "find_from n c (x # xs) = (if x = c then of_nat n else find_from (n + 1) c xs)"

definition base64_find :: "u8 \<Rightarrow> u8" where
  "base64_find c = find_from 0 c base64_chars"

definition octets :: "bytes \<Rightarrow> bytes" where
  "octets a =
     [push_bit 2 (a ! 0) + drop_bit 4 (a ! 1 AND 0x30),
      push_bit 4 (a ! 1 AND 0xf) + drop_bit 2 (a ! 2 AND 0x3c),
      push_bit 6 (a ! 2 AND 0x3) + a ! 3]"

fun base64_decode_loop :: "bytes \<Rightarrow> nat \<Rightarrow> bytes \<Rightarrow> bytes \<Rightarrow> nat \<times> bytes \<times> bytes" where
  "base64_decode_loop char_array_4 i ret [] = (i, char_array_4, ret)"
| "base64_decode_loop char_array_4 i ret (x # input) =
     (if x \<noteq> of_char (CHR ''='') \<and> is_base64 x
      then let char_array_4 = char_array_4[i := x]; i = i + 1
           in if i = 4
              then let char_array_4 = map base64_find char_array_4
                   in base64_decode_loop char_array_4 0 (ret @ octets char_array_4) input
              else base64_decode_loop char_array_4 i ret input
      else (i, char_array_4, ret))"

definition base64_decode_rest :: "nat \<times> bytes \<times> bytes \<Rightarrow> bytes" where
  "base64_decode_rest = (\<lambda>(i, char_array_4, ret).
     if i \<noteq> 0
     then let char_array_4 = map base64_find (take i char_array_4 @ replicate (4 - i) 0)
          in ret @ take (i - 1) (octets char_array_4)
     else ret)"

definition base64_decode :: "bytes \<Rightarrow> bytes" where
  "base64_decode input = base64_decode_rest (base64_decode_loop [0, 0, 0, 0] 0 [] input)"

subsection \<open>Sextets and octets\<close>

lemma and_3f_less: "unat (w AND 0x3f :: u8) < 64"
  using word_and_le1 [of w "0x3f"] by (simp add: word_le_nat_alt and.commute)

text \<open>In every sum of the source the summands have no bit in common.\<close>

lemma sextet_sums:
  "push_bit 4 (a AND 0x03 :: u8) + drop_bit 4 (b AND 0xf0) = push_bit 4 (a AND 0x03) OR drop_bit 4 (b AND 0xf0)"
  "push_bit 2 (a AND 0x0f :: u8) + drop_bit 6 (b AND 0xc0) = push_bit 2 (a AND 0x0f) OR drop_bit 6 (b AND 0xc0)"
  by (rule disjunctive_add_eq_or, rule byte_eqI, simp_all add: bit_simps)+

lemma octet_sums:
  "push_bit 2 (a :: u8) + drop_bit 4 (b AND 0x30) = push_bit 2 a OR drop_bit 4 (b AND 0x30)"
  "push_bit 4 (a AND 0xf :: u8) + drop_bit 2 (b AND 0x3c) = push_bit 4 (a AND 0xf) OR drop_bit 2 (b AND 0x3c)"
  "push_bit 6 (a AND 0x3 :: u8) + (b AND 0x3f) = push_bit 6 (a AND 0x3) OR (b AND 0x3f)"
  by (rule disjunctive_add_eq_or, rule byte_eqI, simp_all add: bit_simps)+

lemma sextets_6bit: "c \<in> set (sextets a) \<Longrightarrow> c AND 0x3f = c"
  unfolding sextets_def sextet_sums by (auto intro!: byte_eqI simp: bit_simps)

lemma sextets_less: "c \<in> set (sextets a) \<Longrightarrow> unat c < 64"
  using sextets_6bit and_3f_less by metis

lemma nth_four: "[w, x, y, z] ! 0 = w" "[w, x, y, z] ! 1 = x" "[w, x, y, z] ! 2 = y" "[w, x, y, z] ! 3 = z"
  by simp_all

lemma nth_three: "[w, x, y] ! 0 = w" "[w, x, y] ! 1 = x" "[w, x, y] ! 2 = y"
  by simp_all

lemma octets_sextets: "octets (sextets [a, b, c]) = [a, b, c]"
  unfolding octets_def sextets_def sextet_sums nth_four nth_three octet_sums list.inject
  by (intro conjI refl) (rule byte_eqI; simp add: bit_simps)+

lemma base64_chars_numerals: "base64_chars =
   [65, 66, 67, 68, 69, 70, 71, 72, 73, 74, 75, 76, 77, 78, 79, 80, 81, 82, 83, 84, 85, 86, 87, 88, 89, 90,
    97, 98, 99, 100, 101, 102, 103, 104, 105, 106, 107, 108, 109, 110, 111, 112, 113, 114, 115, 116, 117,
    118, 119, 120, 121, 122, 48, 49, 50, 51, 52, 53, 54, 55, 56, 57, 43, 47]"
  by (simp add: base64_chars_def)

lemma base64_alphabet: "list_all (\<lambda>c. is_base64 c \<and> c \<noteq> of_char (CHR ''='')) base64_chars"
  unfolding base64_chars_numerals is_base64_def by simp

lemma distinct_base64_chars: "distinct base64_chars"
  unfolding base64_chars_numerals by simp

lemma length_base64_chars: "length base64_chars = 64"
  by (simp add: base64_chars_def)

lemma find_from_nth:
  "distinct xs \<Longrightarrow> i < length xs \<Longrightarrow> find_from n (xs ! i) xs = of_nat (n + i)"
proof (induction xs arbitrary: n i)
  case (Cons x xs)
  show ?case
  proof (cases i)
    case (Suc j)
    then have "xs ! j \<noteq> x" using Cons.prems by (metis Suc_less_eq distinct.simps(2) length_Cons nth_mem)
    then show ?thesis using Cons Suc by simp
  qed simp
qed simp

text \<open>The character of a sextet, and its inverse.\<close>

definition b64char :: "u8 \<Rightarrow> u8" where
  "b64char c = base64_chars ! unat c"

lemma b64char_inverse: "unat c < 64 \<Longrightarrow> base64_find (b64char c) = c"
  unfolding base64_find_def b64char_def
  by (subst find_from_nth) (simp_all add: distinct_base64_chars length_base64_chars)

lemma b64char_alphabet:
  assumes "unat c < 64"
  shows "is_base64 (b64char c)" "b64char c \<noteq> 61"
  using assms base64_alphabet by (auto simp: b64char_def list_all_length length_base64_chars)

lemma length_3E:
  assumes "length xs = 3"
  obtains x y z where "xs = [x, y, z]"
  using assms by (metis length_0_conv length_Suc_conv numeral_3_eq_3)

lemma length_4E:
  assumes "length xs = 4"
  obtains w x y z where "xs = [w, x, y, z]"
  using assms by (auto simp: length_Suc_conv numeral_eq_Suc)

subsection \<open>Groups of three bytes\<close>

text \<open>What the encoder does, group by group.\<close>

fun b64_groups :: "bytes \<Rightarrow> bytes" where
  "b64_groups [] = []"
| "b64_groups [a] = map b64char (take 2 (sextets [a, 0, 0])) @ replicate 2 (of_char (CHR ''=''))"
| "b64_groups [a, b] = map b64char (take 3 (sextets [a, b, 0])) @ [of_char (CHR ''='')]"
| "b64_groups (a # b # c # xs) = map b64char (sextets [a, b, c]) @ b64_groups xs"

lemma encode_groups:
  assumes "length arr = 3"
  shows "base64_encode_rest (base64_encode_loop arr 0 ret xs) = ret @ b64_groups xs"
  using assms
proof (induction xs arbitrary: arr ret rule: b64_groups.induct)
  case 1
  then show ?case by (simp add: base64_encode_rest_def)
next
  case (2 a)
  then obtain x y z where "arr = [x, y, z]" by (rule length_3E)
  then show ?case by (simp add: base64_encode_rest_def b64char_def [abs_def] numeral_2_eq_2)
next
  case (3 a b)
  then obtain x y z where "arr = [x, y, z]" by (auto elim: length_3E)
  then show ?case by (simp add: base64_encode_rest_def b64char_def numeral_3_eq_3 take_Suc)
next
  case (4 a b c xs)
  then obtain x y z where arr: "arr = [x, y, z]" by (auto elim: length_3E)
  show ?case using "4.IH" [of "[a, b, c]" "ret @ map b64char (sextets [a, b, c])"]
    by (simp add: arr b64char_def [abs_def] Let_def)
qed

lemma base64_encode_groups: "base64_encode xs = b64_groups xs"
  using encode_groups [of "[0, 0, 0]" "[]" xs] by (simp add: base64_encode_def)


subsection \<open>The round trip\<close>

text \<open>The first two sextets determine the first byte, and the first three the first two bytes.\<close>

lemma octets_prefix:
  "take 1 (octets [p, q, u, v]) = take 1 (octets [p, q, u', v'])"
  "take 2 (octets [p, q, r, v]) = take 2 (octets [p, q, r, v'])"
  by (simp_all add: octets_def numeral_2_eq_2)

lemma sextets_list:
  obtains p q r s where "sextets a = [p, q, r, s]" "unat p < 64" "unat q < 64" "unat r < 64" "unat s < 64"
proof -
  have "length (sextets a) = 4" by (simp add: sextets_def)
  then obtain p q r s where "sextets a = [p, q, r, s]" by (rule length_4E)
  moreover from this have "\<forall>c \<in> {p, q, r, s}. unat c < 64" using sextets_less [of _ a] by simp
  ultimately show thesis using that by simp
qed

lemma decode_groups:
  assumes "length arr = 4"
  shows "base64_decode_rest (base64_decode_loop arr 0 ret (b64_groups xs)) = ret @ xs"
  using assms
proof (induction xs arbitrary: arr ret rule: b64_groups.induct)
  case 1
  then show ?case by (simp add: base64_decode_rest_def)
next
  case (2 a)
  obtain w x y z where arr: "arr = [w, x, y, z]" using 2 by (rule length_4E)
  obtain p q r s where s: "sextets [a, 0, 0] = [p, q, r, s]" "unat p < 64" "unat q < 64" by (rule sextets_list)
  have "take 1 (octets [p, q, base64_find 0, base64_find 0]) = [a]"
    using octets_prefix(1) [of p q _ _ r s] octets_sextets [of a 0 0] by (simp add: s(1))
  then show ?case
    by (simp add: Let_def arr s b64char_alphabet b64char_inverse base64_decode_rest_def numeral_2_eq_2)
next
  case (3 a b)
  obtain w x y z where arr: "arr = [w, x, y, z]" using 3 by (rule length_4E)
  obtain p q r s where s: "sextets [a, b, 0] = [p, q, r, s]" "unat p < 64" "unat q < 64" "unat r < 64"
    by (rule sextets_list)
  have "take 2 (octets [p, q, r, base64_find 0]) = [a, b]"
    using octets_prefix(2) [of p q r _ s] octets_sextets [of a b 0] by (simp add: s(1))
  then show ?case
    by (simp add: Let_def arr s b64char_alphabet b64char_inverse base64_decode_rest_def numeral_2_eq_2 numeral_3_eq_3)
next
  case (4 a b c xs)
  obtain w x y z where arr: "arr = [w, x, y, z]" using "4.prems" by (rule length_4E)
  obtain p q r s where s: "sextets [a, b, c] = [p, q, r, s]" "unat p < 64" "unat q < 64" "unat r < 64" "unat s < 64"
    by (rule sextets_list)
  have "octets [p, q, r, s] = [a, b, c]" using octets_sextets [of a b c] by (simp add: s(1))
  then show ?case
    using "4.IH" [of "[p, q, r, s]" "ret @ [a, b, c]"]
    by (simp add: Let_def arr s b64char_alphabet b64char_inverse numeral_2_eq_2 numeral_3_eq_3)
qed

lemma length_base64_encode: "length (base64_encode xs) = 4 * ((length xs + 2) div 3)"
  unfolding base64_encode_groups
proof (induction xs rule: b64_groups.induct)
  case (4 a b c xs)
  have "(length (a # b # c # xs) + 2) div 3 = (length xs + 2) div 3 + 1" by simp
  then show ?case using 4 by (simp add: sextets_def)
qed (simp_all add: sextets_def)

lemma base64_encode_alphabet: "c \<in> set (base64_encode xs) \<Longrightarrow> is_base64 c \<or> c = 61"
  unfolding base64_encode_groups
proof (induction xs rule: b64_groups.induct)
  case (4 a b c xs)
  then show ?case using b64char_alphabet(1) sextets_less by auto
qed (use b64char_alphabet(1) sextets_less in \<open>auto dest!: in_set_takeD\<close>)


end
