(* ===== verification/Ws_Handshake.thy ===== *)
theory Ws_Handshake
  imports Ws_Uri Ws_Sha1 Ws_Base64 Ws_Close
begin

section \<open>The opening handshake\<close>

text \<open>
  Model of the handshake half of \<open>websocketpp/processors/hybi13.hpp\<close>, of the free functions of
  \<open>processors/processor.hpp\<close> and of what the drafts 07 and 08 change. The extension permessage-deflate is the
  disabled one of the configuration in use. \<open>w\<close> is the uninitialised work buffer of the hash and \<open>rng\<close> the four
  random numbers of the key.

  The main result composes the whole exchange at the level of bytes: the request the client prints is read
  and accepted by the server side of the library, and the response the server prints is read and accepted
  by the client, which finds the first frame exactly after it.
\<close>

subsection \<open>Functions common to all versions\<close>

definition upgrade_token :: bytes where "upgrade_token = ascii ''websocket''"
definition connection_token :: bytes where "connection_token = ascii ''upgrade''"
definition handshake_guid :: bytes where "handshake_guid = ascii ''258EAFA5-E914-47DA-95CA-C5AB0DC85B11''"

definition is_websocket_handshake :: "'a http_parser_scheme \<Rightarrow> bool" where
  "is_websocket_handshake r \<longleftrightarrow>
     (let upgrade_header = get_header r (ascii ''Upgrade'');
          con_header = get_header r (ascii ''Connection'')
      in if ci_find_substr upgrade_header upgrade_token = length upgrade_header then False
         else if ci_find_substr con_header connection_token = length con_header then False
         else True)"

definition get_websocket_version :: "http_request \<Rightarrow> int" where
  "get_websocket_version r =
     (if \<not> rq_ready r then - 2
      else if get_header r (ascii ''Sec-WebSocket-Version'') = [] then 0
      else case read_int (get_header r (ascii ''Sec-WebSocket-Version'')) of None \<Rightarrow> - 1 | Some version \<Rightarrow> version)"

text \<open>\<open>std::string::rfind\<close> of one character; \<open>None\<close> is \<open>npos\<close>.\<close>

definition rfind :: "u8 \<Rightarrow> bytes \<Rightarrow> nat option" where
  "rfind c s = (if c \<in> set s then Some (length s - 1 - length (takeWhile (\<lambda>x. x \<noteq> c) (rev s))) else None)"

definition get_uri_from_host :: "(bytes \<Rightarrow> u32) \<Rightarrow> http_request \<Rightarrow> bytes \<Rightarrow> uri" where
  "get_uri_from_host over request scheme =
     (let h = get_header request (ascii ''Host'')
      in case rfind 58 h of
           None \<Rightarrow> uri_no_port scheme h (rq_uri request)
         | Some last_colon \<Rightarrow>
             if (case rfind 93 h of None \<Rightarrow> False | Some last_sbrace \<Rightarrow> last_sbrace > last_colon)
             then uri_no_port scheme h (rq_uri request)
             else uri_port_string over scheme (take last_colon h) (drop (last_colon + 1) h) (rq_uri request))"

subsection \<open>The handshake of hybi13\<close>

definition has_permessage_deflate :: bool where
  "has_permessage_deflate = False"

text \<open>\<open>enable_extensions\<close> is a constant of the configuration. With the disabled extension the loop over the
  parameters does nothing.\<close>

definition negotiate_extensions :: "bool \<Rightarrow> 'a http_parser_scheme \<Rightarrow> ec \<times> bytes" where
  "negotiate_extensions enable_extensions header =
     (if \<not> enable_extensions then (Some (ProcessorError PE_extensions_disabled), [])
      else
        let (error, p) = get_header_as_plist header (ascii ''Sec-WebSocket-Extensions'') []
        in if error then (Some (ProcessorError PE_extension_parse_error), []) else (None, []))"

definition validate_handshake :: "http_request \<Rightarrow> ec" where
  "validate_handshake r =
     (if rq_method r \<noteq> ascii ''GET'' then Some (ProcessorError PE_invalid_http_method)
      else if hp_version r \<noteq> ascii ''HTTP/1.1'' then Some (ProcessorError PE_invalid_http_version)
      else if get_header r (ascii ''Sec-WebSocket-Key'') = [] then Some (ProcessorError PE_missing_required_header)
      else None)"

definition process_handshake_key :: "u32 list \<Rightarrow> bytes \<Rightarrow> bytes" where
  "process_handshake_key w key = base64_encode (calc w (key @ handshake_guid))"

definition process_handshake :: "u32 list \<Rightarrow> http_request \<Rightarrow> bytes \<Rightarrow> http_response \<Rightarrow> http_response http" where
  "process_handshake w request subprotocol response =
     (let server_key = process_handshake_key w (get_header request (ascii ''Sec-WebSocket-Key''));
          response = replace_header (ascii ''Sec-WebSocket-Accept'') server_key response
      in http_then (append_header (ascii ''Upgrade'') upgrade_token response)
           (\<lambda>response. http_then (append_header (ascii ''Connection'') connection_token response)
              (\<lambda>response.
                 Inr (if subprotocol \<noteq> []
                      then replace_header (ascii ''Sec-WebSocket-Protocol'') subprotocol response
                      else response))))"

fun join_comma :: "bytes list \<Rightarrow> bytes" where
  "join_comma [] = []"
| "join_comma [x] = x"
| "join_comma (x # xs) = x @ ascii '', '' @ join_comma xs"

definition client_handshake_request ::
    "host \<Rightarrow> u32 list \<Rightarrow> http_request \<Rightarrow> uri \<Rightarrow> bytes list \<Rightarrow> http_request http" where
  "client_handshake_request h rng req uri subprotocols =
     http_then (set_method (ascii ''GET'') req)
       (\<lambda>req.
          let req = set_uri (u_resource uri) req;
              req = set_version (ascii ''HTTP/1.1'') req
          in http_then (append_header (ascii ''Upgrade'') (ascii ''websocket'') req)
               (\<lambda>req. http_then (append_header (ascii ''Connection'') (ascii ''Upgrade'') req)
                  (\<lambda>req.
                     let req = replace_header (ascii ''Sec-WebSocket-Version'') (ascii ''13'') req;
                         req = replace_header (ascii ''Host'') (get_host_port uri) req;
                         req = (if subprotocols \<noteq> []
                                then replace_header (ascii ''Sec-WebSocket-Protocol'') (join_comma subprotocols) req
                                else req);
                         raw_key = concat (map (mem_of h 4) (take 4 rng))
                     in Inr (replace_header (ascii ''Sec-WebSocket-Key'') (base64_encode raw_key) req))))"

definition validate_server_handshake_response :: "u32 list \<Rightarrow> http_request \<Rightarrow> http_response \<Rightarrow> ec" where
  "validate_server_handshake_response w req res =
     (if rs_status_code res \<noteq> sc_switching_protocols then Some (ProcessorError PE_invalid_http_status)
      else
        let upgrade_header = get_header res (ascii ''Upgrade'')
        in if ci_find_substr upgrade_header upgrade_token = length upgrade_header
           then Some (ProcessorError PE_missing_required_header)
           else
             let con_header = get_header res (ascii ''Connection'')
             in if ci_find_substr con_header connection_token = length con_header
                then Some (ProcessorError PE_missing_required_header)
                else
                  let key = process_handshake_key w (get_header req (ascii ''Sec-WebSocket-Key''))
                  in if key \<noteq> get_header res (ascii ''Sec-WebSocket-Accept'')
                     then Some (ProcessorError PE_missing_required_header)
                     else None)"

definition get_raw :: "http_response \<Rightarrow> bytes" where
  "get_raw res = response_raw res"

definition get_origin :: "http_request \<Rightarrow> bytes" where
  "get_origin r = get_header r (ascii ''Origin'')"

definition extract_subprotocols :: "http_request \<Rightarrow> bytes list \<Rightarrow> ec \<times> bytes list" where
  "extract_subprotocols req subprotocol_list =
     (if get_header req (ascii ''Sec-WebSocket-Protocol'') \<noteq> []
      then
        let (error, p) = get_header_as_plist req (ascii ''Sec-WebSocket-Protocol'') []
        in if \<not> error then (None, subprotocol_list @ map fst p)
           else (Some (ProcessorError PE_subprotocol_parse_error), subprotocol_list)
      else (None, subprotocol_list))"

definition get_uri :: "(bytes \<Rightarrow> u32) \<Rightarrow> bool \<Rightarrow> http_request \<Rightarrow> uri" where
  "get_uri over secure request = get_uri_from_host over request (if secure then ascii ''wss'' else ascii ''ws'')"

text \<open>The drafts 07 and 08 are hybi13 with another version number and origin header, and without a client.\<close>

definition hybi08_client_handshake_request :: "http_request \<Rightarrow> uri \<Rightarrow> bytes list \<Rightarrow> ec" where
  "hybi08_client_handshake_request req uri subprotocols = Some (ProcessorError PE_no_protocol_support)"

definition hybi08_get_origin :: "http_request \<Rightarrow> bytes" where
  "hybi08_get_origin r = get_header r (ascii ''Sec-WebSocket-Origin'')"

subsection \<open>Headers of a message\<close>

text \<open>Messages whose headers can be printed.\<close>

definition hdrs_ok :: "'a http_parser_scheme \<Rightarrow> bool" where
  "hdrs_ok p \<longleftrightarrow> hdr_wf (hp_headers p) \<and> (\<forall>h \<in> set (hp_headers p). good_header h)"

definition hdr_size :: "'a http_parser_scheme \<Rightarrow> nat" where
  "hdr_size p = counted (map header_line (hp_headers p))"

lemma good_hdr_assign:
  assumes "\<forall>h \<in> set m. good_header h" and "token k" and "plain v"
  shows "\<forall>h \<in> set (hdr_assign k v m). good_header h"
  using assms by (induction k v m rule: hdr_assign.induct) (auto simp: good_header_def)

lemma ci_same_length: "ci_same a k \<Longrightarrow> length a = length k"
  by (metis ci_same_lower length_map)

lemma counted_hdr_assign:
  "counted (map header_line (hdr_assign k v m)) \<le> counted (map header_line m) + length k + length v + 5"
proof (induction k v m rule: hdr_assign.induct)
  case (2 k v a b m)
  then show ?case using ci_same_length [of a k] by (auto simp: counted_def header_line_def ci_same_def)
qed (simp add: counted_def header_line_def)

lemma get_header_replace:
  "hdr_wf (hp_headers p) \<Longrightarrow> get_header (replace_header k v p) j = (if ci_same k j then v else get_header p j)"
  by (simp add: get_header_def replace_header_def headers.find_assign)

lemma hdrs_ok_replace: "hdrs_ok p \<Longrightarrow> token k \<Longrightarrow> plain v \<Longrightarrow> hdrs_ok (replace_header k v p)"
  using good_hdr_assign [of "hp_headers p" k v] by (simp add: hdrs_ok_def replace_header_def headers.wf_assign)

lemma hdr_size_replace: "hdr_size (replace_header k v p) \<le> hdr_size p + length k + length v + 5"
  using counted_hdr_assign by (simp add: hdr_size_def replace_header_def)

lemma append_header_new:
  assumes "token k" and "get_header p k = []"
  shows "append_header k v p = Inr (replace_header k v p)"
proof -
  have "\<not> (\<exists>c \<in> set k. is_not_token_char c)" using assms(1) by (simp add: token_def is_not_token_char_iff)
  then show ?thesis using assms(2) by (simp add: append_header_def replace_header_def)
qed

lemma hdrs_ok_wf: "hdrs_ok p \<Longrightarrow> hdr_wf (hp_headers p)"
  by (simp add: hdrs_ok_def)

text \<open>The names the handshake uses are tokens and differ from each other.\<close>

lemma handshake_names [simp]:
  "token (ascii ''Upgrade'')" "token (ascii ''Connection'')" "token (ascii ''Host'')" "token (ascii ''User-Agent'')"
  "token (ascii ''Server'')" "token (ascii ''Sec-WebSocket-Version'')" "token (ascii ''Sec-WebSocket-Protocol'')"
  "token (ascii ''Sec-WebSocket-Key'')" "token (ascii ''Sec-WebSocket-Accept'')" "token (ascii ''GET'')"
  by (simp_all only: token_ascii) (simp_all add: token_code_def)

definition handshake_keys :: "string list" where
  "handshake_keys = [''Upgrade'', ''Connection'', ''Host'', ''User-Agent'', ''Server'', ''Content-Length'',
     ''Sec-WebSocket-Version'', ''Sec-WebSocket-Protocol'', ''Sec-WebSocket-Key'', ''Sec-WebSocket-Accept'',
     ''Sec-WebSocket-Extensions'']"

lemma lowered_keys:
  "map (\<lambda>s. map tolower (ascii s)) handshake_keys =
     map ascii [''upgrade'', ''connection'', ''host'', ''user-agent'', ''server'', ''content-length'',
       ''sec-websocket-version'', ''sec-websocket-protocol'', ''sec-websocket-key'', ''sec-websocket-accept'',
       ''sec-websocket-extensions'']"
  by (simp add: handshake_keys_def tolower_def)

lemma ci_same_keys:
  assumes "a \<in> set handshake_keys" and "b \<in> set handshake_keys"
  shows "ci_same (ascii a) (ascii b) \<longleftrightarrow> a = b"
proof -
  have "distinct (map (\<lambda>s. map tolower (ascii s)) handshake_keys)"
    unfolding lowered_keys by simp
  then show ?thesis using assms by (auto simp: distinct_map inj_on_def ci_same_lower)
qed

lemma handshake_values [simp]:
  "plain (ascii ''websocket'')" "plain (ascii ''upgrade'')" "plain (ascii ''Upgrade'')" "plain (ascii ''13'')"
  by (simp_all add: plain_def edge_free_def)

lemma ci_find_tokens [simp]:
  "ci_find_substr (ascii ''websocket'') upgrade_token = 0"
  "ci_find_substr (ascii ''upgrade'') connection_token = 0"
  "ci_find_substr (ascii ''Upgrade'') connection_token = 0"
  by (simp_all add: ci_find_substr_def upgrade_token_def connection_token_def my_equal_def toupper_def)

lemma replace_header_simps [simp]:
  "hdr_wf (hp_headers p) \<Longrightarrow> hdr_wf (hp_headers (replace_header k v p))"
  "hp_version (replace_header k v p) = hp_version p"
  "hp_body (replace_header k v p) = hp_body p"
  "rq_method (replace_header k v q) = rq_method q"
  "rq_uri (replace_header k v q) = rq_uri q"
  "rs_status_code (replace_header k v r) = rs_status_code r"
  "rs_status_msg (replace_header k v r) = rs_status_msg r"
  by (simp_all add: replace_header_def headers.wf_assign)

lemma base64_plain: "plain (base64_encode x)"
proof -
  have "c \<noteq> 13 \<and> c \<noteq> 9 \<and> c \<noteq> 32" if "c \<in> set (base64_encode x)" for c
    using base64_encode_alphabet [OF that] by (auto simp: is_base64_def word_le_nat_alt)
  then show ?thesis by (metis edge_free_def empty_iff hd_in_set insert_iff last_in_set plain_def)
qed

text \<open>A target that can be requested.\<close>

definition target_ok :: "uri \<Rightarrow> bool" where
  "target_ok u \<longleftrightarrow>
     13 \<notin> set (u_resource u) \<and> 32 \<notin> set (u_resource u) \<and> get_host_port u \<noteq> [] \<and> plain (get_host_port u)"

lemma key_in [simp]: "k \<in> set handshake_keys" if "k \<in> {''Upgrade'', ''Connection'', ''Host'', ''User-Agent'', ''Server'',
     ''Content-Length'', ''Sec-WebSocket-Version'', ''Sec-WebSocket-Protocol'', ''Sec-WebSocket-Key'',
     ''Sec-WebSocket-Accept'', ''Sec-WebSocket-Extensions''}"
  using that by (auto simp: handshake_keys_def)

lemmas ascii_open = ascii_simps(1,2)

lemma client_request_headers:
  assumes "target_ok u" and "plain (join_comma subs)" and "4 \<le> length rng"
  shows "\<exists>req. client_handshake_request h rng request_init u subs = Inr req \<and> hdrs_ok req \<and> hp_body req = [] \<and>
    rq_method req = ascii ''GET'' \<and> rq_uri req = u_resource u \<and> hp_version req = ascii ''HTTP/1.1'' \<and>
    get_header req (ascii ''Upgrade'') = ascii ''websocket'' \<and> get_header req (ascii ''Connection'') = ascii ''Upgrade'' \<and>
    get_header req (ascii ''Sec-WebSocket-Version'') = ascii ''13'' \<and>
    get_header req (ascii ''Host'') = get_host_port u \<and> get_header req (ascii ''Content-Length'') = [] \<and>
    get_header req (ascii ''Sec-WebSocket-Extensions'') = [] \<and> get_header req (ascii ''User-Agent'') = [] \<and>
    length (get_header req (ascii ''Sec-WebSocket-Key'')) = 24 \<and>
    hdr_size req \<le> 200 + length (get_host_port u) + length (join_comma subs)"
proof -
  define p0 where "p0 = request_init\<lparr>rq_method := ascii ''GET'', rq_uri := u_resource u, hp_version := ascii ''HTTP/1.1''\<rparr>"
  define p1 where "p1 = replace_header (ascii ''Connection'') (ascii ''Upgrade'') (replace_header (ascii ''Upgrade'') (ascii ''websocket'') p0)"
  define p2 where "p2 = replace_header (ascii ''Host'') (get_host_port u) (replace_header (ascii ''Sec-WebSocket-Version'') (ascii ''13'') p1)"
  define p3 where "p3 = (if subs \<noteq> [] then replace_header (ascii ''Sec-WebSocket-Protocol'') (join_comma subs) p2 else p2)"
  define key where "key = base64_encode (concat (map (mem_of h 4) (take 4 rng)))"
  have m: "set_method (ascii ''GET'') request_init = Inr (request_init\<lparr>rq_method := ascii ''GET''\<rparr>)"
  proof -
    have "token (ascii ''GET'')" by (rule handshake_names)
    then show ?thesis by (simp add: set_method_def token_def is_not_token_char_iff del: ascii_open)
  qed
  have wf0: "hdr_wf (hp_headers p0)" "\<And>k. get_header p0 k = []"
    by (simp_all add: p0_def request_init_def get_header_def)
  have a1: "append_header (ascii ''Upgrade'') (ascii ''websocket'') p0 = Inr (replace_header (ascii ''Upgrade'') (ascii ''websocket'') p0)"
    by (rule append_header_new) (simp_all add: wf0 del: ascii_open)
  have a2: "append_header (ascii ''Connection'') (ascii ''Upgrade'') (replace_header (ascii ''Upgrade'') (ascii ''websocket'') p0) = Inr p1"
    unfolding p1_def by (rule append_header_new) (simp_all add: get_header_replace wf0 ci_same_keys del: ascii_open)
  have run: "client_handshake_request h rng request_init u subs = Inr (replace_header (ascii ''Sec-WebSocket-Key'') key p3)"
    using a1 a2 by (simp add: client_handshake_request_def m p0_def p2_def p3_def key_def set_uri_def set_version_def Let_def del: ascii_open)
  have ok: "hdrs_ok (replace_header (ascii ''Sec-WebSocket-Key'') key p3)"
  proof -
    have "hdrs_ok p0" by (simp add: p0_def request_init_def hdrs_ok_def)
    then show ?thesis
      using assms(1,2) base64_plain
      by (auto simp: p3_def p2_def p1_def key_def target_ok_def intro!: hdrs_ok_replace simp del: ascii_open)
  qed
  have key: "length key = 24"
    using assms(3) by (simp add: key_def length_base64_encode length_concat o_def sum_list_triv)
  have p3: "hdr_wf (hp_headers p3)" "hp_body p3 = []" "rq_method p3 = ascii ''GET''" "rq_uri p3 = u_resource u"
    "hp_version p3 = ascii ''HTTP/1.1''"
    using wf0 by (simp_all add: p3_def p2_def p1_def p0_def request_init_def del: ascii_open)
  have get: "get_header p3 (ascii k) =
      (if k = ''Sec-WebSocket-Protocol'' \<and> subs \<noteq> [] then join_comma subs else if k = ''Host'' then get_host_port u
       else if k = ''Sec-WebSocket-Version'' then ascii ''13'' else if k = ''Connection'' then ascii ''Upgrade''
       else if k = ''Upgrade'' then ascii ''websocket'' else [])" if "k \<in> set handshake_keys" for k
    using that wf0 by (auto simp: p3_def p2_def p1_def get_header_replace ci_same_keys simp del: ascii_open)
  have "hdr_size p0 = 0" by (simp add: p0_def request_init_def hdr_size_def counted_def)
  then have "hdr_size p1 \<le> 43"
    using hdr_size_replace [of "ascii ''Upgrade''" "ascii ''websocket''" p0]
      hdr_size_replace [of "ascii ''Connection''" "ascii ''Upgrade''" "replace_header (ascii ''Upgrade'') (ascii ''websocket'') p0"]
    unfolding p1_def by (simp del: ascii_open)
  then have "hdr_size p2 \<le> 80 + length (get_host_port u)"
    using hdr_size_replace [of "ascii ''Sec-WebSocket-Version''" "ascii ''13''" p1]
      hdr_size_replace [of "ascii ''Host''" "get_host_port u" "replace_header (ascii ''Sec-WebSocket-Version'') (ascii ''13'') p1"]
    unfolding p2_def by (simp del: ascii_open)
  then have "hdr_size p3 \<le> 107 + length (get_host_port u) + length (join_comma subs)"
    using hdr_size_replace [of "ascii ''Sec-WebSocket-Protocol''" "join_comma subs" p2]
    unfolding p3_def by (simp del: ascii_open)
  then have "hdr_size (replace_header (ascii ''Sec-WebSocket-Key'') key p3) \<le> 200 + length (get_host_port u) + length (join_comma subs)"
    using hdr_size_replace [of "ascii ''Sec-WebSocket-Key''" key p3] key by (simp del: ascii_open)
  then show ?thesis
    using run ok key p3 by (simp add: get_header_replace get ci_same_keys del: ascii_open)
qed

subsection \<open>The names of the two programs\<close>

text \<open>What \<open>connection::send_http_request\<close> and \<open>connection::write_http_response\<close> add to the messages.\<close>

definition finish_request :: "bytes \<Rightarrow> http_request \<Rightarrow> http_request" where
  "finish_request user_agent req =
     (if get_header req (ascii ''User-Agent'') = []
      then if user_agent \<noteq> [] then replace_header (ascii ''User-Agent'') user_agent req
           else remove_header (ascii ''User-Agent'') req
      else req)"

definition finish_response :: "bytes \<Rightarrow> http_response \<Rightarrow> http_response" where
  "finish_response user_agent res =
     (let res = set_version (ascii ''HTTP/1.1'') res
      in if get_header res (ascii ''Server'') = []
         then if user_agent \<noteq> [] then replace_header (ascii ''Server'') user_agent res
              else remove_header (ascii ''Server'') res
         else res)"

lemma counted_hdr_erase: "counted (map header_line (hdr_erase k m)) \<le> counted (map header_line m)"
  by (induction k m rule: hdr_erase.induct) (auto simp: counted_def)

lemma remove_header_simps [simp]:
  "hdr_wf (hp_headers p) \<Longrightarrow> hdr_wf (hp_headers (remove_header k p))"
  "hdrs_ok p \<Longrightarrow> hdrs_ok (remove_header k p)"
  "hp_version (remove_header k p) = hp_version p"
  "hp_body (remove_header k p) = hp_body p"
  "rq_method (remove_header k q) = rq_method q"
  "rq_uri (remove_header k q) = rq_uri q"
  "rs_status_code (remove_header k r) = rs_status_code r"
  "rs_status_msg (remove_header k r) = rs_status_msg r"
  using hdr_set_erase [of k "hp_headers p"]
  by (auto simp: remove_header_def headers.wf_erase hdrs_ok_def hdr_size_def counted_hdr_erase)

lemma hdr_size_remove: "hdr_size (remove_header k p) \<le> hdr_size p"
  by (simp add: remove_header_def hdr_size_def counted_hdr_erase)

lemma get_header_remove:
  "hdr_wf (hp_headers p) \<Longrightarrow> get_header (remove_header k p) j = (if ci_same k j then [] else get_header p j)"
  by (simp add: get_header_def remove_header_def headers.find_erase)

lemma get_header_same: "hp_headers p = hp_headers q \<Longrightarrow> get_header p k = get_header q k"
  by (simp add: get_header_def)

text \<open>Naming a program changes only its own header.\<close>

lemma finish_request_ok:
  assumes "hdrs_ok req" and "plain agent"
  defines "r \<equiv> finish_request agent req"
  shows "hdrs_ok r" "hdr_size r \<le> hdr_size req + length agent + 15"
    "rq_method r = rq_method req" "rq_uri r = rq_uri req" "hp_version r = hp_version req" "hp_body r = hp_body req"
    "k \<in> set handshake_keys \<Longrightarrow> k \<noteq> ''User-Agent'' \<Longrightarrow> get_header r (ascii k) = get_header req (ascii k)"
  using assms(1,2) hdrs_ok_wf [OF assms(1)] hdr_size_replace [of "ascii ''User-Agent''" agent req]
    hdr_size_remove [of "ascii ''User-Agent''" req]
  by (auto simp: r_def finish_request_def hdrs_ok_replace get_header_replace get_header_remove ci_same_keys
      simp del: ascii_open)

lemma finish_response_ok:
  assumes "hdrs_ok res" and "plain agent"
  defines "r \<equiv> finish_response agent res"
  shows "hdrs_ok r" "hdr_size r \<le> hdr_size res + length agent + 11"
    "rs_status_code r = rs_status_code res" "rs_status_msg r = rs_status_msg res" "hp_version r = ascii ''HTTP/1.1''" "hp_body r = hp_body res"
    "k \<in> set handshake_keys \<Longrightarrow> k \<noteq> ''Server'' \<Longrightarrow> get_header r (ascii k) = get_header res (ascii k)"
proof -
  define q where "q = set_version (ascii ''HTTP/1.1'') res"
  have q: "hdrs_ok q" "hdr_size q = hdr_size res" "rs_status_code q = rs_status_code res" "rs_status_msg q = rs_status_msg res"
    "hp_version q = ascii ''HTTP/1.1''" "hp_body q = hp_body res" "\<And>k. get_header q k = get_header res k"
    using assms(1) by (simp_all add: q_def set_version_def hdrs_ok_def hdr_size_def get_header_def)
  then show "hdrs_ok r" "hdr_size r \<le> hdr_size res + length agent + 11"
    "rs_status_code r = rs_status_code res" "rs_status_msg r = rs_status_msg res" "hp_version r = ascii ''HTTP/1.1''" "hp_body r = hp_body res"
    "k \<in> set handshake_keys \<Longrightarrow> k \<noteq> ''Server'' \<Longrightarrow> get_header r (ascii k) = get_header res (ascii k)"
    using assms(2) hdrs_ok_wf [OF q(1)] hdr_size_replace [of "ascii ''Server''" agent q]
      hdr_size_remove [of "ascii ''Server''" q]
    by (auto simp: r_def finish_response_def q_def [symmetric] hdrs_ok_replace get_header_replace get_header_remove ci_same_keys Let_def
      simp del: ascii_open)
qed

subsection \<open>The whole exchange\<close>

lemma ascii_13: "read_int (ascii ''13'') = Some 13" "ascii ''13'' \<noteq> []"
  by (simp_all add: read_int_def scan_number_def is_space_def is_digit_def digits_value_def Let_def)

lemma length_calc: "length (calc w m) = 20"
  by (simp add: calc_def Let_def)

lemma server_response:
  assumes "plain sub"
  shows "\<exists>res. process_handshake w sreq sub (set_status sc_switching_protocols response_init) = Inr res \<and> hdrs_ok res \<and>
    hp_body res = [] \<and> rs_status_code res = 101 \<and> rs_status_msg res = ascii ''Switching Protocols'' \<and>
    get_header res (ascii ''Upgrade'') = ascii ''websocket'' \<and> get_header res (ascii ''Connection'') = ascii ''upgrade'' \<and>
    get_header res (ascii ''Sec-WebSocket-Accept'') = process_handshake_key w (get_header sreq (ascii ''Sec-WebSocket-Key'')) \<and>
    get_header res (ascii ''Content-Length'') = [] \<and> get_header res (ascii ''Sec-WebSocket-Extensions'') = [] \<and>
    hdr_size res \<le> 200 + length sub"
proof -
  define p0 where "p0 = set_status sc_switching_protocols response_init"
  define key where "key = process_handshake_key w (get_header sreq (ascii ''Sec-WebSocket-Key''))"
  define p1 where "p1 = replace_header (ascii ''Sec-WebSocket-Accept'') key p0"
  define p2 where "p2 = replace_header (ascii ''Upgrade'') upgrade_token p1"
  define p3 where "p3 = replace_header (ascii ''Connection'') connection_token p2"
  define p4 where "p4 = (if sub \<noteq> [] then replace_header (ascii ''Sec-WebSocket-Protocol'') sub p3 else p3)"
  have wf0: "hdr_wf (hp_headers p0)" "\<And>k. get_header p0 k = []" "hdrs_ok p0" "hdr_size p0 = 0"
    by (simp_all add: p0_def set_status_def response_init_def get_header_def hdrs_ok_def hdr_size_def counted_def)
  have key: "plain key" "length key = 28"
    by (simp_all add: key_def process_handshake_key_def base64_plain length_base64_encode length_calc)
  have a1: "append_header (ascii ''Upgrade'') upgrade_token p1 = Inr p2"
    unfolding p2_def p1_def by (rule append_header_new) (simp_all add: get_header_replace wf0 ci_same_keys del: ascii_open)
  have a2: "append_header (ascii ''Connection'') connection_token p2 = Inr p3"
    unfolding p3_def p2_def p1_def by (rule append_header_new) (simp_all add: get_header_replace wf0 ci_same_keys del: ascii_open)
  have run: "process_handshake w sreq sub p0 = Inr p4"
    using a1 a2 by (simp add: process_handshake_def Let_def key_def [symmetric] p1_def [symmetric] p4_def del: ascii_open)
  have ok: "hdrs_ok p4"
    using assms key wf0 by (auto simp: p4_def p3_def p2_def p1_def upgrade_token_def connection_token_def
        intro!: hdrs_ok_replace simp del: ascii_open)
  have st: "rs_status_code p4 = 101" "rs_status_msg p4 = ascii ''Switching Protocols''" "hp_body p4 = []"
    by (simp_all add: p4_def p3_def p2_def p1_def p0_def set_status_def response_init_def sc_switching_protocols_def
        status_string_def status_table_def del: ascii_open)
  have get: "get_header p4 (ascii k) =
      (if k = ''Sec-WebSocket-Protocol'' \<and> sub \<noteq> [] then sub else if k = ''Connection'' then connection_token
       else if k = ''Upgrade'' then upgrade_token else if k = ''Sec-WebSocket-Accept'' then key else [])"
    if "k \<in> set handshake_keys" for k
    using that wf0 by (auto simp: p4_def p3_def p2_def p1_def get_header_replace ci_same_keys simp del: ascii_open)
  have "hdr_size p3 \<le> 96"
    using hdr_size_replace [of "ascii ''Sec-WebSocket-Accept''" key p0] hdr_size_replace [of "ascii ''Upgrade''" upgrade_token p1]
      hdr_size_replace [of "ascii ''Connection''" connection_token p2] key wf0(4)
    by (simp add: p3_def p2_def p1_def upgrade_token_def connection_token_def del: ascii_open)
  then have "hdr_size p4 \<le> 200 + length sub"
    using hdr_size_replace [of "ascii ''Sec-WebSocket-Protocol''" sub p3] by (simp add: p4_def del: ascii_open)
  then show ?thesis
    unfolding p0_def [symmetric] key_def [symmetric]
    using run ok st by (simp add: get upgrade_token_def connection_token_def del: ascii_open)
qed

lemma http_11: "13 \<notin> set (ascii ''HTTP/1.1'')" "32 \<notin> set (ascii ''HTTP/1.1'')"
  by simp_all

lemma sent_request:
  assumes "target_ok u" and "plain (join_comma subs)" and "plain agent" and "4 \<le> length rng"
    and "length (u_resource u) + length (get_host_port u) + length (join_comma subs) + length agent \<le> 15000"
    and "client_handshake_request h rng request_init u subs = Inr req"
  shows "\<exists>sreq. request_consume (request_raw (finish_request agent req) @ rest) request_init =
      Inr (length (request_raw (finish_request agent req)), sreq) \<and> rq_ready sreq \<and> rq_uri sreq = u_resource u \<and>
    is_websocket_handshake sreq \<and> get_websocket_version sreq = 13 \<and> validate_handshake sreq = None \<and>
    get_header sreq (ascii ''Host'') = get_host_port u \<and>
    get_header sreq (ascii ''Sec-WebSocket-Key'') = get_header (finish_request agent req) (ascii ''Sec-WebSocket-Key'') \<and>
    length (get_header sreq (ascii ''Sec-WebSocket-Key'')) = 24"
proof -
  define r where "r = finish_request agent req"
  have req: "hdrs_ok req" "hp_body req = []" "rq_method req = ascii ''GET''" "rq_uri req = u_resource u"
      "hp_version req = ascii ''HTTP/1.1''" "get_header req (ascii ''Upgrade'') = ascii ''websocket''"
      "get_header req (ascii ''Connection'') = ascii ''Upgrade''" "get_header req (ascii ''Sec-WebSocket-Version'') = ascii ''13''"
      "get_header req (ascii ''Host'') = get_host_port u" "get_header req (ascii ''Content-Length'') = []"
      "length (get_header req (ascii ''Sec-WebSocket-Key'')) = 24"
      "hdr_size req \<le> 200 + length (get_host_port u) + length (join_comma subs)"
    using client_request_headers [OF assms(1,2,4), of h] assms(6) by auto
  note r = finish_request_ok [OF req(1) assms(3), folded r_def]
  have p: "printable_request r"
    using r req assms(1,5) http_11 unfolding printable_request_def hdr_size_def
    by (simp add: hdrs_ok_def target_ok_def request_line_def counted_def max_header_size_def del: ascii_open)
  define sreq where "sreq = request_init\<lparr>hp_version := hp_version r, hp_headers := hp_headers r,
      hp_header_bytes := counted (request_line r # map header_line (hp_headers r) @ [[]]),
      rq_method := rq_method r, rq_uri := rq_uri r, rq_ready := True\<rparr>"
  have g: "get_header sreq k = get_header r k" for k by (rule get_header_same) (simp add: sreq_def)
  have "rq_ready sreq" "rq_uri sreq = u_resource u" "rq_method sreq = ascii ''GET''" "hp_version sreq = ascii ''HTTP/1.1''"
    using r req by (simp_all add: sreq_def)
  then show ?thesis
    using request_roundtrip [OF p, of rest] r(7) req ascii_13
    unfolding r_def [symmetric] sreq_def [symmetric]
    by (auto simp: g is_websocket_handshake_def get_websocket_version_def validate_handshake_def Let_def
        simp del: ascii_open)
qed

lemma no_extensions: "get_header p (ascii ''Sec-WebSocket-Extensions'') = [] \<Longrightarrow> negotiate_extensions True p = (None, [])"
  by (simp add: negotiate_extensions_def get_header_as_plist_def get_header_def Let_def split: option.splits del: ascii_open)

lemma switching_line:
  "rs_status_code r = 101 \<Longrightarrow> hp_version r = ascii ''HTTP/1.1'' \<Longrightarrow> rs_status_msg r = ascii ''Switching Protocols'' \<Longrightarrow>
   length (status_line r) = 32 \<and> 13 \<notin> set (rs_status_msg r)"
  by (simp add: status_line_def show_int_def show_nat.simps)

lemma sent_response:
  assumes "plain sub" and "plain agent" and "length sub + length agent \<le> 15000"
    and "process_handshake w sreq sub (set_status sc_switching_protocols response_init) = Inr res"
  shows "\<exists>cres. response_consume (response_raw (finish_response agent res) @ rest) response_init =
      Inr (length (response_raw (finish_response agent res)), cres) \<and> headers_ready cres \<and>
    rs_status_code cres = 101 \<and> negotiate_extensions True cres = (None, []) \<and>
    get_header cres (ascii ''Upgrade'') = ascii ''websocket'' \<and> get_header cres (ascii ''Connection'') = ascii ''upgrade'' \<and>
    get_header cres (ascii ''Sec-WebSocket-Accept'') = process_handshake_key w (get_header sreq (ascii ''Sec-WebSocket-Key''))"
proof -
  define r where "r = finish_response agent res"
  have res: "hdrs_ok res" "hp_body res = []" "rs_status_code res = 101" "rs_status_msg res = ascii ''Switching Protocols''"
    "get_header res (ascii ''Upgrade'') = ascii ''websocket''" "get_header res (ascii ''Connection'') = ascii ''upgrade''"
    "get_header res (ascii ''Sec-WebSocket-Accept'') = process_handshake_key w (get_header sreq (ascii ''Sec-WebSocket-Key''))"
    "get_header res (ascii ''Content-Length'') = []" "get_header res (ascii ''Sec-WebSocket-Extensions'') = []"
    "hdr_size res \<le> 200 + length sub"
    using server_response [OF assms(1), of w sreq] assms(4) by auto
  note r = finish_response_ok [OF res(1) assms(2), folded r_def]
  have ln: "length (status_line r) = 32" "13 \<notin> set (rs_status_msg r)"
    using switching_line [of r] r res by simp_all
  have p: "printable_response r"
    using r res ln assms(3) http_11 unfolding printable_response_def hdr_size_def
    by (simp add: hdrs_ok_def counted_def max_header_size_def del: ascii_open)
  have c: "content_ok r"
    using r res by (simp add: content_ok_def Let_def del: ascii_open)
  obtain st where st: "response_consume (response_raw r @ rest) response_init =
      Inr (length (response_raw r), response_init\<lparr>hp_version := hp_version r, hp_headers := hp_headers r,
        hp_header_bytes := counted (status_line r # map header_line (hp_headers r) @ [[]]), hp_body := hp_body r,
        rs_status_code := rs_status_code r, rs_status_msg := rs_status_msg r, rs_state := st\<rparr>)"
      (is "_ = Inr (_, ?c)") "st = BODY \<or> st = DONE"
    using response_roundtrip [OF p c] by blast
  define cres where "cres = ?c"
  have g: "get_header cres k = get_header r k" for k by (rule get_header_same) (simp add: cres_def)
  have "headers_ready cres" "rs_status_code cres = 101"
    using st(2) r(3) res(3) by (auto simp: headers_ready_def cres_def)
  moreover have "negotiate_extensions True cres = (None, [])"
    using r(7) res(9) by (intro no_extensions) (simp add: g del: ascii_open)
  moreover note st(1) [folded cres_def]
  ultimately show ?thesis
    unfolding r_def [symmetric] using r(7) [of "''Upgrade''"] r(7) [of "''Connection''"] r(7) [of "''Sec-WebSocket-Accept''"] res
    by (intro exI [of _ cres]) (simp add: g del: ascii_open)
qed

text \<open>C10. A client that connects to a printable target and a server that answers the request it reads agree on the
  handshake: the server reads every byte of the request, finds a version 13 WebSocket handshake with the client's
  resource and host, and accepts it; the client reads exactly the bytes of the response, leaving the frames
  that follow, and its checks of the status, the headers, the key and the extensions all pass. The contents of
  the hash buffers, which the code does not initialize, play no part.\<close>

theorem handshake_roundtrip:
  assumes "target_ok u" and "plain (join_comma subs)" and "4 \<le> length rng"
    and "plain agent" and "plain sub" and "plain server"
    and "length (u_resource u) + length (get_host_port u) + length (join_comma subs) + length agent \<le> 15000"
    and "length sub + length server \<le> 15000" and "length w1 = 80" and "length w2 = 80"
  shows "\<exists>req sreq res cres.
    client_handshake_request h rng request_init u subs = Inr req \<and>
    request_consume (request_raw (finish_request agent req) @ rest1) request_init =
      Inr (length (request_raw (finish_request agent req)), sreq) \<and>
    rq_ready sreq \<and> is_websocket_handshake sreq \<and> get_websocket_version sreq = 13 \<and> validate_handshake sreq = None \<and>
    rq_uri sreq = u_resource u \<and> get_header sreq (ascii ''Host'') = get_host_port u \<and>
    process_handshake w1 sreq sub (set_status sc_switching_protocols response_init) = Inr res \<and>
    response_consume (response_raw (finish_response server res) @ rest2) response_init =
      Inr (length (response_raw (finish_response server res)), cres) \<and>
    headers_ready cres \<and> validate_server_handshake_response w2 (finish_request agent req) cres = None \<and>
    negotiate_extensions True cres = (None, [])"
proof -
  obtain req where req: "client_handshake_request h rng request_init u subs = Inr req"
    using client_request_headers [OF assms(1-3)] by blast
  obtain sreq where sreq: "request_consume (request_raw (finish_request agent req) @ rest1) request_init =
      Inr (length (request_raw (finish_request agent req)), sreq)" "rq_ready sreq" "rq_uri sreq = u_resource u"
    "is_websocket_handshake sreq" "get_websocket_version sreq = 13" "validate_handshake sreq = None"
    "get_header sreq (ascii ''Host'') = get_host_port u"
    "get_header sreq (ascii ''Sec-WebSocket-Key'') = get_header (finish_request agent req) (ascii ''Sec-WebSocket-Key'')"
    "length (get_header sreq (ascii ''Sec-WebSocket-Key'')) = 24"
    using sent_request [OF assms(1,2,4,3,7) req] by blast
  obtain res where res: "process_handshake w1 sreq sub (set_status sc_switching_protocols response_init) = Inr res"
    using server_response [OF assms(5)] by blast
  obtain cres where cres: "response_consume (response_raw (finish_response server res) @ rest2) response_init =
      Inr (length (response_raw (finish_response server res)), cres)" "headers_ready cres"
    "rs_status_code cres = 101" "negotiate_extensions True cres = (None, [])"
    "get_header cres (ascii ''Upgrade'') = ascii ''websocket''" "get_header cres (ascii ''Connection'') = ascii ''upgrade''"
    "get_header cres (ascii ''Sec-WebSocket-Accept'') = process_handshake_key w1 (get_header sreq (ascii ''Sec-WebSocket-Key''))"
    using sent_response [OF assms(5,6,8) res] by blast
  have "process_handshake_key w2 k = process_handshake_key w1 k" if "length k = 24" for k
    using that assms(9,10) by (simp add: process_handshake_key_def handshake_guid_def calc_sha1)
  then have "validate_server_handshake_response w2 (finish_request agent req) cres = None"
    using cres sreq(8,9) by (simp add: validate_server_handshake_response_def sc_switching_protocols_def Let_def del: ascii_open)
  then show ?thesis using req sreq res cres by blast
qed

theorem handshake_roundtrip_witness:
  "\<exists>req sreq. client_handshake_request x86_host [1, 2, 3, 4] request_init
       (uri_no_port (ascii ''ws'') (ascii ''localhost'') (ascii ''/hello'')) [] = Inr req \<and>
    request_consume (request_raw (finish_request (ascii ''agent'') req) @ []) request_init =
      Inr (length (request_raw (finish_request (ascii ''agent'') req)), sreq) \<and>
    rq_uri sreq = ascii ''/hello''"
proof -
  define u where "u = uri_no_port (ascii ''ws'') (ascii ''localhost'') (ascii ''/hello'')"
  have u: "u_resource u = ascii ''/hello''" "get_host_port u = ascii ''localhost''"
    by (simp_all add: u_def uri_no_port_def some_resource_def get_host_port_def)
  then have ok: "target_ok u"
    by (simp add: target_ok_def plain_def edge_free_def)
  have pl: "plain (ascii ''agent'')" "plain []" "plain (join_comma [])" by (simp_all add: plain_def edge_free_def)
  have len: "length (u_resource u) + length (get_host_port u) + length (join_comma []) + length (ascii ''agent'') \<le> 15000"
    by (simp add: u)
  show ?thesis
    unfolding u_def [symmetric]
    using handshake_roundtrip [OF ok pl(3) _ pl(1) pl(2) pl(2) len, of "[1, 2, 3, 4]" "replicate 80 0" "replicate 80 1" x86_host "[]" "[]"]
    by (simp add: u(1) del: ascii_open) blast
qed

end
