(* ===== verification/Ws_Connection.thy ===== *)
theory Ws_Connection
  imports Ws_Receive Ws_Handshake
begin

section \<open>The life cycle of a client connection\<close>

text \<open>
  \<open>connection.hpp\<close> and \<open>impl/connection_impl.hpp\<close> in the role of a client, which is the role the
  program uses, with \<open>handle_connect\<close> of \<open>roles/client_endpoint.hpp\<close>.

  \<^item> The members that change are the record \<open>con\<close>. What a connection is configured with (the constants of the
    configuration, the timeouts, which handlers are set) and what it reads from outside (random numbers, the
    memory of members no constructor initialises) are the record \<open>con_env\<close>.
  \<^item> The transport is what \<open>transport/base/connection.hpp\<close> documents: every asynchronous call is
    a pending operation under a number of its own, and the transport completes it once, with an error code and,
    for a read, the bytes. Timers are operations too; a cancelled one may still complete without an error,
    as an expired one whose handler is already queued does. \<open>dispatch\<close> and \<open>interrupt\<close> post to the event
    loop, so they are pending operations, and so is the shutdown, which the TLS socket does asynchronously.
  \<^item> The handlers of the application are calls in the trace \<open>cn_log\<close>. What the application does in a handler,
    a list of calls of the connection, is a function of the trace, so it is unrestricted.
  \<^item> A call runs to its end before the next one starts: the interleavings inside a call of two
    threads are not part of the model. Log lines are left out, except the one for a failed negotiation.
  \<^item> \<open>m_is_http\<close> is only set by a server. The manager \<open>message_buffer::alloc\<close> never returns a null message.
\<close>

subsection \<open>States and calls\<close>

datatype session_state = S_connecting | S_open | S_closing | S_closed

datatype internal_state =
    USER_INIT | TRANSPORT_INIT | READ_HTTP_REQUEST | WRITE_HTTP_REQUEST | READ_HTTP_RESPONSE
  | WRITE_HTTP_RESPONSE | PROCESS_HTTP_REQUEST | PROCESS_CONNECTION

datatype terminate_status = T_failed | T_closed | T_unknown

text \<open>The operations a transport can have in flight for a connection.\<close>

datatype op =
    Op_connect | Op_init | Op_write_request | Op_read_response | Op_read_frame | Op_write_frame
  | Op_shutdown terminate_status | Op_open_timer | Op_close_timer | Op_pong_timer bytes
  | Op_dispatch_write | Op_pause | Op_resume | Op_interrupt

text \<open>What the application is told.\<close>

datatype notice =
    N_open | N_fail | N_close | N_message message | N_ping bytes | N_pong bytes | N_pong_timeout bytes
  | N_interrupt | N_terminated | N_negotiation_failed error_code

text \<open>What the application can call.\<close>

datatype api_call =
    A_send bytes opcode | A_send_data bytes opcode | A_send_message message | A_ping bytes | A_pong bytes
  | A_close status bytes | A_interrupt | A_pause | A_resume

record con_env =
  ce_host :: host
  ce_rng :: "nat \<Rightarrow> u32"
  ce_fresh_opcode :: opcode
  ce_fresh_cursor :: nat
  ce_fresh_current :: current
  ce_fresh_keys :: "u64 \<times> u64"
  ce_fresh_hash :: "u32 list"
  ce_app :: "notice list \<Rightarrow> api_call list"
  ce_ping_reply :: "notice list \<Rightarrow> bool"
  ce_silent_close :: bool
  ce_drop_on_protocol_error :: bool
  ce_enable_extensions :: bool
  ce_user_agent :: bytes
  ce_uri :: uri
  ce_requested_subprotocols :: "bytes list"
  ce_open_handshake_timeout_dur :: int
  ce_close_handshake_timeout_dur :: int
  ce_pong_timeout_dur :: int
  ce_max_message_size :: u64
  ce_open_handler :: bool
  ce_close_handler :: bool
  ce_fail_handler :: bool
  ce_message_handler :: bool
  ce_ping_handler :: bool
  ce_pong_handler :: bool
  ce_pong_timeout_handler :: bool
  ce_interrupt_handler :: bool
  ce_termination_handler :: bool

record con =
  cn_state :: session_state
  cn_internal_state :: internal_state
  cn_handshake_timer :: "nat option"
  cn_ping_timer :: "nat option"
  cn_processor :: "hybi13 option"
  cn_send_queue :: "message list"
  cn_send_buffer_size :: u64
  cn_current_msgs :: "message list"
  cn_write_flag :: bool
  cn_read_flag :: bool
  cn_request :: http_request
  cn_response :: http_response
  cn_local_close_code :: status
  cn_local_close_reason :: bytes
  cn_remote_close_code :: status
  cn_remote_close_reason :: bytes
  cn_ec :: ec
  cn_was_clean :: bool
  cn_draws :: nat
  cn_pending :: "(nat \<times> op) list"
  cn_next :: nat
  cn_cancelled :: "nat list"
  cn_wire :: bytes
  cn_log :: "notice list"

definition m_is_server :: bool where
  "m_is_server = False"

text \<open>The constructor, for a request to which the application may have added headers, and the call
  of \<open>async_connect\<close> that follows.\<close>

definition connection :: "http_request \<Rightarrow> con" where
  "connection req =
     \<lparr>cn_state = S_connecting, cn_internal_state = USER_INIT, cn_handshake_timer = None, cn_ping_timer = None,
      cn_processor = None, cn_send_queue = [], cn_send_buffer_size = 0, cn_current_msgs = [],
      cn_write_flag = False, cn_read_flag = True, cn_request = req, cn_response = response_init,
      cn_local_close_code = st_abnormal_close, cn_local_close_reason = [],
      cn_remote_close_code = st_abnormal_close, cn_remote_close_reason = [], cn_ec = None, cn_was_clean = False,
      cn_draws = 0, cn_pending = [(0, Op_connect)], cn_next = 1, cn_cancelled = [], cn_wire = [], cn_log = []\<rparr>"

subsection \<open>The transport\<close>

definition async :: "op \<Rightarrow> con \<Rightarrow> con" where
  "async op c = c\<lparr>cn_pending := cn_pending c @ [(cn_next c, op)], cn_next := Suc (cn_next c)\<rparr>"

text \<open>\<open>async_write\<close> hands the bytes to the transport, which writes them in order.\<close>

definition async_write :: "bytes \<Rightarrow> op \<Rightarrow> con \<Rightarrow> con" where
  "async_write buf op c = async op (c\<lparr>cn_wire := cn_wire c @ buf\<rparr>)"

definition set_handshake_timer :: "int \<Rightarrow> op \<Rightarrow> con \<Rightarrow> con" where
  "set_handshake_timer dur op c =
     (if dur > 0 then (async op c)\<lparr>cn_handshake_timer := Some (cn_next c)\<rparr> else c)"

definition cancel_timer :: "nat option \<Rightarrow> con \<Rightarrow> con" where
  "cancel_timer t c = (case t of None \<Rightarrow> c | Some i \<Rightarrow> c\<lparr>cn_cancelled := cn_cancelled c @ [i]\<rparr>)"

definition cancel_handshake_timer :: "con \<Rightarrow> con" where
  "cancel_handshake_timer c = (cancel_timer (cn_handshake_timer c) c)\<lparr>cn_handshake_timer := None\<rparr>"

subsection \<open>Termination\<close>

definition terminate :: "ec \<Rightarrow> con \<Rightarrow> con" where
  "terminate ec c =
     (let c = cancel_handshake_timer c;
          c = (case ec of
                 None \<Rightarrow> c
               | Some e \<Rightarrow> c\<lparr>cn_ec := ec, cn_local_close_code := st_abnormal_close,
                              cn_local_close_reason := ascii (error_message e)\<rparr>)
      in if cn_state c = S_connecting then async (Op_shutdown T_failed) (c\<lparr>cn_state := S_closed\<rparr>)
         else if cn_state c \<noteq> S_closed then async (Op_shutdown T_closed) (c\<lparr>cn_state := S_closed\<rparr>)
         else c)"

subsection \<open>Writing\<close>

definition write_push :: "message option \<Rightarrow> con \<Rightarrow> con" where
  "write_push msg c =
     (case msg of
        None \<Rightarrow> c
      | Some m \<Rightarrow> c\<lparr>cn_send_buffer_size := cn_send_buffer_size c + of_nat (length (m_payload m)),
                     cn_send_queue := cn_send_queue c @ [m]\<rparr>)"

definition write_pop :: "con \<Rightarrow> message option \<times> con" where
  "write_pop c =
     (case cn_send_queue c of
        [] \<Rightarrow> (None, c)
      | m # ms \<Rightarrow> (Some m, c\<lparr>cn_send_buffer_size := cn_send_buffer_size c - of_nat (length (m_payload m)),
                            cn_send_queue := ms\<rparr>))"

lemma write_pop_shorter: "write_pop c = (Some m, c') \<Longrightarrow> length (cn_send_queue c') < length (cn_send_queue c)"
  by (auto simp: write_pop_def split: list.splits)

text \<open>The loop of \<open>write_frame\<close>: all messages that are queued, up to a terminal one.\<close>

function pop_messages :: "con \<Rightarrow> con" where
  "pop_messages c =
     (case write_pop c of
        (None, c) \<Rightarrow> c
      | (Some m, c) \<Rightarrow>
          let c = c\<lparr>cn_current_msgs := cn_current_msgs c @ [m]\<rparr>
          in if \<not> m_terminal m then pop_messages c else c)"
  by pat_completeness auto
termination
  by (relation "measure (\<lambda>c. length (cn_send_queue c))") (auto dest: write_pop_shorter [OF sym] write_pop_shorter)

declare pop_messages.simps [simp del]

definition message_bytes :: "message \<Rightarrow> bytes" where
  "message_bytes m = m_header m @ m_payload m"

definition write_frame :: "con \<Rightarrow> con" where
  "write_frame c =
     (if cn_write_flag c then c
      else
        let c = pop_messages c
        in if cn_current_msgs c = [] then c
           else async_write (concat (map message_bytes (cn_current_msgs c))) Op_write_frame (c\<lparr>cn_write_flag := True\<rparr>))"

text \<open>The end of every call that queues a message: \<open>needs_writing\<close> and the dispatch of \<open>write_frame\<close>.\<close>

definition push_and_write :: "message option \<Rightarrow> con \<Rightarrow> con" where
  "push_and_write msg c =
     (let c = write_push msg c
      in if \<not> cn_write_flag c \<and> cn_send_queue c \<noteq> [] then async Op_dispatch_write c else c)"

definition handle_write_frame :: "ec \<Rightarrow> con \<Rightarrow> con res" where
  "handle_write_frame ec c =
     (if cn_current_msgs c = [] then Inl (NullPointer ''m_current_msgs.back()'')
      else
        let terminal = m_terminal (last (cn_current_msgs c));
            c = c\<lparr>cn_current_msgs := []\<rparr>
        in if ec \<noteq> None then Inr (terminate ec c)
           else if terminal then Inr (terminate None c)
           else
             let c = c\<lparr>cn_write_flag := False\<rparr>
             in Inr (if cn_send_queue c \<noteq> [] then async Op_dispatch_write c else c))"

subsection \<open>Calls of the application\<close>

text \<open>One random number is drawn for every frame that is masked.\<close>

definition drawn :: "con \<Rightarrow> con" where
  "drawn c = (if m_is_server then c else c\<lparr>cn_draws := Suc (cn_draws c)\<rparr>)"

definition fresh_message :: "con_env \<Rightarrow> message option" where
  "fresh_message E = Some (message_new (ce_fresh_opcode E))"

definition send_message :: "con_env \<Rightarrow> message \<Rightarrow> con \<Rightarrow> (ec \<times> con) res" where
  "send_message E msg c =
     (if cn_state c \<noteq> S_open then Inr (Some (WsError E_invalid_state), c)
      else if m_prepared msg then Inr (None, push_and_write (Some msg) c)
      else and_then (deref ''m_processor'' (cn_processor c))
        (\<lambda>p. case prepare_data_frame (ce_host E) (p_server p) (ce_rng E (cn_draws c)) (Some msg) (fresh_message E) of
               (Some e, _) \<Rightarrow> Inr (Some e, c)
             | (None, out) \<Rightarrow> Inr (None, push_and_write out (drawn c))))"

definition send :: "con_env \<Rightarrow> bytes \<Rightarrow> opcode \<Rightarrow> con \<Rightarrow> (ec \<times> con) res" where
  "send E payload op c = send_message E ((message_new op)\<lparr>m_payload := payload, m_compressed := True\<rparr>) c"

definition send_data :: "con_env \<Rightarrow> bytes \<Rightarrow> opcode \<Rightarrow> con \<Rightarrow> (ec \<times> con) res" where
  "send_data E payload op c = send_message E ((message_new op)\<lparr>m_payload := payload\<rparr>) c"

definition ping :: "con_env \<Rightarrow> bytes \<Rightarrow> con \<Rightarrow> (ec \<times> con) res" where
  "ping E payload c =
     (if cn_state c \<noteq> S_open then Inr (Some (WsError E_invalid_state), c)
      else and_then (deref ''m_processor'' (cn_processor c))
        (\<lambda>p. case prepare_ping (ce_host E) (p_server p) (ce_rng E (cn_draws c)) payload (fresh_message E) of
               (Some e, _) \<Rightarrow> Inr (Some e, c)
             | (None, out) \<Rightarrow>
                 let c = drawn c;
                     c = (if ce_pong_timeout_handler E
                          then
                            let c = cancel_timer (cn_ping_timer c) c
                            in if ce_pong_timeout_dur E > 0
                               then (async (Op_pong_timer payload) c)\<lparr>cn_ping_timer := Some (cn_next c)\<rparr>
                               else c
                          else c)
                 in Inr (None, push_and_write out c)))"

definition pong :: "con_env \<Rightarrow> bytes \<Rightarrow> con \<Rightarrow> (ec \<times> con) res" where
  "pong E payload c =
     (if cn_state c \<noteq> S_open then Inr (Some (WsError E_invalid_state), c)
      else and_then (deref ''m_processor'' (cn_processor c))
        (\<lambda>p. case prepare_pong (ce_host E) (p_server p) (ce_rng E (cn_draws c)) payload (fresh_message E) of
               (Some e, _) \<Rightarrow> Inr (Some e, c)
             | (None, out) \<Rightarrow> Inr (None, push_and_write out (drawn c))))"

definition close_info :: "con_env \<Rightarrow> status \<Rightarrow> bytes \<Rightarrow> bool \<Rightarrow> con \<Rightarrow> status \<times> bytes" where
  "close_info E code reason ack c =
     (if ce_silent_close E then (st_no_status, [])
      else if code \<noteq> st_blank then (code, reason)
      else if \<not> ack then (st_no_status, [])
      else if cn_remote_close_code c = st_no_status then (st_normal, [])
      else (cn_remote_close_code c, cn_remote_close_reason c))"

definition send_close_frame :: "con_env \<Rightarrow> status \<Rightarrow> bytes \<Rightarrow> bool \<Rightarrow> bool \<Rightarrow> con \<Rightarrow> (ec \<times> con) res" where
  "send_close_frame E code reason ack terminal c =
     (let (lcode, lreason) = close_info E code reason ack c;
          c = c\<lparr>cn_local_close_code := lcode, cn_local_close_reason := lreason\<rparr>
      in and_then (deref ''m_processor'' (cn_processor c))
        (\<lambda>p. case prepare_close (ce_host E) (p_server p) (ce_rng E (cn_draws c)) lcode lreason (fresh_message E) of
               (Some e, _) \<Rightarrow> Inr (Some e, c)
             | (None, out) \<Rightarrow>
                 let out = (if terminal then map_option (m_terminal_update (\<lambda>_. True)) out else out);
                     c = (drawn c)\<lparr>cn_state := S_closing\<rparr>;
                     c = (if ack then c\<lparr>cn_was_clean := True\<rparr> else c);
                     c = set_handshake_timer (ce_close_handshake_timeout_dur E) Op_close_timer c
                 in Inr (None, push_and_write out c)))"

definition send_close_ack :: "con_env \<Rightarrow> status \<Rightarrow> bytes \<Rightarrow> con \<Rightarrow> (ec \<times> con) res" where
  "send_close_ack E code reason c = send_close_frame E code reason True m_is_server c"

definition close_reason_size :: nat where
  "close_reason_size = 123"

definition close :: "con_env \<Rightarrow> status \<Rightarrow> bytes \<Rightarrow> con \<Rightarrow> (ec \<times> con) res" where
  "close E code reason c =
     (let tr = take (min (length reason) close_reason_size) reason
      in if cn_state c \<noteq> S_open then Inr (Some (WsError E_invalid_state), c)
         else send_close_frame E code tr False (status_terminal code) c)"

definition run_call :: "con_env \<Rightarrow> api_call \<Rightarrow> con \<Rightarrow> (ec \<times> con) res" where
  "run_call E call c =
     (case call of
        A_send payload op \<Rightarrow> send E payload op c
      | A_send_data payload op \<Rightarrow> send_data E payload op c
      | A_send_message msg \<Rightarrow> send_message E msg c
      | A_ping payload \<Rightarrow> ping E payload c
      | A_pong payload \<Rightarrow> pong E payload c
      | A_close code reason \<Rightarrow> close E code reason c
      | A_interrupt \<Rightarrow> Inr (None, async Op_interrupt c)
      | A_pause \<Rightarrow> Inr (None, async Op_pause c)
      | A_resume \<Rightarrow> Inr (None, async Op_resume c))"

text \<open>A handler of the application: it is entered in the trace, and makes its calls.\<close>

definition app_call :: "con_env \<Rightarrow> api_call \<Rightarrow> con \<Rightarrow> con res" where
  "app_call E call c = and_then (run_call E call c) (\<lambda>(ec, c). Inr c)"

definition notify :: "con_env \<Rightarrow> notice \<Rightarrow> con \<Rightarrow> con res" where
  "notify E n c =
     (let c = c\<lparr>cn_log := cn_log c @ [n]\<rparr> in fold_res (app_call E) (ce_app E (cn_log c)) c)"

subsection \<open>Control frames\<close>

text \<open>The error code of a call whose failure is only logged.\<close>

definition ignore_ec :: "(ec \<times> con) res \<Rightarrow> con res" where
  "ignore_ec r = and_then r (\<lambda>(ec, c). Inr c)"

definition got_ping :: "con_env \<Rightarrow> bytes \<Rightarrow> con \<Rightarrow> con res" where
  "got_ping E payload c =
     and_then (if ce_ping_handler E then notify E (N_ping payload) c else Inr c)
       (\<lambda>c'. let should_reply = (ce_ping_handler E \<longrightarrow> ce_ping_reply E (cn_log c @ [N_ping payload]))
             in if should_reply then ignore_ec (pong E payload c') else Inr c')"

definition got_pong :: "con_env \<Rightarrow> bytes \<Rightarrow> con \<Rightarrow> con res" where
  "got_pong E payload c =
     and_then (if ce_pong_handler E then notify E (N_pong payload) c else Inr c)
       (\<lambda>c. Inr (cancel_timer (cn_ping_timer c) c))"

definition got_close :: "con_env \<Rightarrow> bytes \<Rightarrow> con \<Rightarrow> con res" where
  "got_close E payload c =
     (let (code, ec) = extract_code (ce_host E) payload;
          c = c\<lparr>cn_remote_close_code := code\<rparr>
      in if ec \<noteq> None then
           (if ce_drop_on_protocol_error E then Inr (terminate ec c)
            else ignore_ec (send_close_ack E st_protocol_error (ascii ''Invalid close code'') c))
         else
           let (reason, ec) = extract_reason payload;
               c = c\<lparr>cn_remote_close_reason := reason\<rparr>
           in if ec \<noteq> None then
                (if ce_drop_on_protocol_error E then Inr (terminate ec c)
                 else ignore_ec (send_close_ack E st_protocol_error (ascii ''Invalid close reason'') c))
              else if cn_state c = S_open then ignore_ec (send_close_ack E st_blank [] c)
              else if cn_state c = S_closing \<and> \<not> cn_was_clean c then
                let c = c\<lparr>cn_was_clean := True\<rparr>
                in Inr (if m_is_server then terminate None c else c)
              else Inr c)"

definition process_control_frame :: "con_env \<Rightarrow> message \<Rightarrow> con \<Rightarrow> con res" where
  "process_control_frame E msg c =
     (let op = m_opcode msg
      in if cn_state c = S_closed then Inr c
         else if op \<noteq> OpClose \<and> cn_state c \<noteq> S_open then Inr c
         else if op = Ping then got_ping E (m_payload msg) c
         else if op = Pong then got_pong E (m_payload msg) c
         else if op = OpClose then got_close E (m_payload msg) c
         else Inr c)"

subsection \<open>Reading frames\<close>

definition read_frame :: "con \<Rightarrow> con" where
  "read_frame c = (if \<not> cn_read_flag c then c else async Op_read_frame c)"

text \<open>A message of the processor, which may be null, goes to the application or is a control frame.\<close>

definition dispatch_message :: "con_env \<Rightarrow> message option \<Rightarrow> con \<Rightarrow> con res" where
  "dispatch_message E msg c =
     (case msg of
        None \<Rightarrow> Inr c
      | Some m \<Rightarrow>
          if \<not> is_control (m_opcode m)
          then (if cn_state c \<noteq> S_open then Inr c
                else if ce_message_handler E then notify E (N_message m) c
                else Inr c)
          else process_control_frame E m c)"

definition consume_failed :: "con_env \<Rightarrow> error_code \<Rightarrow> con \<Rightarrow> con res" where
  "consume_failed E consume_ec c =
     (if ce_drop_on_protocol_error E then Inr (terminate (Some consume_ec) c)
      else and_then (close E (to_ws consume_ec) (ascii (error_message consume_ec)) c)
        (\<lambda>(close_ec, c). Inr (if close_ec \<noteq> None then terminate close_ec c else c)))"

text \<open>The loop over the bytes of the buffer. \<open>None\<close> is a loop that does not end.\<close>

partial_function (option) frame_loop :: "con_env \<Rightarrow> bytes \<Rightarrow> con \<Rightarrow> con res option" where
  "frame_loop E buf c =
     (if buf = [] then Some (Inr (read_frame c))
      else
        case cn_processor c of
          None \<Rightarrow> Some (Inl (NullPointer ''m_processor''))
        | Some p \<Rightarrow>
            (case consume (ce_host E) buf p of
               Inl e \<Rightarrow> Some (Inl e)
             | Inr (n, ec, p) \<Rightarrow>
                 (case ec of
                    Some e \<Rightarrow> Some (consume_failed E e (c\<lparr>cn_processor := Some p\<rparr>))
                  | None \<Rightarrow>
                      (if ready p
                       then (case get_message p of
                               Inl e \<Rightarrow> Some (Inl e)
                             | Inr (m, p) \<Rightarrow>
                                 (case dispatch_message E m (c\<lparr>cn_processor := Some p\<rparr>) of
                                    Inl e \<Rightarrow> Some (Inl e)
                                  | Inr c \<Rightarrow> frame_loop E (drop n buf) c))
                       else frame_loop E (drop n buf) (c\<lparr>cn_processor := Some p\<rparr>)))))"

definition handle_read_frame :: "con_env \<Rightarrow> ec \<Rightarrow> bytes \<Rightarrow> con \<Rightarrow> con res option" where
  "handle_read_frame E ec buf c =
     (let ecm = (if ec = None \<and> cn_internal_state c \<noteq> PROCESS_CONNECTION then Some (WsError E_invalid_state) else ec)
      in case ecm of
           Some e \<Rightarrow>
             Some (Inr
               (if e = TransportError TE_eof \<and> cn_state c = S_closed then c
                else if e = TransportError TE_eof \<and> cn_state c = S_closing \<and> \<not> m_is_server then terminate None c
                else if e = WsError E_invalid_state \<and> cn_state c = S_closed then c
                else if e = TransportError TE_tls_short_read \<and> cn_state c = S_closed then terminate None c
                else terminate ecm c))
         | None \<Rightarrow> frame_loop E buf c)"

subsection \<open>The opening handshake\<close>

definition get_processor :: "con_env \<Rightarrow> hybi13" where
  "get_processor E =
     hybi13_init m_is_server (ce_max_message_size E) (ce_fresh_cursor E) (ce_fresh_current E)
       (fst (ce_fresh_keys E)) (snd (ce_fresh_keys E))"

definition send_http_request :: "con_env \<Rightarrow> con \<Rightarrow> con res" where
  "send_http_request E c =
     (if cn_processor c = None then Inr c
      else
        case client_handshake_request (ce_host E) (map (\<lambda>i. ce_rng E (cn_draws c + i)) [0..<4]) (cn_request c)
               (ce_uri E) (ce_requested_subprotocols E) of
          Inl e \<Rightarrow> Inl (Uncaught (he_msg e))
        | Inr req \<Rightarrow>
            let c = c\<lparr>cn_draws := cn_draws c + 4, cn_request := finish_request (ce_user_agent E) req\<rparr>;
                c = set_handshake_timer (ce_open_handshake_timeout_dur E) Op_open_timer c
            in Inr (async_write (request_raw (cn_request c)) Op_write_request c))"

definition handle_transport_init :: "con_env \<Rightarrow> ec \<Rightarrow> con \<Rightarrow> con res" where
  "handle_transport_init E ec c =
     (let ecm = (if cn_internal_state c \<noteq> TRANSPORT_INIT then Some (WsError E_invalid_state) else ec)
      in if ecm \<noteq> None then Inr (terminate ecm c)
         else send_http_request E (c\<lparr>cn_internal_state := WRITE_HTTP_REQUEST, cn_processor := Some (get_processor E)\<rparr>))"

definition start :: "con \<Rightarrow> con" where
  "start c =
     (if cn_internal_state c \<noteq> USER_INIT then terminate (Some (WsError E_invalid_state)) c
      else async Op_init (c\<lparr>cn_internal_state := TRANSPORT_INIT\<rparr>))"

definition handle_connect :: "ec \<Rightarrow> con \<Rightarrow> con" where
  "handle_connect ec c = (if ec \<noteq> None then terminate ec c else start c)"

text \<open>The check of the states at the start of the handlers of the opening handshake: what becomes of the
  error code, or \<open>None\<close> if the handler returns at once because the connection was closed.\<close>

definition handshake_ec :: "internal_state \<Rightarrow> ec \<Rightarrow> con \<Rightarrow> ec option" where
  "handshake_ec expected ec c =
     (case ec of
        None \<Rightarrow>
          (if cn_state c = S_connecting
           then Some (if cn_internal_state c \<noteq> expected then Some (WsError E_invalid_state) else None)
           else if cn_state c = S_closed then None
           else Some (Some (WsError E_invalid_state)))
      | Some e \<Rightarrow> if e = TransportError TE_eof \<and> cn_state c = S_closed then None else Some ec)"

definition handle_send_http_request :: "ec \<Rightarrow> con \<Rightarrow> con" where
  "handle_send_http_request ec c =
     (case handshake_ec WRITE_HTTP_REQUEST ec c of
        None \<Rightarrow> c
      | Some (Some e) \<Rightarrow> terminate (Some e) c
      | Some None \<Rightarrow> async Op_read_response (c\<lparr>cn_internal_state := READ_HTTP_RESPONSE\<rparr>))"

text \<open>A valid response: the extensions are negotiated, the connection is open, and the bytes that follow the
  response are frames.\<close>

definition handshake_done :: "con_env \<Rightarrow> bytes \<Rightarrow> con \<Rightarrow> con res option" where
  "handshake_done E buf c =
     (let c = (case fst (negotiate_extensions (ce_enable_extensions E) (cn_response c)) of
                 Some e \<Rightarrow> terminate (Some (WsError E_extension_neg_failed))
                             (c\<lparr>cn_log := cn_log c @ [N_negotiation_failed e]\<rparr>)
               | None \<Rightarrow> c);
          c = c\<lparr>cn_internal_state := PROCESS_CONNECTION, cn_state := S_open\<rparr>
      in case (if ce_open_handler E then notify E N_open c else Inr c) of
           Inl e \<Rightarrow> Some (Inl e)
         | Inr c \<Rightarrow> handle_read_frame E None buf c)"

definition response_read :: "con_env \<Rightarrow> bytes \<Rightarrow> con \<Rightarrow> con res option" where
  "response_read E buf c =
     (if headers_ready (cn_response c)
      then
        let c = cancel_handshake_timer c
        in case cn_processor c of
             None \<Rightarrow> Some (Inl (NullPointer ''m_processor''))
           | Some p \<Rightarrow>
               (case validate_server_handshake_response (ce_fresh_hash E) (cn_request c) (cn_response c) of
                  Some e \<Rightarrow> Some (Inr (terminate (Some e) c))
                | None \<Rightarrow> handshake_done E buf c)
      else Some (Inr (async Op_read_response c)))"

definition handle_read_http_response :: "con_env \<Rightarrow> ec \<Rightarrow> bytes \<Rightarrow> con \<Rightarrow> con res option" where
  "handle_read_http_response E ec buf c =
     (case handshake_ec READ_HTTP_RESPONSE ec c of
        None \<Rightarrow> Some (Inr c)
      | Some (Some e) \<Rightarrow> Some (Inr (terminate (Some e) c))
      | Some None \<Rightarrow>
          (case response_consume buf (cn_response c) of
             Inl e \<Rightarrow> Some (Inr (terminate (Some (WsError E_general)) c))
           | Inr (bytes_processed, res) \<Rightarrow> response_read E (drop bytes_processed buf) (c\<lparr>cn_response := res\<rparr>)))"

subsection \<open>Timers and the end\<close>

definition handle_open_handshake_timeout :: "ec \<Rightarrow> con \<Rightarrow> con" where
  "handle_open_handshake_timeout ec c =
     (if ec = Some (TransportError TE_operation_aborted) then c
      else if ec \<noteq> None then c
      else terminate (Some (WsError E_open_handshake_timeout)) c)"

definition handle_close_handshake_timeout :: "ec \<Rightarrow> con \<Rightarrow> con" where
  "handle_close_handshake_timeout ec c =
     (if ec = Some (TransportError TE_operation_aborted) then c
      else if ec \<noteq> None then c
      else terminate (Some (WsError E_close_handshake_timeout)) c)"

definition handle_pong_timeout :: "con_env \<Rightarrow> bytes \<Rightarrow> ec \<Rightarrow> con \<Rightarrow> con res" where
  "handle_pong_timeout E payload ec c =
     (if ec \<noteq> None then Inr c
      else if ce_pong_timeout_handler E then notify E (N_pong_timeout payload) c
      else Inr c)"

definition handle_interrupt :: "con_env \<Rightarrow> con \<Rightarrow> con res" where
  "handle_interrupt E c = (if ce_interrupt_handler E then notify E N_interrupt c else Inr c)"

definition handle_pause_reading :: "con \<Rightarrow> con" where
  "handle_pause_reading c = c\<lparr>cn_read_flag := False\<rparr>"

definition handle_resume_reading :: "con \<Rightarrow> con" where
  "handle_resume_reading c = read_frame (c\<lparr>cn_read_flag := True\<rparr>)"

definition handle_terminate :: "con_env \<Rightarrow> terminate_status \<Rightarrow> con \<Rightarrow> con res" where
  "handle_terminate E tstat c =
     and_then
       (case tstat of
          T_failed \<Rightarrow>
            (if cn_ec c \<noteq> Some (WsError E_http_connection_ended) \<and> ce_fail_handler E then notify E N_fail c else Inr c)
        | T_closed \<Rightarrow> (if ce_close_handler E then notify E N_close c else Inr c)
        | T_unknown \<Rightarrow> Inr c)
       (\<lambda>c. if ce_termination_handler E then notify E N_terminated c else Inr c)"

subsection \<open>Events\<close>

text \<open>The transport completes a pending operation, or the application calls the connection from outside
  of a handler.\<close>

datatype event = Done nat ec bytes | Call api_call

definition run_op :: "con_env \<Rightarrow> op \<Rightarrow> ec \<Rightarrow> bytes \<Rightarrow> con \<Rightarrow> con res option" where
  "run_op E op ec buf c =
     (case op of
        Op_connect \<Rightarrow> Some (Inr (handle_connect ec c))
      | Op_init \<Rightarrow> Some (handle_transport_init E ec c)
      | Op_write_request \<Rightarrow> Some (Inr (handle_send_http_request ec c))
      | Op_read_response \<Rightarrow> handle_read_http_response E ec buf c
      | Op_read_frame \<Rightarrow> handle_read_frame E ec buf c
      | Op_write_frame \<Rightarrow> Some (handle_write_frame ec c)
      | Op_shutdown tstat \<Rightarrow> Some (handle_terminate E tstat c)
      | Op_open_timer \<Rightarrow> Some (Inr (handle_open_handshake_timeout ec c))
      | Op_close_timer \<Rightarrow> Some (Inr (handle_close_handshake_timeout ec c))
      | Op_pong_timer payload \<Rightarrow> Some (handle_pong_timeout E payload ec c)
      | Op_dispatch_write \<Rightarrow> Some (Inr (write_frame c))
      | Op_pause \<Rightarrow> Some (Inr (handle_pause_reading c))
      | Op_resume \<Rightarrow> Some (Inr (handle_resume_reading c))
      | Op_interrupt \<Rightarrow> Some (handle_interrupt E c))"

definition take_op :: "nat \<Rightarrow> con \<Rightarrow> con" where
  "take_op i c = c\<lparr>cn_pending := filter (\<lambda>(j, op). j \<noteq> i) (cn_pending c)\<rparr>"

definition con_event :: "con_env \<Rightarrow> event \<Rightarrow> con \<Rightarrow> con res option" where
  "con_event E ev c =
     (case ev of
        Done i ec buf \<Rightarrow>
          (case map_of (cn_pending c) i of
             None \<Rightarrow> Some (Inr c)
           | Some op \<Rightarrow> run_op E op ec buf (take_op i c))
      | Call call \<Rightarrow> Some (app_call E call c))"

fun con_run :: "con_env \<Rightarrow> event list \<Rightarrow> con \<Rightarrow> con res option" where
  "con_run E [] c = Some (Inr c)"
| "con_run E (ev # evs) c =
     (case con_event E ev c of
        Some (Inr c) \<Rightarrow> con_run E evs c
      | r \<Rightarrow> r)"

end
