(* ===== verification/Ws_Connection_Inv.thy ===== *)
theory Ws_Connection_Inv
  imports Ws_Connection "HOL-Library.Multiset"
begin

section \<open>The invariant of a connection\<close>

text \<open>
  What holds of a client connection between two events, and the lemmas that the basic changes of its state keep it:
  operations in flight have numbers of their own; the operation of the opening handshake that is in flight fits the
  internal state; at most one read and one write of frames are in flight, as the transport is promised; the
  processor is well formed while it is read into; \<open>m_send_buffer_size\<close> is the size of the queue; the reports
  to the application follow the documented life of a connection; and a timer runs while a handshake waits.
\<close>

subsection \<open>Operations in flight\<close>

text \<open>While a handler runs, the operation it completes counts as in flight: it is a token in \<open>ts\<close>.\<close>

definition is_handshake_op :: "op \<Rightarrow> bool" where
  "is_handshake_op op \<longleftrightarrow> op = Op_connect \<or> op = Op_init \<or> op = Op_write_request \<or> op = Op_read_response"

definition is_read_op :: "op \<Rightarrow> bool" where
  "is_read_op op \<longleftrightarrow> op = Op_read_response \<or> op = Op_read_frame"

fun is_shutdown_op :: "op \<Rightarrow> bool" where
  "is_shutdown_op (Op_shutdown t) = True"
| "is_shutdown_op _ = False"

fun is_pong_timer :: "op \<Rightarrow> bool" where
  "is_pong_timer (Op_pong_timer x) = True"
| "is_pong_timer _ = False"

definition flight :: "op multiset \<Rightarrow> (nat \<times> op) list \<Rightarrow> op multiset" where
  "flight ts ps = mset (map snd ps) + ts"

definition handshakes :: "op multiset \<Rightarrow> (nat \<times> op) list \<Rightarrow> op multiset" where
  "handshakes ts ps = filter_mset is_handshake_op (flight ts ps)"

definition reads :: "op multiset \<Rightarrow> (nat \<times> op) list \<Rightarrow> op multiset" where
  "reads ts ps = filter_mset is_read_op (flight ts ps)"

definition frame_writes :: "op multiset \<Rightarrow> (nat \<times> op) list \<Rightarrow> op multiset" where
  "frame_writes ts ps = filter_mset (\<lambda>op. op = Op_write_frame) (flight ts ps)"

definition shutdowns :: "op multiset \<Rightarrow> (nat \<times> op) list \<Rightarrow> op multiset" where
  "shutdowns ts ps = filter_mset is_shutdown_op (flight ts ps)"

lemmas flight_defs = flight_def handshakes_def reads_def frame_writes_def shutdowns_def

lemma flight_pending [simp]:
  "flight ts (ps @ [(i, op)]) = add_mset op (flight ts ps)"
  "handshakes ts (ps @ [(i, op)]) = (if is_handshake_op op then add_mset op (handshakes ts ps) else handshakes ts ps)"
  "reads ts (ps @ [(i, op)]) = (if is_read_op op then add_mset op (reads ts ps) else reads ts ps)"
  "frame_writes ts (ps @ [(i, op)]) = (if op = Op_write_frame then add_mset op (frame_writes ts ps) else frame_writes ts ps)"
  "shutdowns ts (ps @ [(i, op)]) = (if is_shutdown_op op then add_mset op (shutdowns ts ps) else shutdowns ts ps)"
  by (simp_all add: flight_defs)

lemma flight_token [simp]:
  "flight (add_mset op ts) ps = add_mset op (flight ts ps)"
  "handshakes (add_mset op ts) ps = (if is_handshake_op op then add_mset op (handshakes ts ps) else handshakes ts ps)"
  "reads (add_mset op ts) ps = (if is_read_op op then add_mset op (reads ts ps) else reads ts ps)"
  "frame_writes (add_mset op ts) ps = (if op = Op_write_frame then add_mset op (frame_writes ts ps) else frame_writes ts ps)"
  "shutdowns (add_mset op ts) ps = (if is_shutdown_op op then add_mset op (shutdowns ts ps) else shutdowns ts ps)"
  by (simp_all add: flight_defs)

lemma flight_none [simp]:
  "flight {#} [] = {#}" "handshakes {#} [] = {#}" "reads {#} [] = {#}" "frame_writes {#} [] = {#}" "shutdowns {#} [] = {#}"
  by (simp_all add: flight_defs)

subsection \<open>The life of a connection as the application sees it\<close>

text \<open>The contract in the comments of \<open>connection.hpp\<close>: a connection attempt is reported by the open or the
  fail handler, messages come while it is open, and the close handler is called once for every
  connection for which the open handler was called.\<close>

datatype life = L_connecting | L_opened | L_ended | L_broken

fun life_step :: "life \<Rightarrow> notice \<Rightarrow> life" where
  "life_step l N_open = (if l = L_connecting then L_opened else L_broken)"
| "life_step l N_fail = (if l = L_connecting then L_ended else L_broken)"
| "life_step l N_close = (if l = L_opened then L_ended else L_broken)"
| "life_step l (N_message m) = (if l = L_opened then L_opened else L_broken)"
| "life_step l (N_ping x) = (if l = L_opened then L_opened else L_broken)"
| "life_step l (N_pong x) = (if l = L_opened then L_opened else L_broken)"
| "life_step l _ = l"

definition life_of :: "notice list \<Rightarrow> life" where
  "life_of ns = foldl life_step L_connecting ns"

lemma life_of_simps [simp]:
  "life_of [] = L_connecting"
  "life_of (ns @ [n]) = life_step (life_of ns) n"
  by (simp_all add: life_of_def)

fun is_negotiation_failure :: "notice \<Rightarrow> bool" where
  "is_negotiation_failure (N_negotiation_failed e) = True"
| "is_negotiation_failure _ = False"

definition negotiated :: "con \<Rightarrow> bool" where
  "negotiated c \<longleftrightarrow> \<not> list_ex is_negotiation_failure (cn_log c)"

subsection \<open>The invariant\<close>

definition ids_ok :: "con \<Rightarrow> bool" where
  "ids_ok c \<longleftrightarrow>
     distinct (map fst (cn_pending c)) \<and> (\<forall>i \<in> fst ` set (cn_pending c). i < cn_next c) \<and>
     (\<forall>i \<in> set (cn_cancelled c). i < cn_next c) \<and> (\<forall>i. cn_handshake_timer c = Some i \<longrightarrow> i < cn_next c) \<and>
     (\<forall>i. cn_ping_timer c = Some i \<longrightarrow> i < cn_next c \<and> (\<forall>op. (i, op) \<in> set (cn_pending c) \<longrightarrow> is_pong_timer op))"

text \<open>The operation of the opening handshake that is in flight.\<close>

fun expected_op :: "internal_state \<Rightarrow> op option" where
  "expected_op USER_INIT = Some Op_connect"
| "expected_op TRANSPORT_INIT = Some Op_init"
| "expected_op WRITE_HTTP_REQUEST = Some Op_write_request"
| "expected_op READ_HTTP_RESPONSE = Some Op_read_response"
| "expected_op _ = None"

definition phase_ok :: "op multiset \<Rightarrow> con \<Rightarrow> bool" where
  "phase_ok ts c \<longleftrightarrow>
     (\<forall>op. expected_op (cn_internal_state c) = Some op \<longrightarrow>
        cn_state c = S_connecting \<and> handshakes ts (cn_pending c) = {#op#} \<or>
        cn_state c = S_closed \<and> handshakes ts (cn_pending c) \<subseteq># {#op#}) \<and>
     (expected_op (cn_internal_state c) = None \<longrightarrow>
        cn_internal_state c = PROCESS_CONNECTION \<and> cn_state c \<noteq> S_connecting \<and> handshakes ts (cn_pending c) = {#})"

definition reads_ok :: "op multiset \<Rightarrow> con \<Rightarrow> bool" where
  "reads_ok ts c \<longleftrightarrow>
     size (reads ts (cn_pending c)) \<le> 1 \<and> (cn_internal_state c \<noteq> PROCESS_CONNECTION \<longrightarrow> Op_read_frame \<notin># flight ts (cn_pending c))"

definition proc_ok :: "con_env \<Rightarrow> op multiset \<Rightarrow> con \<Rightarrow> bool" where
  "proc_ok E ts c \<longleftrightarrow>
     (cn_internal_state c \<notin> {USER_INIT, TRANSPORT_INIT} \<longrightarrow>
        (\<exists>p. cn_processor c = Some p \<and>
           (cn_internal_state c \<noteq> PROCESS_CONNECTION \<or> reads ts (cn_pending c) \<noteq> {#} \<longrightarrow> hybi_ok (ce_host E) p \<and> \<not> ready p)))"

definition writes_ok :: "op multiset \<Rightarrow> con \<Rightarrow> bool" where
  "writes_ok ts c \<longleftrightarrow>
     size (frame_writes ts (cn_pending c)) = (if cn_current_msgs c = [] then 0 else 1) \<and>
     (cn_current_msgs c \<noteq> [] \<longrightarrow> cn_write_flag c) \<and>
     (cn_internal_state c \<noteq> PROCESS_CONNECTION \<longrightarrow> cn_send_queue c = [] \<and> cn_current_msgs c = [])"

definition size_ok :: "con \<Rightarrow> bool" where
  "size_ok c \<longleftrightarrow> cn_send_buffer_size c = (\<Sum>m\<leftarrow>cn_send_queue c. of_nat (length (m_payload m)))"

text \<open>The reports: none before the end, then a shutdown in flight, then the report. A connection whose
  extension negotiation failed is left out, and the three handlers are set.\<close>

definition reporting :: "con_env \<Rightarrow> bool" where
  "reporting E \<longleftrightarrow> ce_open_handler E \<and> ce_fail_handler E \<and> ce_close_handler E"

definition opened :: "con \<Rightarrow> life" where
  "opened c = (if cn_internal_state c = PROCESS_CONNECTION then L_opened else L_connecting)"

definition end_op :: "con \<Rightarrow> op" where
  "end_op c = Op_shutdown (if cn_internal_state c = PROCESS_CONNECTION then T_closed else T_failed)"

definition life_ok :: "con_env \<Rightarrow> op multiset \<Rightarrow> con \<Rightarrow> bool" where
  "life_ok E ts c \<longleftrightarrow>
     cn_ec c \<noteq> Some (WsError E_http_connection_ended) \<and>
     (reporting E \<and> negotiated c \<longrightarrow>
        (if cn_state c \<noteq> S_closed then shutdowns ts (cn_pending c) = {#} \<and> life_of (cn_log c) = opened c
         else (shutdowns ts (cn_pending c) = {#end_op c#} \<and> life_of (cn_log c) = opened c) \<or>
              (shutdowns ts (cn_pending c) = {#} \<and> life_of (cn_log c) = L_ended)))"

text \<open>While a handshake waits for the peer, its timer runs.\<close>

definition timer_runs :: "op \<Rightarrow> con \<Rightarrow> bool" where
  "timer_runs op c \<longleftrightarrow>
     (\<exists>i. cn_handshake_timer c = Some i \<and> (i, op) \<in> set (cn_pending c) \<and> i \<notin> set (cn_cancelled c))"

definition timers_ok :: "con_env \<Rightarrow> op multiset \<Rightarrow> con \<Rightarrow> bool" where
  "timers_ok E ts c \<longleftrightarrow>
     (cn_state c = S_closing \<and> ce_close_handshake_timeout_dur E > 0 \<longrightarrow>
        timer_runs Op_close_timer c \<or> Op_close_timer \<in># ts) \<and>
     (cn_state c = S_connecting \<and> cn_internal_state c \<in> {WRITE_HTTP_REQUEST, READ_HTTP_RESPONSE} \<and>
      ce_open_handshake_timeout_dur E > 0 \<longrightarrow> timer_runs Op_open_timer c \<or> Op_open_timer \<in># ts)"

definition con_inv :: "con_env \<Rightarrow> op multiset \<Rightarrow> con \<Rightarrow> bool" where
  "con_inv E ts c \<longleftrightarrow>
     ids_ok c \<and> phase_ok ts c \<and> reads_ok ts c \<and> proc_ok E ts c \<and> writes_ok ts c \<and> size_ok c \<and>
     life_ok E ts c \<and> timers_ok E ts c"

lemmas part_defs = ids_ok_def phase_ok_def reads_ok_def proc_ok_def writes_ok_def size_ok_def
  life_ok_def opened_def end_op_def negotiated_def timers_ok_def timer_runs_def

lemmas inv_defs = con_inv_def part_defs

lemma op_kinds [simp]:
  "is_handshake_op Op_connect" "is_handshake_op Op_init" "is_handshake_op Op_write_request" "is_handshake_op Op_read_response"
  "\<not> is_handshake_op Op_read_frame" "\<not> is_handshake_op Op_write_frame" "\<not> is_handshake_op (Op_shutdown t)"
  "\<not> is_handshake_op Op_open_timer" "\<not> is_handshake_op Op_close_timer" "\<not> is_handshake_op (Op_pong_timer x)"
  "\<not> is_handshake_op Op_dispatch_write" "\<not> is_handshake_op Op_pause" "\<not> is_handshake_op Op_resume" "\<not> is_handshake_op Op_interrupt"
  "is_read_op Op_read_response" "is_read_op Op_read_frame"
  "\<not> is_read_op Op_connect" "\<not> is_read_op Op_init" "\<not> is_read_op Op_write_request" "\<not> is_read_op Op_write_frame"
  "\<not> is_read_op (Op_shutdown t)" "\<not> is_read_op Op_open_timer" "\<not> is_read_op Op_close_timer" "\<not> is_read_op (Op_pong_timer x)"
  "\<not> is_read_op Op_dispatch_write" "\<not> is_read_op Op_pause" "\<not> is_read_op Op_resume" "\<not> is_read_op Op_interrupt"
  by (simp_all add: is_handshake_op_def is_read_op_def)

lemma con_init: "con_inv E {#} (connection req)"
  by (simp add: inv_defs connection_def flight_defs)

subsection \<open>Basic changes\<close>

text \<open>Each basic change keeps each part of the invariant. Operations that the application starts:\<close>

lemma async_parts:
  assumes "op \<in> {Op_dispatch_write, Op_pause, Op_interrupt}"
  shows "ids_ok c \<Longrightarrow> ids_ok (async op c)" "phase_ok ts c \<Longrightarrow> phase_ok ts (async op c)"
    "reads_ok ts c \<Longrightarrow> reads_ok ts (async op c)" "proc_ok E ts c \<Longrightarrow> proc_ok E ts (async op c)"
    "writes_ok ts c \<Longrightarrow> writes_ok ts (async op c)" "size_ok c \<Longrightarrow> size_ok (async op c)"
    "life_ok E ts c \<Longrightarrow> life_ok E ts (async op c)" "timers_ok E ts c \<Longrightarrow> timers_ok E ts (async op c)"
  using assms by (auto simp: async_def part_defs split: option.splits)

text \<open>Messages are only queued once the connection was opened.\<close>

lemma push_parts:
  shows "ids_ok (write_push m c) = ids_ok c" "phase_ok ts (write_push m c) = phase_ok ts c"
    "reads_ok ts (write_push m c) = reads_ok ts c" "proc_ok E ts (write_push m c) = proc_ok E ts c"
    "life_ok E ts (write_push m c) = life_ok E ts c" "timers_ok E ts (write_push m c) = timers_ok E ts c"
    "size_ok c \<Longrightarrow> size_ok (write_push m c)"
  by (simp_all add: write_push_def part_defs split: option.splits)

lemma push_writes: "writes_ok ts c \<Longrightarrow> cn_internal_state c = PROCESS_CONNECTION \<Longrightarrow> writes_ok ts (write_push m c)"
  by (cases m) (auto simp: write_push_def writes_ok_def)

lemma inv_async: "con_inv E ts c \<Longrightarrow> op \<in> {Op_dispatch_write, Op_pause, Op_interrupt} \<Longrightarrow> con_inv E ts (async op c)"
  by (simp only: con_inv_def async_parts)

lemma inv_push: "con_inv E ts c \<Longrightarrow> cn_internal_state c = PROCESS_CONNECTION \<Longrightarrow> con_inv E ts (write_push m c)"
  by (simp only: con_inv_def push_parts push_writes)

text \<open>What the invariant does not read.\<close>

definition same_view :: "con \<Rightarrow> con \<Rightarrow> bool" where
  "same_view c d \<longleftrightarrow>
     cn_state d = cn_state c \<and> cn_internal_state d = cn_internal_state c \<and> cn_handshake_timer d = cn_handshake_timer c \<and>
     cn_ping_timer d = cn_ping_timer c \<and> cn_processor d = cn_processor c \<and> cn_send_queue d = cn_send_queue c \<and>
     cn_send_buffer_size d = cn_send_buffer_size c \<and> cn_current_msgs d = cn_current_msgs c \<and>
     cn_write_flag d = cn_write_flag c \<and> cn_ec d = cn_ec c \<and> cn_pending d = cn_pending c \<and> cn_next d = cn_next c \<and>
     cn_cancelled d = cn_cancelled c \<and> cn_log d = cn_log c"

lemma inv_same_view: "same_view c d \<Longrightarrow> con_inv E ts d = con_inv E ts c"
  by (simp only: same_view_def inv_defs)

lemma same_view_updates [simp]:
  "same_view c (drawn c)" "same_view c (c\<lparr>cn_local_close_code := x, cn_local_close_reason := y\<rparr>)"
  "same_view c (c\<lparr>cn_remote_close_code := x\<rparr>)" "same_view c (c\<lparr>cn_remote_close_reason := y\<rparr>)"
  "same_view c (c\<lparr>cn_was_clean := b\<rparr>)" "same_view c (c\<lparr>cn_read_flag := b\<rparr>)" "same_view c (c\<lparr>cn_response := r\<rparr>)"
  "same_view c (c\<lparr>cn_request := q, cn_draws := n\<rparr>)" "same_view c (c\<lparr>cn_wire := w\<rparr>)"
  by (simp_all add: same_view_def drawn_def m_is_server_def)

lemmas inv_updates [simp] = same_view_updates [THEN inv_same_view]

text \<open>The timer of a ping.\<close>

lemma ping_timer_parts:
  fixes c x
  defines "d \<equiv> (async (Op_pong_timer x) c)\<lparr>cn_ping_timer := Some (cn_next c)\<rparr>"
  shows "ids_ok c \<Longrightarrow> ids_ok d" "phase_ok ts c \<Longrightarrow> phase_ok ts d"
    "reads_ok ts c \<Longrightarrow> reads_ok ts d" "proc_ok E ts c \<Longrightarrow> proc_ok E ts d"
    "writes_ok ts c \<Longrightarrow> writes_ok ts d" "size_ok c \<Longrightarrow> size_ok d"
    "life_ok E ts c \<Longrightarrow> life_ok E ts d" "timers_ok E ts c \<Longrightarrow> timers_ok E ts d"
  unfolding d_def by (auto simp: async_def part_defs split: option.splits)

lemma inv_ping_timer: "con_inv E ts c \<Longrightarrow> con_inv E ts ((async (Op_pong_timer x) c)\<lparr>cn_ping_timer := Some (cn_next c)\<rparr>)"
  by (simp only: con_inv_def ping_timer_parts)

lemma cancel_parts:
  "phase_ok ts (c\<lparr>cn_cancelled := x\<rparr>) = phase_ok ts c" "reads_ok ts (c\<lparr>cn_cancelled := x\<rparr>) = reads_ok ts c"
  "proc_ok E ts (c\<lparr>cn_cancelled := x\<rparr>) = proc_ok E ts c" "writes_ok ts (c\<lparr>cn_cancelled := x\<rparr>) = writes_ok ts c"
  "life_ok E ts (c\<lparr>cn_cancelled := x\<rparr>) = life_ok E ts c" "size_ok (c\<lparr>cn_cancelled := x\<rparr>) = size_ok c"
  by (simp_all add: phase_ok_def reads_ok_def proc_ok_def writes_ok_def size_ok_def life_ok_def
      opened_def end_op_def negotiated_def)

lemma cancel_ping_parts:
  assumes "ids_ok c" and "cn_ping_timer c = Some i"
  shows "ids_ok (c\<lparr>cn_cancelled := cn_cancelled c @ [i]\<rparr>)"
    "timers_ok E ts c \<Longrightarrow> timers_ok E ts (c\<lparr>cn_cancelled := cn_cancelled c @ [i]\<rparr>)"
  using assms by (fastforce simp: ids_ok_def timers_ok_def timer_runs_def)+

lemma inv_cancel_ping: "con_inv E ts c \<Longrightarrow> con_inv E ts (cancel_timer (cn_ping_timer c) c)"
  by (cases "cn_ping_timer c") (simp_all add: cancel_timer_def con_inv_def cancel_parts cancel_ping_parts)

text \<open>The start of the closing handshake.\<close>

lemma closing_parts:
  fixes c E
  assumes "cn_state c \<in> {S_open, S_closing}"
  defines "d \<equiv> set_handshake_timer (ce_close_handshake_timeout_dur E) Op_close_timer (c\<lparr>cn_state := S_closing\<rparr>)"
  shows "ids_ok c \<Longrightarrow> ids_ok d" "phase_ok ts c \<Longrightarrow> phase_ok ts d"
    "reads_ok ts c \<Longrightarrow> reads_ok ts d" "proc_ok E ts c \<Longrightarrow> proc_ok E ts d"
    "writes_ok ts c \<Longrightarrow> writes_ok ts d" "size_ok c \<Longrightarrow> size_ok d"
    "life_ok E ts c \<Longrightarrow> life_ok E ts d" "ids_ok c \<Longrightarrow> timers_ok E ts d"
  using assms by (auto simp: set_handshake_timer_def async_def part_defs split: option.splits if_splits)

lemma inv_closing:
  "con_inv E ts c \<Longrightarrow> cn_state c \<in> {S_open, S_closing} \<Longrightarrow>
   con_inv E ts (set_handshake_timer (ce_close_handshake_timeout_dur E) Op_close_timer (c\<lparr>cn_state := S_closing\<rparr>))"
  by (simp only: con_inv_def closing_parts)

subsection \<open>Termination\<close>

text \<open>A handler that terminates the connection gives up the operation it completes, unless that is a write of
  frames or a shutdown.\<close>

definition droppable :: "op multiset \<Rightarrow> bool" where
  "droppable us \<longleftrightarrow> (\<forall>op \<in># us. op \<noteq> Op_write_frame \<and> \<not> is_shutdown_op op)"

lemma droppable_simps [simp]:
  "droppable {#}" "droppable (add_mset op us) \<longleftrightarrow> op \<noteq> Op_write_frame \<and> \<not> is_shutdown_op op \<and> droppable us"
  by (simp_all add: droppable_def)

lemma flight_plus:
  "flight (ts + us) ps = flight ts ps + us" "handshakes (ts + us) ps = handshakes ts ps + filter_mset is_handshake_op us"
  "reads (ts + us) ps = reads ts ps + filter_mset is_read_op us"
  "droppable us \<Longrightarrow> frame_writes (ts + us) ps = frame_writes ts ps"
  "droppable us \<Longrightarrow> shutdowns (ts + us) ps = shutdowns ts ps"
  by (auto simp: flight_defs droppable_def)

lemma phase_connecting: "phase_ok ts c \<Longrightarrow> cn_state c = S_connecting \<longleftrightarrow> cn_state c \<noteq> S_closed \<and> cn_internal_state c \<noteq> PROCESS_CONNECTION"
  by (cases "cn_internal_state c") (auto simp: phase_ok_def)

lemma phase_cases:
  "phase_ok ts c \<Longrightarrow> cn_internal_state c \<in> {USER_INIT, TRANSPORT_INIT, WRITE_HTTP_REQUEST, READ_HTTP_RESPONSE, PROCESS_CONNECTION}"
  by (cases "cn_internal_state c") (auto simp: phase_ok_def)

definition terminated :: "ec \<Rightarrow> con \<Rightarrow> con" where
  "terminated ec c =
     (let c = cancel_handshake_timer c
      in case ec of
           None \<Rightarrow> c
         | Some e \<Rightarrow> c\<lparr>cn_ec := ec, cn_local_close_code := st_abnormal_close, cn_local_close_reason := ascii (error_message e)\<rparr>)"

lemma terminate_cases:
  "terminate ec c =
     (if cn_state c = S_connecting then async (Op_shutdown T_failed) ((terminated ec c)\<lparr>cn_state := S_closed\<rparr>)
      else if cn_state c \<noteq> S_closed then async (Op_shutdown T_closed) ((terminated ec c)\<lparr>cn_state := S_closed\<rparr>)
      else terminated ec c)"
  by (auto simp: terminate_def terminated_def cancel_handshake_timer_def cancel_timer_def Let_def split: option.splits)

lemma terminated_fields [simp]:
  "cn_state (terminated ec c) = cn_state c" "cn_internal_state (terminated ec c) = cn_internal_state c"
  "cn_handshake_timer (terminated ec c) = None" "cn_ping_timer (terminated ec c) = cn_ping_timer c"
  "cn_processor (terminated ec c) = cn_processor c" "cn_send_queue (terminated ec c) = cn_send_queue c"
  "cn_send_buffer_size (terminated ec c) = cn_send_buffer_size c" "cn_current_msgs (terminated ec c) = cn_current_msgs c"
  "cn_write_flag (terminated ec c) = cn_write_flag c" "cn_read_flag (terminated ec c) = cn_read_flag c"
  "cn_pending (terminated ec c) = cn_pending c" "cn_next (terminated ec c) = cn_next c" "cn_log (terminated ec c) = cn_log c"
  "cn_wire (terminated ec c) = cn_wire c" "cn_ec (terminated ec c) = (if ec = None then cn_ec c else ec)"
  "cn_cancelled (terminated ec c) = cn_cancelled c @ (case cn_handshake_timer c of None \<Rightarrow> [] | Some i \<Rightarrow> [i])"
  by (auto simp: terminated_def cancel_handshake_timer_def cancel_timer_def Let_def split: option.splits)

lemma terminate_fields [simp]:
  "cn_state (terminate ec c) = S_closed" "cn_internal_state (terminate ec c) = cn_internal_state c"
  "cn_processor (terminate ec c) = cn_processor c" "cn_send_queue (terminate ec c) = cn_send_queue c"
  "cn_send_buffer_size (terminate ec c) = cn_send_buffer_size c" "cn_current_msgs (terminate ec c) = cn_current_msgs c"
  "cn_write_flag (terminate ec c) = cn_write_flag c" "cn_read_flag (terminate ec c) = cn_read_flag c"
  "cn_log (terminate ec c) = cn_log c" "cn_wire (terminate ec c) = cn_wire c"
  "cn_ec (terminate ec c) = (if ec = None then cn_ec c else ec)"
  "cn_handshake_timer (terminate ec c) = None" "cn_ping_timer (terminate ec c) = cn_ping_timer c"
  by (simp_all add: terminate_cases async_def)

lemma terminate_flight [simp]:
  "handshakes ts (cn_pending (terminate ec c)) = handshakes ts (cn_pending c)"
  "reads ts (cn_pending (terminate ec c)) = reads ts (cn_pending c)"
  "frame_writes ts (cn_pending (terminate ec c)) = frame_writes ts (cn_pending c)"
  by (simp_all add: terminate_cases async_def)

lemma terminate_phase:
  assumes "phase_ok (ts + us) c"
  shows "phase_ok ts (terminate ec c)"
proof -
  have "handshakes ts (cn_pending c) \<subseteq># handshakes (ts + us) (cn_pending c)"
    by (simp add: flight_plus)
  then have "handshakes (ts + us) (cn_pending c) \<subseteq># {#op#} \<Longrightarrow> handshakes ts (cn_pending c) \<subseteq># {#op#}"
    and "handshakes (ts + us) (cn_pending c) = {#} \<Longrightarrow> handshakes ts (cn_pending c) = {#}" for op
    by (auto intro: subset_mset.order_trans)
  then show ?thesis using assms by (auto simp: phase_ok_def)
qed

lemma terminate_ids: "ids_ok c \<Longrightarrow> ids_ok (terminate ec c)"
  by (cases "cn_handshake_timer c") (auto simp: ids_ok_def terminate_cases async_def)

lemma terminate_parts:
  assumes "droppable us"
  shows "reads_ok (ts + us) c \<Longrightarrow> reads_ok ts (terminate ec c)"
    "proc_ok E (ts + us) c \<Longrightarrow> proc_ok E ts (terminate ec c)"
    "writes_ok (ts + us) c \<Longrightarrow> writes_ok ts (terminate ec c)"
    "size_ok c \<Longrightarrow> size_ok (terminate ec c)"
    "timers_ok E ts (terminate ec c)"
  subgoal
    by (auto simp: reads_ok_def terminate_cases async_def flight_plus)
  subgoal
    by (auto simp: proc_ok_def terminate_cases async_def flight_plus)
  subgoal
    using assms by (auto simp: writes_ok_def terminate_cases async_def flight_plus)
  subgoal
    by (simp add: size_ok_def)
  subgoal
    by (simp add: timers_ok_def)
  done

lemma terminate_life:
  assumes "droppable us" and "phase_ok (ts + us) c" and "life_ok E (ts + us) c" and "ec \<noteq> Some (WsError E_http_connection_ended)"
  shows "life_ok E ts (terminate ec c)"
  using assms phase_connecting [OF assms(2)]
  by (auto simp: life_ok_def terminate_cases async_def flight_plus opened_def end_op_def negotiated_def)

lemma inv_terminate:
  assumes "con_inv E (ts + us) c" and "droppable us" and "ec \<noteq> Some (WsError E_http_connection_ended)"
  shows "con_inv E ts (terminate ec c)"
  using assms terminate_parts [OF assms(2)] terminate_life [OF assms(2)] terminate_phase terminate_ids
  by (auto simp only: con_inv_def)

subsection \<open>Notices\<close>

text \<open>Messages, pings and pongs are passed on while the connection is open; other notices come at any time.\<close>

fun may_notify :: "con \<Rightarrow> notice \<Rightarrow> bool" where
  "may_notify c (N_message m) = (cn_state c = S_open)"
| "may_notify c (N_ping x) = (cn_state c = S_open)"
| "may_notify c (N_pong x) = (cn_state c = S_open)"
| "may_notify c (N_pong_timeout x) = True"
| "may_notify c N_interrupt = True"
| "may_notify c N_terminated = True"
| "may_notify c _ = False"

lemma log_parts:
  "ids_ok (c\<lparr>cn_log := x\<rparr>) = ids_ok c" "phase_ok ts (c\<lparr>cn_log := x\<rparr>) = phase_ok ts c"
  "reads_ok ts (c\<lparr>cn_log := x\<rparr>) = reads_ok ts c" "proc_ok E ts (c\<lparr>cn_log := x\<rparr>) = proc_ok E ts c"
  "writes_ok ts (c\<lparr>cn_log := x\<rparr>) = writes_ok ts c" "size_ok (c\<lparr>cn_log := x\<rparr>) = size_ok c"
  "timers_ok E ts (c\<lparr>cn_log := x\<rparr>) = timers_ok E ts c"
  by (simp_all add: part_defs)

lemma phase_open: "phase_ok ts c \<Longrightarrow> cn_state c \<in> {S_open, S_closing} \<Longrightarrow> cn_internal_state c = PROCESS_CONNECTION"
  using phase_connecting by fastforce

lemma life_log:
  "phase_ok ts c \<Longrightarrow> life_ok E ts c \<Longrightarrow> may_notify c n \<Longrightarrow> life_ok E ts (c\<lparr>cn_log := cn_log c @ [n]\<rparr>)"
  using phase_open [of ts c] by (cases n) (auto simp: life_ok_def opened_def end_op_def negotiated_def)

lemma inv_log: "con_inv E ts c \<Longrightarrow> may_notify c n \<Longrightarrow> con_inv E ts (c\<lparr>cn_log := cn_log c @ [n]\<rparr>)"
  by (simp only: con_inv_def log_parts life_log)

lemma inv_processor: "con_inv E ts c \<Longrightarrow> cn_state c \<in> {S_open, S_closing} \<Longrightarrow> \<exists>p. cn_processor c = Some p"
  using phase_open [of ts c] by (auto simp: con_inv_def proc_ok_def)

lemma inv_open: "con_inv E ts c \<Longrightarrow> cn_state c \<in> {S_open, S_closing} \<Longrightarrow> cn_internal_state c = PROCESS_CONNECTION"
  using phase_open [of ts c] by (simp add: con_inv_def)

subsection \<open>Reading and writing\<close>

lemma processor_parts:
  "ids_ok (c\<lparr>cn_processor := x\<rparr>) = ids_ok c" "phase_ok ts (c\<lparr>cn_processor := x\<rparr>) = phase_ok ts c"
  "reads_ok ts (c\<lparr>cn_processor := x\<rparr>) = reads_ok ts c" "life_ok E ts (c\<lparr>cn_processor := x\<rparr>) = life_ok E ts c"
  "writes_ok ts (c\<lparr>cn_processor := x\<rparr>) = writes_ok ts c" "size_ok (c\<lparr>cn_processor := x\<rparr>) = size_ok c"
  "timers_ok E ts (c\<lparr>cn_processor := x\<rparr>) = timers_ok E ts c"
  by (simp_all add: part_defs)

lemma inv_consumed:
  "con_inv E ts c \<Longrightarrow> hybi_ok (ce_host E) p \<Longrightarrow> \<not> ready p \<Longrightarrow> con_inv E ts (c\<lparr>cn_processor := Some p\<rparr>)"
  by (simp add: con_inv_def processor_parts proc_ok_def)

lemma read_token_parts:
  "phase_ok (add_mset Op_read_frame ts) c = phase_ok ts c" "writes_ok (add_mset Op_read_frame ts) c = writes_ok ts c"
  "life_ok E (add_mset Op_read_frame ts) c = life_ok E ts c" "timers_ok E (add_mset Op_read_frame ts) c = timers_ok E ts c"
  "reads_ok (add_mset Op_read_frame ts) c \<Longrightarrow> reads_ok ts c" "proc_ok E (add_mset Op_read_frame ts) c \<Longrightarrow> proc_ok E ts c"
  by (auto simp: part_defs)

lemma inv_stop_reading: "con_inv E (add_mset Op_read_frame ts) c \<Longrightarrow> con_inv E ts (c\<lparr>cn_processor := Some p\<rparr>)"
  by (auto simp: con_inv_def processor_parts read_token_parts) (auto simp: proc_ok_def reads_ok_def)

lemma read_again_parts:
  fixes c
  defines "d \<equiv> async Op_read_frame c"
  shows "ids_ok c \<Longrightarrow> ids_ok d" "phase_ok ts c \<Longrightarrow> phase_ok ts d"
    "reads_ok (add_mset Op_read_frame ts) c \<Longrightarrow> reads_ok ts d" "proc_ok E (add_mset Op_read_frame ts) c \<Longrightarrow> proc_ok E ts d"
    "writes_ok ts c \<Longrightarrow> writes_ok ts d" "size_ok c \<Longrightarrow> size_ok d"
    "life_ok E ts c \<Longrightarrow> life_ok E ts d" "timers_ok E ts c \<Longrightarrow> timers_ok E ts d"
  unfolding d_def async_def by (auto simp: part_defs)

lemma inv_read_frame: "con_inv E (add_mset Op_read_frame ts) c \<Longrightarrow> con_inv E ts (read_frame c)"
  unfolding read_frame_def con_inv_def
  by (cases "cn_read_flag c") (simp_all add: read_again_parts read_token_parts)

lemma pop_messages_fields:
  "cn_state (pop_messages c) = cn_state c \<and> cn_internal_state (pop_messages c) = cn_internal_state c \<and>
   cn_handshake_timer (pop_messages c) = cn_handshake_timer c \<and> cn_ping_timer (pop_messages c) = cn_ping_timer c \<and>
   cn_processor (pop_messages c) = cn_processor c \<and> cn_write_flag (pop_messages c) = cn_write_flag c \<and>
   cn_ec (pop_messages c) = cn_ec c \<and> cn_pending (pop_messages c) = cn_pending c \<and> cn_next (pop_messages c) = cn_next c \<and>
   cn_cancelled (pop_messages c) = cn_cancelled c \<and> cn_log (pop_messages c) = cn_log c \<and> cn_wire (pop_messages c) = cn_wire c \<and>
   cn_read_flag (pop_messages c) = cn_read_flag c \<and>
   cn_current_msgs (pop_messages c) @ cn_send_queue (pop_messages c) = cn_current_msgs c @ cn_send_queue c \<and>
   (size_ok c \<longrightarrow> size_ok (pop_messages c))"
proof (induction c rule: pop_messages.induct)
  case (1 c)
  show ?case
  proof (cases "cn_send_queue c")
    case Nil
    then show ?thesis by (simp add: pop_messages.simps [of c] write_pop_def)
  next
    case (Cons m ms)
    let ?d = "c\<lparr>cn_send_buffer_size := cn_send_buffer_size c - of_nat (length (m_payload m)), cn_send_queue := ms\<rparr>"
    have w: "write_pop c = (Some m, ?d)" using Cons by (simp add: write_pop_def)
    show ?thesis
      using "1.IH" [OF w [symmetric] refl refl] Cons
      by (cases "m_terminal m") (simp_all add: pop_messages.simps [of c] w size_ok_def)
  qed
qed

lemma write_start_parts:
  fixes c d w
  assumes "cn_state d = cn_state c" "cn_internal_state d = cn_internal_state c"
    "cn_handshake_timer d = cn_handshake_timer c" "cn_ping_timer d = cn_ping_timer c"
    "cn_processor d = cn_processor c" "cn_ec d = cn_ec c"
    "cn_pending d = cn_pending c" "cn_next d = cn_next c" "cn_cancelled d = cn_cancelled c" "cn_log d = cn_log c"
  defines "e \<equiv> async_write w Op_write_frame (d\<lparr>cn_write_flag := True\<rparr>)"
  shows "ids_ok c \<Longrightarrow> ids_ok e" "phase_ok ts c \<Longrightarrow> phase_ok ts e" "reads_ok ts c \<Longrightarrow> reads_ok ts e"
    "proc_ok E ts c \<Longrightarrow> proc_ok E ts e" "life_ok E ts c \<Longrightarrow> life_ok E ts e" "timers_ok E ts c \<Longrightarrow> timers_ok E ts e"
    "size_ok d \<Longrightarrow> size_ok e"
  unfolding e_def async_write_def async_def by (auto simp: part_defs assms)

lemma inv_write_frame:
  assumes inv: "con_inv E ts c"
  shows "con_inv E ts (write_frame c)"
proof -
  let ?d = "pop_messages c"
  let ?e = "async_write (concat (map message_bytes (cn_current_msgs ?d))) Op_write_frame (?d\<lparr>cn_write_flag := True\<rparr>)"
  have f: "cn_state ?d = cn_state c" "cn_internal_state ?d = cn_internal_state c"
    "cn_handshake_timer ?d = cn_handshake_timer c" "cn_ping_timer ?d = cn_ping_timer c"
    "cn_processor ?d = cn_processor c" "cn_ec ?d = cn_ec c"
    "cn_pending ?d = cn_pending c" "cn_next ?d = cn_next c" "cn_cancelled ?d = cn_cancelled c" "cn_log ?d = cn_log c"
    and g: "cn_write_flag ?d = cn_write_flag c" "cn_current_msgs ?d @ cn_send_queue ?d = cn_current_msgs c @ cn_send_queue c"
      "size_ok ?d"
    using pop_messages_fields [of c] inv by (auto simp: con_inv_def)
  consider "cn_write_flag c" | "\<not> cn_write_flag c" "cn_current_msgs ?d = []" | "\<not> cn_write_flag c" "cn_current_msgs ?d \<noteq> []"
    by blast
  then show ?thesis
  proof cases
    case 1
    then show ?thesis using inv by (simp add: write_frame_def)
  next
    case 2
    then have c: "cn_current_msgs c = []" using inv by (auto simp: con_inv_def writes_ok_def)
    have "same_view c (?d\<lparr>cn_send_buffer_size := cn_send_buffer_size c\<rparr>)" "cn_send_buffer_size ?d = cn_send_buffer_size c"
      using f g 2 c inv by (auto simp: same_view_def con_inv_def size_ok_def)
    then have "same_view c ?d" by (simp add: same_view_def)
    then show ?thesis using 2 inv inv_same_view by (simp add: write_frame_def Let_def)
  next
    case 3
    then have "writes_ok ts ?e" using inv f g by (auto simp: con_inv_def writes_ok_def async_write_def async_def)
    then have "con_inv E ts ?e"
      using inv g(3) write_start_parts [OF f] unfolding con_inv_def by blast
    then show ?thesis using 3 by (simp add: write_frame_def Let_def)
  qed
qed

lemma write_done_parts:
  fixes c b
  defines "d \<equiv> c\<lparr>cn_current_msgs := [], cn_write_flag := b\<rparr>"
  shows "ids_ok c \<Longrightarrow> ids_ok d" "phase_ok (add_mset Op_write_frame ts) c \<Longrightarrow> phase_ok ts d"
    "reads_ok (add_mset Op_write_frame ts) c \<Longrightarrow> reads_ok ts d" "proc_ok E (add_mset Op_write_frame ts) c \<Longrightarrow> proc_ok E ts d"
    "writes_ok (add_mset Op_write_frame ts) c \<Longrightarrow> writes_ok ts d" "size_ok c \<Longrightarrow> size_ok d"
    "life_ok E (add_mset Op_write_frame ts) c \<Longrightarrow> life_ok E ts d" "timers_ok E (add_mset Op_write_frame ts) c \<Longrightarrow> timers_ok E ts d"
  unfolding d_def by (auto simp: part_defs split: if_splits)

lemma inv_write_done:
  "con_inv E (add_mset Op_write_frame ts) c \<Longrightarrow> con_inv E ts (c\<lparr>cn_current_msgs := [], cn_write_flag := b\<rparr>)"
  unfolding con_inv_def by (blast intro: write_done_parts)

end
