(* ===== verification/Ws_Connection_Events.thy ===== *)
theory Ws_Connection_Events
  imports Ws_Connection_Inv
begin

section \<open>Every event of a connection\<close>

text \<open>
  The handlers of a connection, seen through three interfaces. \<open>kept_calls\<close> has the basic changes that calls of the
  application and the handling of messages are made of; \<open>kept\<close> adds those of the other handlers; \<open>kept_events\<close>
  adds that an operation completes. In each, what the basic changes keep is shown to be kept by the operations of the
  source, up to \<open>con_event\<close>, which then also returns without a fault. The invariant is one instance of all three.
\<close>

subsection \<open>What the environment is trusted with\<close>

text \<open>A host that shifts as hosts do, and handlers of the application that do not call \<open>resume_reading\<close>; those of the
  program do not. The settings of the connection are arbitrary.\<close>

definition env_ok :: "con_env \<Rightarrow> bool" where
  "env_ok E \<longleftrightarrow> host_ok (ce_host E) \<and> (\<forall>ns. A_resume \<notin> set (ce_app E ns))"

lemma prepare_errors:
  "prepare_data_frame h s r i (Some m) = (Some e, out) \<Longrightarrow> e \<noteq> WsError x"
  "prepare_ping h s r y (Some m) = (Some e, out) \<Longrightarrow> e \<noteq> WsError x"
  "prepare_pong h s r y (Some m) = (Some e, out) \<Longrightarrow> e \<noteq> WsError x"
  "prepare_close h s r c y (Some m) = (Some e, out) \<Longrightarrow> e \<noteq> WsError x"
  by (auto simp: prepare_data_frame_def prepare_ping_def prepare_pong_def prepare_close_def prepare_control_def Let_def
      split: if_splits option.splits)

definition not_ended :: "ec \<Rightarrow> bool" where
  "not_ended ec \<longleftrightarrow> ec \<noteq> Some (WsError E_http_connection_ended)"

lemma not_ended_simps [simp]:
  "not_ended None" "not_ended (Some (WsError e)) \<longleftrightarrow> e \<noteq> E_http_connection_ended" "not_ended (Some (TransportError t))"
  "not_ended (Some (ProcessorError p))"
  by (simp_all add: not_ended_def)

lemma extract_errors:
  "extract_code h payload = (code, ec) \<Longrightarrow> not_ended ec" "extract_reason payload = (reason, ec) \<Longrightarrow> not_ended ec"
  by (auto simp: extract_code_def extract_reason_def Let_def split: if_splits)

lemma drawn_fields [simp]:
  "cn_internal_state (drawn c) = cn_internal_state c" "cn_state (drawn c) = cn_state c" "cn_ping_timer (drawn c) = cn_ping_timer c"
  "cn_next (drawn c) = cn_next c" "cn_log (drawn c) = cn_log c"
  by (simp_all add: drawn_def)

lemma cancel_timer_fields [simp]:
  "cn_internal_state (cancel_timer t c) = cn_internal_state c" "cn_state (cancel_timer t c) = cn_state c"
  "cn_next (cancel_timer t c) = cn_next c" "cn_log (cancel_timer t c) = cn_log c"
  by (simp_all add: cancel_timer_def split: option.splits)

lemma async_fields [simp]:
  "cn_internal_state (async op c) = cn_internal_state c" "cn_state (async op c) = cn_state c" "cn_log (async op c) = cn_log c"
  by (simp_all add: async_def)

lemma handshake_timer_fields [simp]:
  "cn_internal_state (set_handshake_timer d op c) = cn_internal_state c" "cn_state (set_handshake_timer d op c) = cn_state c"
  "cn_log (set_handshake_timer d op c) = cn_log c"
  by (simp_all add: set_handshake_timer_def)

lemma push_and_write_fields [simp]:
  "cn_internal_state (push_and_write m c) = cn_internal_state c" "cn_state (push_and_write m c) = cn_state c"
  "cn_log (push_and_write m c) = cn_log c"
  by (simp_all add: push_and_write_def write_push_def Let_def split: option.splits)

lemma append_header_token: "token k \<Longrightarrow> \<exists>q. append_header k v p = Inr q"
  by (auto simp: append_header_def token_def is_not_token_char_iff)

lemma client_request_returns: "\<exists>req. client_handshake_request h rng r u subs = Inr req"
proof -
  have "\<exists>q. set_method (ascii ''GET'') r = Inr q"
    using handshake_names by (auto simp: set_method_def token_def is_not_token_char_iff simp del: ascii_open)
  moreover have "\<exists>q. append_header (ascii ''Upgrade'') v p = Inr q" "\<exists>q. append_header (ascii ''Connection'') v p = Inr q"
    for v and p :: http_request
    by (rule append_header_token, rule handshake_names)+
  ultimately show ?thesis
    by (auto simp: client_handshake_request_def Let_def http_then_def simp del: ascii_open split: sum.splits) (metis sum.simps(4))+
qed

subsection \<open>Predicates that every handler keeps\<close>

text \<open>The interface between the basic changes of a connection and its handlers: a predicate on connections that
  implies the invariant and is kept by the basic changes is kept by every call of the application and by
  the handling of every message. The predicate takes the operations whose handlers are running.\<close>

locale kept_calls =
  fixes E :: con_env and P :: "op multiset \<Rightarrow> con \<Rightarrow> bool"
  assumes inv: "P ts c \<Longrightarrow> con_inv E ts c"
    and async: "P ts c \<Longrightarrow> op \<in> {Op_dispatch_write, Op_pause, Op_interrupt} \<Longrightarrow> P ts (async op c)"
    and push: "P ts c \<Longrightarrow> cn_internal_state c = PROCESS_CONNECTION \<Longrightarrow> P ts (write_push m c)"
    and view: "P ts c \<Longrightarrow> same_view c d \<Longrightarrow> cn_wire d = cn_wire c \<Longrightarrow> P ts d"
    and ping_timer: "P ts c \<Longrightarrow> P ts ((async (Op_pong_timer x) c)\<lparr>cn_ping_timer := Some (cn_next c)\<rparr>)"
    and cancel_ping: "P ts c \<Longrightarrow> P ts (cancel_timer (cn_ping_timer c) c)"
    and closing: "P ts c \<Longrightarrow> cn_state c \<in> {S_open, S_closing} \<Longrightarrow>
      P ts (set_handshake_timer (ce_close_handshake_timeout_dur E) Op_close_timer (c\<lparr>cn_state := S_closing\<rparr>))"
    and ends: "P (ts + us) c \<Longrightarrow> droppable us \<Longrightarrow> not_ended ec \<Longrightarrow> P ts (terminate ec c)"
    and log: "P ts c \<Longrightarrow> may_notify c n \<Longrightarrow> P ts (c\<lparr>cn_log := cn_log c @ [n]\<rparr>)"
begin

lemma view_updates:
  assumes "P ts c"
  shows "P ts (drawn c)" "P ts (c\<lparr>cn_local_close_code := x, cn_local_close_reason := y\<rparr>)"
    "P ts (c\<lparr>cn_remote_close_code := x\<rparr>)" "P ts (c\<lparr>cn_remote_close_reason := y\<rparr>)"
    "P ts (c\<lparr>cn_was_clean := b\<rparr>)" "P ts (c\<lparr>cn_read_flag := b\<rparr>)"
  using view [OF assms] by (simp_all add: drawn_def m_is_server_def same_view_def)

lemma kept_push: "P ts c \<Longrightarrow> cn_internal_state c = PROCESS_CONNECTION \<Longrightarrow> P ts (push_and_write m c)"
  by (simp add: push_and_write_def Let_def push async)

lemma kept_processor: "P ts c \<Longrightarrow> cn_state c \<in> {S_open, S_closing} \<Longrightarrow> \<exists>p. cn_processor c = Some p"
  using inv inv_processor by blast

lemma kept_open: "P ts c \<Longrightarrow> cn_state c \<in> {S_open, S_closing} \<Longrightarrow> cn_internal_state c = PROCESS_CONNECTION"
  using inv inv_open by blast

definition fine :: "op multiset \<Rightarrow> ec \<times> con \<Rightarrow> bool" where
  "fine ts r \<longleftrightarrow> not_ended (fst r) \<and> P ts (snd r)"

lemma fine_simps [simp]: "fine ts (ec, c) \<longleftrightarrow> not_ended ec \<and> P ts c"
  by (simp add: fine_def)

lemma fresh_prepared:
  "prepare_data_frame h s r i (fresh_message E) = (Some e, out) \<Longrightarrow> not_ended (Some e)"
  "prepare_ping h s r y (fresh_message E) = (Some e, out) \<Longrightarrow> not_ended (Some e)"
  "prepare_pong h s r y (fresh_message E) = (Some e, out) \<Longrightarrow> not_ended (Some e)"
  "prepare_close h s r c y (fresh_message E) = (Some e, out) \<Longrightarrow> not_ended (Some e)"
  by (auto simp: fresh_message_def not_ended_def dest: prepare_errors)

lemma kept_send: "P ts c \<Longrightarrow> safe False (fine ts) (send_message E msg c)"
  using kept_processor [of ts c] kept_open [of ts c]
  by (auto simp: send_message_def view_updates kept_push fresh_prepared split: prod.splits option.splits)

lemma kept_ping: "P ts c \<Longrightarrow> safe False (fine ts) (ping E payload c)"
proof -
  assume p: "P ts c"
  then have cancelled: "P ts (cancel_timer (cn_ping_timer c) (drawn c))"
    using cancel_ping [of ts "drawn c"] by (simp add: view_updates)
  show ?thesis
    using p kept_processor [of ts c] kept_open [of ts c] cancelled ping_timer [OF cancelled, of payload]
    by (auto simp: ping_def Let_def view_updates kept_push fresh_prepared split: prod.splits option.splits)
qed

lemma kept_pong: "P ts c \<Longrightarrow> safe False (fine ts) (pong E payload c)"
  using kept_processor [of ts c] kept_open [of ts c]
  by (auto simp: pong_def view_updates kept_push fresh_prepared split: prod.splits option.splits)

lemma kept_close_frame:
  assumes "P ts c" and "cn_state c \<in> {S_open, S_closing}"
  shows "safe False (fine ts) (send_close_frame E code reason ack terminal c)"
proof -
  obtain lcode lreason where l: "close_info E code reason ack c = (lcode, lreason)" by fastforce
  define d where "d = c\<lparr>cn_local_close_code := lcode, cn_local_close_reason := lreason\<rparr>"
  have d: "P ts d" "cn_state d \<in> {S_open, S_closing}" using assms by (simp_all add: d_def view_updates)
  have w: "P ts ((drawn d)\<lparr>cn_was_clean := b\<rparr>)" for b using d by (simp add: view_updates)
  have s: "(if ack then (drawn d)\<lparr>cn_state := S_closing, cn_was_clean := True\<rparr> else (drawn d)\<lparr>cn_state := S_closing\<rparr>) =
      ((drawn d)\<lparr>cn_was_clean := ack \<or> cn_was_clean d\<rparr>)\<lparr>cn_state := S_closing\<rparr>"
    by (simp add: drawn_def)
  show ?thesis
    using kept_processor [OF d] kept_open [OF d] d w
    by (auto simp: send_close_frame_def l Let_def d_def fresh_prepared s [unfolded d_def] closing kept_push
        split: prod.splits option.splits)
qed

lemma kept_close: "P ts c \<Longrightarrow> safe False (fine ts) (close E code reason c)"
  by (simp add: close_def kept_close_frame Let_def)

lemma kept_call:
  assumes "P ts c" and "call \<noteq> A_resume"
  shows "safe False (fine ts) (run_call E call c)"
  using assms kept_send kept_ping kept_pong kept_close async
  by (cases call) (simp_all add: run_call_def send_def send_data_def)

lemma kept_app_call: "P ts c \<Longrightarrow> call \<noteq> A_resume \<Longrightarrow> safe False (P ts) (app_call E call c)"
  unfolding app_call_def by (rule safe_and_then [OF kept_call]) auto

lemma kept_calls:
  assumes "env_ok E" and "P ts c"
  shows "safe False (P ts) (fold_res (app_call E) (ce_app E ns) c)"
  by (rule safe_fold_res [where P = "P ts", OF assms(2)]) (metis assms(1) env_ok_def kept_app_call)

lemma kept_notify: "env_ok E \<Longrightarrow> P ts c \<Longrightarrow> may_notify c n \<Longrightarrow> safe False (P ts) (notify E n c)"
  by (simp add: notify_def Let_def kept_calls log)

lemma kept_ignore: "safe False (fine ts) r \<Longrightarrow> safe False (P ts) (ignore_ec r)"
  unfolding ignore_ec_def by (erule safe_and_then) auto

lemma kept_got_ping:
  assumes "env_ok E" and "P ts c" and "cn_state c = S_open"
  shows "safe False (P ts) (got_ping E payload c)"
proof -
  have "safe False (P ts) (if ce_ping_handler E then notify E (N_ping payload) c else Inr c)"
    using assms by (simp add: kept_notify)
  then show ?thesis
    unfolding got_ping_def by (rule safe_and_then) (simp add: Let_def kept_ignore kept_pong)
qed

lemma kept_got_pong:
  assumes "env_ok E" and "P ts c" and "cn_state c = S_open"
  shows "safe False (P ts) (got_pong E payload c)"
proof -
  have "safe False (P ts) (if ce_pong_handler E then notify E (N_pong payload) c else Inr c)"
    using assms by (simp add: kept_notify)
  then show ?thesis
    unfolding got_pong_def by (rule safe_and_then) (simp add: cancel_ping)
qed

lemma kept_dropped: "P ts c \<Longrightarrow> not_ended ec \<Longrightarrow> P ts (terminate ec c)"
  using ends [of ts "{#}"] by simp

lemma kept_got_close:
  assumes "env_ok E" and "P ts c" and "cn_state c \<in> {S_open, S_closing}"
  shows "safe False (P ts) (got_close E payload c)"
proof -
  obtain code ec where x: "extract_code (ce_host E) payload = (code, ec)" by fastforce
  obtain reason ec' where y: "extract_reason payload = (reason, ec')" by fastforce
  define d where "d = c\<lparr>cn_remote_close_code := code\<rparr>"
  define e where "e = d\<lparr>cn_remote_close_reason := reason\<rparr>"
  have d: "P ts d" "cn_state d \<in> {S_open, S_closing}" and e: "P ts e" "cn_state e \<in> {S_open, S_closing}"
    using assms by (simp_all add: d_def e_def view_updates)
  show ?thesis
    using d e kept_ignore kept_close_frame view_updates(5) [OF e(1)] kept_dropped extract_errors(1) [OF x] extract_errors(2) [OF y]
    by (auto simp: got_close_def x y Let_def d_def [symmetric] e_def [symmetric] send_close_ack_def m_is_server_def)
qed

text \<open>Frames are only read from a connection that was opened.\<close>

lemma kept_reading: "P ts c \<Longrightarrow> Op_read_frame \<in># ts \<Longrightarrow> cn_internal_state c = PROCESS_CONNECTION \<and> cn_state c \<noteq> S_connecting"
  using inv [of ts c] by (auto simp: con_inv_def reads_ok_def phase_ok_def flight_def)

lemma kept_control:
  assumes "env_ok E" and "P ts c" and "Op_read_frame \<in># ts"
  shows "safe False (P ts) (process_control_frame E msg c)"
  using assms kept_reading [OF assms(2,3)] kept_got_ping kept_got_pong kept_got_close
  by (cases "cn_state c") (auto simp: process_control_frame_def Let_def)

lemma kept_dispatch:
  assumes "env_ok E" and "P ts c" and "Op_read_frame \<in># ts"
  shows "safe False (P ts) (dispatch_message E msg c)"
  using assms kept_control kept_notify [of ts c] by (auto simp: dispatch_message_def split: option.splits)

lemma kept_consume_failed:
  assumes "P ts c" and "not_ended (Some e)"
  shows "safe False (P ts) (consume_failed E e c)"
proof -
  have "safe False (P ts) (and_then (close E (to_ws e) (ascii (error_message e)) c)
      (\<lambda>(close_ec, c). Inr (if close_ec \<noteq> None then terminate close_ec c else c)))"
    by (rule safe_and_then [OF kept_close [OF assms(1)]]) (use kept_dropped in auto)
  then show ?thesis using kept_dropped [OF assms] by (simp add: consume_failed_def)
qed

end

interpretation con_calls: kept_calls E "con_inv E" for E
  by unfold_locales
    (simp_all add: inv_async inv_push inv_ping_timer inv_cancel_ping inv_closing inv_terminate inv_log not_ended_def inv_same_view)

text \<open>Handling a message leaves the processor alone.\<close>

lemma processor_fields [simp]:
  "cn_processor (async op c) = cn_processor c" "cn_processor (write_push m c) = cn_processor c"
  "cn_processor (cancel_timer t c) = cn_processor c" "cn_processor (set_handshake_timer n op c) = cn_processor c"
  by (simp_all add: async_def write_push_def cancel_timer_def set_handshake_timer_def split: option.splits)

lemma same_view_processor: "same_view c d \<Longrightarrow> cn_processor d = cn_processor c"
  by (simp add: same_view_def)

interpretation con_processor: kept_calls E "\<lambda>ts c. con_inv E ts c \<and> cn_processor c = x" for E x
  by unfold_locales
    (simp_all add: inv_async inv_push inv_ping_timer inv_cancel_ping inv_closing inv_log not_ended_def
      inv_same_view same_view_processor, blast intro: inv_terminate)

lemma dispatch_processor:
  assumes "env_ok E" and "con_inv E ts c" and "Op_read_frame \<in># ts" and "dispatch_message E msg c = Inr d"
  shows "cn_processor d = cn_processor c"
  using con_processor.kept_dispatch [OF assms(1) conjI [OF assms(2) refl] assms(3), of msg] assms(4) by simp

subsection \<open>Events\<close>

definition returns :: "(con \<Rightarrow> bool) \<Rightarrow> con res option \<Rightarrow> bool" where
  "returns Q r \<longleftrightarrow> (\<exists>c. r = Some (Inr c) \<and> Q c)"

lemma returns_simps [simp]:
  "returns Q (Some r) \<longleftrightarrow> safe False Q r" "\<not> returns Q None"
  by (auto simp: returns_def dest: safe_returns)

text \<open>What is reported when the shutdown completes.\<close>

definition end_notices :: "con_env \<Rightarrow> terminate_status \<Rightarrow> notice list" where
  "end_notices E t =
     (case t of
        T_failed \<Rightarrow> if ce_fail_handler E then [N_fail] else []
      | T_closed \<Rightarrow> if ce_close_handler E then [N_close] else []
      | T_unknown \<Rightarrow> [])"

definition open_notices :: "con_env \<Rightarrow> notice list" where
  "open_notices E = (if ce_open_handler E then [N_open] else [])"

text \<open>Operations whose handlers start nothing in their place.\<close>

fun is_idle_op :: "op \<Rightarrow> bool" where
  "is_idle_op (Op_pong_timer x) = True"
| "is_idle_op op = (op \<in> {Op_dispatch_write, Op_pause, Op_interrupt})"

text \<open>The events the transport and the application can cause: the transport reports no errors of the
  WebSocket layer, a timer that was not cancelled completes without an error, and reading is not resumed.\<close>

fun is_ws_error :: "ec \<Rightarrow> bool" where
  "is_ws_error (Some (WsError e)) = True"
| "is_ws_error _ = False"

definition event_ok :: "con \<Rightarrow> event \<Rightarrow> bool" where
  "event_ok c ev \<longleftrightarrow>
     (case ev of
        Done i ec buf \<Rightarrow>
          \<not> is_ws_error ec \<and>
          (ec \<noteq> None \<and> map_of (cn_pending c) i \<in> {Some Op_open_timer, Some Op_close_timer} \<longrightarrow> i \<in> set (cn_cancelled c)) \<and>
          map_of (cn_pending c) i \<noteq> Some Op_resume
      | Call call \<Rightarrow> call \<noteq> A_resume)"

lemma ws_error_not_ended: "\<not> is_ws_error ec \<Longrightarrow> not_ended ec"
  by (cases ec rule: is_ws_error.cases) (auto simp: not_ended_def)

lemma cancel_handshake_fields [simp]:
  "cn_processor (cancel_handshake_timer c) = cn_processor c" "cn_request (cancel_handshake_timer c) = cn_request c"
  "cn_state (cancel_handshake_timer c) = cn_state c" "cn_log (cancel_handshake_timer c) = cn_log c"
  "cn_response (cancel_handshake_timer c) = cn_response c" "cn_internal_state (cancel_handshake_timer c) = cn_internal_state c"
  by (simp_all add: cancel_handshake_timer_def cancel_timer_def split: option.splits)

lemma terminate_cancelled: "terminate ec (cancel_handshake_timer c) = terminate ec c"
  by (simp add: terminate_def cancel_handshake_timer_def cancel_timer_def Let_def split: option.splits)

lemma terminate_log: "terminate ec (c\<lparr>cn_log := x\<rparr>) = (terminate ec c)\<lparr>cn_log := x\<rparr>"
  by (simp add: terminate_def cancel_handshake_timer_def cancel_timer_def async_def Let_def split: option.splits)

text \<open>The role of a processor never changes, and its errors are its own.\<close>

fun step_ok :: "hybi13 \<Rightarrow> step \<Rightarrow> bool" where
  "step_ok st0 (Go_on st n) = (p_server st = p_server st0)"
| "step_ok st0 (Break st n ec) = (p_server st = p_server st0 \<and> not_ended ec)"
| "step_ok st0 (Return0 st ec) = (p_server st = p_server st0 \<and> not_ended ec)"

lemma end_frame_server: "end_frame n st = Inr s \<Longrightarrow> step_ok st s"
  by (auto simp: end_frame_def finalize_message_def reset_headers_def and_then_eq_Inr pmd_is_enabled_def Let_def split: if_splits prod.splits)

lemma payload_server: "process_payload_bytes h buf st = Inr (n, ec, st') \<Longrightarrow> p_server st' = p_server st \<and> not_ended ec"
  by (auto simp: process_payload_bytes_def and_then_eq_Inr pmd_is_enabled_def Let_def byte_mask_circ_def split: if_splits prod.splits)

lemma start_payload_server: "p_server st = p_server st0 \<Longrightarrow> step_ok st0 (start_payload h n st)"
  by (simp add: start_payload_def Let_def split: option.splits)

lemma header_bytes_server:
  "copy_basic_header_bytes buf st = (n, st') \<Longrightarrow> p_server st' = p_server st"
  "copy_extended_header_bytes buf st = (n, st') \<Longrightarrow> p_server st' = p_server st"
  by (auto simp: copy_basic_header_bytes_def copy_extended_header_bytes_def Let_def split: if_splits)

lemma step_ok_from: "p_server st = p_server st0 \<Longrightarrow> step_ok st s \<Longrightarrow> step_ok st0 s"
  by (cases s) simp_all

lemma consume_step_server: "consume_step h buf st = Inr s \<Longrightarrow> step_ok st s"
  by (cases "p_state st")
    (auto simp: consume_step_def and_then_eq_Inr Let_def start_payload_server split: if_splits option.splits prod.splits
      dest!: header_bytes_server payload_server end_frame_server intro: step_ok_from)

lemma consume_server: "consume h buf st = Inr (n, ec, st') \<Longrightarrow> p_server st' = p_server st \<and> not_ended ec"
proof -
  have "consume_loop h k buf st = Inr (n, ec, st') \<Longrightarrow> p_server st' = p_server st \<and> not_ended ec" for k
  proof (induction h k buf st rule: consume_loop.induct)
    case (1 h k buf st)
    show ?case
    proof (cases "consume_guard buf st")
      case True
      then obtain s where s: "consume_step h buf st = Inr s"
        using "1.prems" by (auto simp: consume_loop.simps [of h k buf st] split: sum.splits)
      then show ?thesis
        using True "1.prems" "1.IH" [OF True s] consume_step_server [OF s]
        by (cases s) (auto simp: consume_loop.simps [of h k buf st])
    next
      case False
      then show ?thesis using "1.prems" by (simp add: consume_loop.simps [of h k buf st])
    qed
  qed
  then show "consume h buf st = Inr (n, ec, st') \<Longrightarrow> p_server st' = p_server st \<and> not_ended ec" by (simp add: consume_def)
qed

lemma get_message_server: "get_message st = Inr (m, st') \<Longrightarrow> p_server st' = p_server st"
  by (auto simp: get_message_def Let_def reset_headers_def and_then_eq_Inr split: if_splits)

locale kept = kept_calls +
  assumes consumed: "P ts c \<Longrightarrow> cn_processor c = Some p0 \<Longrightarrow> p_server p = p_server p0 \<Longrightarrow> hybi_ok (ce_host E) p \<Longrightarrow> \<not> ready p \<Longrightarrow>
      P ts (c\<lparr>cn_processor := Some p\<rparr>)"
    and stop_reading: "P (add_mset Op_read_frame ts) c \<Longrightarrow> cn_processor c = Some p0 \<Longrightarrow> p_server p = p_server p0 \<Longrightarrow>
      P ts (c\<lparr>cn_processor := Some p\<rparr>)"
    and read: "P (add_mset Op_read_frame ts) c \<Longrightarrow> P ts (read_frame c)"
    and written: "P ts c \<Longrightarrow> P ts (write_frame c)"
    and write_done: "P (add_mset Op_write_frame ts) c \<Longrightarrow> P ts (c\<lparr>cn_current_msgs := [], cn_write_flag := b\<rparr>)"
    and initiate: "P (add_mset Op_connect ts) c \<Longrightarrow> cn_internal_state c = USER_INIT \<Longrightarrow>
      P ts (Ws_Connection.async Op_init (c\<lparr>cn_internal_state := TRANSPORT_INIT\<rparr>))"
    and request: "P (add_mset Op_init ts) c \<Longrightarrow> cn_internal_state c = TRANSPORT_INIT \<Longrightarrow>
      P ts (async_write w Op_write_request (set_handshake_timer (ce_open_handshake_timeout_dur E) Op_open_timer
        (c\<lparr>cn_internal_state := WRITE_HTTP_REQUEST, cn_processor := Some (get_processor E), cn_draws := n, cn_request := q\<rparr>)))"
    and requested: "P (add_mset Op_write_request ts) c \<Longrightarrow> cn_internal_state c = WRITE_HTTP_REQUEST \<Longrightarrow>
      cn_state c = S_connecting \<Longrightarrow> P ts (Ws_Connection.async Op_read_response (c\<lparr>cn_internal_state := READ_HTTP_RESPONSE\<rparr>))"
    and response: "P ts c \<Longrightarrow> P ts (c\<lparr>cn_response := res\<rparr>)"
    and responding: "P (add_mset Op_read_response ts) c \<Longrightarrow> P ts (Ws_Connection.async Op_read_response c)"
    and go_open: "P (add_mset Op_read_response ts) c \<Longrightarrow> cn_internal_state c = READ_HTTP_RESPONSE \<Longrightarrow>
      cn_state c = S_connecting \<Longrightarrow> P (add_mset Op_read_frame ts) ((cancel_handshake_timer c)
        \<lparr>cn_internal_state := PROCESS_CONNECTION, cn_state := S_open, cn_log := cn_log c @ open_notices E\<rparr>)"
    and go_failed: "P (add_mset Op_read_response ts) c \<Longrightarrow> cn_internal_state c = READ_HTTP_RESPONSE \<Longrightarrow>
      cn_state c = S_connecting \<Longrightarrow> not_ended ec \<Longrightarrow> P (add_mset Op_read_frame ts) ((terminate ec (cancel_handshake_timer c))
        \<lparr>cn_internal_state := PROCESS_CONNECTION, cn_state := S_open,
         cn_log := cn_log c @ N_negotiation_failed e # open_notices E\<rparr>)"
    and ended: "P (add_mset (Op_shutdown t) ts) c \<Longrightarrow> P ts (c\<lparr>cn_log := cn_log c @ end_notices E t\<rparr>)"
    and idle: "P (add_mset op ts) c \<Longrightarrow> is_idle_op op \<Longrightarrow> P ts c"
    and closed: "P (add_mset op ts) c \<Longrightarrow> cn_state c = S_closed \<Longrightarrow> op \<noteq> Op_write_frame \<Longrightarrow> \<not> is_shutdown_op op \<Longrightarrow> P ts c"
begin

lemma drop_token: "P (add_mset op ts) c \<Longrightarrow> droppable {#op#} \<Longrightarrow> not_ended ec \<Longrightarrow> P ts (terminate ec c)"
  using ends [of ts "{#op#}"] by simp

lemma reading_processor:
  "P ts c \<Longrightarrow> Op_read_frame \<in># ts \<Longrightarrow> \<exists>p. cn_processor c = Some p \<and> hybi_ok (ce_host E) p \<and> \<not> ready p"
  using inv [of ts c] by (auto simp: con_inv_def proc_ok_def reads_ok_def reads_def flight_def)

definition rank :: "bytes \<Rightarrow> con \<Rightarrow> nat" where
  "rank buf c = 2 * length buf + (if map_option p_state (cn_processor c) = Some HEADER_BASIC then 0 else 1)"

lemma kept_frame_loop:
  assumes "env_ok E" and "P (add_mset Op_read_frame ts) c"
  shows "returns (P ts) (frame_loop E buf c)"
  using assms(2)
proof (induction "rank buf c" arbitrary: buf c rule: less_induct)
  case less
  let ?ts = "add_mset Op_read_frame ts"
  show ?case
  proof (cases "buf = []")
    case True
    then show ?thesis using read [OF less.prems] by (simp add: frame_loop.simps)
  next
    case False
    obtain p where p: "cn_processor c = Some p" "hybi_ok (ce_host E) p" "\<not> ready p"
      using reading_processor [OF less.prems] by auto
    have h: "host_ok (ce_host E)" using assms(1) by (simp add: env_ok_def)
    obtain n ec q where q: "consume (ce_host E) buf p = Inr (n, ec, q)" "n \<le> length buf"
        "ec = None \<Longrightarrow> hybi_ok (ce_host E) q" "ec = None \<Longrightarrow> ready q \<or> n = length buf"
      using consume_ok [OF h p(2)] by metis
    have s: "p_server q = p_server p" "not_ended ec" using consume_server [OF q(1)] by simp_all
    consider (err) e where "ec = Some e" | (msg) "ec = None" "ready q" | (more) "ec = None" "\<not> ready q" "n = length buf"
      using q(4) by (cases ec) auto
    then show ?thesis
    proof cases
      case err
      then show ?thesis
        using False p q kept_consume_failed [OF stop_reading [OF less.prems p(1) s(1)]] s(2)
        by (simp add: frame_loop.simps [of E buf c])
    next
      case msg
      obtain m r where r: "get_message q = Inr (Some m, r)" "hybi_ok (ce_host E) r" "p_state r = HEADER_BASIC"
        using get_message_ok [OF q(3) [OF msg(1)] msg(2)] by metis
      have pr: "P ?ts (c\<lparr>cn_processor := Some r\<rparr>)"
        using consumed [OF less.prems p(1) _ r(2)] s(1) get_message_server [OF r(1)] r(3) by (simp add: ready_def)
      obtain d where d: "dispatch_message E (Some m) (c\<lparr>cn_processor := Some r\<rparr>) = Inr d" "P ?ts d"
        using safe_returns [OF kept_dispatch [OF assms(1) pr]] by auto
      have "cn_processor d = Some r"
        using dispatch_processor [OF assms(1) inv [OF pr] _ d(1)] by simp
      then have "rank (drop n buf) d < rank buf c"
        using consume_progress [OF h p(2) _ False q(1) [unfolded msg]] p r q(2) False
        by (cases "p_state p = HEADER_BASIC") (auto simp: rank_def)
      then show ?thesis
        using less.hyps d(2) False p q msg r d(1) by (simp add: frame_loop.simps [of E buf c])
    next
      case more
      then have "rank (drop n buf) (c\<lparr>cn_processor := Some q\<rparr>) < rank buf c"
        using False by (cases buf) (simp_all add: rank_def)
      then show ?thesis
        using less.hyps consumed [OF less.prems p(1) s(1) q(3)] False p q more by (simp add: frame_loop.simps [of E buf c])
    qed
  qed
qed

lemma kept_read_frame:
  assumes "env_ok E" and "P (add_mset Op_read_frame ts) c" and "not_ended ec"
  shows "returns (P ts) (handle_read_frame E ec buf c)"
  using assms kept_frame_loop kept_reading [OF assms(2)] drop_token [OF assms(2)] closed [OF assms(2)]
  by (auto simp: handle_read_frame_def Let_def split: option.splits)

lemma kept_write_done:
  assumes "P (add_mset Op_write_frame ts) c" and "not_ended ec"
  shows "safe False (P ts) (handle_write_frame ec c)"
proof -
  have ne: "cn_current_msgs c \<noteq> []"
    using inv [OF assms(1)] by (auto simp: con_inv_def writes_ok_def split: if_splits)
  have "P ts (c\<lparr>cn_current_msgs := []\<rparr>)" using write_done [OF assms(1), of "cn_write_flag c"] by simp
  then have "P ts (terminate e (c\<lparr>cn_current_msgs := []\<rparr>))" if "not_ended e" for e
    using ends [of ts "{#}"] that by simp
  then show ?thesis
    using ne assms(2) write_done [OF assms(1), of False] async
    by (simp add: handle_write_frame_def Let_def)
qed

lemma kept_connect:
  assumes "P (add_mset Op_connect ts) c" and "not_ended ec"
  shows "P ts (handle_connect ec c)"
  using assms drop_token [OF assms(1)] initiate [OF assms(1)] by (simp add: handle_connect_def start_def)

lemma kept_init:
  assumes "P (add_mset Op_init ts) c" and "not_ended ec"
  shows "safe False (P ts) (handle_transport_init E ec c)"
proof -
  obtain req where "client_handshake_request (ce_host E) (map (\<lambda>i. ce_rng E (cn_draws c + i)) [0..<4]) (cn_request c)
      (ce_uri E) (ce_requested_subprotocols E) = Inr req"
    using client_request_returns by blast
  then show ?thesis
    using assms drop_token [OF assms(1)] request [OF assms(1)]
    by (auto simp: handle_transport_init_def send_http_request_def Let_def)
qed

lemma kept_requested:
  assumes "P (add_mset Op_write_request ts) c" and "not_ended ec"
  shows "P ts (handle_send_http_request ec c)"
  using assms drop_token [OF assms(1)] requested [OF assms(1)] closed [OF assms(1)]
  by (auto simp: handle_send_http_request_def handshake_ec_def split: option.splits if_splits)

lemma kept_open_then_read:
  assumes "env_ok E" and "P (add_mset Op_read_frame ts) (c\<lparr>cn_log := cn_log c @ open_notices E\<rparr>)"
  shows "returns (P ts) (case if ce_open_handler E then notify E N_open c else Inr c of
    Inl e \<Rightarrow> Some (Inl e) | Inr c \<Rightarrow> handle_read_frame E None buf c)"
proof (cases "ce_open_handler E")
  case True
  then have "safe False (P (add_mset Op_read_frame ts)) (notify E N_open c)"
    using assms kept_calls [OF assms(1)] by (simp add: open_notices_def notify_def)
  then obtain d where "notify E N_open c = Inr d" "P (add_mset Op_read_frame ts) d"
    using safe_returns by blast
  then show ?thesis using True kept_read_frame [OF assms(1), of ts d None] by simp
next
  case False
  then show ?thesis using assms kept_read_frame [OF assms(1), of ts c None] by (simp add: open_notices_def)
qed

lemma kept_handshake_done:
  assumes "env_ok E" and "P (add_mset Op_read_response ts) c" and "cn_internal_state c = READ_HTTP_RESPONSE"
    and "cn_state c = S_connecting"
  shows "returns (P ts) (handshake_done E buf (cancel_handshake_timer c))"
proof (cases "fst (negotiate_extensions (ce_enable_extensions E) (cn_response c))")
  case None
  have "P (add_mset Op_read_frame ts) (d\<lparr>cn_log := cn_log d @ open_notices E\<rparr>)"
    if "d = (cancel_handshake_timer c)\<lparr>cn_internal_state := PROCESS_CONNECTION, cn_state := S_open\<rparr>" for d
    using go_open [OF assms(2,3,4)] that by simp
  then show ?thesis
    using None kept_open_then_read [OF assms(1)] by (simp add: handshake_done_def Let_def)
next
  case (Some e)
  have "P (add_mset Op_read_frame ts) (d\<lparr>cn_log := cn_log d @ open_notices E\<rparr>)"
    if "d = (terminate (Some (WsError E_extension_neg_failed)) ((cancel_handshake_timer c)
      \<lparr>cn_log := cn_log c @ [N_negotiation_failed e]\<rparr>))\<lparr>cn_internal_state := PROCESS_CONNECTION, cn_state := S_open\<rparr>" for d
    using go_failed [OF assms(2,3,4), of "Some (WsError E_extension_neg_failed)" e] that by (simp add: terminate_log)
  then show ?thesis
    using Some kept_open_then_read [OF assms(1)] by (simp add: handshake_done_def Let_def)
qed

lemma validate_error: "validate_server_handshake_response w q r = Some e \<Longrightarrow> not_ended (Some e)"
  by (auto simp: validate_server_handshake_response_def Let_def split: if_splits)

lemma kept_response_read:
  assumes "env_ok E" and "P (add_mset Op_read_response ts) c" and "cn_internal_state c = READ_HTTP_RESPONSE"
    and "cn_state c = S_connecting"
  shows "returns (P ts) (response_read E buf c)"
proof -
  obtain p where "cn_processor c = Some p"
    using inv [OF assms(2)] assms(3) by (auto simp: con_inv_def proc_ok_def)
  then show ?thesis
    using responding [OF assms(2)] kept_handshake_done [OF assms] drop_token [OF assms(2)] validate_error
    by (auto simp: response_read_def Let_def terminate_cancelled split: option.splits)
qed

lemma kept_response:
  assumes "env_ok E" and "P (add_mset Op_read_response ts) c" and "not_ended ec"
  shows "returns (P ts) (handle_read_http_response E ec buf c)"
proof (cases "handshake_ec READ_HTTP_RESPONSE ec c = Some None")
  case True
  then have st: "cn_state c = S_connecting" "cn_internal_state c = READ_HTTP_RESPONSE"
    by (auto simp: handshake_ec_def split: option.splits if_splits)
  then show ?thesis
    using True drop_token [OF assms(2)] kept_response_read [OF assms(1) response [OF assms(2)]]
    by (auto simp: handle_read_http_response_def split: sum.splits)
next
  case False
  then show ?thesis
    using assms(3) drop_token [OF assms(2)] closed [OF assms(2)]
    by (auto simp: handle_read_http_response_def handshake_ec_def split: option.splits if_splits)
qed

lemma kept_timer:
  assumes "op \<in> {Op_open_timer, Op_close_timer}" and "ec = None \<Longrightarrow> P {#op#} c" and "ec \<noteq> None \<Longrightarrow> P {#} c"
  shows "P {#} (handle_open_handshake_timeout ec c)" "P {#} (handle_close_handshake_timeout ec c)"
  using drop_token [of op "{#}" c] assms
  by (auto simp: handle_open_handshake_timeout_def handle_close_handshake_timeout_def)

lemma kept_terminate:
  assumes "env_ok E" and "P (add_mset (Op_shutdown t) ts) c"
  shows "safe False (P ts) (handle_terminate E t c)"
proof -
  have ec: "cn_ec c \<noteq> Some (WsError E_http_connection_ended)"
    using inv [OF assms(2)] by (simp add: con_inv_def life_ok_def)
  have calls: "safe False (P ts) (notify E n c)" if "end_notices E t = [n]" for n
    using ended [OF assms(2)] kept_calls [OF assms(1)] that by (simp add: notify_def Let_def)
  have silent: "P ts c" if "end_notices E t = []"
    using ended [OF assms(2)] that by simp
  have "safe False (P ts)
     (case t of
        T_failed \<Rightarrow>
          (if cn_ec c \<noteq> Some (WsError E_http_connection_ended) \<and> ce_fail_handler E then notify E N_fail c else Inr c)
      | T_closed \<Rightarrow> (if ce_close_handler E then notify E N_close c else Inr c)
      | T_unknown \<Rightarrow> Inr c)" (is "safe False _ ?r")
  proof (cases "end_notices E t = []")
    case True
    then have eq: "?r = Inr c" using ec by (cases t) (auto simp: end_notices_def split: if_splits)
    show ?thesis unfolding eq safe_simps(1) by (rule silent [OF True])
  next
    case False
    then obtain n where "?r = notify E n c" "end_notices E t = [n]"
      using ec by (cases t) (auto simp: end_notices_def split: if_splits)
    then show ?thesis using calls by simp
  qed
  then show ?thesis
    unfolding handle_terminate_def by (rule safe_and_then) (simp add: kept_notify assms(1))
qed

lemma kept_idle_ops:
  assumes "env_ok E"
  shows "P (add_mset Op_dispatch_write ts) c \<Longrightarrow> P ts (write_frame c)"
    "P (add_mset Op_pause ts) c \<Longrightarrow> P ts (handle_pause_reading c)"
    "P (add_mset Op_interrupt ts) c \<Longrightarrow> safe False (P ts) (handle_interrupt E c)"
    "P (add_mset (Op_pong_timer x) ts) c \<Longrightarrow> safe False (P ts) (handle_pong_timeout E x ec c)"
  using idle [of _ ts c] assms
  by (auto simp: written handle_pause_reading_def view_updates handle_interrupt_def handle_pong_timeout_def kept_notify)

text \<open>The completion of an operation, for a predicate that holds when the operation is taken out of the list: an
  operation that runs, or a cancelled timer that does not.\<close>

lemma kept_done:
  assumes "env_ok E" and "event_ok c (Done i ec buf)" and "map_of (cn_pending c) i = Some op"
    and "P {#op#} (take_op i c)"
    and "op \<in> {Op_open_timer, Op_close_timer} \<Longrightarrow> i \<in> set (cn_cancelled c) \<Longrightarrow> P {#} (take_op i c)"
  shows "returns (P {#}) (con_event E (Done i ec buf) c)"
proof -
  have ec: "not_ended ec" "ec \<noteq> None \<and> op \<in> {Op_open_timer, Op_close_timer} \<longrightarrow> i \<in> set (cn_cancelled c)" "op \<noteq> Op_resume"
    using assms(2,3) ws_error_not_ended by (auto simp: event_ok_def)
  have "returns (P {#}) (run_op E op ec buf (take_op i c))"
    using assms(1,4,5) ec kept_timer [of op ec "take_op i c"] kept_connect kept_init kept_requested kept_response
      kept_read_frame kept_write_done kept_terminate kept_idle_ops [OF assms(1)]
    by (cases op) (simp_all add: run_op_def)
  then show ?thesis using assms(3) by (simp add: con_event_def)
qed

lemma kept_step:
  assumes "env_ok E" and "P {#} c" and "event_ok c ev"
    and "\<And>i ec buf op. ev = Done i ec buf \<Longrightarrow> map_of (cn_pending c) i = Some op \<Longrightarrow> P {#op#} (take_op i c)"
    and "\<And>i ec buf op. ev = Done i ec buf \<Longrightarrow> map_of (cn_pending c) i = Some op \<Longrightarrow> op \<in> {Op_open_timer, Op_close_timer} \<Longrightarrow>
      i \<in> set (cn_cancelled c) \<Longrightarrow> P {#} (take_op i c)"
  shows "returns (P {#}) (con_event E ev c)"
proof (cases ev)
  case (Call call)
  then show ?thesis using assms(2,3) kept_app_call by (simp add: con_event_def event_ok_def)
next
  case (Done i ec buf)
  show ?thesis
  proof (cases "map_of (cn_pending c) i")
    case None
    then show ?thesis using assms(2) Done by (simp add: con_event_def)
  next
    case (Some op)
    show ?thesis
      unfolding Done using kept_done [OF assms(1) assms(3) [unfolded Done] Some assms(4) [OF Done Some] assms(5) [OF Done Some]] .
  qed
qed

end

text \<open>A predicate that is also kept when any operation is taken out of the list is kept by every event.\<close>

locale kept_events = kept +
  assumes taken: "P {#} c \<Longrightarrow> map_of (cn_pending c) i = Some op \<Longrightarrow> P {#op#} (take_op i c)"
    and cancelled: "P {#} c \<Longrightarrow> map_of (cn_pending c) i = Some op \<Longrightarrow> op \<in> {Op_open_timer, Op_close_timer} \<Longrightarrow>
      i \<in> set (cn_cancelled c) \<Longrightarrow> P {#} (take_op i c)"
begin

lemma kept_event: "env_ok E \<Longrightarrow> P {#} c \<Longrightarrow> event_ok c ev \<Longrightarrow> returns (P {#}) (con_event E ev c)"
  by (rule kept_step) (auto intro: taken cancelled)

end

subsection \<open>Every event keeps the invariant\<close>

lemma idle_token_parts:
  assumes "is_idle_op op"
  shows "phase_ok (add_mset op ts) c = phase_ok ts c" "reads_ok (add_mset op ts) c = reads_ok ts c"
    "proc_ok E (add_mset op ts) c = proc_ok E ts c" "writes_ok (add_mset op ts) c = writes_ok ts c"
    "life_ok E (add_mset op ts) c = life_ok E ts c" "timers_ok E (add_mset op ts) c = timers_ok E ts c"
  using assms by (cases op; simp add: part_defs)+

lemma token_idle: "is_idle_op op \<Longrightarrow> con_inv E (add_mset op ts) c \<Longrightarrow> con_inv E ts c"
  using idle_token_parts by (auto simp only: con_inv_def)

lemma phase_drop:
  assumes "phase_ok (add_mset op ts) c" and "cn_state c = S_closed"
  shows "phase_ok ts c"
proof -
  have "handshakes ts (cn_pending c) \<subseteq># handshakes (add_mset op ts) (cn_pending c)" by simp
  then have "handshakes (add_mset op ts) (cn_pending c) \<subseteq># X \<Longrightarrow> handshakes ts (cn_pending c) \<subseteq># X" for X
    by (rule subset_mset.order_trans)
  from this [of "{#}"] this show ?thesis
    using assms unfolding phase_ok_def by auto
qed

lemma closed_token_parts:
  assumes "cn_state c = S_closed" and "op \<noteq> Op_write_frame" and "\<not> is_shutdown_op op"
  shows "reads_ok (add_mset op ts) c \<Longrightarrow> reads_ok ts c"
    "proc_ok E (add_mset op ts) c \<Longrightarrow> proc_ok E ts c" "writes_ok (add_mset op ts) c = writes_ok ts c"
    "life_ok E (add_mset op ts) c = life_ok E ts c" "timers_ok E ts c"
  subgoal by (auto simp: reads_ok_def split: if_splits)
  subgoal by (auto simp: proc_ok_def split: if_splits)
  subgoal using assms by (simp add: writes_ok_def)
  subgoal using assms by (simp add: life_ok_def)
  subgoal using assms by (simp add: timers_ok_def)
  done

lemma inv_closed:
  "con_inv E (add_mset op ts) c \<Longrightarrow> cn_state c = S_closed \<Longrightarrow> op \<noteq> Op_write_frame \<Longrightarrow> \<not> is_shutdown_op op \<Longrightarrow> con_inv E ts c"
  using closed_token_parts [where c = c and op = op and ts = ts] phase_drop [of op ts c]
  by (simp add: con_inv_def)

text \<open>Taking an operation out of the list makes it the token.\<close>

lemma flight_taken:
  assumes "distinct (map fst ps)" and "map_of ps i = Some op"
  shows "flight {#op#} (filter (\<lambda>(j, op). j \<noteq> i) ps) = flight {#} ps"
  using assms
proof (induction ps)
  case (Cons q ps)
  obtain j x where q: "q = (j, x)" by fastforce
  show ?case
  proof (cases "j = i")
    case True
    then have "filter (\<lambda>(j, op). j \<noteq> i) ps = ps"
      using Cons.prems(1) q by (force intro!: filter_True)
    then show ?thesis using Cons.prems(2) q True by (simp add: flight_def)
  next
    case False
    then show ?thesis using Cons q by (simp add: flight_def)
  qed
qed simp

lemma taken_ops:
  assumes "ids_ok c" and "map_of (cn_pending c) i = Some op"
  shows "flight {#op#} (cn_pending (take_op i c)) = flight {#} (cn_pending c)"
    "handshakes {#op#} (cn_pending (take_op i c)) = handshakes {#} (cn_pending c)"
    "reads {#op#} (cn_pending (take_op i c)) = reads {#} (cn_pending c)"
    "frame_writes {#op#} (cn_pending (take_op i c)) = frame_writes {#} (cn_pending c)"
    "shutdowns {#op#} (cn_pending (take_op i c)) = shutdowns {#} (cn_pending c)"
proof -
  have "distinct (map fst (cn_pending c))" using assms(1) by (simp add: ids_ok_def)
  from flight_taken [OF this assms(2)]
  show eq: "flight {#op#} (cn_pending (take_op i c)) = flight {#} (cn_pending c)"
    by (simp add: take_op_def del: flight_token)
  show "handshakes {#op#} (cn_pending (take_op i c)) = handshakes {#} (cn_pending c)"
    "reads {#op#} (cn_pending (take_op i c)) = reads {#} (cn_pending c)"
    "frame_writes {#op#} (cn_pending (take_op i c)) = frame_writes {#} (cn_pending c)"
    "shutdowns {#op#} (cn_pending (take_op i c)) = shutdowns {#} (cn_pending c)"
    unfolding handshakes_def reads_def frame_writes_def shutdowns_def eq by simp_all
qed

lemma taken_fields [simp]:
  "cn_state (take_op i c) = cn_state c" "cn_internal_state (take_op i c) = cn_internal_state c"
  "cn_processor (take_op i c) = cn_processor c" "cn_send_queue (take_op i c) = cn_send_queue c"
  "cn_current_msgs (take_op i c) = cn_current_msgs c" "cn_write_flag (take_op i c) = cn_write_flag c"
  "cn_log (take_op i c) = cn_log c" "cn_ec (take_op i c) = cn_ec c" "cn_cancelled (take_op i c) = cn_cancelled c"
  "cn_handshake_timer (take_op i c) = cn_handshake_timer c" "cn_wire (take_op i c) = cn_wire c" "cn_next (take_op i c) = cn_next c"
  by (simp_all add: take_op_def)

lemma taken_parts:
  assumes "ids_ok c" and "map_of (cn_pending c) i = Some op"
  shows "phase_ok {#op#} (take_op i c) = phase_ok {#} c" "reads_ok {#op#} (take_op i c) = reads_ok {#} c"
    "proc_ok E {#op#} (take_op i c) = proc_ok E {#} c" "writes_ok {#op#} (take_op i c) = writes_ok {#} c"
    "life_ok E {#op#} (take_op i c) = life_ok E {#} c"
  by (simp_all only: phase_ok_def reads_ok_def proc_ok_def writes_ok_def life_ok_def opened_def end_op_def negotiated_def
      taken_ops [OF assms] taken_fields simp_thms)

lemma taken_ids: "ids_ok c \<Longrightarrow> ids_ok (take_op i c)" "size_ok c \<Longrightarrow> size_ok (take_op i c)"
  by (auto simp: ids_ok_def size_ok_def take_op_def distinct_map_filter)

lemma taken_timer:
  assumes "ids_ok c" and "map_of (cn_pending c) i = Some op" and "timer_runs t c"
  shows "timer_runs t (take_op i c) \<or> (t = op \<and> i \<notin> set (cn_cancelled c))"
proof -
  obtain j where j: "cn_handshake_timer c = Some j" "(j, t) \<in> set (cn_pending c)" "j \<notin> set (cn_cancelled c)"
    using assms(3) by (auto simp: timer_runs_def)
  show ?thesis
  proof (cases "j = i")
    case True
    then have "map_of (cn_pending c) i = Some t" using assms(1) j by (simp add: ids_ok_def map_of_is_SomeI)
    then have "t = op" using assms(2) by simp
    then show ?thesis using True j by simp
  next
    case False
    then show ?thesis using j by (auto simp: timer_runs_def take_op_def)
  qed
qed

lemma inv_taken:
  assumes "con_inv E {#} c" and "map_of (cn_pending c) i = Some op"
  shows "con_inv E {#op#} (take_op i c)"
proof -
  have "timers_ok E {#op#} (take_op i c)"
    using assms taken_timer [OF _ assms(2)] by (auto simp: con_inv_def timers_ok_def)
  then show ?thesis
    using assms taken_parts [OF _ assms(2)] taken_ids by (auto simp only: con_inv_def)
qed

lemma timer_token_parts:
  assumes "op \<in> {Op_open_timer, Op_close_timer}"
  shows "phase_ok (add_mset op ts) c = phase_ok ts c" "reads_ok (add_mset op ts) c = reads_ok ts c"
    "proc_ok E (add_mset op ts) c = proc_ok E ts c" "writes_ok (add_mset op ts) c = writes_ok ts c"
    "life_ok E (add_mset op ts) c = life_ok E ts c"
  using assms by (cases op; simp add: part_defs)+

lemma inv_cancelled:
  assumes "con_inv E {#} c" and "map_of (cn_pending c) i = Some op" and "op \<in> {Op_open_timer, Op_close_timer}"
    and "i \<in> set (cn_cancelled c)"
  shows "con_inv E {#} (take_op i c)"
proof -
  have "timers_ok E {#} (take_op i c)"
    using assms taken_timer [OF _ assms(2)] by (auto simp: con_inv_def timers_ok_def)
  then show ?thesis
    using inv_taken [OF assms(1,2)] timer_token_parts [OF assms(3)] by (simp only: con_inv_def)
qed

subsection \<open>The steps of the opening handshake\<close>

text \<open>Reads of the opening handshake are handshake operations.\<close>

lemma reads_handshakes:
  "Op_read_frame \<notin># flight ts ps \<Longrightarrow> handshakes ts ps = {#} \<Longrightarrow> reads ts ps = {#}"
  by (auto simp: handshakes_def reads_def is_read_op_def is_handshake_op_def)

lemma initiate_parts:
  fixes c
  assumes "cn_internal_state c = USER_INIT"
  defines "d \<equiv> async Op_init (c\<lparr>cn_internal_state := TRANSPORT_INIT\<rparr>)"
  shows "ids_ok c \<Longrightarrow> ids_ok d" "phase_ok (add_mset Op_connect ts) c \<Longrightarrow> phase_ok ts d"
    "reads_ok (add_mset Op_connect ts) c \<Longrightarrow> reads_ok ts d" "proc_ok E ts d"
    "writes_ok (add_mset Op_connect ts) c \<Longrightarrow> writes_ok ts d" "size_ok c \<Longrightarrow> size_ok d"
    "life_ok E (add_mset Op_connect ts) c \<Longrightarrow> life_ok E ts d" "phase_ok (add_mset Op_connect ts) c \<Longrightarrow> timers_ok E ts d"
  using assms(1) unfolding d_def async_def by (auto simp: part_defs)

lemma inv_initiate:
  "con_inv E (add_mset Op_connect ts) c \<Longrightarrow> cn_internal_state c = USER_INIT \<Longrightarrow>
   con_inv E ts (async Op_init (c\<lparr>cn_internal_state := TRANSPORT_INIT\<rparr>))"
  unfolding con_inv_def by (elim conjE) (intro conjI; rule initiate_parts; assumption)

lemma request_parts:
  fixes c E q n w
  assumes "cn_internal_state c = TRANSPORT_INIT"
  defines "d \<equiv> async_write w Op_write_request (set_handshake_timer (ce_open_handshake_timeout_dur E) Op_open_timer
        (c\<lparr>cn_internal_state := WRITE_HTTP_REQUEST, cn_processor := Some (get_processor E), cn_draws := n, cn_request := q\<rparr>))"
  shows "ids_ok c \<Longrightarrow> ids_ok d" "phase_ok (add_mset Op_init ts) c \<Longrightarrow> phase_ok ts d"
    "reads_ok (add_mset Op_init ts) c \<Longrightarrow> reads_ok ts d" "proc_ok E ts d"
    "writes_ok (add_mset Op_init ts) c \<Longrightarrow> writes_ok ts d" "size_ok c \<Longrightarrow> size_ok d"
    "life_ok E (add_mset Op_init ts) c \<Longrightarrow> life_ok E ts d" "ids_ok c \<Longrightarrow> phase_ok (add_mset Op_init ts) c \<Longrightarrow> timers_ok E ts d"
  using assms(1) hybi_ok_init unfolding d_def async_write_def set_handshake_timer_def async_def get_processor_def
  by (auto simp: part_defs ready_def hybi13_init_def reset_headers_def)

lemma inv_request:
  assumes "con_inv E (add_mset Op_init ts) c" and "cn_internal_state c = TRANSPORT_INIT"
  shows "con_inv E ts (async_write w Op_write_request (set_handshake_timer (ce_open_handshake_timeout_dur E) Op_open_timer
        (c\<lparr>cn_internal_state := WRITE_HTTP_REQUEST, cn_processor := Some (get_processor E), cn_draws := n, cn_request := q\<rparr>)))"
  using assms unfolding con_inv_def by (elim conjE) (intro conjI; rule request_parts; assumption)

lemma requested_parts:
  fixes c
  assumes "cn_internal_state c = WRITE_HTTP_REQUEST" and "cn_state c = S_connecting"
  defines "d \<equiv> async Op_read_response (c\<lparr>cn_internal_state := READ_HTTP_RESPONSE\<rparr>)"
  shows "ids_ok c \<Longrightarrow> ids_ok d" "phase_ok (add_mset Op_write_request ts) c \<Longrightarrow> phase_ok ts d"
    "phase_ok (add_mset Op_write_request ts) c \<Longrightarrow> reads_ok (add_mset Op_write_request ts) c \<Longrightarrow> reads_ok ts d"
    "proc_ok E (add_mset Op_write_request ts) c \<Longrightarrow> proc_ok E ts d"
    "writes_ok (add_mset Op_write_request ts) c \<Longrightarrow> writes_ok ts d" "size_ok c \<Longrightarrow> size_ok d"
    "life_ok E (add_mset Op_write_request ts) c \<Longrightarrow> life_ok E ts d" "timers_ok E (add_mset Op_write_request ts) c \<Longrightarrow> timers_ok E ts d"
  using assms(1,2) reads_handshakes [of ts "cn_pending c"] unfolding d_def async_def by (auto simp: part_defs)

lemma inv_requested:
  "con_inv E (add_mset Op_write_request ts) c \<Longrightarrow> cn_internal_state c = WRITE_HTTP_REQUEST \<Longrightarrow> cn_state c = S_connecting \<Longrightarrow>
   con_inv E ts (async Op_read_response (c\<lparr>cn_internal_state := READ_HTTP_RESPONSE\<rparr>))"
  unfolding con_inv_def by (elim conjE) (intro conjI; rule requested_parts; assumption)

lemma responding_parts:
  fixes c
  defines "d \<equiv> async Op_read_response c"
  shows "ids_ok c \<Longrightarrow> ids_ok d" "phase_ok (add_mset Op_read_response ts) c \<Longrightarrow> phase_ok ts d"
    "reads_ok (add_mset Op_read_response ts) c \<Longrightarrow> reads_ok ts d"
    "proc_ok E (add_mset Op_read_response ts) c \<Longrightarrow> proc_ok E ts d"
    "writes_ok (add_mset Op_read_response ts) c \<Longrightarrow> writes_ok ts d" "size_ok c \<Longrightarrow> size_ok d"
    "life_ok E (add_mset Op_read_response ts) c \<Longrightarrow> life_ok E ts d" "timers_ok E (add_mset Op_read_response ts) c \<Longrightarrow> timers_ok E ts d"
  unfolding d_def async_def by (auto simp: part_defs)

lemma inv_responding: "con_inv E (add_mset Op_read_response ts) c \<Longrightarrow> con_inv E ts (async Op_read_response c)"
  unfolding con_inv_def by (elim conjE) (intro conjI; rule responding_parts; assumption)

text \<open>The connection opens: the read of the response turns into the read of frames.\<close>

lemma cancel_handshake_cases:
  "cancel_handshake_timer c =
     c\<lparr>cn_cancelled := cn_cancelled c @ (case cn_handshake_timer c of None \<Rightarrow> [] | Some i \<Rightarrow> [i]), cn_handshake_timer := None\<rparr>"
  by (simp add: cancel_handshake_timer_def cancel_timer_def split: option.splits)

lemma open_parts:
  fixes c x
  assumes "cn_internal_state c = READ_HTTP_RESPONSE" and "cn_state c = S_connecting"
  defines "d \<equiv> (cancel_handshake_timer c)\<lparr>cn_internal_state := PROCESS_CONNECTION, cn_state := S_open, cn_log := x\<rparr>"
  shows "ids_ok c \<Longrightarrow> ids_ok d" "phase_ok (add_mset Op_read_response ts) c \<Longrightarrow> phase_ok (add_mset Op_read_frame ts) d"
    "reads_ok (add_mset Op_read_response ts) c \<Longrightarrow> reads_ok (add_mset Op_read_frame ts) d"
    "proc_ok E (add_mset Op_read_response ts) c \<Longrightarrow> proc_ok E (add_mset Op_read_frame ts) d"
    "writes_ok (add_mset Op_read_response ts) c \<Longrightarrow> writes_ok (add_mset Op_read_frame ts) d" "size_ok c \<Longrightarrow> size_ok d"
    "timers_ok E ts d"
  using assms(1,2) unfolding d_def cancel_handshake_cases by (auto simp: part_defs split: option.splits)

lemma open_life:
  assumes "cn_internal_state c = READ_HTTP_RESPONSE" and "cn_state c = S_connecting" and "life_ok E (add_mset Op_read_response ts) c"
  shows "life_ok E (add_mset Op_read_frame ts) ((cancel_handshake_timer c)
    \<lparr>cn_internal_state := PROCESS_CONNECTION, cn_state := S_open, cn_log := cn_log c @ open_notices E\<rparr>)"
  using assms unfolding cancel_handshake_cases
  by (auto simp: life_ok_def opened_def end_op_def negotiated_def reporting_def open_notices_def)

lemma inv_go_open:
  assumes "con_inv E (add_mset Op_read_response ts) c" and "cn_internal_state c = READ_HTTP_RESPONSE" and "cn_state c = S_connecting"
  shows "con_inv E (add_mset Op_read_frame ts) ((cancel_handshake_timer c)
    \<lparr>cn_internal_state := PROCESS_CONNECTION, cn_state := S_open, cn_log := cn_log c @ open_notices E\<rparr>)"
  using assms(1) open_parts [OF assms(2,3)] open_life [OF assms(2,3)] unfolding con_inv_def by (auto simp: read_token_parts(4))

text \<open>After a failed negotiation the connection is terminated and opened nevertheless.\<close>

lemma failed_parts:
  fixes c x ec
  assumes "cn_internal_state c = READ_HTTP_RESPONSE" and "cn_state c = S_connecting"
  defines "d \<equiv> (terminate ec (cancel_handshake_timer c))
    \<lparr>cn_internal_state := PROCESS_CONNECTION, cn_state := S_open, cn_log := x\<rparr>"
  shows "ids_ok c \<Longrightarrow> ids_ok d" "phase_ok (add_mset Op_read_response ts) c \<Longrightarrow> phase_ok (add_mset Op_read_frame ts) d"
    "reads_ok (add_mset Op_read_response ts) c \<Longrightarrow> reads_ok (add_mset Op_read_frame ts) d"
    "proc_ok E (add_mset Op_read_response ts) c \<Longrightarrow> proc_ok E (add_mset Op_read_frame ts) d"
    "writes_ok (add_mset Op_read_response ts) c \<Longrightarrow> writes_ok (add_mset Op_read_frame ts) d" "size_ok c \<Longrightarrow> size_ok d"
    "timers_ok E ts d"
  using assms(1,2) terminate_ids [of c ec] unfolding d_def terminate_cancelled by (auto simp: part_defs)

lemma failed_life:
  assumes "not_ended ec" and "life_ok E (add_mset Op_read_response ts) c"
  shows "life_ok E (add_mset Op_read_frame ts) ((terminate ec (cancel_handshake_timer c))
    \<lparr>cn_internal_state := PROCESS_CONNECTION, cn_state := S_open, cn_log := cn_log c @ N_negotiation_failed e # open_notices E\<rparr>)"
  using assms by (auto simp: life_ok_def negotiated_def terminate_cancelled not_ended_def)

lemma inv_go_failed:
  assumes "con_inv E (add_mset Op_read_response ts) c" and "cn_internal_state c = READ_HTTP_RESPONSE"
    and "cn_state c = S_connecting" and "not_ended ec"
  shows "con_inv E (add_mset Op_read_frame ts) ((terminate ec (cancel_handshake_timer c))
    \<lparr>cn_internal_state := PROCESS_CONNECTION, cn_state := S_open, cn_log := cn_log c @ N_negotiation_failed e # open_notices E\<rparr>)"
  using assms(1) failed_parts [OF assms(2,3)] failed_life [OF assms(4)] unfolding con_inv_def by (auto simp: read_token_parts(4))

text \<open>The report when the shutdown is complete.\<close>

lemma shutdown_token_parts:
  "phase_ok (add_mset (Op_shutdown t) ts) c = phase_ok ts c" "reads_ok (add_mset (Op_shutdown t) ts) c = reads_ok ts c"
  "proc_ok E (add_mset (Op_shutdown t) ts) c = proc_ok E ts c" "writes_ok (add_mset (Op_shutdown t) ts) c = writes_ok ts c"
  "timers_ok E (add_mset (Op_shutdown t) ts) c = timers_ok E ts c"
  by (simp_all add: part_defs)

lemma ended_life:
  assumes "life_ok E (add_mset (Op_shutdown t) ts) c"
  shows "life_ok E ts (c\<lparr>cn_log := cn_log c @ end_notices E t\<rparr>)"
proof (cases "reporting E \<and> negotiated c")
  case True
  then have "cn_state c = S_closed" "shutdowns ts (cn_pending c) = {#}" "Op_shutdown t = end_op c" "life_of (cn_log c) = opened c"
    using assms by (auto simp: life_ok_def split: if_splits)
  then show ?thesis
    using assms True by (auto simp: life_ok_def end_op_def opened_def end_notices_def reporting_def split: if_splits)
next
  case False
  then show ?thesis using assms by (auto simp: life_ok_def negotiated_def)
qed

lemma inv_ended: "con_inv E (add_mset (Op_shutdown t) ts) c \<Longrightarrow> con_inv E ts (c\<lparr>cn_log := cn_log c @ end_notices E t\<rparr>)"
  using ended_life [of E t ts c] by (simp add: con_inv_def log_parts shutdown_token_parts)

text \<open>What the basic changes keep, as one collection.\<close>

lemmas inv_steps = inv_async inv_push inv_ping_timer inv_cancel_ping inv_closing inv_log inv_consumed inv_stop_reading
  inv_read_frame inv_write_frame inv_write_done inv_initiate inv_request inv_requested inv_responding inv_go_open
  inv_go_failed inv_ended

interpretation con: kept_events E "con_inv E" for E
  by unfold_locales (simp_all add: inv_steps inv_taken inv_cancelled, (blast intro: token_idle inv_closed)+)

end
