(* ===== verification/Ws_Connection_Life.thy ===== *)
theory Ws_Connection_Life
  imports Ws_Connection_Events
begin

section \<open>The life of a connection\<close>

text \<open>
  What follows from the invariant for every run of a client connection: no event faults or hangs, the reports to the
  application follow the documented contract, the state stays well formed, and the transport has at most one read and one
  write to do.
\<close>

subsection \<open>Reachable connections\<close>

inductive reachable :: "con_env \<Rightarrow> con \<Rightarrow> bool" for E where
  reach_init: "reachable E (connection req)"
| reach_event: "reachable E c \<Longrightarrow> event_ok c ev \<Longrightarrow> con_event E ev c = Some (Inr d) \<Longrightarrow> reachable E d"

lemma con_reachable_inv:
  assumes "env_ok E" and "reachable E c"
  shows "con_inv E {#} c"
  using assms(2)
proof induction
  case (reach_init req)
  then show ?case by (rule con_init)
next
  case (reach_event c ev d)
  then show ?case
    using con.kept_event [OF assms(1) reach_event.IH reach_event.hyps(2)] by (simp add: returns_def)
qed

text \<open>The client of the program: all handlers for reports and messages, the timeouts and switches of
  \<open>config/core_client.hpp\<close>, and an application that only listens.\<close>

definition sample_env :: con_env where
  "sample_env =
     \<lparr>ce_host = x86_host, ce_rng = (\<lambda>n. of_nat (n + 7)), ce_fresh_opcode = Continuation, ce_fresh_cursor = 0,
      ce_fresh_current = DataMsg, ce_fresh_keys = (0, 0), ce_fresh_hash = replicate 80 0,
      ce_app = (\<lambda>ns. []), ce_ping_reply = (\<lambda>ns. True),
      ce_silent_close = False, ce_drop_on_protocol_error = False, ce_enable_extensions = True,
      ce_user_agent = ascii ''agent'', ce_uri = uri_no_port (ascii ''ws'') (ascii ''localhost'') (ascii ''/''),
      ce_requested_subprotocols = [], ce_open_handshake_timeout_dur = 5000, ce_close_handshake_timeout_dur = 5000,
      ce_pong_timeout_dur = 5000, ce_max_message_size = 32000000, ce_open_handler = True, ce_close_handler = True,
      ce_fail_handler = True, ce_message_handler = True, ce_ping_handler = False, ce_pong_handler = False,
      ce_pong_timeout_handler = False, ce_interrupt_handler = False, ce_termination_handler = False\<rparr>"

lemma sample_env_ok [simp]: "env_ok sample_env" "reporting sample_env"
  by (simp_all add: env_ok_def sample_env_def reporting_def example_hosts)

text \<open>A connection to a host that refuses it.\<close>

definition refused :: ec where
  "refused = Some (TransportError TE_pass_through)"

definition refused_con :: con where
  "refused_con = take_op 1 (handle_connect refused (take_op 0 (connection request_init)))"

lemma refused_events:
  "event_ok (connection request_init) (Done 0 refused [])"
  "con_event sample_env (Done 0 refused []) (connection request_init) = Some (Inr (handle_connect refused (take_op 0 (connection request_init))))"
  "event_ok (handle_connect refused (take_op 0 (connection request_init))) (Done 1 None [])"
  "con_event sample_env (Done 1 None []) (handle_connect refused (take_op 0 (connection request_init))) =
     Some (Inr (refused_con\<lparr>cn_log := [N_fail]\<rparr>))"
  by (simp_all add: event_ok_def con_event_def refused_def refused_con_def connection_def run_op_def handle_connect_def
      take_op_def terminate_def cancel_handshake_timer_def cancel_timer_def async_def handle_terminate_def notify_def
      sample_env_def del: ascii_open)

lemma refused_reachable:
  "reachable sample_env (handle_connect refused (take_op 0 (connection request_init)))"
  "reachable sample_env (refused_con\<lparr>cn_log := [N_fail]\<rparr>)"
  using reach_event [OF reach_init refused_events(1,2)] reach_event [OF _ refused_events(3,4)] by blast+

subsection \<open>Safety\<close>

text \<open>C11. No event in the life of a client connection goes through a null processor or an empty list of messages,
  throws an error of the library, or leaves the reading loop running forever: whatever the transport completes in
  whatever order with whatever bytes, for every setting of the connection, the handler returns. The conditions: the
  application may send, ping, pong, close, interrupt and pause, inside and outside of its handlers, but never calls
  \<open>resume_reading\<close>, after which the claim is false (\<open>Ws_Connection_Open.resume_faults\<close>); the transport reports
  errors of its own and not of the WebSocket layer; and a handshake timer reports an error only if it was cancelled.
  Running out of memory is outside of the model, and so is the \<open>std::length_error\<close> of a string that would have to be longer
  than \<open>max_size()\<close>.\<close>

theorem connection_never_faults:
  assumes "env_ok E" and "reachable E c" and "event_ok c ev"
  shows "\<exists>d. con_event E ev c = Some (Inr d)"
  using con.kept_event [OF assms(1) con_reachable_inv [OF assms(1,2)] assms(3)] by (auto simp: returns_def)

theorem connection_never_faults_witness:
  "\<exists>d. con_event sample_env (Done 1 None []) (handle_connect refused (take_op 0 (connection request_init))) = Some (Inr d)"
  by (rule connection_never_faults [OF sample_env_ok(1) refused_reachable(1) refused_events(3)])

text \<open>C13. The reports of a connection to the application follow the documented contract: as long as the connection is
  connecting nothing is reported; it is then reported open once, and messages, pings and pongs are passed on
  only between that report and the end; the end is one report, of a failure if it was never open and of a
  close otherwise; and a closed connection was reported so, or the shutdown that leads to the report is in
  flight. Connections whose extension negotiation failed are excluded.\<close>

theorem connection_reports:
  assumes "env_ok E" and "reporting E" and "reachable E c" and "negotiated c"
  shows "life_of (cn_log c) =
      (case cn_state c of
         S_connecting \<Rightarrow> L_connecting
       | S_closed \<Rightarrow> (if \<exists>i t. (i, Op_shutdown t) \<in> set (cn_pending c)
                      then if cn_internal_state c = PROCESS_CONNECTION then L_opened else L_connecting
                      else L_ended)
       | _ \<Rightarrow> L_opened)"
proof -
  have inv: "phase_ok {#} c" "life_ok E {#} c"
    using con_reachable_inv [OF assms(1,3)] by (simp_all add: con_inv_def)
  have sh: "shutdowns {#} (cn_pending c) = {#} \<longleftrightarrow> \<not> (\<exists>i t. (i, Op_shutdown t) \<in> set (cn_pending c))"
    by (force simp: shutdowns_def flight_def elim: is_shutdown_op.elims)
  have "life_of (cn_log c) = opened c \<or> life_of (cn_log c) = L_ended \<and> cn_state c = S_closed"
      "cn_state c = S_closed \<Longrightarrow> life_of (cn_log c) = L_ended \<longleftrightarrow> shutdowns {#} (cn_pending c) = {#}"
    using inv(2) assms(2,4) by (auto simp: life_ok_def opened_def split: if_splits)
  then show ?thesis
    using phase_connecting [OF inv(1)] phase_open [OF inv(1)]
    by (cases "cn_state c") (auto simp: opened_def sh)
qed

theorem connection_reports_witness:
  "life_of (cn_log (refused_con\<lparr>cn_log := [N_fail]\<rparr>)) = L_ended"
proof -
  have "negotiated (refused_con\<lparr>cn_log := [N_fail]\<rparr>)" by (simp add: negotiated_def)
  note connection_reports [OF sample_env_ok refused_reachable(2) this]
  then show ?thesis
    by (simp add: refused_con_def connection_def handle_connect_def refused_def take_op_def terminate_def
        cancel_handshake_timer_def cancel_timer_def async_def del: life_of_simps)
qed

lemma reading_after_init:
  assumes "phase_ok {#} c" and "reads_ok {#} c" and "op \<in># reads {#} (cn_pending c)"
  shows "cn_internal_state c \<notin> {USER_INIT, TRANSPORT_INIT}"
proof
  assume init: "cn_internal_state c \<in> {USER_INIT, TRANSPORT_INIT}"
  then have "op = Op_read_response" using assms(2,3) by (auto simp: reads_ok_def reads_def is_read_op_def)
  then have "Op_read_response \<in># handshakes {#} (cn_pending c)"
    using assms(3) by (simp add: reads_def handshakes_def)
  then show False
    using init assms(1) by (fastforce simp: phase_ok_def dest: mset_subset_eqD)
qed

text \<open>C17. Between two events a connection is well formed: the operations in flight have different numbers, all of them
  given out before; while a read is in flight there is a processor, it is well formed and holds no message that was not
  passed on; the queue of messages is only used once the connection was opened; and \<open>get_buffered_amount\<close> is the
  number of payload bytes in the queue, modulo the width of \<open>size_t\<close>. The application does not call
  \<open>resume_reading\<close>.\<close>

theorem connection_well_formed:
  assumes "env_ok E" and "reachable E c"
  shows "distinct (map fst (cn_pending c)) \<and> (\<forall>(i, op) \<in> set (cn_pending c). i < cn_next c) \<and>
    ((\<exists>(i, op) \<in> set (cn_pending c). is_read_op op) \<longrightarrow>
       (\<exists>p. cn_processor c = Some p \<and> hybi_ok (ce_host E) p \<and> \<not> ready p)) \<and>
    (cn_internal_state c \<noteq> PROCESS_CONNECTION \<longrightarrow> cn_send_queue c = [] \<and> cn_current_msgs c = []) \<and>
    cn_send_buffer_size c = (\<Sum>m\<leftarrow>cn_send_queue c. of_nat (length (m_payload m)))"
proof -
  have inv: "ids_ok c" "phase_ok {#} c" "reads_ok {#} c" "proc_ok E {#} c" "writes_ok {#} c" "size_ok c"
    using con_reachable_inv [OF assms] by (simp_all add: con_inv_def)
  have "\<exists>p. cn_processor c = Some p \<and> hybi_ok (ce_host E) p \<and> \<not> ready p"
    if r: "(i, op) \<in> set (cn_pending c)" "is_read_op op" for i op
  proof -
    have "op \<in># reads {#} (cn_pending c)" using r by (force simp: reads_def flight_def)
    then show ?thesis
      using reading_after_init [OF inv(2,3)] inv(4) by (force simp: proc_ok_def)
  qed
  then show ?thesis
    using inv(1,5,6) by (auto simp: ids_ok_def writes_ok_def size_ok_def)
qed

theorem connection_well_formed_witness:
  "distinct (map fst (cn_pending (refused_con\<lparr>cn_log := [N_fail]\<rparr>)))"
  using connection_well_formed [OF sample_env_ok(1) refused_reachable(2)] by blast

fun is_write_op :: "op \<Rightarrow> bool" where
  "is_write_op Op_write_request = True"
| "is_write_op Op_write_frame = True"
| "is_write_op _ = False"

lemma length_flight: "length (filter (\<lambda>(i, op). Q op) ps) = size (filter_mset Q (flight {#} ps))"
  by (induction ps) (auto simp: flight_def)

lemma size_writes:
  "size (filter_mset is_write_op F) \<le> size (filter_mset is_handshake_op F) + size (filter_mset (\<lambda>op. op = Op_write_frame) F)"
  by (induction F) (auto elim!: is_write_op.elims)

text \<open>C16. What \<open>transport/base/connection.hpp\<close> promises to the transport: at most one read and at most one write
  are in flight between any two events, counting the read and the write of the opening handshake. The conditions:
  the application never calls \<open>resume_reading\<close>, which starts a read in any case and so a second one while the first
  is in flight (\<open>Ws_Connection_Open.resume_reads_twice\<close>); the transport reports errors of its own; and a handshake timer
  reports an error only if it was cancelled.\<close>

theorem one_read_one_write:
  assumes "env_ok E" and "reachable E c"
  shows "length (filter (\<lambda>(i, op). is_read_op op) (cn_pending c)) \<le> 1 \<and>
    length (filter (\<lambda>(i, op). is_write_op op) (cn_pending c)) \<le> 1"
proof -
  have inv: "phase_ok {#} c" "reads_ok {#} c" "writes_ok {#} c"
    using con_reachable_inv [OF assms] by (simp_all add: con_inv_def)
  let ?f = "flight {#} (cn_pending c)"
  have "size (filter_mset is_write_op ?f) \<le> size (handshakes {#} (cn_pending c)) + size (frame_writes {#} (cn_pending c))"
    using size_writes [of ?f] by (simp add: handshakes_def frame_writes_def)
  moreover have "size (handshakes {#} (cn_pending c)) + size (frame_writes {#} (cn_pending c)) \<le> 1"
    using inv(1,3) by (cases "expected_op (cn_internal_state c)") (auto simp: phase_ok_def writes_ok_def dest!: size_mset_mono)
  ultimately show ?thesis
    using inv(2) by (simp add: length_flight reads_ok_def reads_def)
qed

theorem one_read_one_write_witness:
  "length (filter (\<lambda>(i, op). is_read_op op) (cn_pending (refused_con\<lparr>cn_log := [N_fail]\<rparr>))) \<le> 1"
  using one_read_one_write [OF sample_env_ok(1) refused_reachable(2)] by blast

end
