(* ===== verification/Ws_Connection_Open.thy ===== *)
theory Ws_Connection_Open
  imports Ws_Connection_Life
begin

section \<open>Connections that are opened\<close>

text \<open>
  Concrete runs of the sample client: the request is written, a server answers it, and the connection is open. Three of
  them show behaviour that the comments of the code exclude: a failed negotiation of extensions after which the connection
  is opened nevertheless, a second read after \<open>resume_reading\<close>, and a null pointer that is followed after it.
\<close>

subsection \<open>The request\<close>

definition requested_con :: "bytes \<Rightarrow> http_request \<Rightarrow> con" where
  "requested_con w q = async_write w Op_write_request (set_handshake_timer 5000 Op_open_timer
     ((take_op 1 (start (take_op 0 (connection request_init))))
       \<lparr>cn_internal_state := WRITE_HTTP_REQUEST, cn_processor := Some (get_processor sample_env), cn_draws := 4, cn_request := q\<rparr>))"

lemmas con_step_defs = con_event_def event_ok_def run_op_def connection_def handle_connect_def start_def async_def take_op_def
  requested_con_def async_write_def set_handshake_timer_def terminate_cases terminated_def cancel_handshake_timer_def
  cancel_timer_def handle_open_handshake_timeout_def handle_terminate_def notify_def

lemma sample_target:
  "target_ok (ce_uri sample_env)" "get_host_port (ce_uri sample_env) = ascii ''localhost''" "u_resource (ce_uri sample_env) = ascii ''/''"
  by (simp_all add: sample_env_def uri_no_port_def some_resource_def target_ok_def get_host_port_def plain_def edge_free_def)

lemma sample_requested:
  "\<exists>w q. length (get_header q (ascii ''Sec-WebSocket-Key'')) = 24 \<and>
     con_event sample_env (Done 1 None []) (start (take_op 0 (connection request_init))) = Some (Inr (requested_con w q))"
proof -
  let ?rng = "map (\<lambda>i. ce_rng sample_env (0 + i)) [0..<4]"
  have pl: "plain (join_comma [])" "plain (ce_user_agent sample_env)"
    by (simp_all add: sample_env_def plain_def edge_free_def)
  have len: "length (u_resource (ce_uri sample_env)) + length (get_host_port (ce_uri sample_env)) + length (join_comma []) +
      length (ce_user_agent sample_env) \<le> 15000"
    unfolding sample_target by (simp add: sample_env_def)
  obtain req where req: "client_handshake_request (ce_host sample_env) ?rng request_init
      (ce_uri sample_env) (ce_requested_subprotocols sample_env) = Inr req"
    using client_request_returns by blast
  moreover have "ce_requested_subprotocols sample_env = []" by (simp add: sample_env_def)
  ultimately have "length (get_header (finish_request (ce_user_agent sample_env) req) (ascii ''Sec-WebSocket-Key'')) = 24"
    using sent_request [OF sample_target(1) pl _ len, of ?rng "ce_host sample_env" req "[]"] by (simp del: ascii_open) metis
  moreover have "con_event sample_env (Done 1 None []) (start (take_op 0 (connection request_init))) =
      Some (Inr (requested_con (request_raw (finish_request (ce_user_agent sample_env) req)) (finish_request (ce_user_agent sample_env) req)))"
    using req by (auto simp: con_event_def run_op_def handle_transport_init_def send_http_request_def requested_con_def Let_def
        start_def connection_def take_op_def async_def set_handshake_timer_def sample_env_def simp del: ascii_open)
  ultimately show ?thesis by blast
qed

subsection \<open>The response\<close>

text \<open>A server's answer to a request, with any value in the header for extensions.\<close>

lemma accepted_response:
  assumes "length (get_header q (ascii ''Sec-WebSocket-Key'')) = 24" and "plain ext" and "length ext \<le> 1000"
  shows "\<exists>resp cres. response_consume resp response_init = Inr (length resp, cres) \<and> headers_ready cres \<and>
    validate_server_handshake_response w q cres = None \<and> get_header cres (ascii ''Sec-WebSocket-Extensions'') = ext"
proof -
  have pl: "plain []" "plain (ascii ''server'')" by (simp_all add: plain_def edge_free_def)
  have tok: "token (ascii ''Sec-WebSocket-Extensions'')"
    by (simp only: token_ascii) (simp add: token_code_def)
  obtain res0 :: http_response where res0: "hdrs_ok res0" "hp_body res0 = []" "rs_status_code res0 = 101" "rs_status_msg res0 = ascii ''Switching Protocols''"
    "get_header res0 (ascii ''Upgrade'') = ascii ''websocket''" "get_header res0 (ascii ''Connection'') = ascii ''upgrade''"
    "get_header res0 (ascii ''Sec-WebSocket-Accept'') = process_handshake_key w (get_header q (ascii ''Sec-WebSocket-Key''))"
    "get_header res0 (ascii ''Content-Length'') = []" "hdr_size res0 \<le> 200"
    using server_response [OF pl(1), of w q] by (auto simp del: ascii_open)
  define res where "res = replace_header (ascii ''Sec-WebSocket-Extensions'') ext res0"
  have res: "hdrs_ok res" "hp_body res = []" "rs_status_code res = 101" "rs_status_msg res = ascii ''Switching Protocols''"
    "get_header res (ascii ''Upgrade'') = ascii ''websocket''" "get_header res (ascii ''Connection'') = ascii ''upgrade''"
    "get_header res (ascii ''Sec-WebSocket-Accept'') = process_handshake_key w (get_header q (ascii ''Sec-WebSocket-Key''))"
    "get_header res (ascii ''Content-Length'') = []" "get_header res (ascii ''Sec-WebSocket-Extensions'') = ext"
    "hdr_size res \<le> 2000"
    using res0 assms(2,3) hdrs_ok_wf [OF res0(1)] hdr_size_replace [of "ascii ''Sec-WebSocket-Extensions''" ext res0]
    by (simp_all add: res_def tok hdrs_ok_replace get_header_replace ci_same_keys del: ascii_open)
  define r where "r = finish_response (ascii ''server'') res"
  note r = finish_response_ok [OF res(1) pl(2), folded r_def]
  have ln: "length (status_line r) = 32" "13 \<notin> set (rs_status_msg r)"
    using switching_line [of r] r res by simp_all
  have p: "printable_response r"
    using r res ln http_11 unfolding printable_response_def hdr_size_def
    by (simp add: hdrs_ok_def counted_def max_header_size_def del: ascii_open)
  have c: "content_ok r"
    using r res by (simp add: content_ok_def Let_def del: ascii_open)
  obtain st where st: "response_consume (response_raw r @ []) response_init =
      Inr (length (response_raw r), response_init\<lparr>hp_version := hp_version r, hp_headers := hp_headers r,
        hp_header_bytes := counted (status_line r # map header_line (hp_headers r) @ [[]]), hp_body := hp_body r,
        rs_status_code := rs_status_code r, rs_status_msg := rs_status_msg r, rs_state := st\<rparr>)"
      (is "_ = Inr (_, ?c)") "st = BODY \<or> st = DONE"
    using response_roundtrip [OF p c] by blast
  define cres where "cres = ?c"
  have g: "get_header cres k = get_header r k" for k by (rule get_header_same) (simp add: cres_def)
  have "headers_ready cres" "rs_status_code cres = 101"
    using st(2) r(3) res(3) by (auto simp: headers_ready_def cres_def)
  moreover have "response_consume (response_raw r) response_init = Inr (length (response_raw r), cres)"
    using st(1) by (simp add: cres_def)
  moreover have "get_header cres (ascii ''Upgrade'') = ascii ''websocket''" "get_header cres (ascii ''Connection'') = ascii ''upgrade''"
    "get_header cres (ascii ''Sec-WebSocket-Accept'') = process_handshake_key w (get_header q (ascii ''Sec-WebSocket-Key''))"
    "get_header cres (ascii ''Sec-WebSocket-Extensions'') = ext"
    unfolding g using r(7) res by (simp_all del: ascii_open)
  ultimately show ?thesis
    by (intro exI [of _ "response_raw r"] exI [of _ cres])
      (simp add: validate_server_handshake_response_def sc_switching_protocols_def Let_def del: ascii_open)
qed

subsection \<open>An open connection\<close>

definition responding_con :: "bytes \<Rightarrow> http_request \<Rightarrow> con" where
  "responding_con w q = async Op_read_response ((take_op 3 (requested_con w q))\<lparr>cn_internal_state := READ_HTTP_RESPONSE\<rparr>)"

definition received_con :: "bytes \<Rightarrow> http_request \<Rightarrow> http_response \<Rightarrow> con" where
  "received_con w q res = cancel_handshake_timer ((take_op 4 (responding_con w q))\<lparr>cn_response := res\<rparr>)"

lemma sample_responding:
  assumes "con_event sample_env (Done 1 None []) (start (take_op 0 (connection request_init))) = Some (Inr (requested_con w q))"
  shows "reachable sample_env (responding_con w q)"
proof -
  have "event_ok (connection request_init) (Done 0 None [])"
    "con_event sample_env (Done 0 None []) (connection request_init) = Some (Inr (start (take_op 0 (connection request_init))))"
    by (simp_all add: con_step_defs)
  then have "reachable sample_env (start (take_op 0 (connection request_init)))" by (rule reach_event [OF reach_init])
  then have "reachable sample_env (requested_con w q)"
    by (rule reach_event [OF _ _ assms]) (simp add: con_step_defs)
  then show ?thesis
    by (rule reach_event [where ev = "Done 3 None []"])
      (simp_all add: con_step_defs responding_con_def handle_send_http_request_def handshake_ec_def)
qed

lemma sample_response:
  assumes "response_consume resp response_init = Inr (length resp, res)" and "headers_ready res"
    and "validate_server_handshake_response (replicate 80 0) q res = None"
  shows "event_ok (responding_con w q) (Done 4 None resp)"
    "con_event sample_env (Done 4 None resp) (responding_con w q) = handshake_done sample_env [] (received_con w q res)"
  using assms
  by (simp_all add: con_step_defs responding_con_def received_con_def handle_read_http_response_def handshake_ec_def response_read_def
      sample_env_def Let_def del: ascii_open)

definition open_con :: "bytes \<Rightarrow> http_request \<Rightarrow> http_response \<Rightarrow> con" where
  "open_con w q res = async Op_read_frame ((received_con w q res)
     \<lparr>cn_internal_state := PROCESS_CONNECTION, cn_state := S_open, cn_log := [N_open]\<rparr>)"

lemma sample_open: "\<exists>w q res. reachable sample_env (open_con w q res)"
proof -
  obtain w q where q: "length (get_header q (ascii ''Sec-WebSocket-Key'')) = 24"
      "con_event sample_env (Done 1 None []) (start (take_op 0 (connection request_init))) = Some (Inr (requested_con w q))"
    using sample_requested by blast
  obtain resp res where res: "response_consume resp response_init = Inr (length resp, res)" "headers_ready res"
      "validate_server_handshake_response (replicate 80 0) q res = None" "get_header res (ascii ''Sec-WebSocket-Extensions'') = []"
    using accepted_response [OF q(1), of "[]" "replicate 80 0"] by (auto simp: plain_def edge_free_def simp del: ascii_open)
  have "handshake_done sample_env [] (received_con w q res) = Some (Inr (open_con w q res))"
    using no_extensions [OF res(4)]
    by (simp add: handshake_done_def open_con_def received_con_def responding_con_def con_step_defs sample_env_def Let_def
        handle_read_frame_def frame_loop.simps read_frame_def del: ascii_open)
  then show ?thesis
    using reach_event [OF sample_responding [OF q(2)] sample_response(1) [OF res(1-3)]] sample_response(2) [OF res(1-3)] by fastforce
qed

subsection \<open>A response with a malformed list of extensions\<close>

definition bad_extensions :: bytes where
  "bad_extensions = ascii ''=''"

lemma bad_extensions_error:
  assumes "get_header res (ascii ''Sec-WebSocket-Extensions'') = bad_extensions"
  shows "negotiate_extensions True res = (Some (ProcessorError PE_extension_parse_error), [])"
proof -
  have "hdr_find (hp_headers res) (ascii ''Sec-WebSocket-Extensions'') = Some bad_extensions"
    using assms by (simp add: get_header_def bad_extensions_def split: option.splits del: ascii_open) simp
  moreover have "fst (parse_parameter_list bad_extensions [])" by code_simp
  ultimately show ?thesis
    by (simp add: negotiate_extensions_def get_header_as_plist_def bad_extensions_def case_prod_unfold del: ascii_open)
qed

text \<open>C34. A failed extension negotiation does not stop the connection: after \<open>terminate\<close> the handler goes on and
  declares the connection open. A server that answers the handshake with a malformed list of extensions makes the client
  report the connection as open, then as failed while it is still open and reading frames, which the
  contract of the handlers excludes.\<close>

theorem failed_negotiation_opens:
  "\<exists>c. reachable sample_env c \<and> cn_state c = S_open \<and> Op_read_frame \<in> snd ` set (cn_pending c) \<and>
     cn_log c = [N_negotiation_failed (ProcessorError PE_extension_parse_error), N_open, N_fail] \<and> life_of (cn_log c) = L_broken"
proof -
  obtain w q where q: "length (get_header q (ascii ''Sec-WebSocket-Key'')) = 24"
      "con_event sample_env (Done 1 None []) (start (take_op 0 (connection request_init))) = Some (Inr (requested_con w q))"
    using sample_requested by blast
  have "plain bad_extensions" "length bad_extensions \<le> 1000" by (simp_all add: bad_extensions_def plain_def edge_free_def)
  then obtain resp res where res: "response_consume resp response_init = Inr (length resp, res)" "headers_ready res"
      "validate_server_handshake_response (replicate 80 0) q res = None"
      "get_header res (ascii ''Sec-WebSocket-Extensions'') = bad_extensions"
    using accepted_response [OF q(1), of bad_extensions "replicate 80 0"] by blast
  let ?c = "async Op_read_frame ((terminate (Some (WsError E_extension_neg_failed)) (received_con w q res))
     \<lparr>cn_internal_state := PROCESS_CONNECTION, cn_state := S_open,
      cn_log := [N_negotiation_failed (ProcessorError PE_extension_parse_error), N_open]\<rparr>)"
  have "handshake_done sample_env [] (received_con w q res) = Some (Inr ?c)"
    using bad_extensions_error [OF res(4)]
    by (simp add: handshake_done_def received_con_def responding_con_def con_step_defs sample_env_def Let_def
        handle_read_frame_def frame_loop.simps read_frame_def del: ascii_open)
  then have "reachable sample_env ?c"
    using reach_event [OF sample_responding [OF q(2)] sample_response(1) [OF res(1-3)]] sample_response(2) [OF res(1-3)] by fastforce
  then have "reachable sample_env ((take_op 5 ?c)\<lparr>cn_log := cn_log ?c @ [N_fail]\<rparr>)"
    by (rule reach_event [where ev = "Done 5 None []"])
      (simp_all add: con_step_defs received_con_def responding_con_def sample_env_def del: ascii_open)
  moreover have "Op_read_frame \<in> snd ` set (cn_pending (take_op 5 ?c))"
    by (simp add: con_step_defs received_con_def responding_con_def del: ascii_open)
  ultimately show ?thesis
    by (intro exI [of _ "(take_op 5 ?c)\<lparr>cn_log := cn_log ?c @ [N_fail]\<rparr>"]) (simp add: life_of_def async_def)
qed

subsection \<open>Resuming what was not paused\<close>

text \<open>\<open>resume_reading\<close> starts a read whether or not reading was paused: called on an open connection that reads, it
  leaves two reads of the same buffer in flight, which the interface of the transport excludes.\<close>

theorem resume_reads_twice:
  "\<exists>c d. reachable sample_env c \<and> cn_state c = S_open \<and> cn_read_flag c \<and>
     con_run sample_env [Call A_resume, Done (cn_next c) None []] c = Some (Inr d) \<and>
     length (filter (\<lambda>(i, op). op = Op_read_frame) (cn_pending d)) = 2"
proof -
  obtain w q res where "reachable sample_env (open_con w q res)" using sample_open by blast
  moreover have "cn_next (open_con w q res) = 6" "cn_state (open_con w q res) = S_open" "cn_read_flag (open_con w q res)"
    by (simp_all add: open_con_def received_con_def responding_con_def con_step_defs)
  moreover have "con_run sample_env [Call A_resume, Done 6 None []] (open_con w q res) =
      Some (Inr (async Op_read_frame ((open_con w q res)\<lparr>cn_next := 7\<rparr>)))"
    by (simp add: open_con_def received_con_def responding_con_def con_step_defs app_call_def run_call_def
        handle_resume_reading_def read_frame_def)
  moreover have "length (filter (\<lambda>(i, op). op = Op_read_frame) (cn_pending (async Op_read_frame ((open_con w q res)\<lparr>cn_next := 7\<rparr>)))) = 2"
    by (simp add: open_con_def received_con_def responding_con_def con_step_defs)
  ultimately show ?thesis by metis
qed

subsection \<open>Resuming after an error\<close>

text \<open>The header of an unmasked binary frame that announces more than the limit of the sample client, and the processor
  that has refused it.\<close>

definition big_header :: bytes where
  "big_header = [0x82, 127, 0, 0, 0, 0, 0xFF, 0, 0, 0]"

definition big_proc :: hybi13 where
  "big_proc = (get_processor sample_env)\<lparr>p_basic_header := \<lparr>b0 = 0x82, b1 = 127\<rparr>, p_bytes_needed := 0xFF000000, p_cursor := 8,
     p_extended_header := [0, 0, 0, 0, 0xFF, 0, 0, 0, 0, 0, 0, 0], p_state := APPLICATION\<rparr>"

lemma sample_host: "ce_host sample_env = x86_host"
  by (simp add: sample_env_def)

lemma big_refused:
  "consume x86_host big_header (get_processor sample_env) = Inr (10, Some (ProcessorError PE_message_too_big), big_proc)"
  by code_simp

lemma big_faults: "consume x86_host [0] big_proc = Inl (NullPointer ''msg_ptr'')"
proof -
  have "md_msg (current_msg big_proc) = None" "get_masked (p_basic_header big_proc) = False" by code_simp+
  then show ?thesis
  by (simp add: consume_def consume_loop.simps [of _ _ "[0]"] consume_guard_def consume_step_def big_proc_def process_payload_bytes_def deref_def Let_def unat_gt_0)
qed

text \<open>Calls of the application and the end of a connection leave the processor alone, and the phase of an opened one.\<close>

lemma opened_fields:
  "cn_internal_state (write_push m c) = cn_internal_state c" "same_view c d \<Longrightarrow> cn_internal_state d = cn_internal_state c"
  by (simp_all add: write_push_def same_view_def split: option.splits)

interpretation opened_con: kept_calls E "\<lambda>ts c. con_inv E ts c \<and> cn_processor c = x \<and> cn_internal_state c = PROCESS_CONNECTION" for E x
  by unfold_locales
    (simp_all add: inv_async inv_push inv_ping_timer inv_cancel_ping inv_closing inv_log not_ended_def
      inv_same_view same_view_processor opened_fields, blast intro: inv_terminate)

text \<open>A read after an error finds the processor in the middle of a frame without a message.\<close>

lemma resumed_fault:
  assumes "con_inv sample_env {#} d" and "cn_processor d = Some big_proc" and "cn_internal_state d = PROCESS_CONNECTION"
  shows "con_run sample_env [Call A_resume, Done (cn_next d) None [], Done (Suc (cn_next d)) None [0]] d =
    Some (Inl (NullPointer ''msg_ptr''))"
proof -
  have "map_of (cn_pending d) (cn_next d) = None" "map_of (cn_pending d) (Suc (cn_next d)) = None"
    "\<forall>x \<in> set (cn_pending d). fst x \<noteq> cn_next d"
    using assms(1) by (force simp: con_inv_def ids_ok_def map_of_eq_None_iff)+
  moreover have "filter (\<lambda>(j, op). j \<noteq> cn_next d) (cn_pending d) = cn_pending d"
    using calculation(3) by (auto simp: filter_id_conv)
  ultimately show ?thesis
    using assms(2,3)
    by (simp add: con_event_def app_call_def run_call_def run_op_def async_def take_op_def handle_resume_reading_def read_frame_def
        map_add_def handle_read_frame_def frame_loop.simps [of _ "[0]"] big_faults sample_host)
qed

text \<open>\<open>resume_reading\<close> on a connection that answered a message beyond the size limit with a close frame: the processor
  stopped after the header of the frame, in the state for payloads but without a message, and the next byte that is read
  is written through the null pointer. This is why the safety of a connection needs that reading is not resumed.\<close>

theorem resume_faults:
  "\<exists>c evs. reachable sample_env c \<and> cn_state c = S_open \<and>
     (\<forall>ev \<in> set evs. ev = Call A_resume \<or> (\<exists>i buf. ev = Done i None buf)) \<and>
     con_run sample_env evs c = Some (Inl (NullPointer ''msg_ptr''))"
proof -
  obtain w q res where o: "reachable sample_env (open_con w q res)" using sample_open by blast
  let ?c = "open_con w q res"
  let ?d = "(take_op 5 ?c)\<lparr>cn_processor := Some big_proc\<rparr>"
  have c: "cn_processor ?c = Some (get_processor sample_env)" "map_of (cn_pending ?c) 5 = Some Op_read_frame"
    "cn_internal_state ?c = PROCESS_CONNECTION" "cn_state ?c = S_open"
    by (simp_all add: open_con_def received_con_def responding_con_def con_step_defs)
  have t: "cn_processor (take_op 5 ?c) = cn_processor ?c" "cn_internal_state (take_op 5 ?c) = cn_internal_state ?c"
    by (simp_all add: take_op_def)
  have "con_inv sample_env {#Op_read_frame#} (take_op 5 ?c)"
    by (rule con.taken [OF con_reachable_inv [OF sample_env_ok(1) o] c(2)])
  then have "con_inv sample_env {#} ?d"
    by (rule con.stop_reading) (simp_all add: t c big_proc_def get_processor_def)
  then have "safe False (\<lambda>e. con_inv sample_env {#} e \<and> cn_processor e = Some big_proc \<and> cn_internal_state e = PROCESS_CONNECTION)
      (consume_failed sample_env (ProcessorError PE_message_too_big) ?d)"
    by (intro opened_con.kept_consume_failed) (simp_all add: t c)
  then obtain e where e: "consume_failed sample_env (ProcessorError PE_message_too_big) ?d = Inr e"
      "con_inv sample_env {#} e" "cn_processor e = Some big_proc" "cn_internal_state e = PROCESS_CONNECTION"
    using safe_returns by blast
  have "big_header \<noteq> []" by (simp add: big_header_def)
  then have "con_event sample_env (Done 5 None big_header) ?c = Some (Inr e)"
    using c(1-3) by (simp add: con_event_def run_op_def handle_read_frame_def frame_loop.simps [of _ big_header] big_refused
        sample_host t e(1))
  moreover let ?evs = "[Done 5 None big_header, Call A_resume, Done (cn_next e) None [], Done (Suc (cn_next e)) None [0]]"
  have "\<forall>ev \<in> set ?evs. ev = Call A_resume \<or> (\<exists>i buf. ev = Done i None buf)" by simp
  ultimately show ?thesis
    using o c(4) resumed_fault [OF e(2-4)] by (intro exI [of _ ?c] exI [of _ ?evs] conjI) simp_all
qed

end
