(* ===== verification/Ws_Connection_Live.thy ===== *)
theory Ws_Connection_Live
  imports Ws_Connection_Open
begin

section \<open>Handshakes come to an end\<close>

text \<open>
  Liveness of a client connection: in a run in which the timers that are started and the shutdown of the socket
  complete, a connection that waits for the peer during the opening or the closing handshake does not wait forever,
  whatever the peer and the application do. The interfaces of \<open>Ws_Connection_Events\<close> are interpreted on the
  predicates that hold while a connection waits and after it was closed.
\<close>

subsection \<open>What a waiting connection keeps\<close>

text \<open>A basic change adds operations to those in flight and takes none away.\<close>

lemma pending_stays [simp]:
  assumes "x \<in> set (cn_pending c)"
  shows "x \<in> set (cn_pending (async op c))" "x \<in> set (cn_pending (write_push m c))"
    "x \<in> set (cn_pending (cancel_timer t c))" "x \<in> set (cn_pending (cancel_handshake_timer c))"
    "x \<in> set (cn_pending (set_handshake_timer n op c))" "x \<in> set (cn_pending (terminate ec c))"
    "x \<in> set (cn_pending (read_frame c))" "x \<in> set (cn_pending (write_frame c))"
    "x \<in> set (cn_pending (async_write w op c))"
  using assms pop_messages_fields [of c]
  by (simp_all add: async_def write_push_def cancel_timer_def cancel_handshake_timer_def set_handshake_timer_def terminate_cases
      read_frame_def write_frame_def async_write_def Let_def split: option.splits)

lemma same_view_pending: "same_view c d \<Longrightarrow> cn_pending d = cn_pending c"
  by (simp add: same_view_def)

definition pending_op :: "nat \<Rightarrow> op \<Rightarrow> con_env \<Rightarrow> op multiset \<Rightarrow> con \<Rightarrow> bool" where
  "pending_op i op E ts c \<longleftrightarrow> con_inv E ts c \<and> (i, op) \<in> set (cn_pending c)"

interpretation staying: kept E "pending_op i op E" for E i op
  unfolding pending_op_def
  by unfold_locales (simp_all add: inv_steps, metis con_calls.view same_view_pending, (blast intro: con_calls.ends con.idle con.closed)+)

text \<open>A timer that runs stays, until the state changes that it watches.\<close>

definition waits :: "op \<Rightarrow> con \<Rightarrow> bool" where
  "waits op c \<longleftrightarrow> cn_state c = (if op = Op_open_timer then S_connecting else S_closing)"

definition watched :: "nat \<Rightarrow> op \<Rightarrow> con \<Rightarrow> bool" where
  "watched i op c \<longleftrightarrow>
     op = Op_open_timer \<and> cn_internal_state c = PROCESS_CONNECTION \<or>
     negotiated c \<and> (cn_state c = S_closed \<or> waits op c \<and> i \<notin> set (cn_cancelled c) \<and> (i, op) \<in> set (cn_pending c))"

lemmas watched_defs = watched_def waits_def negotiated_def

lemma watched_grows:
  assumes "watched i op c"
  shows "watched i op (async op' c)" "watched i op (write_push m c)" "watched i op (c\<lparr>cn_processor := p\<rparr>)"
    "watched i op (c\<lparr>cn_response := r\<rparr>)" "watched i op (c\<lparr>cn_ping_timer := t\<rparr>)" "watched i op (terminate ec c)"
    "watched i op (read_frame c)" "watched i op (write_frame c)" "watched i op (c\<lparr>cn_current_msgs := [], cn_write_flag := b\<rparr>)"
    "may_notify c n \<Longrightarrow> watched i op (c\<lparr>cn_log := cn_log c @ [n]\<rparr>)" "watched i op (c\<lparr>cn_log := cn_log c @ end_notices E t'\<rparr>)"
    "same_view c d \<Longrightarrow> watched i op d"
  using assms pop_messages_fields [of c]
  by (auto simp: watched_defs async_def async_write_def write_push_def read_frame_def write_frame_def Let_def same_view_def
      end_notices_def terminate_cases split: option.splits terminate_status.splits elim: may_notify.elims)

lemma watched_cancel:
  assumes "con_inv E ts c" and "watched i op c" and "op \<in> {Op_open_timer, Op_close_timer}"
  shows "watched i op (cancel_timer (cn_ping_timer c) c)"
  using assms by (cases "cn_ping_timer c") (auto simp: watched_defs cancel_timer_def con_inv_def ids_ok_def)

lemma watched_closing:
  "watched i op c \<Longrightarrow> cn_state c \<in> {S_open, S_closing} \<Longrightarrow> op \<in> {Op_open_timer, Op_close_timer} \<Longrightarrow>
   watched i op (set_handshake_timer n Op_close_timer (c\<lparr>cn_state := S_closing\<rparr>))"
  by (auto simp: watched_defs set_handshake_timer_def async_def)

lemma watched_handshake:
  assumes "watched i op c" and "op \<in> {Op_open_timer, Op_close_timer}"
  shows "cn_internal_state c = USER_INIT \<Longrightarrow> watched i op (async Op_init (c\<lparr>cn_internal_state := TRANSPORT_INIT\<rparr>))"
    "cn_internal_state c = TRANSPORT_INIT \<Longrightarrow> watched i op (async_write w op' (set_handshake_timer k Op_open_timer
       (c\<lparr>cn_internal_state := WRITE_HTTP_REQUEST, cn_processor := p, cn_draws := n, cn_request := q\<rparr>)))"
    "cn_internal_state c = WRITE_HTTP_REQUEST \<Longrightarrow> watched i op (async Op_read_response (c\<lparr>cn_internal_state := READ_HTTP_RESPONSE\<rparr>))"
    "cn_state c = S_connecting \<Longrightarrow> watched i op (d\<lparr>cn_internal_state := PROCESS_CONNECTION, cn_state := S_open, cn_log := l\<rparr>)"
  using assms by (auto simp: watched_defs async_def async_write_def set_handshake_timer_def)

definition timed :: "nat \<Rightarrow> op \<Rightarrow> con_env \<Rightarrow> op multiset \<Rightarrow> con \<Rightarrow> bool" where
  "timed i op E ts c \<longleftrightarrow> op \<in> {Op_open_timer, Op_close_timer} \<and> con_inv E ts c \<and> watched i op c"

interpretation timing: kept E "timed i op E" for E i op
  unfolding timed_def
  by unfold_locales
    (simp_all add: inv_steps watched_grows watched_closing watched_handshake,
     blast intro: con_calls.view watched_grows, blast intro: watched_cancel, blast intro: con_calls.ends,
     blast intro: watched_handshake(4), blast intro: watched_handshake(4), (blast intro: con.idle con.closed)+)

text \<open>A closed connection stays closed, and has no second shutdown.\<close>

definition over :: "bool \<Rightarrow> con \<Rightarrow> bool" where
  "over b c \<longleftrightarrow> cn_state c = S_closed \<and> negotiated c \<and> (b \<longrightarrow> shutdowns {#} (cn_pending c) = {#})"

lemmas over_defs = over_def negotiated_def

lemma over_grows:
  assumes "over b c"
  shows "\<not> is_shutdown_op op \<Longrightarrow> over b (async op c)" "over b (write_push m c)" "over b (c\<lparr>cn_processor := p\<rparr>)"
    "over b (c\<lparr>cn_response := r\<rparr>)" "over b (c\<lparr>cn_ping_timer := t\<rparr>)" "over b (terminate ec c)" "over b (cancel_timer ti c)"
    "over b (read_frame c)" "over b (write_frame c)" "over b (c\<lparr>cn_current_msgs := [], cn_write_flag := f\<rparr>)"
    "may_notify c n \<Longrightarrow> over b (c\<lparr>cn_log := cn_log c @ [n]\<rparr>)" "over b (c\<lparr>cn_log := cn_log c @ end_notices E t'\<rparr>)"
    "over b (c\<lparr>cn_internal_state := s\<rparr>)" "over b (take_op i c)"
    "over b (async_write w Op_write_request (set_handshake_timer k Op_open_timer
       (c\<lparr>cn_internal_state := WRITE_HTTP_REQUEST, cn_processor := p, cn_draws := nd, cn_request := q\<rparr>)))"
  using assms pop_messages_fields [of c]
  by (auto simp: over_defs async_def async_write_def set_handshake_timer_def write_push_def read_frame_def write_frame_def
      Let_def end_notices_def terminate_cases cancel_timer_def take_op_def shutdowns_def flight_def
      split: option.splits terminate_status.splits elim: may_notify.elims)

lemma over_view: "over b c \<Longrightarrow> same_view c d \<Longrightarrow> over b d"
  by (simp add: over_defs same_view_def)

lemma over_states: "over b c \<Longrightarrow> cn_state c = S_closed"
  by (simp add: over_def)

definition finished :: "bool \<Rightarrow> con_env \<Rightarrow> op multiset \<Rightarrow> con \<Rightarrow> bool" where
  "finished b E ts c \<longleftrightarrow> con_inv E ts c \<and> over b c"

interpretation finishing: kept_events E "finished b E" for E b
  unfolding finished_def
  by unfold_locales
    (simp_all add: inv_steps over_grows inv_taken inv_cancelled,
     metis is_shutdown_op.simps over_grows(1), blast intro: con_calls.view over_view, simp add: over_def,
     blast intro: con_calls.ends, (simp add: over_def)+, (blast intro: con.idle con.closed)+)

subsection \<open>Until a timer expires\<close>

text \<open>What becomes of the wait: the connection was opened, or it is closed.\<close>

definition settled :: "op \<Rightarrow> con \<Rightarrow> bool" where
  "settled op c \<longleftrightarrow> op = Op_open_timer \<and> cn_internal_state c = PROCESS_CONNECTION \<or> negotiated c \<and> cn_state c = S_closed"

lemma watched_settled: "(i, op) \<notin> set (cn_pending c) \<Longrightarrow> watched i op c \<longleftrightarrow> settled op c"
  by (auto simp: watched_def settled_def)

lemma watched_taken: "watched i op c \<Longrightarrow> j \<noteq> i \<Longrightarrow> watched i op (take_op j c)"
  by (auto simp: watched_defs take_op_def)

fun completes :: "nat \<Rightarrow> event \<Rightarrow> bool" where
  "completes i (Done j ec buf) \<longleftrightarrow> j = i"
| "completes i (Call call) \<longleftrightarrow> False"

lemma pending_until:
  assumes "env_ok E" and "con_inv E {#} c" and "event_ok c ev" and "con_event E ev c = Some (Inr d)"
    and "(i, op) \<in> set (cn_pending c)" and "\<not> completes i ev"
  shows "(i, op) \<in> set (cn_pending d)"
proof -
  have p: "pending_op i op E {#} c" using assms(2,5) by (simp add: pending_op_def)
  have "returns (pending_op i op E {#}) (con_event E ev c)"
    by (rule staying.kept_step [OF assms(1) p assms(3)])
      (use assms(2,5,6) in \<open>auto simp: pending_op_def intro: inv_taken inv_cancelled\<close>, auto simp: take_op_def)
  then show ?thesis using assms(4) by (simp add: returns_def pending_op_def)
qed

lemma timed_until:
  assumes "env_ok E" and "timed i op E {#} c" and "event_ok c ev" and "con_event E ev c = Some (Inr d)"
    and "\<not> completes i ev"
  shows "timed i op E {#} d"
proof -
  have "returns (timed i op E {#}) (con_event E ev c)"
    by (rule timing.kept_step [OF assms(1,2,3)])
      (use assms(2,5) in \<open>auto simp: timed_def intro: inv_taken inv_cancelled watched_taken\<close>)
  then show ?thesis using assms(4) by (simp add: returns_def)
qed

text \<open>A wait that is over stays so; it is followed under a number that is not in use.\<close>

lemma fresh_not_pending: "con_inv E ts c \<Longrightarrow> (cn_next c, op) \<notin> set (cn_pending c)"
  by (force simp: con_inv_def ids_ok_def)

lemma settled_event:
  assumes "env_ok E" and "con_inv E {#} c" and "event_ok c ev" and "con_event E ev c = Some (Inr d)"
    and "settled op c" and "op \<in> {Op_open_timer, Op_close_timer}"
  shows "settled op d"
proof -
  have d: "con_inv E {#} d" using con.kept_event [OF assms(1-3)] assms(4) by (simp add: returns_def)
  have w: "watched (cn_next d) op (take_op j c)" "watched (cn_next d) op c" for j
    using assms(5) by (auto simp: watched_defs settled_def)
  have "returns (timed (cn_next d) op E {#}) (con_event E ev c)"
    by (rule timing.kept_step [OF assms(1) _ assms(3)])
      (use assms(2,6) w in \<open>auto simp: timed_def intro: inv_taken inv_cancelled\<close>)
  then have "watched (cn_next d) op d" using assms(4) by (simp add: returns_def timed_def)
  then show ?thesis using watched_settled fresh_not_pending [OF d] by blast
qed

lemma timer_expires:
  assumes "env_ok E" and "timed i op E {#} c" and "event_ok c (Done i ec buf)" and "con_event E (Done i ec buf) c = Some (Inr d)"
  shows "settled op d"
proof (cases "settled op c")
  case True
  then show ?thesis using settled_event [OF assms(1) _ assms(3,4)] assms(2) by (simp add: timed_def)
next
  case False
  then have w: "negotiated c" "i \<notin> set (cn_cancelled c)" "(i, op) \<in> set (cn_pending c)" and op: "op \<in> {Op_open_timer, Op_close_timer}"
    using assms(2) by (auto simp: timed_def watched_def settled_def)
  then have m: "map_of (cn_pending c) i = Some op"
    using assms(2) by (simp add: timed_def con_inv_def ids_ok_def)
  then have "ec = None" using assms(3) w op by (auto simp: event_ok_def)
  then show ?thesis
    using assms(4) op w(1) m
    by (auto simp: con_event_def run_op_def handle_open_handshake_timeout_def handle_close_handshake_timeout_def
        settled_def negotiated_def)
qed

subsection \<open>Runs\<close>

text \<open>Runs are infinite. Only the timers of the handshakes and the shutdown of the socket are known to complete: reads and
  writes may stay in flight forever, as with a peer that has gone silent.\<close>

definition prompt :: "op \<Rightarrow> bool" where
  "prompt op \<longleftrightarrow> op = Op_open_timer \<or> op = Op_close_timer \<or> is_shutdown_op op"

definition fair_run :: "con_env \<Rightarrow> (nat \<Rightarrow> con) \<Rightarrow> (nat \<Rightarrow> event) \<Rightarrow> bool" where
  "fair_run E \<sigma> evs \<longleftrightarrow>
     (\<forall>n. event_ok (\<sigma> n) (evs n) \<and> con_event E (evs n) (\<sigma> n) = Some (Inr (\<sigma> (Suc n)))) \<and>
     (\<forall>n i op. (i, op) \<in> set (cn_pending (\<sigma> n)) \<and> prompt op \<longrightarrow> (\<exists>m\<ge>n. completes i (evs m)))"

text \<open>A connection that waits for the peer: for the response of the opening handshake or for the end of the closing one.\<close>

definition handshaking :: "con \<Rightarrow> bool" where
  "handshaking c \<longleftrightarrow>
     cn_state c = S_closing \<or> cn_state c = S_connecting \<and> cn_internal_state c \<in> {WRITE_HTTP_REQUEST, READ_HTTP_RESPONSE}"

lemma fair_step: "fair_run E \<sigma> evs \<Longrightarrow> event_ok (\<sigma> n) (evs n)" "fair_run E \<sigma> evs \<Longrightarrow> con_event E (evs n) (\<sigma> n) = Some (Inr (\<sigma> (Suc n)))"
  by (simp_all add: fair_run_def)

lemma fair_inv:
  assumes "env_ok E" and "reachable E (\<sigma> 0)" and "fair_run E \<sigma> evs"
  shows "con_inv E {#} (\<sigma> n)"
proof -
  have "reachable E (\<sigma> n)"
    using assms(2) fair_step [OF assms(3)] by (induction n) (auto intro: reach_event)
  then show ?thesis by (rule con_reachable_inv [OF assms(1)])
qed

lemma until_completed:
  assumes "fair_run E \<sigma> evs" and "(i, op) \<in> set (cn_pending (\<sigma> n))" and "prompt op"
  obtains m where "n \<le> m" "completes i (evs m)" "\<And>k. n \<le> k \<Longrightarrow> k < m \<Longrightarrow> \<not> completes i (evs k)"
proof -
  define m where "m = (LEAST m. n \<le> m \<and> completes i (evs m))"
  have "\<exists>m. n \<le> m \<and> completes i (evs m)" using assms unfolding fair_run_def by blast
  from LeastI_ex [OF this] have "n \<le> m" "completes i (evs m)" by (simp_all add: m_def)
  moreover have "\<not> completes i (evs k)" if "n \<le> k" "k < m" for k
    using not_less_Least [of k "\<lambda>m. n \<le> m \<and> completes i (evs m)"] that by (simp add: m_def)
  ultimately show thesis by (rule that)
qed

text \<open>What holds now and is kept by the events before the completion holds at the completion.\<close>

lemma until_holds:
  assumes "n \<le> m" and "Q (\<sigma> n)" and "\<And>k. n \<le> k \<Longrightarrow> k < m \<Longrightarrow> Q (\<sigma> k) \<Longrightarrow> Q (\<sigma> (Suc k))"
  shows "Q (\<sigma> m)"
  using assms(1)
proof (induction rule: dec_induct)
  case base
  show ?case by (rule assms(2))
next
  case (step k)
  then show ?case using assms(3) by simp
qed

lemma completes_done: "completes i ev \<Longrightarrow> \<exists>ec buf. ev = Done i ec buf"
  by (cases ev) auto

lemma timer_settles:
  assumes "env_ok E" and "fair_run E \<sigma> evs" and "timed i op E {#} (\<sigma> n)" and "(i, op) \<in> set (cn_pending (\<sigma> n))"
  shows "\<exists>m>n. settled op (\<sigma> m)"
proof -
  have "prompt op" using assms(3) by (auto simp: timed_def prompt_def)
  then obtain m where m: "n \<le> m" "completes i (evs m)" "\<And>k. n \<le> k \<Longrightarrow> k < m \<Longrightarrow> \<not> completes i (evs k)"
    using until_completed [OF assms(2,4)] by blast
  have "timed i op E {#} (\<sigma> m)"
    by (rule until_holds [OF m(1), where \<sigma> = \<sigma> and Q = "timed i op E {#}"])
      (use assms(3) m(3) timed_until [OF assms(1)] fair_step [OF assms(2)] in blast)+
  then have "settled op (\<sigma> (Suc m))"
    using completes_done [OF m(2)] timer_expires [OF assms(1)] fair_step [OF assms(2), of m] by metis
  then show ?thesis using m(1) le_imp_less_Suc by blast
qed

lemma finished_forever:
  assumes "env_ok E" and "fair_run E \<sigma> evs" and "finished b E {#} (\<sigma> m)" and "m \<le> k"
  shows "finished b E {#} (\<sigma> k)"
  by (rule until_holds [OF assms(4), where \<sigma> = \<sigma> and Q = "finished b E {#}", OF assms(3)])
    (use finishing.kept_event [OF assms(1)] fair_step [OF assms(2)] in \<open>fastforce simp: returns_def\<close>)

lemma finished_reported: "reporting E \<Longrightarrow> finished True E ts c \<Longrightarrow> ts = {#} \<Longrightarrow> cn_state c = S_closed \<and> life_of (cn_log c) = L_ended"
  by (auto simp: finished_def over_def con_inv_def life_ok_def)

lemma shutdown_completes:
  assumes "env_ok E" and "reporting E" and "finished False E {#} c" and "map_of (cn_pending c) j = Some (Op_shutdown t)"
    and "event_ok c (Done j ec buf)" and "con_event E (Done j ec buf) c = Some (Inr d)"
  shows "finished True E {#} d"
proof -
  have c: "con_inv E {#} c" "cn_state c = S_closed" "negotiated c" using assms(3) by (simp_all add: finished_def over_def)
  have ids: "ids_ok c" using c by (simp add: con_inv_def)
  have "size (shutdowns {#} (cn_pending c)) \<le> 1"
    using c assms(2) by (auto simp: con_inv_def life_ok_def)
  then have "size (shutdowns {#Op_shutdown t#} (cn_pending (take_op j c))) \<le> 1"
    by (simp only: taken_ops [OF ids assms(4)])
  then have "over True (take_op j c)"
    using c by (simp add: over_def negotiated_def)
  then have "finished True E {#Op_shutdown t#} (take_op j c)"
    using inv_taken [OF c(1) assms(4)] by (simp add: finished_def)
  then have "returns (finished True E {#}) (con_event E (Done j ec buf) c)"
    by (rule finishing.kept_done [OF assms(1,5,4)]) auto
  then show ?thesis using assms(6) by (simp add: returns_def)
qed

lemma closed_is_reported:
  assumes "env_ok E" and "reporting E" and "fair_run E \<sigma> evs" and "finished False E {#} (\<sigma> n)"
  shows "\<exists>m\<ge>n. finished True E {#} (\<sigma> m)"
proof (cases "shutdowns {#} (cn_pending (\<sigma> n)) = {#}")
  case True
  then show ?thesis using assms(4) by (auto simp: finished_def over_def)
next
  case False
  then obtain j t where j: "(j, Op_shutdown t) \<in> set (cn_pending (\<sigma> n))"
    by (force simp: shutdowns_def flight_def elim: is_shutdown_op.elims)
  then obtain m where m: "n \<le> m" "completes j (evs m)" "\<And>k. n \<le> k \<Longrightarrow> k < m \<Longrightarrow> \<not> completes j (evs k)"
    using until_completed [OF assms(3) j] by (auto simp: prompt_def)
  have fin: "finished False E {#} (\<sigma> k)" if "n \<le> k" for k
    using finished_forever [OF assms(1,3,4) that] .
  then have inv: "con_inv E {#} (\<sigma> k)" if "n \<le> k" for k
    using that by (simp add: finished_def)
  have "(j, Op_shutdown t) \<in> set (cn_pending (\<sigma> m))"
    by (rule until_holds [OF m(1), where \<sigma> = \<sigma> and Q = "\<lambda>c. (j, Op_shutdown t) \<in> set (cn_pending c)"])
      (use j inv m(3) pending_until [OF assms(1)] fair_step [OF assms(3)] in blast)+
  then have "map_of (cn_pending (\<sigma> m)) j = Some (Op_shutdown t)"
    using fin [OF m(1)] by (simp add: finished_def con_inv_def ids_ok_def)
  then have "finished True E {#} (\<sigma> (Suc m))"
    using completes_done [OF m(2)] shutdown_completes [OF assms(1,2) fin [OF m(1)]] fair_step [OF assms(3), of m] by metis
  then show ?thesis using m(1) le_SucI by blast
qed

text \<open>C12. A handshake with a peer that never answers ends: in every fair run of a client connection with
  timeouts, a connection that waits in the opening handshake is opened, or it is closed for good and the application was
  told; one that waits in the closing handshake is closed for good and the application was told. Nothing is assumed
  of reads and writes, nor of what the application calls.\<close>

theorem handshakes_end:
  assumes "env_ok E" and "reporting E" and "ce_open_handshake_timeout_dur E > 0" and "ce_close_handshake_timeout_dur E > 0"
    and "reachable E (\<sigma> 0)" and "fair_run E \<sigma> evs" and "negotiated (\<sigma> n)" and "handshaking (\<sigma> n)"
  shows "\<exists>m>n. cn_state (\<sigma> n) = S_connecting \<and> cn_internal_state (\<sigma> m) = PROCESS_CONNECTION \<or>
    (\<forall>k\<ge>m. cn_state (\<sigma> k) = S_closed \<and> life_of (cn_log (\<sigma> k)) = L_ended)"
proof -
  define op where "op = (if cn_state (\<sigma> n) = S_connecting then Op_open_timer else Op_close_timer)"
  have inv: "con_inv E {#} (\<sigma> k)" for k by (rule fair_inv [OF assms(1,5,6)])
  have "timer_runs op (\<sigma> n)"
    using inv [of n] assms(3,4,8) by (auto simp: con_inv_def timers_ok_def handshaking_def op_def)
  then obtain i where i: "(i, op) \<in> set (cn_pending (\<sigma> n))" "i \<notin> set (cn_cancelled (\<sigma> n))"
    by (auto simp: timer_runs_def)
  then have "timed i op E {#} (\<sigma> n)"
    using inv assms(7,8) by (auto simp: timed_def watched_def waits_def op_def handshaking_def)
  then obtain m where m: "m > n" "settled op (\<sigma> m)"
    using timer_settles [OF assms(1,6) _ i(1)] by blast
  show ?thesis
  proof (cases "cn_state (\<sigma> n) = S_connecting \<and> cn_internal_state (\<sigma> m) = PROCESS_CONNECTION")
    case False
    then have "finished False E {#} (\<sigma> m)"
      using m(2) inv by (auto simp: settled_def op_def finished_def over_def split: if_splits)
    then obtain m' where "m' \<ge> m" "finished True E {#} (\<sigma> m')"
      using closed_is_reported [OF assms(1,2,6)] by blast
    then show ?thesis
      using m(1) finished_forever [OF assms(1,6)] finished_reported [OF assms(2)] less_le_trans by metis
  qed (use m in blast)
qed

text \<open>The run of a connection to a host that accepts it and then stays silent: the write of the request stays in flight.\<close>

definition silent_events :: "nat \<Rightarrow> event" where
  "silent_events n = Done ([0, 1, 2, 4, 0] ! min n 4) None []"

fun follow :: "con_env \<Rightarrow> (nat \<Rightarrow> event) \<Rightarrow> con \<Rightarrow> nat \<Rightarrow> con" where
  "follow E evs c 0 = c"
| "follow E evs c (Suc n) =
     (case con_event E (evs n) (follow E evs c n) of Some (Inr d) \<Rightarrow> d | _ \<Rightarrow> follow E evs c n)"

definition silent_run :: "nat \<Rightarrow> con" where
  "silent_run = follow sample_env silent_events (connection request_init)"

definition given_up :: "bytes \<Rightarrow> http_request \<Rightarrow> con" where
  "given_up w q = terminate (Some (WsError E_open_handshake_timeout)) (take_op 2 (requested_con w q))"

lemmas silent_defs = con_step_defs given_up_def

lemma silent_steps:
  "con_event sample_env (Done 0 None []) (connection request_init) = Some (Inr (start (take_op 0 (connection request_init))))"
  "con_event sample_env (Done 2 None []) (requested_con w q) = Some (Inr (given_up w q))"
  "con_event sample_env (Done 4 None []) (given_up w q) = Some (Inr ((take_op 4 (given_up w q))\<lparr>cn_log := [N_fail]\<rparr>))"
  "con_event sample_env (Done 0 None []) ((take_op 4 (given_up w q))\<lparr>cn_log := [N_fail]\<rparr>) =
     Some (Inr ((take_op 4 (given_up w q))\<lparr>cn_log := [N_fail]\<rparr>))"
  by (simp_all add: silent_defs sample_env_def del: ascii_open)

definition silent_state :: "bytes \<Rightarrow> http_request \<Rightarrow> nat \<Rightarrow> con" where
  "silent_state w q n =
     (if n = 0 then connection request_init
      else if n = 1 then start (take_op 0 (connection request_init))
      else if n = 2 then requested_con w q
      else if n = 3 then given_up w q
      else (take_op 4 (given_up w q))\<lparr>cn_log := [N_fail]\<rparr>)"

lemma small_cases: "n = 0 \<or> n = 1 \<or> n = 2 \<or> n = 3 \<or> n \<ge> 4" for n :: nat
  by linarith

lemma silent_states: "\<exists>w q. \<forall>n. silent_run n = silent_state w q n"
proof -
  obtain w q where wq: "con_event sample_env (Done 1 None []) (start (take_op 0 (connection request_init))) = Some (Inr (requested_con w q))"
    using sample_requested by blast
  have "silent_run n = silent_state w q n" for n
  proof (induction n)
    case (Suc n)
    then have "silent_run (Suc n) = (case con_event sample_env (silent_events n) (silent_state w q n) of
        Some (Inr d) \<Rightarrow> d | _ \<Rightarrow> silent_state w q n)"
      by (simp add: silent_run_def cong: option.case_cong sum.case_cong)
    then show ?case
      using small_cases [of n] wq silent_steps by (auto simp: silent_state_def silent_events_def)
  qed (simp add: silent_run_def silent_state_def)
  then show ?thesis by blast
qed

lemma silent_pending:
  "cn_pending (silent_state w q n) =
     (if n = 0 then [(0, Op_connect)] else if n = 1 then [(1, Op_init)] else if n = 2 then [(2, Op_open_timer), (3, Op_write_request)]
      else if n = 3 then [(3, Op_write_request), (4, Op_shutdown T_failed)] else [(3, Op_write_request)])"
  by (simp add: silent_state_def silent_defs del: ascii_open)

lemma silent_fair: "fair_run sample_env silent_run silent_events"
proof -
  obtain w q where s: "\<And>n. silent_run n = silent_state w q n" using silent_states by blast
  have "con_event sample_env (silent_events n) (silent_run n) = Some (Inr (silent_run (Suc n)))" for n
  proof -
    obtain d where "con_event sample_env (silent_events n) (silent_run n) = Some (Inr d)"
      using small_cases [of n] sample_requested silent_steps unfolding s
      by (auto simp: silent_state_def silent_events_def)
    then show ?thesis by (simp add: silent_run_def)
  qed
  moreover have "event_ok (silent_run n) (silent_events n)" for n
    using small_cases [of n] unfolding s by (auto simp: event_ok_def silent_pending silent_events_def)
  moreover have "\<exists>m\<ge>n. completes i (silent_events m)" if "(i, op) \<in> set (cn_pending (silent_run n))" "prompt op" for n i op
    using that unfolding s silent_pending
    by (auto simp: prompt_def silent_events_def split: if_splits intro: exI [of _ n])
  ultimately show ?thesis unfolding fair_run_def by blast
qed

theorem handshakes_end_witness:
  "\<exists>m>2. \<forall>k\<ge>m. cn_state (silent_run k) = S_closed \<and> life_of (cn_log (silent_run k)) = L_ended"
proof -
  obtain w q where s: "\<And>n. silent_run n = silent_state w q n" using silent_states by blast
  have "cn_internal_state (silent_run k) \<noteq> PROCESS_CONNECTION" for k
    unfolding s by (simp add: silent_state_def silent_defs del: ascii_open)
  moreover have "negotiated (silent_run 2)" "handshaking (silent_run 2)" "reachable sample_env (silent_run 0)"
    using reach_init unfolding s by (simp_all add: silent_state_def negotiated_def handshaking_def silent_defs del: ascii_open)
  moreover have "ce_open_handshake_timeout_dur sample_env > 0" "ce_close_handshake_timeout_dur sample_env > 0"
    by (simp_all add: sample_env_def)
  ultimately show ?thesis
    using handshakes_end [OF sample_env_ok _ _ _ silent_fair, of 2] by blast
qed

end
