(* ===== verification/Ws_Chunks.thy ===== *)
theory Ws_Chunks
  imports Ws_Receive
begin

section \<open>The stream may be cut anywhere\<close>

text \<open>
  TCP delivers the bytes of the frames in chunks of any size. The lemmas of this theory show that
  the chunks do not matter: a pass of \<open>consume\<close> that is cut off by the end of its buffer and
  continued with the next one has the same effect as the pass over both, in the middle of a
  header, of the extended length, of the masking key and of the payload, where the key and the
  UTF-8 validator carry over.
\<close>

subsection \<open>Cutting the stream anywhere\<close>

lemma consume_loop_offset:
  assumes "host_ok h" and "hybi_ok h st" and "consume_loop h q buf st = Inr (q + n, ec, st')"
  shows "consume_loop h p buf st = Inr (p + n, ec, st')"
  using assms
proof (induction h q buf st arbitrary: p n rule: consume_loop.induct)
  case (1 h q buf st)
  show ?case
  proof (cases "consume_guard buf st")
    case True
    obtain r where r: "consume_step h buf st = Inr r" "step_fine h (length buf) r"
      using consume_step_ok [OF "1.prems"(1,2) True] by blast
    show ?thesis
    proof (cases r)
      case (Go_on st1 k)
      then have s1: "hybi_ok h st1" "consume_loop h (q + k) (drop k buf) st1 = Inr (q + n, ec, st')"
        using r "1.prems"(3) True by (simp_all add: consume_loop.simps [of h q buf])
      then obtain m where "n = k + m"
        using consume_loop_ok [OF "1.prems"(1) s1(1), of "q + k" "drop k buf"] by fastforce
      then show ?thesis
        using "1.IH" [OF True r(1) Go_on "1.prems"(1) s1(1), of m "p + k"] s1(2) True r(1) Go_on
        by (simp add: consume_loop.simps [of h p buf] ac_simps)
    qed (use True r "1.prems"(3) in \<open>auto simp: consume_loop.simps [of h _ buf]\<close>)
  qed (use "1.prems" in \<open>auto simp: consume_loop.simps [of h _ buf]\<close>)
qed

text \<open>The first pass over a buffer, and then the rest.\<close>

lemma consume_first_pass:
  assumes "host_ok h" and "consume_guard buf st" and "consume_step h buf st = Inr (Go_on st1 k)" and "hybi_ok h st1"
  shows "consume h buf st =
    (case consume h (drop k buf) st1 of Inl e \<Rightarrow> Inl e | Inr (n, ec, st') \<Rightarrow> Inr (k + n, ec, st'))"
proof -
  obtain n ec st' where "consume_loop h 0 (drop k buf) st1 = Inr (0 + n, ec, st')"
    using consume_loop_ok [OF assms(1,4), of 0 "drop k buf"] by auto
  with consume_loop_offset [OF assms(1,4) this, of k] show ?thesis
    using assms(2,3) by (simp add: consume_def consume_loop.simps [of h 0 buf])
qed

lemma consume_stops: "\<not> consume_guard buf st \<Longrightarrow> consume h buf st = Inr (0, None, st)"
  by (simp add: consume_def consume_loop.simps [of h 0 buf])

lemma consume_break:
  "consume_guard buf st \<Longrightarrow> consume_step h buf st = Inr (Break st1 k ec) \<Longrightarrow> consume h buf st = Inr (k, ec, st1)"
  by (simp add: consume_def consume_loop.simps [of h 0 buf])

text \<open>Two results agree, the first one with \<open>m\<close> more bytes: same state, or same error.\<close>

definition agree :: "nat \<Rightarrow> (nat \<times> ec \<times> hybi13) res \<Rightarrow> (nat \<times> ec \<times> hybi13) res \<Rightarrow> bool" where
  "agree m r1 r2 \<longleftrightarrow>
     (\<exists>n st. r1 = Inr (m + n, None, st) \<and> r2 = Inr (n, None, st)) \<or>
     (\<exists>n1 n2 e st1 st2. r1 = Inr (n1, Some e, st1) \<and> r2 = Inr (n2, Some e, st2))"

definition step_agree :: "nat \<Rightarrow> step res \<Rightarrow> step res \<Rightarrow> bool" where
  "step_agree m r1 r2 \<longleftrightarrow>
     (\<exists>n st. r1 = Inr (Go_on st (m + n)) \<and> r2 = Inr (Go_on st n)) \<or>
     (\<exists>n1 n2 e st1 st2. r1 = Inr (Break st1 n1 (Some e)) \<and> r2 = Inr (Break st2 n2 (Some e)))"

text \<open>The pass is cut off by the end of the buffer.\<close>

definition cut_off :: "bytes \<Rightarrow> hybi13 \<Rightarrow> bool" where
  "cut_off xs st \<longleftrightarrow> length xs < unat (p_bytes_needed st)"

lemma step_not_cut:
  assumes "hybi_ok h st" and "\<not> cut_off xs st" and "p_state st \<noteq> READY"
  shows "consume_step h (xs @ ys) st = consume_step h xs st"
proof (cases "p_state st")
  case HEADER_BASIC
  then consider "p_bytes_needed st = 1" "xs \<noteq> []" | "p_bytes_needed st = 2" "2 \<le> length xs"
    using assms by (auto simp: hybi_ok_def cut_off_def)
  then have "copy_basic_header_bytes (xs @ ys) st = copy_basic_header_bytes xs st"
    by cases (auto simp: copy_basic_header_bytes_def nth_append)
  then show ?thesis using HEADER_BASIC by (simp add: consume_step_def)
next
  case HEADER_EXTENDED
  have "copy_extended_header_bytes (xs @ ys) st = copy_extended_header_bytes xs st"
    using assms(2) by (simp add: copy_extended_header_bytes_def cut_off_def)
  then show ?thesis using HEADER_EXTENDED by (simp add: consume_step_def)
next
  case APPLICATION
  have "min (unat (p_bytes_needed st)) (length (xs @ ys)) = unat (p_bytes_needed st)"
    "min (unat (p_bytes_needed st)) (length xs) = unat (p_bytes_needed st)"
    using assms(2) by (simp_all add: cut_off_def)
  then show ?thesis using APPLICATION assms(2) by (simp add: consume_step_def cut_off_def Let_def)
qed (use assms in \<open>simp_all add: hybi_ok_def\<close>)


lemma copy_to_split:
  assumes "pos + length (xs @ ys) \<le> length dst"
  shows "copy_to (pos + length xs) ys (copy_to pos xs dst) = copy_to pos (xs @ ys) dst"
  using assms by (simp add: copy_to_def ac_simps)

lemma cut_basic:
  assumes "hybi_ok h st" and "cut_off xs st" and "xs \<noteq> []" and "ys \<noteq> []" and "p_state st = HEADER_BASIC"
  shows "\<exists>st'. consume_step h xs st = Inr (Go_on st' (length xs)) \<and> p_bytes_needed st' \<noteq> 0 \<and> p_state st' = p_state st \<and>
    step_agree (length xs) (consume_step h (xs @ ys) st) (consume_step h ys st')"
proof -
  have two: "p_bytes_needed st = 2" "length xs = 1"
    using assms by (auto simp: hybi_ok_def cut_off_def Suc_lessI length_greater_0_conv [symmetric] simp del: length_greater_0_conv)
  obtain x where x: "xs = [x]" using two(2) by (auto simp: length_Suc_conv)
  obtain y zs where y: "ys = y # zs" using assms(4) by (cases ys) auto
  let ?st = "st\<lparr>p_basic_header := (p_basic_header st)\<lparr>b0 := x\<rparr>, p_bytes_needed := 1\<rparr>"
  have c1: "copy_basic_header_bytes xs st = (1, ?st)"
    using two by (simp add: copy_basic_header_bytes_def x)
  have c2: "copy_basic_header_bytes ys ?st = (1, ?st\<lparr>p_basic_header := \<lparr>b0 = x, b1 = y\<rparr>, p_bytes_needed := 0\<rparr>)"
    by (cases "p_basic_header st") (simp add: copy_basic_header_bytes_def y)
  have c3: "copy_basic_header_bytes (xs @ ys) st = (2, st\<lparr>p_basic_header := \<lparr>b0 = x, b1 = y\<rparr>, p_bytes_needed := 0\<rparr>)"
    using two by (simp add: copy_basic_header_bytes_def x y)
  have "consume_step h xs st = Inr (Go_on ?st (length xs))"
    using assms(5) by (simp add: consume_step_def c1 two(2))
  moreover have "step_agree (length xs) (consume_step h (xs @ ys) st) (consume_step h ys ?st)"
    using assms(5) by (simp add: consume_step_def c2 c3 two(2) step_agree_def split: option.split)
  ultimately show ?thesis using assms(5) by auto
qed

lemma cut_extended:
  assumes "hybi_ok h st" and "cut_off xs st" and "ys \<noteq> []" and "p_state st = HEADER_EXTENDED"
  shows "\<exists>st'. consume_step h xs st = Inr (Go_on st' (length xs)) \<and> p_bytes_needed st' \<noteq> 0 \<and> p_state st' = p_state st \<and>
    step_agree (length xs) (consume_step h (xs @ ys) st) (consume_step h ys st')"
proof -
  let ?n = "unat (p_bytes_needed st)"
  let ?st = "st\<lparr>p_extended_header := copy_to (p_cursor st) xs (p_extended_header st),
      p_cursor := p_cursor st + length xs, p_bytes_needed := p_bytes_needed st - of_nat (length xs)\<rparr>"
  have n: "length xs < ?n" using assms(2) by (simp add: cut_off_def)
  have u: "unat (p_bytes_needed st - of_nat (length xs)) = ?n - length xs"
    using n by (intro unat_minus_of_nat) simp
  let ?k = "min (?n - length xs) (length ys)"
  have k: "min ?n (length (xs @ ys)) = length xs + ?k" using n by simp
  have "p_cursor st + ?n \<le> length (p_extended_header st)"
    using assms(1,4) header_len_bound [of "p_basic_header st"] by (auto simp: hybi_ok_def)
  then have "p_cursor st + length (xs @ take ?k ys) \<le> length (p_extended_header st)" using n by simp
  note cp = copy_to_split [OF this]
  have c1: "copy_extended_header_bytes xs st = (length xs, ?st)"
    using n by (simp add: copy_extended_header_bytes_def Let_def)
  have tk: "take (length xs + ?k) (xs @ ys) = xs @ take ?k ys" by simp
  have "fst (copy_extended_header_bytes (xs @ ys) st) = length xs + fst (copy_extended_header_bytes ys ?st)"
    "snd (copy_extended_header_bytes (xs @ ys) st) = snd (copy_extended_header_bytes ys ?st)"
    unfolding copy_extended_header_bytes_def Let_def k tk
    by (simp_all add: u cp add.assoc diff_diff_eq)
  then obtain m st2 where c: "copy_extended_header_bytes ys ?st = (m, st2)"
      "copy_extended_header_bytes (xs @ ys) st = (length xs + m, st2)"
    by (cases "copy_extended_header_bytes ys ?st"; cases "copy_extended_header_bytes (xs @ ys) st") simp
  have sp: "step_agree (length xs) (Inr (start_payload h (length xs + m) st2)) (Inr (start_payload h m st2))"
    by (auto simp: start_payload_def step_agree_def Let_def split: option.splits)
  have nz: "p_bytes_needed st - of_nat (length xs) \<noteq> 0" using u n by auto
  have "consume_step h xs st = Inr (Go_on ?st (length xs))"
    using assms(4) nz by (simp add: consume_step_def c1 pos_u64)
  moreover have "step_agree (length xs) (consume_step h (xs @ ys) st) (consume_step h ys ?st)"
    using assms(4) sp by (auto simp: consume_step_def c step_agree_def split: option.split)
  ultimately show ?thesis using nz by auto
qed


text \<open>Payload: the pieces are unmasked with the key rotated on, appended, and validated on.\<close>

definition payload_check :: "hybi13 \<Rightarrow> message \<Rightarrow> bytes \<Rightarrow> bool \<times> validator" where
  "payload_check st msg bs =
     (if m_opcode msg = Text then validator_decode bs (md_validator (current_msg st))
      else (True, md_validator (current_msg st)))"

lemma process_payload_check:
  assumes "md_msg (current_msg st) = Some msg" and "payload_check st msg (unmasked h buf st) = (ok, v)"
  shows "process_payload_bytes h buf st =
    (if ok then Inr (length buf, None,
         (set_current_msg (payload_md h buf st msg v) st)\<lparr>p_bytes_needed := p_bytes_needed st - of_nat (length buf)\<rparr>)
     else Inr (0, Some (ProcessorError PE_invalid_utf8), set_current_msg (payload_md h buf st msg v) st))"
  using assms by (simp add: process_payload_unfold payload_check_def Let_def split: if_splits)

lemma set_current_msg_twice [simp]:
  "set_current_msg b (set_current_msg a st) = set_current_msg b st"
  "set_current_msg b (st\<lparr>p_bytes_needed := n\<rparr>) = (set_current_msg b st)\<lparr>p_bytes_needed := n\<rparr>"
  by (simp_all add: set_current_msg_def split: current.split)

lemma process_payload_split:
  assumes "host_ok h" and "hybi_ok h st" and "p_state st = APPLICATION"
    and "process_payload_bytes h xs st = Inr (n, None, st1)"
  shows "(\<exists>st2. process_payload_bytes h (xs @ ys) st = Inr (length xs + length ys, None, st2) \<and>
       process_payload_bytes h ys st1 = Inr (length ys, None, st2)) \<or>
     (\<exists>e st2 st3. process_payload_bytes h (xs @ ys) st = Inr (0, Some e, st2) \<and>
       process_payload_bytes h ys st1 = Inr (0, Some e, st3))"
proof -
  obtain msg c where m: "md_msg (current_msg st) = Some msg" "opcode_fits st msg"
    "key_pattern h (md_key (current_msg st)) c"
    using assms(2,3) by (auto simp: hybi_ok_def elim: current_ok_msgE)
  obtain ok v where c1: "payload_check st msg (unmasked h xs st) = (ok, v)" by fastforce
  have ok: "ok" and st1: "st1 = (set_current_msg (payload_md h xs st msg v) st)\<lparr>p_bytes_needed := p_bytes_needed st - of_nat (length xs)\<rparr>"
    using assms(4) process_payload_check [OF m(1) c1] by (auto split: if_splits)
  have cm: "current_msg st1 = payload_md h xs st msg v" by (simp add: st1)
  have bh: "p_basic_header st1 = p_basic_header st" by (simp add: st1)
  let ?msg = "msg\<lparr>m_payload := m_payload msg @ unmasked h xs st\<rparr>"
  have m1: "md_msg (current_msg st1) = Some ?msg" by (simp add: cm payload_md_def)
  have un: "unmasked h (xs @ ys) st = unmasked h xs st @ unmasked h ys st1"
    using byte_circ.two_pieces [OF assms(1) m(3), of xs ys]
    by (simp add: unmasked_def bh cm payload_md_def next_key_def)
  have nk: "next_key h (xs @ ys) st = next_key h ys st1"
  proof (cases "get_masked (p_basic_header st)")
    case True
    note k1 = byte_circ.next_key [OF assms(1) m(3), of xs]
    have "key_pattern h (next_key h ys st1) (rotate (length ys) (rotate (length xs) c))"
      using byte_circ.next_key [OF assms(1) k1, of ys] True by (simp add: next_key_def bh cm payload_md_def)
    moreover have "key_pattern h (next_key h (xs @ ys) st) (rotate (length (xs @ ys)) c)"
      using byte_circ.next_key [OF assms(1) m(3), of "xs @ ys"] True by (simp add: next_key_def)
    ultimately show ?thesis by (auto intro: key_from_pattern simp: rotate_rotate ac_simps)
  qed (simp add: next_key_def bh cm payload_md_def)
  obtain ok2 v2 where c2: "payload_check st1 ?msg (unmasked h ys st1) = (ok2, v2)" by fastforce
  have "payload_check st msg (unmasked h (xs @ ys) st) = (ok2, v2)"
    using c1 c2 ok by (simp add: payload_check_def un validator_decode_append cm payload_md_def split: if_splits)
  note p = process_payload_check [OF m(1) this] process_payload_check [OF m1 c2]
  have "payload_md h (xs @ ys) st msg v2 = payload_md h ys st1 ?msg v2"
    by (simp add: payload_md_def un nk)
  then show ?thesis unfolding p by (auto simp: st1 diff_diff_eq)
qed

lemma end_frame_agree:
  assumes "hybi_ok h st" and "p_state st = APPLICATION"
  shows "step_agree m (end_frame (m + n) st) (end_frame n st)"
  by (rule finalize_message_ok [OF assms]) (auto simp: end_frame_def step_agree_def)

lemma cut_application:
  assumes "host_ok h" and "hybi_ok h st" and "cut_off xs st" and "xs \<noteq> []" and "ys \<noteq> []" and "p_state st = APPLICATION"
    and "consume_step h xs st = Inr (Go_on st' n)"
  shows "n = length xs \<and> p_bytes_needed st' \<noteq> 0 \<and> p_state st' = p_state st \<and>
    step_agree (length xs) (consume_step h (xs @ ys) st) (consume_step h ys st')"
proof -
  let ?n = "unat (p_bytes_needed st)"
  have n: "length xs < ?n" "0 < length xs" using assms(3,4) by (simp_all add: cut_off_def)
  have u: "unat (p_bytes_needed st - of_nat (length xs)) = ?n - length xs"
    using n by (intro unat_minus_of_nat) simp
  obtain k ec s1 where "process_payload_bytes h xs st = Inr (k, ec, s1)"
    using assms(7) n by (cases "process_payload_bytes h xs st") (auto simp: consume_step_def assms(6) Let_def)
  then have p1: "process_payload_bytes h xs st = Inr (k, None, s1)" and e1: "end_frame k s1 = Inr (Go_on st' n)"
    using assms(7) n by (auto simp: consume_step_def assms(6) Let_def split: if_splits)
  obtain msg where m: "md_msg (current_msg st) = Some msg"
    using assms(2,6) by (auto simp: hybi_ok_def elim: current_ok_msgE)
  have s1: "p_bytes_needed s1 = p_bytes_needed st - of_nat (length xs)" "k = length xs"
    using p1 by (auto simp: process_payload_unfold [OF m] Let_def split: prod.splits if_splits)
  have nz: "p_bytes_needed s1 \<noteq> 0" using u n s1 by auto
  then have st': "st' = s1" "n = length xs" using e1 s1(2) by (auto simp: end_frame_def pos_u64)
  note s1_ok = process_payload_ok [OF assms(1,2,6) p1]
  let ?k = "min (?n - length xs) (length ys)"
  have k: "min ?n (length (xs @ ys)) = length xs + ?k" "0 < ?k" using n assms(5) by auto
  have tk: "take (length xs + ?k) (xs @ ys) = xs @ take ?k ys" by simp
  have c1: "consume_step h (xs @ ys) st =
      and_then (process_payload_bytes h (xs @ take ?k ys) st) (\<lambda>(n, ec, st). if ec \<noteq> None then Inr (Break st n ec) else end_frame n st)"
    using k(2) n unfolding consume_step_def assms(6) pstate.case Let_def k(1) tk by simp
  have c2: "consume_step h ys s1 =
      and_then (process_payload_bytes h (take ?k ys) s1) (\<lambda>(n, ec, st). if ec \<noteq> None then Inr (Break st n ec) else end_frame n st)"
    using k(2) s1_ok by (simp add: consume_step_def Let_def s1 u)
  have "step_agree (length xs) (consume_step h (xs @ ys) st) (consume_step h ys s1)"
    using process_payload_split [OF assms(1,2,6) p1, of "take ?k ys"]
  proof (elim disjE exE conjE)
    fix st2
    assume a: "process_payload_bytes h (xs @ take ?k ys) st = Inr (length xs + length (take ?k ys), None, st2)"
      and b: "process_payload_bytes h (take ?k ys) s1 = Inr (length (take ?k ys), None, st2)"
    have "hybi_ok h st2 \<and> p_state st2 = APPLICATION" using process_payload_ok [OF assms(1,2,6) a] .
    then show ?thesis unfolding c1 c2 a b using end_frame_agree [of h st2 "length xs" "length (take ?k ys)"] by simp
  qed (simp add: c1 c2 step_agree_def)
  then show ?thesis using st' nz s1_ok assms(6) by simp
qed

lemma agree_refl: "host_ok h \<Longrightarrow> hybi_ok h st \<Longrightarrow> agree 0 (consume h ys st) (consume h ys st)"
proof -
  assume "host_ok h" "hybi_ok h st"
  then obtain n ec st' where "consume h ys st = Inr (n, ec, st')" by (rule consume_ok)
  then show ?thesis by (cases ec) (auto simp: agree_def)
qed

lemma step_agree_consume:
  assumes "host_ok h" and "hybi_ok h st" and "hybi_ok h st1" and "ys \<noteq> []"
    and "p_state st \<notin> {READY, FATAL_ERROR}" and "p_state st1 \<notin> {READY, FATAL_ERROR}"
    and "step_agree (length xs) (consume_step h (xs @ ys) st) (consume_step h ys st1)"
  shows "agree (length xs) (consume h (xs @ ys) st) (consume h ys st1)"
proof -
  have g: "consume_guard (xs @ ys) st" "consume_guard ys st1" using assms(4,5,6) by (auto simp: consume_guard_def)
  from assms(7) show ?thesis unfolding step_agree_def
  proof (elim disjE exE conjE)
    fix n s assume s: "consume_step h (xs @ ys) st = Inr (Go_on s (length xs + n))" "consume_step h ys st1 = Inr (Go_on s n)"
    have "hybi_ok h s" using consume_step_ok [OF assms(1,3) g(2)] s(2) by auto
    moreover from consume_ok [OF assms(1) this, of "drop n ys"]
    obtain k ec st' where "consume h (drop n ys) s = Inr (k, ec, st')" by metis
    ultimately show ?thesis
      using consume_first_pass [OF assms(1) g(1) s(1)] consume_first_pass [OF assms(1) g(2) s(2)]
      by (cases ec) (auto simp: agree_def ac_simps)
  next
    fix n1 n2 e s1 s2
    assume "consume_step h (xs @ ys) st = Inr (Break s1 n1 (Some e))" "consume_step h ys st1 = Inr (Break s2 n2 (Some e))"
    then show ?thesis using consume_break [OF g(1)] consume_break [OF g(2)] by (auto simp: agree_def)
  qed
qed

lemma cut_step:
  assumes "host_ok h" and "hybi_ok h st" and "cut_off xs st" and "xs \<noteq> []" and "ys \<noteq> []" and "\<not> ready st"
    and "consume_step h xs st = Inr (Go_on st' n)"
  shows "n = length xs \<and> p_bytes_needed st' \<noteq> 0 \<and> p_state st' = p_state st \<and>
    step_agree (length xs) (consume_step h (xs @ ys) st) (consume_step h ys st')"
proof (cases "p_state st")
  case HEADER_BASIC
  then show ?thesis using cut_basic [OF assms(2-5)] assms(7) by fastforce
next
  case HEADER_EXTENDED
  then show ?thesis using cut_extended [OF assms(2,3,5)] assms(7) by fastforce
next
  case APPLICATION
  then show ?thesis using cut_application [OF assms(1-5)] assms(7) by simp
qed (use assms(2,6) in \<open>simp_all add: hybi_ok_def ready_def\<close>)

lemma step_rank_le: "step_rank st \<le> 4"
  by (simp add: step_rank_def split: pstate.split)

lemma consume_append:
  assumes "host_ok h" and "hybi_ok h st" and "consume h xs st = Inr (n, None, st1)" and "\<not> ready st1"
  shows "agree (length xs) (consume h (xs @ ys) st) (consume h ys st1)"
  using assms(2-4)
proof (induction "5 * length xs + step_rank st" arbitrary: xs st n rule: less_induct)
  case less
  show ?case
  proof (cases "consume_guard xs st")
    case False
    then have st1: "st1 = st" using less.prems(2) by (simp add: consume_stops)
    then have "xs = []" using False less.prems(1,3) by (auto simp: consume_guard_def ready_def hybi_ok_def)
    then show ?thesis using agree_refl [OF assms(1) less.prems(1)] st1 by simp
  next
    case guard: True
    obtain r where r: "consume_step h xs st = Inr r" "step_fine h (length xs) r"
      using consume_step_ok [OF assms(1) less.prems(1) guard] by blast
    obtain st' k where go: "r = Go_on st' k"
      using r less.prems(2) consume_break [OF guard] by (cases r) auto
    then have k: "k \<le> length xs" "hybi_ok h st'" "consume_step h xs st = Inr (Go_on st' k)" using r by simp_all
    have nr: "\<not> ready st" "p_state st \<notin> {READY, FATAL_ERROR}" using guard by (auto simp: consume_guard_def ready_def)
    show ?thesis
    proof (cases "cut_off xs st")
      case False
      have g2: "consume_guard (xs @ ys) st" using guard by (auto simp: consume_guard_def)
      have s2: "consume_step h (xs @ ys) st = Inr (Go_on st' k)"
        using step_not_cut [OF less.prems(1) False] nr k(3) by (simp add: ready_def)
      obtain n' where c: "consume h (drop k xs) st' = Inr (n', None, st1)"
        using consume_first_pass [OF assms(1) guard k(3,2)] less.prems(2)
        by (auto split: sum.splits prod.splits)
      have "0 < k \<or> step_rank st' < step_rank st" using consume_step_decreases [OF k(3) guard] by simp
      then have "5 * length (drop k xs) + step_rank st' < 5 * length xs + step_rank st"
        using k(1) step_rank_le [of st'] by auto
      from less.hyps [OF this k(2) c less.prems(3)]
      have "agree (length xs - k) (consume h (drop k xs @ ys) st') (consume h ys st1)" by simp
      then show ?thesis
        using consume_first_pass [OF assms(1) g2 s2 k(2)] k(1) by (auto simp: agree_def)
    next
      case True
      have ne: "xs \<noteq> []" using True guard by (auto simp: cut_off_def consume_guard_def)
      have nz: "k = length xs" "p_bytes_needed st' \<noteq> 0"
        using cut_step [OF assms(1) less.prems(1) True ne _ nr(1) k(3), of "[0]"] by simp_all
      have "st1 = st'"
        using consume_first_pass [OF assms(1) guard k(3,2)] less.prems(2) nz
        by (simp add: consume_stops consume_guard_def)
      show ?thesis
      proof (cases "ys = []")
        case True
        then show ?thesis
          using less.prems(2) consume_first_pass [OF assms(1) guard k(3,2)] nz \<open>st1 = st'\<close>
          by (simp add: consume_stops consume_guard_def agree_def)
      next
        case False
        have "p_state st1 \<notin> {READY, FATAL_ERROR}"
          using less.prems(3) k(2) \<open>st1 = st'\<close> by (auto simp: ready_def hybi_ok_def)
        then show ?thesis
          using step_agree_consume [OF assms(1) less.prems(1) k(2) False nr(2)] \<open>st1 = st'\<close>
            cut_step [OF assms(1) less.prems(1) True ne False nr(1) k(3)] by simp
      qed
    qed
  qed
qed


text \<open>An error and a complete message do not depend on the bytes that follow.\<close>

lemma process_payload_error:
  assumes "host_ok h" and "hybi_ok h st" and "p_state st = APPLICATION"
    and "process_payload_bytes h xs st = Inr (n, Some e, st1)"
  shows "\<exists>st2. process_payload_bytes h (xs @ zs) st = Inr (0, Some e, st2)"
proof -
  obtain msg c where m: "md_msg (current_msg st) = Some msg" "key_pattern h (md_key (current_msg st)) c"
    using assms(2,3) by (auto simp: hybi_ok_def elim: current_ok_msgE)
  obtain ok v where c1: "payload_check st msg (unmasked h xs st) = (ok, v)" by fastforce
  have ok: "\<not> ok" and e: "e = ProcessorError PE_invalid_utf8"
    using assms(4) process_payload_check [OF m(1) c1] by (auto split: if_splits)
  obtain us where "unmasked h (xs @ zs) st = unmasked h xs st @ us"
    using byte_circ.two_pieces [OF assms(1) m(2), of xs zs]
    by (cases "get_masked (p_basic_header st)") (auto simp: unmasked_def)
  then obtain v2 where "payload_check st msg (unmasked h (xs @ zs) st) = (False, v2)"
    using c1 ok by (auto simp: payload_check_def validator_decode_append split: if_splits)
  from process_payload_check [OF m(1) this] show ?thesis by (simp add: e)
qed

lemma step_error_append:
  assumes "host_ok h" and "hybi_ok h st" and "\<not> ready st" and "consume_guard xs st"
    and "consume_step h xs st = Inr (Break st1 n (Some e))"
  shows "\<exists>st2 n2. consume_step h (xs @ ys) st = Inr (Break st2 n2 (Some e))"
proof (cases "cut_off xs st")
  case False
  then show ?thesis using step_not_cut [OF assms(2)] assms(3,5) by (simp add: ready_def)
next
  case True
  then have ne: "xs \<noteq> []" using assms(4) by (auto simp: cut_off_def consume_guard_def)
  have app: "p_state st = APPLICATION"
    using cut_basic [OF assms(2) True ne, of "[0]"] cut_extended [OF assms(2) True, of "[0]"] assms(2,3,5)
    by (cases "p_state st") (auto simp: hybi_ok_def ready_def)
  let ?n = "unat (p_bytes_needed st)"
  let ?k = "min (?n - length xs) (length ys)"
  have n: "length xs < ?n" "0 < length xs" using True ne by (simp_all add: cut_off_def)
  obtain msg where m: "md_msg (current_msg st) = Some msg"
    using assms(2) app by (auto simp: hybi_ok_def elim: current_ok_msgE)
  obtain k ec s1 where p: "process_payload_bytes h xs st = Inr (k, ec, s1)"
    by (cases "process_payload_bytes h xs st")
      (auto simp: process_payload_unfold [OF m] Let_def split: prod.splits if_splits)
  have "ec \<noteq> None"
  proof
    assume [simp]: "ec = None"
    have "p_bytes_needed s1 = p_bytes_needed st - of_nat (length xs)"
      using p by (auto simp: process_payload_unfold [OF m] Let_def split: prod.splits if_splits)
    moreover have "unat (p_bytes_needed st - of_nat (length xs)) = ?n - length xs"
      using n by (intro unat_minus_of_nat) simp
    ultimately have "p_bytes_needed s1 \<noteq> 0" using n by auto
    then show False using assms(5) p n by (auto simp: consume_step_def app Let_def end_frame_def pos_u64)
  qed
  then have "ec = Some e" using assms(5) p n by (auto simp: consume_step_def app Let_def)
  then obtain st2 where "process_payload_bytes h (xs @ take ?k ys) st = Inr (0, Some e, st2)"
    using process_payload_error [OF assms(1,2) app] p by blast
  moreover have "min ?n (length (xs @ ys)) = length xs + ?k" "take (length xs + ?k) (xs @ ys) = xs @ take ?k ys"
    using n by simp_all
  ultimately show ?thesis
    using n unfolding consume_step_def app pstate.case Let_def by simp
qed

lemma consume_append_final:
  assumes "host_ok h" and "hybi_ok h st" and "consume h xs st = Inr (n, ec, st1)"
  shows "(ec = None \<longrightarrow> ready st1 \<longrightarrow> consume h (xs @ ys) st = Inr (n, None, st1)) \<and>
    (\<forall>e. ec = Some e \<longrightarrow> (\<exists>n2 st2. consume h (xs @ ys) st = Inr (n2, Some e, st2)))"
  using assms(2-3)
proof (induction "5 * length xs + step_rank st" arbitrary: xs st n rule: less_induct)
  case less
  show ?case
  proof (cases "consume_guard xs st")
    case False
    then have "st1 = st" "ec = None" "n = 0" using less.prems(2) by (simp_all add: consume_stops)
    moreover have "ready st \<Longrightarrow> \<not> consume_guard (xs @ ys) st" by (simp add: consume_guard_def ready_def)
    ultimately show ?thesis by (simp add: consume_stops)
  next
    case guard: True
    have g2: "consume_guard (xs @ ys) st" using guard by (auto simp: consume_guard_def)
    have nr: "\<not> ready st" using guard by (simp add: consume_guard_def ready_def)
    obtain r where r: "consume_step h xs st = Inr r" "step_fine h (length xs) r"
      using consume_step_ok [OF assms(1) less.prems(1) guard] by blast
    show ?thesis
    proof (cases r)
      case (Go_on st' k)
      then have k: "k \<le> length xs" "hybi_ok h st'" "consume_step h xs st = Inr (Go_on st' k)" using r by simp_all
      obtain n' where c: "consume h (drop k xs) st' = Inr (n', ec, st1)" "n = k + n'"
        using consume_first_pass [OF assms(1) guard k(3,2)] less.prems(2)
        by (auto split: sum.splits prod.splits)
      show ?thesis
      proof (cases "cut_off xs st")
        case True
        have ne: "xs \<noteq> []" using True guard by (auto simp: cut_off_def consume_guard_def)
        have "k = length xs" "p_bytes_needed st' \<noteq> 0" "\<not> ready st'"
          using cut_step [OF assms(1) less.prems(1) True ne _ nr k(3), of "[0]"] nr by (simp_all add: ready_def)
        then show ?thesis using c(1) by (simp add: consume_stops consume_guard_def)
      next
        case False
        have s2: "consume_step h (xs @ ys) st = Inr (Go_on st' k)"
          using step_not_cut [OF less.prems(1) False] nr k(3) by (simp add: ready_def)
        have "0 < k \<or> step_rank st' < step_rank st" using consume_step_decreases [OF k(3) guard] by simp
        then have "5 * length (drop k xs) + step_rank st' < 5 * length xs + step_rank st"
          using k(1) step_rank_le [of st'] by auto
        from less.hyps [OF this k(2) c(1)] show ?thesis
          using consume_first_pass [OF assms(1) g2 s2 k(2)] k(1) c(2) by auto
      qed
    next
      case (Break st' k e)
      then obtain e' where e': "e = Some e'" using r(2) by auto
      then have "ec = Some e'" using less.prems(2) r(1) Break consume_break [OF guard] by simp
      moreover obtain st2 n2 where "consume_step h (xs @ ys) st = Inr (Break st2 n2 (Some e'))"
        using step_error_append [OF assms(1) less.prems(1) nr guard] r(1) Break e' by blast
      ultimately show ?thesis using consume_break [OF g2] by auto
    qed (use r(2) in simp)
  qed
qed

subsection \<open>Reading a stream that arrives in chunks\<close>

text \<open>Successive calls of \<open>handle_read_frame\<close>, one for every chunk the transport delivers. After an
  error the connection does not read on.\<close>

definition join_messages ::
    "message list \<Rightarrow> (message list \<times> ec \<times> hybi13) res \<Rightarrow> (message list \<times> ec \<times> hybi13) res" where
  "join_messages ms r = and_then r (\<lambda>(ms', ec, st). Inr (ms @ ms', ec, st))"

primrec receive :: "host \<Rightarrow> bytes list \<Rightarrow> hybi13 \<Rightarrow> (message list \<times> ec \<times> hybi13) res option" where
  "receive h [] st = Some (Inr ([], None, st))"
| "receive h (c # cs) st =
     (case read_buffer h c st of
        None \<Rightarrow> None
      | Some (Inl e) \<Rightarrow> Some (Inl e)
      | Some (Inr (ms, ec, st')) \<Rightarrow>
          (if ec \<noteq> None then Some (Inr (ms, ec, st'))
           else map_option (join_messages ms) (receive h cs st')))"

lemma read_buffer_empty [simp]: "read_buffer h [] st = Some (Inr ([], None, st))"
  by (subst read_buffer.simps) simp

text \<open>The three ways one call of \<open>consume\<close> ends.\<close>

lemma read_buffer_cases:
  assumes "buf \<noteq> []" and "consume h buf st = Inr (n, ec, st1)"
  shows "ec = Some e \<Longrightarrow> read_buffer h buf st = Some (Inr ([], Some e, st1))"
    and "ec = None \<Longrightarrow> ready st1 \<Longrightarrow> get_message st1 = Inr (Some msg, st2) \<Longrightarrow>
      read_buffer h (drop n buf) st2 = Some (Inr (ms, e2, st3)) \<Longrightarrow>
      read_buffer h buf st = Some (Inr (msg # ms, e2, st3))"
    and "ec = None \<Longrightarrow> \<not> ready st1 \<Longrightarrow> read_buffer h buf st = read_buffer h (drop n buf) st1"
  using assms by (subst read_buffer.simps; simp add: add_message_def)+

lemma read_append:
  assumes "host_ok h" and "hybi_ok h st" and "\<not> ready st" and "read_buffer h xs st = Some (Inr (ms, ec, st1))"
  shows "\<exists>st2. (ec \<noteq> None \<longrightarrow> read_buffer h (xs @ ys) st = Some (Inr (ms, ec, st2))) \<and>
    (ec = None \<longrightarrow> (\<exists>ms' ec' st3. read_buffer h (xs @ ys) st = Some (Inr (ms @ ms', ec', st2)) \<and>
       read_buffer h ys st1 = Some (Inr (ms', ec', st3)) \<and> (ec' = None \<longrightarrow> st2 = st3)))"
  using assms(2-4)
proof (induction "2 * length xs + (if p_state st = HEADER_BASIC then 0 else 1)" arbitrary: xs st ms
    rule: less_induct)
  case less
  show ?case
  proof (cases "xs = []")
    case True
    then show ?thesis using less.prems read_buffer_ok [OF assms(1) less.prems(1), of ys] by auto
  next
    case False
    then have ne: "xs @ ys \<noteq> []" by simp
    obtain n ec1 s1 where c: "consume h xs st = Inr (n, ec1, s1)" "n \<le> length xs"
      and i: "ec1 = None \<Longrightarrow> hybi_ok h s1" "ec1 = None \<Longrightarrow> ready s1 \<or> n = length xs"
      using consume_ok [OF assms(1) less.prems(1)] by metis
    note fin = consume_append_final [OF assms(1) less.prems(1) c(1), of ys]
    consider (err) e where "ec1 = Some e" | (msg) "ec1 = None" "ready s1" | (more) "ec1 = None" "\<not> ready s1" "n = length xs"
      using i(2) by (cases ec1) auto
    then show ?thesis
    proof cases
      case err
      then have "ms = []" "ec = Some e" using less.prems(3) read_buffer_cases(1) [OF False c(1)] by auto
      moreover obtain n2 s2 where "consume h (xs @ ys) st = Inr (n2, Some e, s2)" using fin err by blast
      ultimately show ?thesis using read_buffer_cases(1) [OF ne] by blast
    next
      case msg
      obtain m s2 where g: "get_message s1 = Inr (Some m, s2)" "hybi_ok h s2" "p_state s2 = HEADER_BASIC"
        using get_message_ok [OF i(1) [OF msg(1)] msg(2)] by metis
      obtain ms2 e2 s3 where r: "read_buffer h (drop n xs) s2 = Some (Inr (ms2, e2, s3))"
        using read_buffer_ok [OF assms(1) g(2)] by blast
      have eq: "ms = m # ms2" "ec = e2" "st1 = s3"
        using less.prems(3) read_buffer_cases(2) [OF False c(1) msg g(1) r] by auto
      have nr: "\<not> ready s2" using g(3) by (simp add: ready_def)
      have "2 * length (drop n xs) + (if p_state s2 = HEADER_BASIC then 0 else 1) <
          2 * length xs + (if p_state st = HEADER_BASIC then 0 else 1)"
        using c msg g(3) consume_progress [OF assms(1) less.prems(1) _ False, of n s1] by auto
      from less.hyps [OF this g(2) nr r [folded eq(2,3)]]
      obtain st2 where I: "ec \<noteq> None \<longrightarrow> read_buffer h (drop n xs @ ys) s2 = Some (Inr (ms2, ec, st2))"
        "ec = None \<longrightarrow> (\<exists>ms' ec' st3. read_buffer h (drop n xs @ ys) s2 = Some (Inr (ms2 @ ms', ec', st2)) \<and>
           read_buffer h ys st1 = Some (Inr (ms', ec', st3)) \<and> (ec' = None \<longrightarrow> st2 = st3))"
        by blast
      have "consume h (xs @ ys) st = Inr (n, None, s1)" using fin msg by simp
      note R = read_buffer_cases(2) [OF ne this refl msg(2) g(1)]
      have d: "drop n (xs @ ys) = drop n xs @ ys" using c(2) by simp
      show ?thesis using I R [unfolded d] unfolding eq(1) by (cases ec) (fastforce+)
    next
      case more
      have eq: "ms = []" "ec = None" "st1 = s1"
        using less.prems(3) read_buffer_cases(3) [OF False c(1) more(1,2)] more(3) by auto
      have ag: "agree (length xs) (consume h (xs @ ys) st) (consume h ys s1)"
        using consume_append [OF assms(1) less.prems(1)] c(1) more by blast
      obtain ms' ec' st3 where ry: "read_buffer h ys s1 = Some (Inr (ms', ec', st3))"
        using read_buffer_ok [OF assms(1) i(1) [OF more(1)]] by blast
      have "\<exists>st2. read_buffer h (xs @ ys) st = Some (Inr (ms', ec', st2)) \<and> (ec' = None \<longrightarrow> st2 = st3)"
      proof (cases "ys = []")
        case True
        then show ?thesis using ry less.prems(3) eq by simp
      next
        case ys: False
        from ag show ?thesis unfolding agree_def
        proof (elim disjE exE conjE)
          fix k s assume k: "consume h (xs @ ys) st = Inr (length xs + k, None, s)" "consume h ys s1 = Inr (k, None, s)"
          have "read_buffer h (xs @ ys) st = read_buffer h ys s1"
            using ne ys k by (subst (1 2) read_buffer.simps) (simp split: sum.split prod.split)
          then show ?thesis using ry by simp
        next
          fix n1 n2 e a b assume "consume h (xs @ ys) st = Inr (n1, Some e, a)" "consume h ys s1 = Inr (n2, Some e, b)"
          then show ?thesis
            using read_buffer_cases(1) [OF ne] read_buffer_cases(1) [OF ys] ry by auto
        qed
      qed
      then show ?thesis using eq ry by auto
    qed
  qed
qed

lemma receive_ok:
  assumes "host_ok h" and "hybi_ok h st" and "\<not> ready st"
  shows "\<exists>ms ec st1 st2. receive h cs st = Some (Inr (ms, ec, st1)) \<and>
    read_buffer h (concat cs) st = Some (Inr (ms, ec, st2)) \<and>
    (ec = None \<longrightarrow> st1 = st2 \<and> hybi_ok h st1 \<and> \<not> ready st1)"
  using assms(2,3)
proof (induction cs arbitrary: st)
  case (Cons c cs)
  obtain ms ec st1 where c: "read_buffer h c st = Some (Inr (ms, ec, st1))"
    and k: "ec = None \<Longrightarrow> hybi_ok h st1 \<and> \<not> ready st1"
    using read_buffer_ok [OF assms(1) Cons.prems(1), of c] Cons.prems(2) by blast
  note A = read_append [OF assms(1) Cons.prems c, of "concat cs"]
  show ?case
  proof (cases ec)
    case None
    obtain ms2 ec2 s1 s2 where "receive h cs st1 = Some (Inr (ms2, ec2, s1))"
      "read_buffer h (concat cs) st1 = Some (Inr (ms2, ec2, s2))"
      "ec2 = None \<longrightarrow> s1 = s2 \<and> hybi_ok h s1 \<and> \<not> ready s1"
      using Cons.IH k [OF None] by blast
    then show ?thesis using A None c by (auto simp: join_messages_def)
  next
    case (Some e)
    then show ?thesis using A c by auto
  qed
qed (use assms(1) in simp)

subsection \<open>Chunks do not matter\<close>

text \<open>
  C9. Whatever bytes arrive, and however the transport cuts them into chunks, a new processor
  reads them without a null dereference and without looping forever, and delivers the same
  messages and the same error for every way of cutting the same bytes; without an error the
  processor also ends in the same state.
\<close>

theorem receive_chunking:
  assumes "host_ok h" and "concat cs = concat ds"
  shows "\<exists>ms ec s1 s2.
    receive h cs (hybi13_init server mx cursor cur k1 k2) = Some (Inr (ms, ec, s1)) \<and>
    receive h ds (hybi13_init server mx cursor cur k1 k2) = Some (Inr (ms, ec, s2)) \<and>
    (ec = None \<longrightarrow> s1 = s2)"
proof -
  let ?st = "hybi13_init server mx cursor cur k1 k2"
  have nr: "\<not> ready ?st" by (simp add: hybi13_init_def reset_headers_def ready_def)
  note R = receive_ok [OF assms(1) hybi_ok_init nr]
  show ?thesis using R [of cs] R [of ds] assms(2) by auto
qed

theorem receive_chunking_witness:
  "(\<exists>ms ec s1 s2.
      receive x86_host [[0x81, 0x02, 0x68, 0x69]] (hybi13_init False 1000 0 DataMsg 0 0) = Some (Inr (ms, ec, s1)) \<and>
      receive x86_host [[0x81], [0x02, 0x68], [], [0x69]] (hybi13_init False 1000 0 DataMsg 0 0) = Some (Inr (ms, ec, s2)) \<and>
      (ec = None \<longrightarrow> s1 = s2)) \<and>
   map_option (map_sum id (map m_payload \<circ> fst))
     (receive x86_host [[0x81, 0x02, 0x68, 0x69]] (hybi13_init False 1000 0 DataMsg 0 0)) = Some (Inr [[0x68, 0x69]])"
proof
  show "\<exists>ms ec s1 s2.
      receive x86_host [[0x81, 0x02, 0x68, 0x69]] (hybi13_init False 1000 0 DataMsg 0 0) = Some (Inr (ms, ec, s1)) \<and>
      receive x86_host [[0x81], [0x02, 0x68], [], [0x69]] (hybi13_init False 1000 0 DataMsg 0 0) = Some (Inr (ms, ec, s2)) \<and>
      (ec = None \<longrightarrow> s1 = s2)"
    by (rule receive_chunking [OF example_hosts(1)]) simp
  show "map_option (map_sum id (map m_payload \<circ> fst))
     (receive x86_host [[0x81, 0x02, 0x68, 0x69]] (hybi13_init False 1000 0 DataMsg 0 0)) = Some (Inr [[0x68, 0x69]])"
    by code_simp
qed

end
