(* ===== verification/Ws_Wire.thy ===== *)
theory Ws_Wire
  imports Ws_Chunks
begin

section \<open>From the bytes on the wire to messages\<close>

text \<open>
  An abstract receiver that works on whole frames (\<open>abs_frame\<close>, \<open>abs_run\<close>): it keeps the data message in
  progress, outputs completed messages, and names the error for every frame it refuses. The lemmas
  follow one frame through the passes of \<open>consume\<close> (header, extended header, payload, end of frame) and
  show that the processor, between frames, represents the state of the abstract receiver
  (\<open>between_frames\<close>) and stops with the error the abstract receiver names. The sending side produces
  such frames.
\<close>

unbundle bit_operations_syntax

subsection \<open>Frames and the abstract receiver\<close>

text \<open>A frame as RFC 6455 describes it, and its bytes on the wire: header and payload, the payload
  masked if there is a key.\<close>

datatype frame = Frame (fr_fin: bool) (fr_op: opcode) (fr_payload: bytes)

definition wire :: "host \<Rightarrow> u32 option \<Rightarrow> frame \<Rightarrow> bytes" where
  "wire h key f =
     wire_header h (fr_op f) (of_nat (length (fr_payload f))) (fr_fin f) key False @
     (case key of None \<Rightarrow> fr_payload f | Some k \<Rightarrow> byte_mask h (fr_payload f) k 0)"

text \<open>The abstract receiver keeps only the data message in progress: its opcode and its bytes so far.
  A data frame starts a new message or continues that one.\<close>

type_synonym partial_msg = "(opcode \<times> bytes) option"

fun data_base :: "opcode \<Rightarrow> partial_msg \<Rightarrow> opcode \<times> bytes" where
  "data_base op None = (op, [])"
| "data_base op (Some d) = d"

text \<open>What RFC 6455 demands of the header of the next frame (5.1, 5.2, 5.4, 5.5), and the error for
  a frame that breaks a rule.\<close>

definition header_error :: "bool \<Rightarrow> bool \<Rightarrow> u32 option \<Rightarrow> frame \<Rightarrow> processor_error option" where
  "header_error server new_msg key f =
     (if is_control (fr_op f) \<and> 125 < length (fr_payload f) then Some PE_control_too_big
      else if fr_op f \<notin> {Continuation, Text, Binary, OpClose, Ping, Pong} then Some PE_invalid_opcode
      else if is_control (fr_op f) \<and> \<not> fr_fin f then Some PE_fragmented_control
      else if \<not> is_control (fr_op f) \<and> (new_msg \<longleftrightarrow> fr_op f = Continuation) then Some PE_invalid_continuation
      else if server \<and> key = None then Some PE_masking_required
      else if \<not> server \<and> key \<noteq> None then Some PE_masking_forbidden
      else None)"

definition text_so_far :: "opcode \<Rightarrow> bytes \<Rightarrow> bool" where
  "text_so_far op p \<longleftrightarrow> (op = Text \<longrightarrow> utf8_run p utf8_accept \<noteq> utf8_reject)"

definition text_valid :: "opcode \<Rightarrow> bytes \<Rightarrow> bool" where
  "text_valid op p \<longleftrightarrow> (op = Text \<longrightarrow> validate p)"

text \<open>The message after a data frame. \<open>complete\<close> says whether the text of a finished message must end
  with a complete code point.\<close>

definition abs_data ::
    "bool \<Rightarrow> bool \<Rightarrow> opcode \<Rightarrow> bytes \<Rightarrow> processor_error + (partial_msg \<times> (opcode \<times> bytes) list)" where
  "abs_data complete fin op p =
     (if \<not> text_so_far op p then Inl PE_invalid_utf8
      else if \<not> fin then Inr (Some (op, p), [])
      else if complete \<and> \<not> text_valid op p then Inl PE_invalid_utf8
      else Inr (None, [(op, p)]))"

text \<open>One frame: the error, or the message in progress and the messages completed. The \<open>strict\<close>
  receiver is the one of the RFC; the other one asks only an unfragmented text to be complete.\<close>

fun abs_frame ::
    "bool \<Rightarrow> bool \<Rightarrow> nat \<Rightarrow> u32 option \<times> frame \<Rightarrow> partial_msg \<Rightarrow>
     processor_error + (partial_msg \<times> (opcode \<times> bytes) list)" where
  "abs_frame strict server mx (key, f) acc =
     (case header_error server (acc = None) key f of
        Some e \<Rightarrow> Inl e
      | None \<Rightarrow>
          if is_control (fr_op f) then Inr (acc, [(fr_op f, fr_payload f)])
          else
            let (op, q) = data_base (fr_op f) acc
            in if mx < length (q @ fr_payload f) then Inl PE_message_too_big
               else abs_data (strict \<or> acc = None) (fr_fin f) op (q @ fr_payload f))"

text \<open>A sequence of frames: the messages delivered, and the error that ended it or the message in
  progress.\<close>

fun abs_run ::
    "bool \<Rightarrow> bool \<Rightarrow> nat \<Rightarrow> (u32 option \<times> frame) list \<Rightarrow> partial_msg \<Rightarrow>
     (opcode \<times> bytes) list \<times> (processor_error + partial_msg)" where
  "abs_run strict server mx [] acc = ([], Inr acc)"
| "abs_run strict server mx (kf # kfs) acc =
     (case abs_frame strict server mx kf acc of
        Inl e \<Rightarrow> ([], Inl e)
      | Inr (acc', ms) \<Rightarrow> let (ms', r) = abs_run strict server mx kfs acc' in (ms @ ms', r))"

text \<open>The two receivers differ only where the strict one refuses a text.\<close>

lemma strict_frame:
  "abs_frame True server mx kf acc = abs_frame False server mx kf acc \<or> abs_frame True server mx kf acc = Inl PE_invalid_utf8"
  by (cases kf) (auto simp: abs_data_def Let_def split: option.split prod.split)

lemma strict_run:
  "abs_run True server mx kfs acc = abs_run False server mx kfs acc \<or> snd (abs_run True server mx kfs acc) = Inl PE_invalid_utf8"
proof (induction kfs arbitrary: acc)
  case (Cons kf kfs)
  show ?case
  proof (cases "abs_frame True server mx kf acc")
    case (Inr r)
    then have "abs_frame False server mx kf acc = Inr r" using strict_frame [of server mx kf acc] by simp
    then show ?thesis using Inr Cons.IH [of "fst r"] by (auto split: prod.splits)
  qed (use strict_frame [of server mx kf acc] in \<open>auto split: sum.split\<close>)
qed simp

subsection \<open>The relation between the processor and the abstract receiver\<close>

definition data_rel :: "opcode \<times> bytes \<Rightarrow> msg_metadata \<Rightarrow> bool" where
  "data_rel = (\<lambda>(op, q) md.
     (\<exists>m. md_msg md = Some m \<and> m_opcode m = op \<and> m_payload m = q) \<and>
     (op = Text \<longrightarrow> v_state (md_validator md) = utf8_run q utf8_accept \<and> utf8_run q utf8_accept \<noteq> utf8_reject))"

definition between_frames :: "host \<Rightarrow> bool \<Rightarrow> u64 \<Rightarrow> partial_msg \<Rightarrow> hybi13 \<Rightarrow> bool" where
  "between_frames h server mx acc st \<longleftrightarrow>
     hybi_ok h st \<and> p_state st = HEADER_BASIC \<and> p_bytes_needed st = 2 \<and>
     p_server st = server \<and> p_max_message_size st = mx \<and>
     (case acc of None \<Rightarrow> md_msg (p_data_msg st) = None
      | Some d \<Rightarrow> data_rel d (p_data_msg st) \<and> length (snd d) \<le> unat mx)"

lemma between_new: "between_frames h server mx acc st \<Longrightarrow> md_msg (p_data_msg st) = None \<longleftrightarrow> acc = None"
  by (auto simp: between_frames_def data_rel_def split: option.splits)

lemma between_init: "between_frames h server mx None (hybi13_init server mx cursor cur k1 k2)"
  using hybi_ok_init [of h server mx cursor cur k1 k2]
  by (simp add: between_frames_def hybi13_init_def reset_headers_def frame_consts)

text \<open>Checking text piece by piece.\<close>

lemma data_rel_append:
  assumes "data_rel (op, q) md" and "text_so_far op (q @ p)" and "md_msg md = Some m"
  shows "fst (if op = Text then validator_decode p (md_validator md) else (True, md_validator md))"
    and "data_rel (op, q @ p)
      \<lparr>md_msg = Some (m\<lparr>m_payload := m_payload m @ p\<rparr>), md_key = k,
       md_validator = snd (if op = Text then validator_decode p (md_validator md) else (True, md_validator md))\<rparr>"
proof -
  let ?v = "md_validator md"
  have v: "op = Text \<Longrightarrow> v_state ?v = utf8_run q utf8_accept" "op = Text \<Longrightarrow> v_state ?v \<noteq> utf8_reject" "op = Text \<Longrightarrow> v_state ?v < 9"
    using assms(1) utf8_run_less [of 0 q] by (auto simp: data_rel_def utf8_accept_def)
  have r: "op = Text \<Longrightarrow> utf8_run p (v_state ?v) \<noteq> utf8_reject"
    using assms(2) v(1) by (simp add: text_so_far_def)
  show ok: "fst (if op = Text then validator_decode p ?v else (True, ?v))"
    using validator_decode_run(1) [of ?v p] v r by simp
  show "data_rel (op, q @ p)
      \<lparr>md_msg = Some (m\<lparr>m_payload := m_payload m @ p\<rparr>), md_key = k,
       md_validator = snd (if op = Text then validator_decode p ?v else (True, ?v))\<rparr>"
    using assms validator_decode_run(2) [of ?v p] v ok r by (auto simp: data_rel_def)
qed

lemma text_validD: "text_valid op p \<Longrightarrow> text_so_far op p"
  by (auto simp: text_valid_def text_so_far_def validate_run utf8_accept_def utf8_reject_def)

subsection \<open>The passes over one frame\<close>

lemma consume_pass:
  assumes "host_ok h" and "hybi_ok h st" and "\<not> ready st" and "buf \<noteq> [] \<or> p_bytes_needed st = 0"
    and "consume_step h buf st = Inr (Go_on st1 k)"
  shows "hybi_ok h st1" and "consume h buf st =
    (case consume h (drop k buf) st1 of Inl e \<Rightarrow> Inl e | Inr (n, ec, st') \<Rightarrow> Inr (k + n, ec, st'))"
proof -
  have g: "consume_guard buf st"
    using assms(2-4) by (auto simp: consume_guard_def ready_def hybi_ok_def)
  show "hybi_ok h st1" using consume_step_ok [OF assms(1,2) g] assms(5) by auto
  then show "consume h buf st =
    (case consume h (drop k buf) st1 of Inl e \<Rightarrow> Inl e | Inr (n, ec, st') \<Rightarrow> Inr (k + n, ec, st'))"
    by (rule consume_first_pass [OF assms(1) g assms(5)])
qed

text \<open>The header fields of a frame on the wire.\<close>

definition frame_header :: "u32 option \<Rightarrow> frame \<Rightarrow> basic_header" where
  "frame_header key f =
     basic_header_make (fr_op f) (of_nat (length (fr_payload f))) (fr_fin f) (key \<noteq> None) False False False"

definition frame_ext :: "host \<Rightarrow> u32 option \<Rightarrow> frame \<Rightarrow> bytes" where
  "frame_ext h key f =
     size_field (of_nat (length (fr_payload f))) @ (case key of None \<Rightarrow> [] | Some k \<Rightarrow> mem_of h 4 k)"

definition frame_body :: "host \<Rightarrow> u32 option \<Rightarrow> frame \<Rightarrow> bytes" where
  "frame_body h key f = (case key of None \<Rightarrow> fr_payload f | Some k \<Rightarrow> byte_mask h (fr_payload f) k 0)"

lemma wire_parts:
  "wire h key f = [b0 (frame_header key f), b1 (frame_header key f)] @ frame_ext h key f @ frame_body h key f"
  by (simp add: wire_def wire_header_def frame_header_def frame_ext_def frame_body_def Let_def)

lemma frame_header_fields:
  "get_fin (frame_header key f) = fr_fin f" "get_opcode (frame_header key f) = fr_op f"
  "get_rsv1 (frame_header key f) = False" "get_rsv2 (frame_header key f) = False"
  "get_rsv3 (frame_header key f) = False" "get_masked (frame_header key f) = (key \<noteq> None)"
  "get_basic_size (frame_header key f) = size_code (of_nat (length (fr_payload f)))"
  by (simp_all add: frame_header_def basic_header_fields)

lemma frame_ext_length: "get_header_len (frame_header key f) - BASIC_HEADER_LENGTH = length (frame_ext h key f)"
  by (simp add: frame_header_def header_len frame_ext_def frame_consts split: option.split)

lemma frame_ext_length_le: "length (frame_ext h key f) \<le> MAX_EXTENDED_HEADER_LENGTH"
  using header_len_bound [of "frame_header key f"] by (simp add: frame_ext_length [of key f h])

lemma length_frame_body [simp]: "length (frame_body h key f) = length (fr_payload f)"
  by (simp add: frame_body_def byte_mask_stream split: option.split)

lemma body_or_nothing: "frame_body h key f @ rest \<noteq> [] \<or> of_nat (length (fr_payload f)) = (0 :: u64)"
proof (cases "frame_body h key f = []")
  case True
  then have "length (fr_payload f) = 0" by (metis length_frame_body list.size(3))
  then show ?thesis by simp
qed simp

lemma frame_size_read:
  "get_payload_size h (frame_header key f) (frame_ext h key f @ zs) = of_nat (length (fr_payload f))"
  by (rule payload_size_read [of _ _ _ "(case key of None \<Rightarrow> [] | Some k \<Rightarrow> mem_of h 4 k) @ zs"])
    (simp_all add: frame_header_fields frame_ext_def)

lemma frame_key_read:
  "get_masking_key h (frame_header key f) (frame_ext h key f @ zs) = (case key of None \<Rightarrow> 0 | Some k \<Rightarrow> k)"
  using of_mem_of [where 'a = 32, of 4 h]
  by (simp add: get_masking_key_def frame_header_def basic_header_fields masking_key_offset frame_ext_def split: option.split)

lemma frame_ext_valid:
  "validate_incoming_extended_header h (frame_header key f) (frame_ext h key f @ zs) = None"
  unfolding validate_incoming_extended_header_def frame_size_read frame_header_fields Let_def
  by (auto simp: frame_consts word_unat_eq_iff unat_size_code word_le_nat_alt split: if_splits)

text \<open>\<open>validate_incoming_basic_header\<close> implements the rules for the header.\<close>

lemma header_error_valid:
  assumes "length (fr_payload f) < 2 ^ 64"
  shows "validate_incoming_basic_header (frame_header key f) server new_msg = header_error server new_msg key f"
proof -
  have "payload_size_basic < size_code (of_nat (length (fr_payload f))) \<longleftrightarrow> 125 < length (fr_payload f)"
    using assms by (simp add: frame_consts word_less_nat_alt unat_size_code unat_of_nat)
  then show ?thesis
    unfolding validate_incoming_basic_header_def header_error_def frame_header_fields Let_def
    by (cases "fr_op f") (simp_all add: opcode_reserved_def opcode_invalid_def less_eq_opcode_def is_control_def)
qed

text \<open>After the two header passes.\<close>

definition header_read :: "host \<Rightarrow> u32 option \<Rightarrow> frame \<Rightarrow> hybi13 \<Rightarrow> hybi13" where
  "header_read h key f st =
     st\<lparr>p_basic_header := frame_header key f, p_state := HEADER_EXTENDED,
        p_extended_header := frame_ext h key f @ drop (length (frame_ext h key f)) (p_extended_header st),
        p_cursor := length (frame_ext h key f), p_bytes_needed := 0\<rparr>"

text \<open>The first pass: the two bytes of the basic header.\<close>

lemma basic_step:
  fixes key :: "u32 option"
  assumes "p_state st = HEADER_BASIC" and "p_bytes_needed st = 2" and "length (fr_payload f) < 2 ^ 64"
  defines "st1 \<equiv> st\<lparr>p_basic_header := frame_header key f, p_bytes_needed := 0\<rparr>"
  shows "consume_step h (wire h key f @ rest) st =
    (case header_error (p_server st) (md_msg (p_data_msg st) = None) key f of
       Some e \<Rightarrow> Inr (Break st1 2 (Some (ProcessorError e)))
     | None \<Rightarrow> Inr (Go_on (st1\<lparr>p_state := HEADER_EXTENDED, p_cursor := 0,
                 p_bytes_needed := of_nat (length (frame_ext h key f))\<rparr>) 2))"
proof -
  have b: "\<lparr>b0 = b0 (frame_header key f), b1 = b1 (frame_header key f)\<rparr> = frame_header key f" by simp
  have "copy_basic_header_bytes (wire h key f @ rest) st = (2, st1)"
    using assms(2) by (simp add: copy_basic_header_bytes_def wire_parts st1_def)
  then show ?thesis
    using assms(1) frame_ext_length [of key f h]
    by (simp add: consume_step_def header_error_valid [OF assms(3)] st1_def split: option.split)
qed

lemma header_refused:
  assumes "hybi_ok h st" and "p_state st = HEADER_BASIC" and "p_bytes_needed st = 2" and "length (fr_payload f) < 2 ^ 64"
    and "header_error (p_server st) (md_msg (p_data_msg st) = None) key f = Some e"
  shows "\<exists>n st'. consume h (wire h key f @ rest) st = Inr (n, Some (ProcessorError e), st')"
proof -
  have "consume_guard (wire h key f @ rest) st" using assms(2) by (simp add: consume_guard_def wire_parts)
  then show ?thesis
    using consume_break basic_step [OF assms(2-4), of h key rest] assms(5) by fastforce
qed

text \<open>The second pass: the size and the key.\<close>

lemma extended_pass:
  assumes "host_ok h" and "hybi_ok h st" and "p_state st = HEADER_BASIC" and "p_bytes_needed st = 2"
    and "length (fr_payload f) < 2 ^ 64" and "header_error (p_server st) (md_msg (p_data_msg st) = None) key f = None"
  obtains st1 where "hybi_ok h st1" "\<not> ready st1" "p_bytes_needed st1 = of_nat (length (frame_ext h key f))"
    "consume_step h (frame_ext h key f @ frame_body h key f @ rest) st1 =
       Inr (start_payload h (length (frame_ext h key f)) (header_read h key f st))"
    "consume h (wire h key f @ rest) st =
      (case consume h (frame_ext h key f @ frame_body h key f @ rest) st1 of
         Inl e \<Rightarrow> Inl e | Inr (n, ec, st') \<Rightarrow> Inr (2 + n, ec, st'))"
proof -
  let ?e = "frame_ext h key f"
  let ?st1 = "st\<lparr>p_basic_header := frame_header key f, p_state := HEADER_EXTENDED, p_cursor := 0, p_bytes_needed := of_nat (length ?e)\<rparr>"
  have nr: "\<not> ready st" using assms(3) by (simp add: ready_def)
  have s1: "consume_step h (wire h key f @ rest) st = Inr (Go_on ?st1 2)"
    using basic_step [OF assms(3-5), of h key rest] assms(6) by simp
  have ne: "wire h key f @ rest \<noteq> []" by (simp add: wire_parts)
  note p1 = consume_pass [OF assms(1,2) nr disjI1 [OF ne] s1]
  have le: "length ?e \<le> 12" using frame_ext_length_le [of h key f] by (simp add: frame_consts)
  then have u: "unat (of_nat (length ?e) :: u64) = length ?e" by (simp add: unat_of_nat)
  have "copy_extended_header_bytes (?e @ frame_body h key f @ rest) ?st1 = (length ?e, header_read h key f st)"
    by (simp add: copy_extended_header_bytes_def u copy_to_def header_read_def Let_def)
  then have s2: "consume_step h (?e @ frame_body h key f @ rest) ?st1 =
      Inr (start_payload h (length ?e) (header_read h key f st))"
    using frame_ext_valid [of h key f] by (simp add: consume_step_def header_read_def)
  have d: "drop 2 (wire h key f @ rest) = ?e @ frame_body h key f @ rest" by (simp add: wire_parts)
  show thesis by (rule that [OF p1(1) _ _ s2]) (use p1(2) [unfolded d] in \<open>simp_all add: ready_def\<close>)
qed

lemma header_passes:
  assumes "host_ok h" and "hybi_ok h st" and "p_state st = HEADER_BASIC" and "p_bytes_needed st = 2"
    and "length (fr_payload f) < 2 ^ 64" and "header_error (p_server st) (md_msg (p_data_msg st) = None) key f = None"
    and "start_payload h (length (frame_ext h key f)) (header_read h key f st) = Go_on st3 m"
  shows "hybi_ok h st3" and "consume h (wire h key f @ rest) st =
    (case consume h (frame_body h key f @ rest) st3 of
       Inl e \<Rightarrow> Inl e | Inr (n, ec, st') \<Rightarrow> Inr (length (frame_ext h key f) + 2 + n, ec, st'))"
proof -
  let ?e = "frame_ext h key f"
  obtain st1 where st1: "hybi_ok h st1" "\<not> ready st1" "p_bytes_needed st1 = of_nat (length ?e)"
    "consume_step h (?e @ frame_body h key f @ rest) st1 = Inr (start_payload h (length ?e) (header_read h key f st))"
    "consume h (wire h key f @ rest) st =
      (case consume h (?e @ frame_body h key f @ rest) st1 of Inl e \<Rightarrow> Inl e | Inr (n, ec, st') \<Rightarrow> Inr (2 + n, ec, st'))"
    using extended_pass [OF assms(1-6)] by metis
  have m: "m = length ?e" using start_payload_rank [OF assms(7)] by simp
  have g: "?e @ frame_body h key f @ rest \<noteq> [] \<or> p_bytes_needed st1 = 0" using st1(3) by auto
  note p2 = consume_pass [OF assms(1) st1(1,2) g st1(4) [unfolded assms(7)]]
  show "hybi_ok h st3" by (rule p2(1))
  have d: "drop m (?e @ frame_body h key f @ rest) = frame_body h key f @ rest" by (simp add: m)
  show "consume h (wire h key f @ rest) st =
    (case consume h (frame_body h key f @ rest) st3 of
       Inl e \<Rightarrow> Inl e | Inr (n, ec, st') \<Rightarrow> Inr (length ?e + 2 + n, ec, st'))"
    unfolding st1(5) p2(2) d by (simp add: m split: sum.split prod.split)
qed

text \<open>A frame that is refused when its payload should start.\<close>

lemma payload_refused:
  assumes "host_ok h" and "hybi_ok h st" and "p_state st = HEADER_BASIC" and "p_bytes_needed st = 2"
    and "length (fr_payload f) < 2 ^ 64" and "header_error (p_server st) (md_msg (p_data_msg st) = None) key f = None"
    and "start_payload h (length (frame_ext h key f)) (header_read h key f st) = Break st3 m (Some e)"
  shows "\<exists>n st'. consume h (wire h key f @ rest) st = Inr (n, Some e, st')"
proof -
  let ?b = "frame_ext h key f @ frame_body h key f @ rest"
  obtain st1 where st1: "hybi_ok h st1" "\<not> ready st1" "p_bytes_needed st1 = of_nat (length (frame_ext h key f))"
    "consume_step h ?b st1 = Inr (Break st3 m (Some e))"
    "consume h (wire h key f @ rest) st =
      (case consume h ?b st1 of Inl e \<Rightarrow> Inl e | Inr (n, ec, st') \<Rightarrow> Inr (2 + n, ec, st'))"
    using extended_pass [OF assms(1-6), of rest] unfolding assms(7) by metis
  have "consume_guard ?b st1" using st1(1-3) by (auto simp: consume_guard_def ready_def hybi_ok_def)
  from consume_break [OF this st1(4)] st1(5) show ?thesis by simp
qed

lemma process_empty:
  assumes "host_ok h" and "hybi_ok h st" and "p_state st = APPLICATION"
  shows "process_payload_bytes h [] st = Inr (0, None, st)"
proof -
  obtain msg c where m: "md_msg (current_msg st) = Some msg" "key_pattern h (md_key (current_msg st)) c"
    using assms(2,3) by (auto simp: hybi_ok_def elim: current_ok_msgE)
  have "next_key h [] st = md_key (current_msg st)"
    using byte_circ.next_key [OF assms(1) m(2), of "[]"] m(2) by (auto simp: next_key_def intro: key_from_pattern)
  moreover have "unmasked h [] st = []" by (metis length_unmasked length_0_conv)
  ultimately have "payload_md h [] st msg (md_validator (current_msg st)) = current_msg st"
    using m(1) by (simp add: payload_md_def)
  moreover have "set_current_msg (current_msg st) st = st"
    by (simp add: set_current_msg_def current_msg_def split: current.split)
  moreover have "payload_check st msg [] = (True, md_validator (current_msg st))" by (simp add: payload_check_def)
  ultimately show ?thesis
    using process_payload_check [OF m(1), of h "[]"] \<open>unmasked h [] st = []\<close> by simp
qed

lemma application_step:
  assumes "host_ok h" and "hybi_ok h st" and "p_state st = APPLICATION"
  shows "consume_step h buf st =
    and_then (process_payload_bytes h (take (min (unat (p_bytes_needed st)) (length buf)) buf) st)
      (\<lambda>(n, ec, st). if ec \<noteq> None then Inr (Break st n ec) else end_frame n st)"
  using process_empty [OF assms] assms(3)
  by (cases "0 < min (unat (p_bytes_needed st)) (length buf)") (auto simp: consume_step_def Let_def)

definition payload_read :: "host \<Rightarrow> u32 option \<Rightarrow> frame \<Rightarrow> message \<Rightarrow> validator \<Rightarrow> hybi13 \<Rightarrow> hybi13" where
  "payload_read h key f msg v st =
     (set_current_msg \<lparr>md_msg = Some (msg\<lparr>m_payload := m_payload msg @ fr_payload f\<rparr>),
        md_key = next_key h (frame_body h key f) st, md_validator = v\<rparr> st)\<lparr>p_bytes_needed := 0\<rparr>"

lemma payload_bytes:
  assumes "host_ok h" and "p_basic_header st = frame_header key f" and "p_bytes_needed st = of_nat (length (fr_payload f))"
    and "md_key (current_msg st) = prepare_masking_key (case key of None \<Rightarrow> 0 | Some k \<Rightarrow> k)"
    and "md_msg (current_msg st) = Some msg" and "payload_check st msg (fr_payload f) = (ok, v)"
  shows "\<exists>st'. process_payload_bytes h (frame_body h key f) st =
    (if ok then Inr (length (fr_payload f), None, payload_read h key f msg v st)
     else Inr (0, Some (ProcessorError PE_invalid_utf8), st'))"
proof -
  let ?b = "frame_body h key f"
  have un: "unmasked h ?b st = fr_payload f"
  proof (cases key)
    case (Some k)
    have "fst (byte_mask_circ h ?b (md_key (current_msg st))) = xor_stream (mem_of h 4 k) 0 ?b"
      using byte_circ.masks [OF assms(1) key_pattern_prepared] assms(4) Some by simp
    then show ?thesis
      using Some by (simp add: unmasked_def assms(2) frame_header_fields frame_body_def byte_mask_stream xor_stream_involution)
  qed (simp add: unmasked_def assms(2) frame_header_fields frame_body_def)
  show ?thesis
    using process_payload_check [OF assms(5), of h ?b ok v] assms(3,6)
    by (simp add: un payload_md_def payload_read_def)
qed

lemma whole_payload_step:
  assumes "host_ok h" and "hybi_ok h st" and "p_state st = APPLICATION"
    and "p_bytes_needed st = of_nat (length (fr_payload f))" and "length (fr_payload f) < 2 ^ 64"
  shows "consume_step h (frame_body h key f @ rest) st =
    and_then (process_payload_bytes h (frame_body h key f) st)
      (\<lambda>(n, ec, st). if ec \<noteq> None then Inr (Break st n ec) else end_frame n st)"
  unfolding application_step [OF assms(1-3)] using assms(4,5) by (simp add: unat_of_nat)

lemma payload_pass:
  assumes "host_ok h" and "hybi_ok h st" and "p_state st = APPLICATION"
    and "p_basic_header st = frame_header key f" and "p_bytes_needed st = of_nat (length (fr_payload f))"
    and "length (fr_payload f) < 2 ^ 64"
    and "md_key (current_msg st) = prepare_masking_key (case key of None \<Rightarrow> 0 | Some k \<Rightarrow> k)"
    and "md_msg (current_msg st) = Some msg" and "payload_check st msg (fr_payload f) = (True, v)"
  shows "consume_step h (frame_body h key f @ rest) st = end_frame (length (fr_payload f)) (payload_read h key f msg v st)"
    and "hybi_ok h (payload_read h key f msg v st)"
    and "p_state (payload_read h key f msg v st) = APPLICATION"
proof -
  have p: "process_payload_bytes h (frame_body h key f) st = Inr (length (fr_payload f), None, payload_read h key f msg v st)"
    using payload_bytes [OF assms(1,4,5,7-9)] by simp
  then show "consume_step h (frame_body h key f @ rest) st = end_frame (length (fr_payload f)) (payload_read h key f msg v st)"
    unfolding whole_payload_step [OF assms(1-3,5,6)] by simp
  show "hybi_ok h (payload_read h key f msg v st)" "p_state (payload_read h key f msg v st) = APPLICATION"
    using process_payload_ok [OF assms(1-3) p] by simp_all
qed

text \<open>A frame that ends its message leaves the processor ready; one that does not leaves it
  between frames.\<close>

lemma frame_ends:
  assumes "host_ok h" and "hybi_ok h st" and "p_state st = APPLICATION" and "p_basic_header st = frame_header key f"
    and "p_bytes_needed st = 0"
    and "fr_op f = Text \<Longrightarrow> fr_fin f \<Longrightarrow> validator_complete (md_validator (current_msg st))"
  shows "end_frame n st = Inr (Go_on (if fr_fin f then st\<lparr>p_state := READY\<rparr> else reset_headers st) n)"
  using assms(4-6) frame_header_fields(1,2) [of key f]
  by (rule_tac finalize_message_ok [OF assms(2,3)]) (auto simp: end_frame_def)

lemma consume_frame:
  assumes "host_ok h" and "hybi_ok h st" and "p_state st = HEADER_BASIC" and "p_bytes_needed st = 2"
    and "header_error (p_server st) (md_msg (p_data_msg st) = None) key f = None"
    and "start_payload h (length (frame_ext h key f)) (header_read h key f st) = Go_on st3 m"
    and "p_basic_header st3 = frame_header key f" and "p_bytes_needed st3 = of_nat (length (fr_payload f))"
    and "length (fr_payload f) < 2 ^ 64" and "p_state st3 = APPLICATION"
    and "md_key (current_msg st3) = prepare_masking_key (case key of None \<Rightarrow> 0 | Some k \<Rightarrow> k)"
    and "md_msg (current_msg st3) = Some msg" and "payload_check st3 msg (fr_payload f) = (True, v)"
    and "fr_op f = Text \<Longrightarrow> fr_fin f \<Longrightarrow> validator_complete v"
  shows "fr_fin f \<Longrightarrow> consume h (wire h key f @ rest) st =
      Inr (length (wire h key f), None, (payload_read h key f msg v st3)\<lparr>p_state := READY\<rparr>)"
    and "fr_fin f \<Longrightarrow> hybi_ok h ((payload_read h key f msg v st3)\<lparr>p_state := READY\<rparr>)"
    and "\<not> fr_fin f \<Longrightarrow> hybi_ok h (reset_headers (payload_read h key f msg v st3))"
    and "\<not> fr_fin f \<Longrightarrow> consume h (wire h key f @ rest) st =
      (case consume h rest (reset_headers (payload_read h key f msg v st3)) of
         Inl e \<Rightarrow> Inl e | Inr (n, ec, st') \<Rightarrow> Inr (length (wire h key f) + n, ec, st'))"
proof -
  let ?p = "payload_read h key f msg v st3"
  note H = header_passes [OF assms(1-4,9,5,6)]
  note P = payload_pass [OF assms(1) H(1) assms(10,7,8,9,11,12,13)]
  have f: "p_basic_header ?p = frame_header key f" "p_bytes_needed ?p = 0" "md_validator (current_msg ?p) = v"
    using assms(7) by (simp_all add: payload_read_def)
  have "end_frame (length (fr_payload f)) ?p =
      Inr (Go_on (if fr_fin f then ?p\<lparr>p_state := READY\<rparr> else reset_headers ?p) (length (fr_payload f)))"
    by (rule frame_ends [OF assms(1) P(2,3) f(1,2)]) (use assms(14) f(3) in simp)
  with P(1) [of rest] have s: "consume_step h (frame_body h key f @ rest) st3 =
      Inr (Go_on (if fr_fin f then ?p\<lparr>p_state := READY\<rparr> else reset_headers ?p) (length (fr_payload f)))" by simp
  have g: "frame_body h key f @ rest \<noteq> [] \<or> p_bytes_needed st3 = 0"
    unfolding assms(8) by (rule body_or_nothing)
  have nr: "\<not> ready st3" using assms(10) by (simp add: ready_def)
  note C = consume_pass [OF assms(1) H(1) nr g s]
  have len: "length (wire h key f) = length (frame_ext h key f) + 2 + length (fr_payload f)"
    by (simp add: wire_parts)
  show "fr_fin f \<Longrightarrow> hybi_ok h (?p\<lparr>p_state := READY\<rparr>)" "\<not> fr_fin f \<Longrightarrow> hybi_ok h (reset_headers ?p)"
    using C(1) by simp_all
  show "fr_fin f \<Longrightarrow> consume h (wire h key f @ rest) st = Inr (length (wire h key f), None, ?p\<lparr>p_state := READY\<rparr>)"
    unfolding H(2) C(2) by (simp add: len consume_stops consume_guard_def)
  show "\<not> fr_fin f \<Longrightarrow> consume h (wire h key f @ rest) st =
      (case consume h rest (reset_headers ?p) of Inl e \<Rightarrow> Inl e | Inr (n, ec, st') \<Rightarrow> Inr (length (wire h key f) + n, ec, st'))"
    unfolding H(2) C(2) by (simp add: len split: sum.split prod.split)
qed

text \<open>A frame whose text is not UTF-8, or is unfragmented and not complete.\<close>

lemma consume_bad_text:
  assumes "host_ok h" and "hybi_ok h st" and "p_state st = HEADER_BASIC" and "p_bytes_needed st = 2"
    and "header_error (p_server st) (md_msg (p_data_msg st) = None) key f = None"
    and "start_payload h (length (frame_ext h key f)) (header_read h key f st) = Go_on st3 m"
    and "p_basic_header st3 = frame_header key f" and "p_bytes_needed st3 = of_nat (length (fr_payload f))"
    and "length (fr_payload f) < 2 ^ 64" and "p_state st3 = APPLICATION"
    and "md_key (current_msg st3) = prepare_masking_key (case key of None \<Rightarrow> 0 | Some k \<Rightarrow> k)"
    and "md_msg (current_msg st3) = Some msg" and "payload_check st3 msg (fr_payload f) = (ok, v)"
    and "ok \<Longrightarrow> fr_op f = Text \<and> fr_fin f \<and> \<not> validator_complete v"
  shows "\<exists>n st'. consume h (wire h key f @ rest) st = Inr (n, Some (ProcessorError PE_invalid_utf8), st')"
proof -
  let ?p = "payload_read h key f msg v st3" and ?b = "frame_body h key f @ rest"
  note H = header_passes [OF assms(1-4,9,5,6)]
  have s: "\<exists>n st'. consume_step h ?b st3 = Inr (Break st' n (Some (ProcessorError PE_invalid_utf8)))"
  proof (cases ok)
    case True
    note P = payload_pass [OF assms(1) H(1) assms(10,7,8,9,11,12)]
    have ck: "payload_check st3 msg (fr_payload f) = (True, v)" using assms(13) True by simp
    have f: "p_basic_header ?p = frame_header key f" "p_bytes_needed ?p = 0" "md_validator (current_msg ?p) = v"
      using assms(7) by (simp_all add: payload_read_def)
    have "end_frame (length (fr_payload f)) ?p =
        Inr (Break ?p (length (fr_payload f)) (Some (ProcessorError PE_invalid_utf8)))"
      using assms(14) [OF True] f frame_header_fields(1,2) [of key f]
      by (rule_tac finalize_message_ok [OF P(2,3) [OF ck]]) (auto simp: end_frame_def)
    then show ?thesis using P(1) [OF ck] by simp
  next
    case False
    then show ?thesis
      using payload_bytes [OF assms(1,7,8,11-13)] whole_payload_step [OF assms(1) H(1) assms(10,8,9), of key rest]
      by auto
  qed
  have "?b \<noteq> [] \<or> p_bytes_needed st3 = 0" unfolding assms(8) by (rule body_or_nothing)
  then have "consume_guard ?b st3" unfolding consume_guard_def length_greater_0_conv using assms(10) by simp
  with s obtain n st' where "consume h ?b st3 = Inr (n, Some (ProcessorError PE_invalid_utf8), st')"
    using consume_break by blast
  then show ?thesis unfolding H(2) by simp
qed

subsection \<open>One frame\<close>

text \<open>The observable part of a message.\<close>

definition msg_view :: "message \<Rightarrow> opcode \<times> bytes" where
  "msg_view m = (m_opcode m, m_payload m)"

lemma read_buffer_shift:
  assumes "consume h (xs @ rest) st =
      (case consume h rest st' of Inl e \<Rightarrow> Inl e | Inr (n, ec, s) \<Rightarrow> Inr (length xs + n, ec, s))"
    and "xs \<noteq> []" and "p_state st' = HEADER_BASIC" and "p_bytes_needed st' = 2"
  shows "read_buffer h (xs @ rest) st = read_buffer h rest st'"
proof (cases "rest = []")
  case True
  have "consume h [] st' = Inr (0, None, st')" using assms(3,4) by (simp add: consume_stops consume_guard_def)
  then show ?thesis
    using assms True by (subst read_buffer.simps) (simp add: ready_def)
next
  case False
  then show ?thesis
    using assms(1,2) by (subst (1 2) read_buffer.simps) (simp split: sum.split prod.split)
qed

lemma message_new_simps [simp]:
  "m_opcode (message_new op) = op" "m_payload (message_new op) = []"
  by (simp_all add: message_new_def)

lemma msg_metadata_make_simps [simp]:
  "md_msg (msg_metadata_make m k) = Some m" "md_key (msg_metadata_make m k) = prepare_masking_key k"
  "md_validator (msg_metadata_make m k) = validator_init"
  by (simp_all add: msg_metadata_make_def)

lemma get_message_frame:
  assumes "get_message st = Inr (Some msg, st')"
  shows "p_server st' = p_server st" "p_max_message_size st' = p_max_message_size st"
    and "p_current_msg st = DataMsg \<Longrightarrow> md_msg (p_data_msg st') = None"
    and "p_current_msg st = ControlMsg \<Longrightarrow> is_control (m_opcode msg) \<Longrightarrow> p_data_msg st' = p_data_msg st"
  using assms
  by (auto simp: get_message_def Let_def set_current_msg_def reset_headers_def and_then_eq_Inr split: if_splits current.splits)

lemma control_frame:
  assumes "host_ok h" and "between_frames h server mx acc st" and "header_error server (acc = None) key f = None"
    and "is_control (fr_op f)"
  obtains msg st' where "msg_view msg = (fr_op f, fr_payload f)" "between_frames h server mx acc st'"
    "\<And>rest ms e s. read_buffer h rest st' = Some (Inr (ms, e, s)) \<Longrightarrow>
       read_buffer h (wire h key f @ rest) st = Some (Inr (msg # ms, e, s))"
proof -
  have B: "hybi_ok h st" "p_state st = HEADER_BASIC" "p_bytes_needed st = 2" "p_server st = server"
    using assms(2) by (simp_all add: between_frames_def)
  have fits: "header_error (p_server st) (md_msg (p_data_msg st) = None) key f = None"
    using assms(3) B(4) between_new [OF assms(2)] by simp
  have fin: "fr_fin f" "length (fr_payload f) \<le> 125"
    using assms(3,4) by (auto simp: header_error_def split: if_splits)
  let ?k = "case key of None \<Rightarrow> 0 | Some k \<Rightarrow> k"
  let ?hr = "header_read h key f st"
  let ?st3 = "?hr\<lparr>p_state := APPLICATION, p_bytes_needed := of_nat (length (fr_payload f)),
     p_control_msg := msg_metadata_make (message_new (fr_op f)) ?k, p_current_msg := ControlMsg\<rparr>"
  have sp: "start_payload h (length (frame_ext h key f)) ?hr = Go_on ?st3 (length (frame_ext h key f))"
    using assms(4)
    by (simp add: start_payload_def header_read_def frame_header_fields frame_size_read frame_key_read)
  have cm: "current_msg ?st3 = msg_metadata_make (message_new (fr_op f)) ?k" by (simp add: current_msg_def)
  let ?m = "message_new (fr_op f)"
  have ck: "payload_check ?st3 ?m (fr_payload f) = (True, validator_init)"
    using assms(4) unfolding payload_check_def cm by (auto simp: is_control_def)
  let ?s5 = "(payload_read h key f ?m validator_init ?st3)\<lparr>p_state := READY\<rparr>"
  have hb: "p_basic_header ?st3 = frame_header key f" by (simp add: header_read_def)
  have nt: "fr_op f \<noteq> Text" using assms(4) by (auto simp: is_control_def)
  have C: "consume h (wire h key f @ rest) st = Inr (length (wire h key f), None, ?s5)" "hybi_ok h ?s5" for rest
    using consume_frame(1,2) [OF assms(1) B(1-3) fits sp hb _ _ _ _ _ ck] fin nt
    by (simp_all add: cm)
  have r: "ready ?s5" by (simp add: ready_def)
  let ?msg = "?m\<lparr>m_payload := fr_payload f\<rparr>"
  have cur: "md_msg (current_msg ?s5) = Some ?msg"
    by (simp add: payload_read_def)
  obtain msg' st' where g: "get_message ?s5 = Inr (Some msg', st')" "md_msg (current_msg ?s5) = Some msg'"
      "hybi_ok h st'" "p_state st' = HEADER_BASIC" "p_bytes_needed st' = 2"
    using get_message_ok [OF C(2) r] by metis
  have [simp]: "msg' = ?msg" using g(2) cur by simp
  have "p_data_msg st' = p_data_msg st \<and> p_server st' = server \<and> p_max_message_size st' = p_max_message_size st"
    using get_message_frame [OF g(1)] assms(4) B(4)
    by (simp add: payload_read_def set_current_msg_def header_read_def)
  then have "between_frames h server mx acc st'"
    using assms(2) g(3-5) by (auto simp: between_frames_def split: option.splits)
  moreover have "read_buffer h (wire h key f @ rest) st = Some (Inr (?msg # ms, e, s))"
    if "read_buffer h rest st' = Some (Inr (ms, e, s))" for rest ms e s
    using read_buffer_cases(2) [OF _ C(1) refl r g(1) [simplified]] that by (simp add: wire_parts)
  ultimately show thesis using that [of ?msg st'] by (simp add: msg_view_def)
qed

lemma reset_headers_simps [simp]:
  "p_data_msg (reset_headers st) = p_data_msg st" "p_server (reset_headers st) = p_server st"
  "p_max_message_size (reset_headers st) = p_max_message_size st"
  by (simp_all add: reset_headers_def)

lemma data_start:
  assumes "between_frames h server mx acc st" and "\<not> is_control (fr_op f)" and "data_base (fr_op f) acc = (op0, q0)"
    and "length (q0 @ fr_payload f) \<le> unat mx"
  obtains md where "start_payload h (length (frame_ext h key f)) (header_read h key f st) =
      Go_on ((header_read h key f st)\<lparr>p_state := APPLICATION, p_bytes_needed := of_nat (length (fr_payload f)),
        p_data_msg := md, p_current_msg := DataMsg\<rparr>) (length (frame_ext h key f))"
    "data_rel (op0, q0) md" "md_key md = prepare_masking_key (case key of None \<Rightarrow> 0 | Some k \<Rightarrow> k)"
proof -
  let ?k = "case key of None \<Rightarrow> 0 | Some k \<Rightarrow> k"
  let ?hr = "header_read h key f st"
  let ?st2 = "\<lambda>md. ?hr\<lparr>p_state := APPLICATION, p_bytes_needed := of_nat (length (fr_payload f)),
        p_data_msg := md, p_current_msg := DataMsg\<rparr>"
  have mx: "p_max_message_size st = mx" using assms(1) by (simp add: between_frames_def)
  have lt: "length (q0 @ fr_payload f) < 2 ^ 64" using assms(4) unat_bounds(4) [of mx] by simp
  show thesis
  proof (cases acc)
    case None
    then have o: "op0 = fr_op f" "q0 = []" and n: "md_msg (p_data_msg st) = None"
      using assms(1,3) by (simp_all add: between_frames_def)
    have "\<not> mx < of_nat (length (fr_payload f))"
      using assms(4) lt o by (simp add: word_less_nat_alt unat_of_nat)
    then have "start_payload h (length (frame_ext h key f)) ?hr =
        Go_on (?st2 (msg_metadata_make (message_new (fr_op f)) ?k)) (length (frame_ext h key f))"
      using assms(2) n mx
      by (simp add: start_payload_def header_read_def frame_header_fields frame_size_read frame_key_read pmd_is_enabled_def)
    moreover have "data_rel (op0, q0) (msg_metadata_make (message_new (fr_op f)) ?k)"
      by (simp add: data_rel_def o validator_init_def utf8_accept_def utf8_reject_def msg_metadata_make_def)
    ultimately show thesis using that by simp
  next
    case (Some d)
    then have d: "d = (op0, q0)" "data_rel (op0, q0) (p_data_msg st)"
      using assms(1,3) by (simp_all add: between_frames_def)
    then obtain m where m: "md_msg (p_data_msg st) = Some m" "m_payload m = q0" by (auto simp: data_rel_def)
    have "unat (of_nat (length q0) + of_nat (length (fr_payload f)) :: u64) = length (q0 @ fr_payload f)"
      using lt by (simp add: unat_of_nat flip: of_nat_add)
    then have "\<not> mx < of_nat (length q0) + of_nat (length (fr_payload f))"
      using assms(4) by (simp add: word_less_nat_alt)
    then have "start_payload h (length (frame_ext h key f)) ?hr =
        Go_on (?st2 ((p_data_msg st)\<lparr>md_key := prepare_masking_key ?k\<rparr>)) (length (frame_ext h key f))"
      using assms(2) m mx
      by (simp add: start_payload_def header_read_def frame_header_fields frame_size_read frame_key_read)
    moreover have "data_rel (op0, q0) ((p_data_msg st)\<lparr>md_key := prepare_masking_key ?k\<rparr>)"
      using d(2) by (simp add: data_rel_def)
    ultimately show thesis using that by simp
  qed
qed

text \<open>A data frame with an acceptable header and size reaches its payload with the metadata of its message.\<close>

definition payload_state :: "host \<Rightarrow> u32 option \<Rightarrow> frame \<Rightarrow> msg_metadata \<Rightarrow> hybi13 \<Rightarrow> hybi13" where
  "payload_state h key f md st =
     (header_read h key f st)\<lparr>p_state := APPLICATION, p_bytes_needed := of_nat (length (fr_payload f)),
        p_data_msg := md, p_current_msg := DataMsg\<rparr>"

lemma payload_state_simps [simp]:
  "current_msg (payload_state h key f md st) = md" "p_basic_header (payload_state h key f md st) = frame_header key f"
  "p_state (payload_state h key f md st) = APPLICATION"
  "p_bytes_needed (payload_state h key f md st) = of_nat (length (fr_payload f))"
  by (simp_all add: payload_state_def current_msg_def header_read_def)

lemma too_big_refused:
  assumes "between_frames h server mx acc st" and "\<not> is_control (fr_op f)" and "data_base (fr_op f) acc = (op0, q0)"
    and "unat mx < length (q0 @ fr_payload f)" and "unat mx + length (fr_payload f) < 2 ^ 64"
  shows "\<exists>st3 m. start_payload h (length (frame_ext h key f)) (header_read h key f st) =
    Break st3 m (Some (ProcessorError PE_message_too_big))"
proof -
  have mx: "p_max_message_size st = mx" using assms(1) by (simp add: between_frames_def)
  have q: "length q0 \<le> unat mx" using assms(1,3) by (cases acc) (auto simp: between_frames_def)
  then have "unat (of_nat (length q0) + of_nat (length (fr_payload f)) :: u64) = length (q0 @ fr_payload f)"
    using assms(5) by (simp add: unat_of_nat flip: of_nat_add)
  then have big: "mx < of_nat (length q0) + of_nat (length (fr_payload f))"
    using assms(4) by (simp add: word_less_nat_alt)
  show ?thesis
  proof (cases acc)
    case None
    then have "q0 = []" "md_msg (p_data_msg st) = None" using assms(1,3) by (simp_all add: between_frames_def)
    then show ?thesis
      using assms(2) big mx
      by (simp add: start_payload_def header_read_def frame_header_fields frame_size_read)
  next
    case (Some d)
    then obtain m where "md_msg (p_data_msg st) = Some m" "m_payload m = q0"
      using assms(1,3) by (auto simp: between_frames_def data_rel_def)
    then show ?thesis
      using assms(2) big mx
      by (simp add: start_payload_def header_read_def frame_header_fields frame_size_read)
  qed
qed

text \<open>Data of a message in progress that goes bad, and data that is complete or not.\<close>

lemma data_check:
  assumes "data_rel (op, q) md" and "md_msg md = Some m"
  obtains v where "payload_check (payload_state h key f md st) m (fr_payload f) = (text_so_far op (q @ fr_payload f), v)"
    "text_so_far op (q @ fr_payload f) \<Longrightarrow>
       data_rel (op, q @ fr_payload f) \<lparr>md_msg = Some (m\<lparr>m_payload := m_payload m @ fr_payload f\<rparr>), md_key = k, md_validator = v\<rparr>"
    "op = Text \<Longrightarrow> text_so_far op (q @ fr_payload f) \<Longrightarrow> validator_complete v \<longleftrightarrow> text_valid op (q @ fr_payload f)"
proof -
  let ?r = "if op = Text then validator_decode (fr_payload f) (md_validator md) else (True, md_validator md)"
  have m: "m_opcode m = op" using assms by (auto simp: data_rel_def)
  have v: "op = Text \<Longrightarrow> v_state (md_validator md) = utf8_run q utf8_accept" "op = Text \<Longrightarrow> v_state (md_validator md) \<noteq> utf8_reject"
      "op = Text \<Longrightarrow> v_state (md_validator md) < 9"
    using assms(1) utf8_run_less [of 0 q] by (auto simp: data_rel_def utf8_accept_def)
  have "fst ?r \<longleftrightarrow> text_so_far op (q @ fr_payload f)"
    using validator_decode_run(1) [of "md_validator md" "fr_payload f"] v by (auto simp: text_so_far_def)
  then have "payload_check (payload_state h key f md st) m (fr_payload f) = (text_so_far op (q @ fr_payload f), snd ?r)"
    by (cases "op = Text") (simp_all add: payload_check_def m prod_eq_iff)
  moreover note rel = data_rel_append(2) [OF assms(1) _ assms(2), of "fr_payload f"]
  have "validator_complete (snd ?r) \<longleftrightarrow> text_valid op (q @ fr_payload f)" if "op = Text" "text_so_far op (q @ fr_payload f)"
    using rel [OF that(2), of 0] that(1) by (simp add: data_rel_def validator_complete_def text_valid_def validate_run)
  ultimately show thesis using rel by (intro that [of "snd ?r"])
qed

lemma data_setup:
  assumes "between_frames h server mx acc st" and "\<not> is_control (fr_op f)" and "data_base (fr_op f) acc = (op, q)"
    and "length (q @ fr_payload f) \<le> unat mx"
  obtains md m v where
    "start_payload h (length (frame_ext h key f)) (header_read h key f st) =
       Go_on (payload_state h key f md st) (length (frame_ext h key f))"
    "md_key md = prepare_masking_key (case key of None \<Rightarrow> 0 | Some k \<Rightarrow> k)" "md_msg md = Some m"
    "payload_check (payload_state h key f md st) m (fr_payload f) = (text_so_far op (q @ fr_payload f), v)"
    "text_so_far op (q @ fr_payload f) \<Longrightarrow>
       data_rel (op, q @ fr_payload f) (p_data_msg (payload_read h key f m v (payload_state h key f md st)))"
    "op = Text \<Longrightarrow> text_so_far op (q @ fr_payload f) \<Longrightarrow> validator_complete v \<longleftrightarrow> text_valid op (q @ fr_payload f)"
proof -
  obtain md where sp: "start_payload h (length (frame_ext h key f)) (header_read h key f st) =
      Go_on (payload_state h key f md st) (length (frame_ext h key f))"
    and md: "data_rel (op, q) md" "md_key md = prepare_masking_key (case key of None \<Rightarrow> 0 | Some k \<Rightarrow> k)"
    using data_start [OF assms] unfolding payload_state_def by metis
  obtain m where m: "md_msg md = Some m" using md(1) by (auto simp: data_rel_def)
  let ?st3 = "payload_state h key f md st"
  have pm: "p_data_msg (payload_read h key f m v ?st3) = \<lparr>md_msg = Some (m\<lparr>m_payload := m_payload m @ fr_payload f\<rparr>),
      md_key = next_key h (frame_body h key f) ?st3, md_validator = v\<rparr>" for v
    by (simp add: payload_read_def set_current_msg_def payload_state_def)
  show thesis
    using data_check [OF md(1) m, where k = "next_key h (frame_body h key f) ?st3"] that [OF sp md(2) m] unfolding pm by metis
qed

lemma data_frame_refused:
  assumes "host_ok h" and "between_frames h server mx acc st" and "header_error server (acc = None) key f = None"
    and "\<not> is_control (fr_op f)" and "data_base (fr_op f) acc = (op, q)" and "length (q @ fr_payload f) \<le> unat mx"
    and "abs_data (acc = None) (fr_fin f) op (q @ fr_payload f) = Inl e"
  shows "\<exists>n st'. consume h (wire h key f @ rest) st = Inr (n, Some (ProcessorError e), st')"
proof -
  have B: "hybi_ok h st" "p_state st = HEADER_BASIC" "p_bytes_needed st = 2"
      "header_error (p_server st) (md_msg (p_data_msg st) = None) key f = None"
    using assms(2,3) between_new [OF assms(2)] by (simp_all add: between_frames_def)
  have lt: "length (fr_payload f) < 2 ^ 64" using assms(6) unat_bounds(4) [of mx] by simp
  have e: "e = PE_invalid_utf8" using assms(7) by (auto simp: abs_data_def split: if_splits)
  have new: "op = fr_op f" if "acc = None" using that assms(5) by simp
  show ?thesis
  proof (rule data_setup [OF assms(2,4-6), where key = key])
    fix md m v
    assume sp: "start_payload h (length (frame_ext h key f)) (header_read h key f st) =
         Go_on (payload_state h key f md st) (length (frame_ext h key f))"
      and md: "md_key md = prepare_masking_key (case key of None \<Rightarrow> 0 | Some k \<Rightarrow> k)" "md_msg md = Some m"
      and ck: "payload_check (payload_state h key f md st) m (fr_payload f) = (text_so_far op (q @ fr_payload f), v)"
      and cv: "op = Text \<Longrightarrow> text_so_far op (q @ fr_payload f) \<Longrightarrow> validator_complete v \<longleftrightarrow> text_valid op (q @ fr_payload f)"
    show ?thesis unfolding e
      by (rule consume_bad_text [OF assms(1) B sp _ _ lt _ _ _ ck])
        (use assms(7) md cv new in \<open>auto simp: abs_data_def text_valid_def split: if_splits\<close>)
  qed
qed

text \<open>What a frame that was read means for the reading loop.\<close>

definition frame_done :: "host \<Rightarrow> bool \<Rightarrow> u64 \<Rightarrow> bytes \<Rightarrow> hybi13 \<Rightarrow> partial_msg \<Rightarrow> (opcode \<times> bytes) list \<Rightarrow> bool" where
  "frame_done h server mx bs st acc out \<longleftrightarrow>
     (\<exists>ms st'. map msg_view ms = out \<and> between_frames h server mx acc st' \<and>
        (\<forall>rest ms' e s. read_buffer h rest st' = Some (Inr (ms', e, s)) \<longrightarrow>
           read_buffer h (bs @ rest) st = Some (Inr (ms @ ms', e, s))))"

lemma final_data_frame:
  assumes c: "\<And>rest. consume h (wire h key f @ rest) st = Inr (length (wire h key f), None, p\<lparr>p_state := READY\<rparr>)"
    and ok: "hybi_ok h (p\<lparr>p_state := READY\<rparr>)" and rel: "data_rel d (p_data_msg p)"
    and p: "p_current_msg p = DataMsg" "p_server p = server" "p_max_message_size p = mx"
  shows "frame_done h server mx (wire h key f) st None [d]"
proof -
  let ?s = "p\<lparr>p_state := READY\<rparr>"
  have r: "ready ?s" by (simp add: ready_def)
  obtain msg st' where g: "get_message ?s = Inr (Some msg, st')" "md_msg (current_msg ?s) = Some msg"
      "hybi_ok h st'" "p_state st' = HEADER_BASIC" "p_bytes_needed st' = 2"
    using get_message_ok [OF ok r] by metis
  have "msg_view msg = d" using rel g(2) p(1) by (auto simp: data_rel_def msg_view_def current_msg_def)
  moreover have "between_frames h server mx None st'"
    using get_message_frame [OF g(1)] g(3-5) p by (simp add: between_frames_def)
  moreover have "read_buffer h (wire h key f @ rest) st = Some (Inr ([msg] @ ms, e, s))"
    if "read_buffer h rest st' = Some (Inr (ms, e, s))" for rest ms e s
    using read_buffer_cases(2) [OF _ c refl r g(1)] that by (simp add: wire_parts)
  ultimately show ?thesis unfolding frame_done_def by (intro exI [of _ "[msg]"] exI [of _ st']) simp
qed

lemma open_data_frame:
  assumes c: "\<And>rest. consume h (wire h key f @ rest) st = (case consume h rest (reset_headers p) of
      Inl e \<Rightarrow> Inl e | Inr (n, ec, st') \<Rightarrow> Inr (length (wire h key f) + n, ec, st'))"
    and ok: "hybi_ok h (reset_headers p)" and rel: "data_rel d (p_data_msg p)"
    and p: "p_server p = server" "p_max_message_size p = mx" "length (snd d) \<le> unat mx"
  shows "frame_done h server mx (wire h key f) st (Some d) []"
proof -
  have s: "p_state (reset_headers p) = HEADER_BASIC" "p_bytes_needed (reset_headers p) = 2"
    by (simp_all add: reset_headers_def frame_consts)
  have "read_buffer h (wire h key f @ rest) st = read_buffer h rest (reset_headers p)" for rest
    by (rule read_buffer_shift [OF c _ s]) (simp add: wire_parts)
  moreover have "between_frames h server mx (Some d) (reset_headers p)"
    using ok s rel p by (simp add: between_frames_def)
  ultimately show ?thesis unfolding frame_done_def by (intro exI [of _ "[]"] exI [of _ "reset_headers p"]) simp
qed

lemma data_frame_accepted:
  assumes "host_ok h" and "between_frames h server mx acc st" and "header_error server (acc = None) key f = None"
    and "\<not> is_control (fr_op f)" and "data_base (fr_op f) acc = (op, q)" and "length (q @ fr_payload f) \<le> unat mx"
    and "abs_data (acc = None) (fr_fin f) op (q @ fr_payload f) = Inr (acc', out)"
  shows "frame_done h server mx (wire h key f) st acc' out"
proof -
  have B: "hybi_ok h st" "p_state st = HEADER_BASIC" "p_bytes_needed st = 2"
      "header_error (p_server st) (md_msg (p_data_msg st) = None) key f = None"
    using assms(2,3) between_new [OF assms(2)] by (simp_all add: between_frames_def)
  have lt: "length (fr_payload f) < 2 ^ 64" using assms(6) unat_bounds(4) [of mx] by simp
  have ts: "text_so_far op (q @ fr_payload f)" using assms(7) by (simp add: abs_data_def split: if_splits)
  have new: "op = fr_op f \<and> acc = None" if "fr_op f = Text"
    using that assms(3-5) by (cases acc) (auto simp: header_error_def split: if_splits)
  show ?thesis
  proof (rule data_setup [OF assms(2,4-6), where key = key])
    fix md m v
    let ?p = "payload_read h key f m v (payload_state h key f md st)"
    assume sp: "start_payload h (length (frame_ext h key f)) (header_read h key f st) =
         Go_on (payload_state h key f md st) (length (frame_ext h key f))"
      and md: "md_key md = prepare_masking_key (case key of None \<Rightarrow> 0 | Some k \<Rightarrow> k)" "md_msg md = Some m"
      and ck: "payload_check (payload_state h key f md st) m (fr_payload f) = (text_so_far op (q @ fr_payload f), v)"
      and rel: "text_so_far op (q @ fr_payload f) \<Longrightarrow> data_rel (op, q @ fr_payload f) (p_data_msg ?p)"
      and cv: "op = Text \<Longrightarrow> text_so_far op (q @ fr_payload f) \<Longrightarrow> validator_complete v \<longleftrightarrow> text_valid op (q @ fr_payload f)"
    have ck': "payload_check (payload_state h key f md st) m (fr_payload f) = (True, v)" using ck ts by simp
    have cv': "validator_complete v" if "fr_op f = Text" "fr_fin f"
      using that assms(7) ts cv new by (auto simp: abs_data_def split: if_splits)
    note C = consume_frame [OF assms(1) B sp _ _ lt _ _ _ ck' cv']
    have p: "p_current_msg ?p = DataMsg" "p_server ?p = server" "p_max_message_size ?p = mx"
      using assms(2) by (simp_all add: between_frames_def payload_read_def set_current_msg_def payload_state_def header_read_def)
    show ?thesis
    proof (cases "fr_fin f")
      case True
      then have "acc' = None" "out = [(op, q @ fr_payload f)]" using assms(7) by (auto simp: abs_data_def split: if_splits)
      moreover have "frame_done h server mx (wire h key f) st None [(op, q @ fr_payload f)]"
        by (rule final_data_frame [OF _ _ rel [OF ts] p]) (use C(1,2) True md in simp_all)
      ultimately show ?thesis by simp
    next
      case False
      then have "acc' = Some (op, q @ fr_payload f)" "out = []" using assms(7) by (auto simp: abs_data_def split: if_splits)
      moreover have "frame_done h server mx (wire h key f) st (Some (op, q @ fr_payload f)) []"
        by (rule open_data_frame [OF _ _ rel [OF ts] p(2,3)]) (use C(3,4) False md assms(6) in simp_all)
      ultimately show ?thesis by simp
    qed
  qed
qed

subsection \<open>Sequences of frames\<close>

text \<open>The processor accepts what the receiver that is not strict accepts, and refuses the rest with the
  same error. The sum in the check of the size must not wrap around for the latter.\<close>

lemma read_frame_accepted:
  assumes "host_ok h" and "between_frames h server mx acc st"
    and "abs_frame False server (unat mx) (key, f) acc = Inr (acc', out)"
  shows "frame_done h server mx (wire h key f) st acc' out"
proof (cases "is_control (fr_op f)")
  case True
  have he: "header_error server (acc = None) key f = None" and o: "acc' = acc" "out = [(fr_op f, fr_payload f)]"
    using assms(3) True by (auto split: option.splits)
  show ?thesis
  proof (rule control_frame [OF assms(1,2) he True])
    fix msg st'
    assume "msg_view msg = (fr_op f, fr_payload f)" "between_frames h server mx acc st'"
      "\<And>rest ms e s. read_buffer h rest st' = Some (Inr (ms, e, s)) \<Longrightarrow>
         read_buffer h (wire h key f @ rest) st = Some (Inr (msg # ms, e, s))"
    then show ?thesis unfolding frame_done_def o by (intro exI [of _ "[msg]"] exI [of _ st']) simp
  qed
next
  case False
  obtain op q where b: "data_base (fr_op f) acc = (op, q)" by fastforce
  show ?thesis
    by (rule data_frame_accepted [OF assms(1,2) _ False b]) (use assms(3) False b in \<open>auto split: option.splits if_splits\<close>)
qed

lemma read_frame_refused:
  assumes "host_ok h" and "between_frames h server mx acc st" and "unat mx + length (fr_payload f) < 2 ^ 64"
    and "abs_frame False server (unat mx) (key, f) acc = Inl e"
  shows "\<exists>s. read_buffer h (wire h key f @ rest) st = Some (Inr ([], Some (ProcessorError e), s))"
proof -
  have B: "hybi_ok h st" "p_state st = HEADER_BASIC" "p_bytes_needed st = 2" "p_server st = server"
    using assms(2) by (simp_all add: between_frames_def)
  note nw = between_new [OF assms(2)]
  have lt: "length (fr_payload f) < 2 ^ 64" using assms(3) by simp
  obtain op q where b: "data_base (fr_op f) acc = (op, q)" by fastforce
  have "\<exists>n st'. consume h (wire h key f @ rest) st = Inr (n, Some (ProcessorError e), st')"
  proof (cases "header_error server (acc = None) key f")
    case (Some e')
    then have "e' = e" using assms(4) by simp
    then show ?thesis using header_refused [OF B(1-3) lt] Some B(4) nw by simp
  next
    case None
    then have c: "\<not> is_control (fr_op f)" using assms(4) by auto
    show ?thesis
    proof (cases "unat mx < length (q @ fr_payload f)")
      case True
      then have e: "e = PE_message_too_big" using assms(4) None c b by simp
      obtain st3 m where sp: "start_payload h (length (frame_ext h key f)) (header_read h key f st) =
          Break st3 m (Some (ProcessorError PE_message_too_big))"
        using too_big_refused [OF assms(2) c b True assms(3), of key] by blast
      show ?thesis
        unfolding e by (rule payload_refused [OF assms(1) B(1-3) lt _ sp]) (use None B(4) nw in simp)
    next
      case False
      then show ?thesis
        using data_frame_refused [OF assms(1,2) None c b] assms(4) None c b by simp
    qed
  qed
  then show ?thesis using read_buffer_cases(1) [of "wire h key f @ rest"] by (fastforce simp: wire_parts)
qed

abbreviation wires :: "host \<Rightarrow> (u32 option \<times> frame) list \<Rightarrow> bytes" where
  "wires h kfs \<equiv> concat (map (\<lambda>(key, f). wire h key f) kfs)"

lemma read_frames:
  assumes "host_ok h" and "between_frames h server mx acc st"
    and "abs_run False server (unat mx) kfs acc = (out, r)"
    and "isl r \<longrightarrow> list_all (\<lambda>(key, f). unat mx + length (fr_payload f) < 2 ^ 64) kfs"
  shows "\<exists>ms ec st'. read_buffer h (wires h kfs) st = Some (Inr (ms, ec, st')) \<and> map msg_view ms = out \<and>
    (case r of Inl e \<Rightarrow> ec = Some (ProcessorError e) | Inr acc' \<Rightarrow> ec = None \<and> between_frames h server mx acc' st')"
  using assms(2-4)
proof (induction kfs arbitrary: acc st out)
  case Nil
  then show ?case by (intro exI [of _ "[]"] exI [of _ None] exI [of _ st]) auto
next
  case (Cons kf kfs)
  obtain key f where kf: "kf = (key, f)" by (cases kf)
  show ?case
  proof (cases "abs_frame False server (unat mx) kf acc")
    case (Inl e)
    then have "out = []" "r = Inl e" using Cons.prems(2) by simp_all
    then show ?thesis
      using read_frame_refused [OF assms(1) Cons.prems(1), of f key e "wires h kfs"] Inl Cons.prems(3) by (auto simp: kf)
  next
    case (Inr x)
    obtain acc1 out1 where x: "x = (acc1, out1)" by (cases x)
    obtain out2 where a: "abs_run False server (unat mx) kfs acc1 = (out2, r)" "out = out1 @ out2"
      using Cons.prems(2) Inr x by (auto split: prod.splits)
    obtain ms1 st1 where f: "map msg_view ms1 = out1" "between_frames h server mx acc1 st1"
        "\<And>rest ms' e s. read_buffer h rest st1 = Some (Inr (ms', e, s)) \<Longrightarrow>
           read_buffer h (wire h key f @ rest) st = Some (Inr (ms1 @ ms', e, s))"
      using read_frame_accepted [OF assms(1) Cons.prems(1), of key f acc1 out1] Inr x unfolding frame_done_def by (auto simp: kf)
    show ?thesis
      using Cons.IH [OF f(2) a(1)] Cons.prems(3) f(1,3) a(2) by (fastforce simp: kf)
  qed
qed

text \<open>From a new processor, and with the stream cut into any chunks.\<close>

lemma receive_frames:
  assumes "host_ok h" and "abs_run False server (unat mx) kfs None = (out, r)"
    and "isl r \<longrightarrow> list_all (\<lambda>(key, f). unat mx + length (fr_payload f) < 2 ^ 64) kfs"
    and "concat cs = wires h kfs"
  shows "\<exists>ms ec st. receive h cs (hybi13_init server mx cursor cur k1 k2) = Some (Inr (ms, ec, st)) \<and>
    map msg_view ms = out \<and>
    (case r of Inl e \<Rightarrow> ec = Some (ProcessorError e) | Inr acc \<Rightarrow> ec = None \<and> between_frames h server mx acc st)"
proof -
  let ?st = "hybi13_init server mx cursor cur k1 k2"
  have nr: "\<not> ready ?st" by (simp add: hybi13_init_def reset_headers_def ready_def)
  obtain ms ec st' where r: "map msg_view ms = out" "read_buffer h (concat cs) ?st = Some (Inr (ms, ec, st'))"
      "case r of Inl e \<Rightarrow> ec = Some (ProcessorError e) | Inr acc \<Rightarrow> ec = None \<and> between_frames h server mx acc st'"
    using read_frames [OF assms(1) between_init assms(2,3)] assms(4) by metis
  obtain st where "receive h cs ?st = Some (Inr (ms, ec, st))" "ec = None \<longrightarrow> st = st'"
    using receive_ok [OF assms(1) hybi_ok_init nr, of cs] r(2) by auto
  then show ?thesis using r(1,3) by (auto split: sum.splits)
qed

subsection \<open>The sending side\<close>

text \<open>The frames on the wire do not depend on the byte order of the receiver.\<close>

lemma wire_host:
  "wire h (Some k) f = wire h' (Some (of_mem h' (mem_of h 4 k))) f" "wire h None f = wire h' None f"
proof -
  have "mem_of h' 4 (of_mem h' (mem_of h 4 k) :: u32) = mem_of h 4 k"
    by (rule mem_of_of_mem) simp_all
  then show "wire h (Some k) f = wire h' (Some (of_mem h' (mem_of h 4 k))) f"
    by (simp add: wire_def wire_header_def byte_mask_stream)
  show "wire h None f = wire h' None f" by (simp add: wire_def wire_header_def)
qed

lemma prepared_wire:
  assumes "prepare_data_frame h server rng (Some inp) outm = (None, Some out)"
  shows "m_header out @ m_payload out =
      wire h (if server then None else Some rng) (Frame (m_fin inp) (m_opcode inp) (m_payload inp))"
    and "\<not> is_control (m_opcode inp)" and "text_valid (m_opcode inp) (m_payload inp)"
  using assms
  by (auto simp: prepare_data_frame_def pmd_is_enabled_def masked_copy_def Let_def wire_def prepare_header_wire
      byte_mask_stream text_valid_def split: option.splits if_splits)

lemma prepared_control_wire:
  assumes "prepare_control h server rng op p outm = (None, Some out)"
  shows "m_header out @ m_payload out = wire h (if server then None else Some rng) (Frame True op p)"
    and "is_control op" and "length p \<le> 125"
  using assms
  by (auto simp: prepare_control_def masked_copy_def Let_def wire_def prepare_header_wire byte_mask_stream frame_consts
      split: option.splits if_splits)

lemma receive_prepared:
  assumes "host_ok h'"
    and "abs_run False (\<not> server) (unat mx) (map2 (\<lambda>r f. (if server then None else Some (of_mem h' (mem_of h 4 r)), f)) rs fs) None =
      (out, Inr acc)"
    and "concat cs = concat (map2 (\<lambda>r f. wire h (if server then None else Some r) f) rs fs)"
  shows "\<exists>ms st. receive h' cs (hybi13_init (\<not> server) mx cursor cur k1 k2) = Some (Inr (ms, None, st)) \<and>
    map msg_view ms = out"
proof -
  have "wire h (if server then None else Some r) f =
      wire h' (if server then None else Some (of_mem h' (mem_of h 4 r))) f" for r f
    using wire_host(1) [of h r f h'] wire_host(2) [of h f h'] by simp
  then have "concat cs = wires h' (map2 (\<lambda>r f. (if server then None else Some (of_mem h' (mem_of h 4 r)), f)) rs fs)"
    using assms(3) by (simp add: case_prod_unfold comp_def)
  from receive_frames [OF assms(1,2) _ this, of cursor cur k1 k2] show ?thesis by auto
qed

end
