(* ===== verification/Ws_Roundtrip.thy ===== *)
theory Ws_Roundtrip
  imports Ws_Wire
begin

section \<open>WebSocket endpoints understand each other\<close>

text \<open>
  The properties of the frame processor as a whole: refinement of the abstract receiver, the round
  trip of data messages and of the closing handshake, and two inputs on which the processor is
  more permissive than it means to be.
\<close>

subsection \<open>Refinement and round trips\<close>

text \<open>
  C7. The frame processor implements the abstract receiver on every sequence of frames, errors
  included. Take any frames at all: any opcodes (reserved ones too), final or not, any payloads,
  masked or not, in any order, each encoded with the shortest size field and clear reserved bits.
  Whatever the byte order of the host and the chunks in which the bytes arrive, the processor
  delivers exactly the messages the abstract receiver delivers. If the abstract receiver refuses a
  frame, the processor stops there with exactly the error the abstract receiver names (control frame
  too big or fragmented, opcode, continuation, masking, message size, UTF-8); otherwise it reports no
  error and its state represents the message in progress. The receiver is the one that asks only an
  unfragmented text to end with a complete code point (\<open>abs_run False\<close>); it agrees with the strict one
  of RFC 6455 (\<open>abs_run True\<close>) on every sequence the strict one does not refuse for its UTF-8. If a
  frame is refused, the limit plus the size of any frame must fit into 64 bits.
\<close>

theorem hybi13_refines_receiver:
  assumes "host_ok h" and "abs_run False server (unat mx) kfs None = (out, r)"
    and "isl r \<longrightarrow> list_all (\<lambda>(key, f). unat mx + length (fr_payload f) < 2 ^ 64) kfs"
    and "concat cs = concat (map (\<lambda>(key, f). wire h key f) kfs)"
  shows "(\<exists>ms ec st. receive h cs (hybi13_init server mx cursor cur k1 k2) = Some (Inr (ms, ec, st)) \<and>
      map msg_view ms = out \<and>
      (case r of Inl e \<Rightarrow> ec = Some (ProcessorError e) | Inr acc \<Rightarrow> ec = None \<and> between_frames h server mx acc st)) \<and>
    (abs_run True server (unat mx) kfs None = (out, r) \<or> snd (abs_run True server (unat mx) kfs None) = Inl PE_invalid_utf8)"
  using receive_frames [OF assms] strict_run [of server "unat mx" kfs None] assms(2) by simp

text \<open>The sample: a fragmented text with a ping between the fragments, sent to a server, and then a
  fragmented ping, which is refused.\<close>

definition sample_frames :: "(u32 option \<times> frame) list" where
  "sample_frames =
     [(Some 0x01020304, Frame False Text [0x68, 0xC3]), (Some 7, Frame True Ping [1]),
      (Some 0xA0B0C0D0, Frame True Continuation [0xA9]), (Some 9, Frame False Ping [2])]"

lemma sample_run:
  "abs_run False True 100 sample_frames None = ([(Ping, [1]), (Text, [0x68, 0xC3, 0xA9])], Inl PE_fragmented_control)"
  by code_simp

theorem hybi13_refines_receiver_witness:
  "\<exists>ms ec st. receive x86_host [concat (map (\<lambda>(key, f). wire x86_host key f) sample_frames)]
       (hybi13_init True 100 0 DataMsg 0 0) = Some (Inr (ms, ec, st)) \<and>
     map msg_view ms = [(Ping, [1]), (Text, [0x68, 0xC3, 0xA9])] \<and> ec = Some (ProcessorError PE_fragmented_control)"
proof -
  let ?cs = "[concat (map (\<lambda>(key, f). wire x86_host key f) sample_frames)]"
  have "abs_run False True (unat (100 :: u64)) sample_frames None =
      ([(Ping, [1]), (Text, [0x68, 0xC3, 0xA9])], Inl PE_fragmented_control)" using sample_run by simp
  from hybi13_refines_receiver [OF example_hosts(1) this, of ?cs 0 DataMsg 0 0] show ?thesis
    by (auto simp: sample_frames_def)
qed

text \<open>
  C8. Messages round trip between endpoints. Let one endpoint prepare any text and binary
  messages with \<open>prepare_data_frame\<close> (as a client with any random masking keys, or as a server
  without), on a machine of any byte order, and let the bytes arrive in any chunks at the other
  endpoint, on a machine of any byte order. If no payload exceeds the limit of the receiver, the
  receiver delivers exactly these messages, in order, and no error.
\<close>

theorem message_roundtrip:
  assumes "host_ok h'" and "length rs = length ins" and "length outs = length ins"
    and "list_all (\<lambda>(rng, inp, out). prepare_data_frame h server rng (Some inp) (Some (message_new (m_opcode inp))) = (None, Some out))
      (zip rs (zip ins outs))"
    and "list_all (\<lambda>inp. m_fin inp \<and> (m_opcode inp = Text \<or> m_opcode inp = Binary) \<and> length (m_payload inp) \<le> unat mx) ins"
    and "concat cs = concat (map (\<lambda>out. m_header out @ m_payload out) outs)"
  shows "\<exists>ms st. receive h' cs (hybi13_init (\<not> server) mx cursor cur k1 k2) = Some (Inr (ms, None, st)) \<and>
    map msg_view ms = map msg_view ins"
proof -
  let ?F = "\<lambda>inp. Frame (m_fin inp) (m_opcode inp) (m_payload inp)"
  let ?P = "\<lambda>(rng, inp, out). prepare_data_frame h server rng (Some inp) (Some (message_new (m_opcode inp))) = (None, Some out)"
  let ?Q = "\<lambda>inp. m_fin inp \<and> (m_opcode inp = Text \<or> m_opcode inp = Binary) \<and> length (m_payload inp) \<le> unat mx"
  have run: "abs_run False (\<not> server) (unat mx)
        (map2 (\<lambda>r f. (if server then None else Some (of_mem h' (mem_of h 4 r)), f)) rs (map ?F ins)) None =
      (map msg_view ins, Inr None)"
    if "length rs = length ins" "list_all (\<lambda>inp. ?Q inp \<and> text_valid (m_opcode inp) (m_payload inp)) ins" for rs ins
    using that by (induction rs ins rule: list_induct2)
      (auto simp: is_control_def msg_view_def header_error_def abs_data_def text_validD)
  have "list_all (\<lambda>inp. text_valid (m_opcode inp) (m_payload inp)) ins \<and>
      map (\<lambda>out. m_header out @ m_payload out) outs = map2 (\<lambda>r f. wire h (if server then None else Some r) f) rs (map ?F ins)"
    using assms(2) assms(3) [symmetric] assms(4)
  proof (induction rs ins outs rule: list_induct3)
    case (Cons r rs i ins out outs)
    then show ?case using prepared_wire [of h server r i "Some (message_new (m_opcode i))" out] by simp
  qed simp_all
  then show ?thesis
    using receive_prepared [OF assms(1) run [OF assms(2)], of cs cursor cur k1 k2] assms(5,6) by (simp add: list_all_iff)
qed

definition sample_ins :: "message list" where
  "sample_ins = [(message_new Text)\<lparr>m_payload := [0x68, 0x69]\<rparr>, (message_new Binary)\<lparr>m_payload := [1, 2, 3, 4, 5]\<rparr>]"

definition sample_outs :: "message list" where
  "sample_outs = map2 (\<lambda>r i. case snd (prepare_data_frame be_host False r (Some i) (Some (message_new (m_opcode i)))) of
     Some out \<Rightarrow> out | None \<Rightarrow> i) [5, 0xFF00FF00] sample_ins"

lemma sample_prepared:
  "list_all (\<lambda>(rng, inp, out). prepare_data_frame be_host False rng (Some inp) (Some (message_new (m_opcode inp))) = (None, Some out))
     (zip [5, 0xFF00FF00] (zip sample_ins sample_outs))"
  by code_simp

lemma sample_sizes:
  "list_all (\<lambda>inp. m_fin inp \<and> (m_opcode inp = Text \<or> m_opcode inp = Binary) \<and> length (m_payload inp) \<le> unat (100 :: u64)) sample_ins"
  by code_simp

theorem message_roundtrip_witness:
  "\<exists>ms st. receive x86_host (map (\<lambda>out. m_header out @ m_payload out) sample_outs)
      (hybi13_init (\<not> False) 100 0 DataMsg 0 0) = Some (Inr (ms, None, st)) \<and> map msg_view ms = map msg_view sample_ins"
  by (rule message_roundtrip [OF example_hosts(1) _ _ sample_prepared sample_sizes])
    (simp_all add: sample_ins_def sample_outs_def)

text \<open>The payload of a close frame.\<close>

lemma prepare_close_payload:
  assumes "prepare_close h server rng code reason (Some out) = (None, Some o')"
  shows "\<exists>p. prepare_control h server rng OpClose p (Some out) = (None, Some o') \<and>
    (if code = st_no_status then p = [] \<and> reason = [] else wire_code code \<and> p = be_bytes 2 code @ reason)"
proof -
  have b: "mem_of h 2 (htons h code) ! 0 # mem_of h 2 (htons h code) ! Suc 0 # reason = be_bytes 2 code @ reason"
    unfolding mem_of_htons by (simp add: be_bytes_def numeral_2_eq_2)
  show ?thesis
    using assms wire_code_iff [of code] by (auto simp: prepare_close_def Let_def b split: if_splits)
qed

text \<open>
  C27. The closing handshake carries the code and the reason across. Whenever \<open>prepare_close\<close>
  accepts a code and a UTF-8 reason, the receiver of the frame gets one close message, from
  which \<open>extract_code\<close> and \<open>extract_reason\<close> read the same code and the same reason without an
  error; the code is one that is allowed on the wire, or the frame is empty and reads as
  \<open>no_status\<close>.
\<close>

theorem close_roundtrip:
  assumes "host_ok h'" and "prepare_close h server rng code reason (Some out) = (None, Some o')" and "validate reason"
    and "concat cs = m_header o' @ m_payload o'"
  shows "\<exists>msg st. receive h' cs (hybi13_init (\<not> server) mx cursor cur k1 k2) = Some (Inr ([msg], None, st)) \<and>
    m_opcode msg = OpClose \<and> extract_code h' (m_payload msg) = (code, None) \<and>
    extract_reason (m_payload msg) = (reason, None) \<and> (code = st_no_status \<or> wire_code code)"
proof -
  obtain p where p: "prepare_control h server rng OpClose p (Some out) = (None, Some o')"
    and c: "if code = st_no_status then p = [] \<and> reason = [] else wire_code code \<and> p = be_bytes 2 code @ reason"
    using prepare_close_payload [OF assms(2)] by blast
  note w = prepared_control_wire [OF p]
  have run: "abs_run False (\<not> server) (unat mx)
      (map2 (\<lambda>r f. (if server then None else Some (of_mem h' (mem_of h 4 r)), f)) [rng] [Frame True OpClose p]) None =
      ([(OpClose, p)], Inr None)"
    using w(2,3) by (auto simp: header_error_def)
  obtain ms st where r: "receive h' cs (hybi13_init (\<not> server) mx cursor cur k1 k2) = Some (Inr (ms, None, st))"
      "map msg_view ms = [(OpClose, p)]"
    using receive_prepared [OF assms(1) run, of cs cursor cur k1 k2] assms(4) w(1) by auto
  then obtain msg where "ms = [msg]" "m_opcode msg = OpClose" "m_payload msg = p"
    by (auto simp: msg_view_def)
  moreover have "extract_code h' p = (code, None) \<and> extract_reason p = (reason, None) \<and> (code = st_no_status \<or> wire_code code)"
  proof (cases "code = st_no_status")
    case True
    then show ?thesis using c assms(3) by (simp add: extract_code_def extract_reason_def)
  next
    case False
    then show ?thesis
      using c assms(3) extract_code_payload [of code h' reason] extract_reason_payload [of "be_bytes 2 code" reason]
      by simp
  qed
  ultimately show ?thesis using r(1) by auto
qed

definition sample_close :: message where
  "sample_close = (case snd (prepare_close x86_host False 9 1001 [0x62, 0x79, 0x65] (Some (message_new OpClose))) of
     Some out \<Rightarrow> out | None \<Rightarrow> message_new OpClose)"

lemma sample_close_prepared:
  "prepare_close x86_host False 9 1001 [0x62, 0x79, 0x65] (Some (message_new OpClose)) = (None, Some sample_close)"
  "validate [0x62, 0x79, 0x65]"
  by code_simp+

theorem close_roundtrip_witness:
  "\<exists>msg st. receive be_host [m_header sample_close, m_payload sample_close]
       (hybi13_init (\<not> False) 100 0 DataMsg 0 0) = Some (Inr ([msg], None, st)) \<and>
     m_opcode msg = OpClose \<and> extract_code be_host (m_payload msg) = (1001, None) \<and>
     extract_reason (m_payload msg) = ([0x62, 0x79, 0x65], None) \<and> (1001 = st_no_status \<or> wire_code 1001)"
  by (rule close_roundtrip [OF example_hosts(2) sample_close_prepared]) simp

subsection \<open>Two gaps\<close>

text \<open>A text message in fragments, none of which breaks a rule.\<close>

definition fragments :: "bytes \<Rightarrow> bytes list \<Rightarrow> bytes \<Rightarrow> frame list" where
  "fragments first middle final =
     Frame False Text first # map (Frame False Continuation) middle @ [Frame True Continuation final]"

lemma text_prefix: "validate (p @ q) \<Longrightarrow> text_so_far Text p"
  by (auto simp: validate_run text_so_far_def utf8_accept_def utf8_reject_def)

lemma continued_text:
  assumes "list_all (\<lambda>(key, f). server \<longleftrightarrow> key \<noteq> None) kfs"
    and "map snd kfs = map (Frame False Continuation) middle @ [Frame True Continuation final]"
    and "validate ((q @ concat middle @ final) @ s)" and "length (q @ concat middle @ final) \<le> mx"
  shows "abs_run False server mx kfs (Some (Text, q)) = ([(Text, q @ concat middle @ final)], Inr None)"
  using assms
proof (induction middle arbitrary: q kfs)
  case Nil
  then show ?case
    using text_prefix [of "q @ final" s] by (auto simp: header_error_def is_control_def abs_data_def map_eq_Cons_conv)
next
  case (Cons m middle)
  then obtain key fs where k: "kfs = (key, Frame False Continuation m) # fs" by (auto simp: map_eq_Cons_conv)
  have "text_so_far Text (q @ m)" using text_prefix [of "q @ m" "concat middle @ final @ s"] Cons.prems(3) by simp
  moreover have "abs_run False server mx fs (Some (Text, q @ m)) = ([(Text, (q @ m) @ concat middle @ final)], Inr None)"
  proof (rule Cons.IH)
    show "list_all (\<lambda>(key, f). server \<longleftrightarrow> key \<noteq> None) fs" using Cons.prems(1) by (auto simp: k list_all_iff)
  qed (use Cons.prems in \<open>simp_all add: k\<close>)
  ultimately show ?case
    using Cons.prems(1,4) by (cases key) (simp_all add: k header_error_def is_control_def abs_data_def)
qed

lemma unfragmented_refused:
  assumes "host_ok h" and "\<not> validate p" and "length p \<le> unat mx" and "unat mx + length p < 2 ^ 64"
    and "server \<longleftrightarrow> key \<noteq> None" and "concat cs = wire h key (Frame True Text p)"
  shows "\<exists>st. receive h cs (hybi13_init server mx cursor cur k1 k2) =
    Some (Inr ([], Some (ProcessorError PE_invalid_utf8), st))"
proof -
  have "abs_run False server (unat mx) [(key, Frame True Text p)] None = ([], Inl PE_invalid_utf8)"
    using assms(2,3,5) by (auto simp: header_error_def is_control_def abs_data_def text_valid_def)
  from receive_frames [OF assms(1) this, of cs cursor cur k1 k2] assms(4,6) show ?thesis by simp
qed

lemma fragmented_accepted:
  assumes "host_ok h" and "validate (p @ s)" and "length p \<le> unat mx"
    and "p = first @ concat middle @ final" and "map snd kfs = fragments first middle final"
    and "list_all (\<lambda>(key, f). server \<longleftrightarrow> key \<noteq> None) kfs" and "concat cs = wires h kfs"
  shows "\<exists>ms st. receive h cs (hybi13_init server mx cursor cur k1 k2) = Some (Inr (ms, None, st)) \<and>
    map msg_view ms = [(Text, p)]"
proof -
  obtain k fs where k: "kfs = (k, Frame False Text first) # fs"
      "map snd fs = map (Frame False Continuation) middle @ [Frame True Continuation final]"
    using assms(5) by (auto simp: fragments_def map_eq_Cons_conv)
  have keys: "list_all (\<lambda>(key, f). server \<longleftrightarrow> key \<noteq> None) fs" "server \<longleftrightarrow> k \<noteq> None" using assms(6) by (auto simp: k(1) list_all_iff)
  have "text_so_far Text first" using text_prefix [of first "concat middle @ final @ s"] assms(2,4) by simp
  moreover have "abs_run False server (unat mx) fs (Some (Text, first)) = ([(Text, p)], Inr None)"
    unfolding assms(4) by (rule continued_text [OF keys(1) k(2), where s = s]) (use assms(2-4) in simp_all)
  ultimately have "abs_run False server (unat mx) kfs None = ([(Text, p)], Inr None)"
    using keys(2) assms(3,4) by (cases k) (simp_all add: k(1) header_error_def is_control_def abs_data_def)
  from receive_frames [OF assms(1) this _ assms(7), of cursor cur k1 k2] show ?thesis by auto
qed

text \<open>
  C36. Incomplete text is accepted when it is fragmented. \<open>finalize_message\<close> asks for a complete
  UTF-8 sequence only if the opcode of the last frame is \<open>TEXT\<close>, but the last frame of a
  fragmented message has the opcode \<open>CONTINUATION\<close>. So for every text that stops inside a code point
  (a beginning of valid UTF-8 that is not valid itself, within the limit): sent in one frame it is
  refused as invalid UTF-8, but cut into any two or more fragments, at any places, it is delivered to
  the application as a text message, without an error; on either side, with any masking keys, and in
  any chunks.
\<close>

theorem fragmented_text_incomplete:
  assumes "host_ok h" and "validate (p @ s)" and "\<not> validate p" and "length p \<le> unat mx"
    and "unat mx + length p < 2 ^ 64"
  shows "(\<forall>key cs. (server \<longleftrightarrow> key \<noteq> None) \<longrightarrow> concat cs = wire h key (Frame True Text p) \<longrightarrow>
      (\<exists>st. receive h cs (hybi13_init server mx cursor cur k1 k2) =
        Some (Inr ([], Some (ProcessorError PE_invalid_utf8), st)))) \<and>
    (\<forall>first middle final kfs cs. p = first @ concat middle @ final \<longrightarrow> map snd kfs = fragments first middle final \<longrightarrow>
      list_all (\<lambda>(key, f). server \<longleftrightarrow> key \<noteq> None) kfs \<longrightarrow> concat cs = concat (map (\<lambda>(key, f). wire h key f) kfs) \<longrightarrow>
      (\<exists>ms st. receive h cs (hybi13_init server mx cursor cur k1 k2) = Some (Inr (ms, None, st)) \<and>
        map msg_view ms = [(Text, p)]))"
proof (intro conjI allI impI)
  show "\<exists>st. receive h cs (hybi13_init server mx cursor cur k1 k2) = Some (Inr ([], Some (ProcessorError PE_invalid_utf8), st))"
    if "server \<longleftrightarrow> key \<noteq> None" "concat cs = wire h key (Frame True Text p)" for key cs
    by (rule unfragmented_refused [OF assms(1,3-5) that])
  show "\<exists>ms st. receive h cs (hybi13_init server mx cursor cur k1 k2) = Some (Inr (ms, None, st)) \<and> map msg_view ms = [(Text, p)]"
    if "p = first @ concat middle @ final" "map snd kfs = fragments first middle final"
      "list_all (\<lambda>(key, f). server \<longleftrightarrow> key \<noteq> None) kfs" "concat cs = concat (map (\<lambda>(key, f). wire h key f) kfs)"
    for first middle final kfs cs
    by (rule fragmented_accepted [OF assms(1,2,4) that])
qed

text \<open>The first byte of a character of two bytes, in one frame, and followed by an empty fragment.\<close>

theorem fragmented_text_incomplete_witness:
  "(\<exists>st. receive x86_host [wire x86_host None (Frame True Text [0xC3])] (hybi13_init False 10 0 DataMsg 0 0) =
      Some (Inr ([], Some (ProcessorError PE_invalid_utf8), st))) \<and>
   (\<exists>ms st. receive x86_host [wire x86_host None (Frame False Text [0xC3]), wire x86_host None (Frame True Continuation [])]
        (hybi13_init False 10 0 DataMsg 0 0) = Some (Inr (ms, None, st)) \<and> map msg_view ms = [(Text, [0xC3])])"
proof -
  have v: "validate ([0xC3] @ [0xA9])" "\<not> validate [0xC3]" by code_simp+
  note T = fragmented_text_incomplete [OF example_hosts(1) v, of 10 False 0 DataMsg 0 0]
  have "\<exists>st. receive x86_host [wire x86_host None (Frame True Text [0xC3])] (hybi13_init False 10 0 DataMsg 0 0) =
      Some (Inr ([], Some (ProcessorError PE_invalid_utf8), st))"
    by (rule T [THEN conjunct1, rule_format, of None]) simp_all
  moreover have "\<exists>ms st. receive x86_host [wire x86_host None (Frame False Text [0xC3]), wire x86_host None (Frame True Continuation [])]
      (hybi13_init False 10 0 DataMsg 0 0) = Some (Inr (ms, None, st)) \<and> map msg_view ms = [(Text, [0xC3])]"
    by (rule T [THEN conjunct2, rule_format, where first = "[0xC3]" and middle = "[]" and final = "[]"
          and kfs = "[(None, Frame False Text [0xC3]), (None, Frame True Continuation [])]"])
      (simp_all add: fragments_def)
  ultimately show ?thesis ..
qed

text \<open>
  C37. The limit on the message size can be passed. The check of a continuation adds the size so
  far and the announced size in 64 bits: while \<open>q\<close> bytes of a message are stored, with any
  \<open>q > 0\<close>, a continuation frame that announces \<open>2 ^ 64 - q\<close> bytes makes the sum zero. The frame
  is accepted whatever the limit, and the processor goes on to store up to that many bytes.
\<close>

theorem message_size_limit_wraps:
  assumes "md_msg (p_data_msg st) = Some msg" and "0 < length (m_payload msg)" and "length (m_payload msg) < 2 ^ 64"
    and "\<not> is_control (get_opcode (p_basic_header st))"
    and "get_payload_size h (p_basic_header st) (p_extended_header st) = - of_nat (length (m_payload msg))"
  shows "\<exists>st'. start_payload h n st = Go_on st' n \<and> p_state st' = APPLICATION \<and> p_current_msg st' = DataMsg \<and>
    unat (p_bytes_needed st') = 2 ^ 64 - length (m_payload msg)"
proof -
  have "unat (- of_nat (length (m_payload msg)) :: u64) = 2 ^ 64 - length (m_payload msg)"
  proof -
    let ?q = "length (m_payload msg)"
    have "of_nat (2 ^ 64 - ?q) + of_nat ?q = (of_nat (2 ^ 64) :: u64)"
      using assms(3) by (simp flip: of_nat_add)
    moreover have "(of_nat (2 ^ 64) :: u64) = 0" by simp
    ultimately have "of_nat (2 ^ 64 - ?q) = (- of_nat ?q :: u64)" by (simp only: eq_neg_iff_add_eq_0)
    moreover have "unat (of_nat (2 ^ 64 - ?q) :: u64) = 2 ^ 64 - ?q" using assms(2) by (simp add: unat_of_nat)
    ultimately show ?thesis by (simp only:)
  qed
  then show ?thesis using assms(1,4,5) by (simp add: start_payload_def)
qed

definition wrapping_state :: hybi13 where
  "wrapping_state =
     (hybi13_init False 10 0 DataMsg 0 0)\<lparr>p_basic_header := \<lparr>b0 = 0x80, b1 = 0x7F\<rparr>,
        p_extended_header := replicate 8 0xFF @ replicate 4 0,
        p_data_msg := msg_metadata_make ((message_new Binary)\<lparr>m_payload := [7]\<rparr>) 0\<rparr>"

lemma wrapping_header:
  "\<not> is_control (get_opcode (p_basic_header wrapping_state))"
  "get_payload_size x86_host (p_basic_header wrapping_state) (p_extended_header wrapping_state) = - 1"
  by code_simp+

theorem message_size_limit_wraps_witness:
  "\<exists>st'. start_payload x86_host 0 wrapping_state = Go_on st' 0 \<and> p_state st' = APPLICATION \<and>
     p_current_msg st' = DataMsg \<and> unat (p_bytes_needed st') = 2 ^ 64 - 1"
  using message_size_limit_wraps [of wrapping_state "(message_new Binary)\<lparr>m_payload := [7]\<rparr>" x86_host 0] wrapping_header
  by (simp add: wrapping_state_def)

end
