(* ===== verification/Ws_Connection_Fifo.thy ===== *)
theory Ws_Connection_Fifo
  imports Ws_Connection_Open Ws_Roundtrip "HOL-Library.Sublist"
begin

section \<open>The output of a connection\<close>

text \<open>
  Messages that a client sends leave in order. The output, which is what the transport was given and what is queued after
  it, only grows at its end; the interfaces of \<open>Ws_Connection_Events\<close> are interpreted on the predicate that it extends a
  given output.
\<close>

subsection \<open>Output only grows\<close>

text \<open>What the transport was given and what is queued after it.\<close>

definition outgoing :: "con \<Rightarrow> bytes" where
  "outgoing c = cn_wire c @ concat (map message_bytes (cn_send_queue c))"

definition is_client :: "con \<Rightarrow> bool" where
  "is_client c \<longleftrightarrow> (\<forall>p. cn_processor c = Some p \<longrightarrow> \<not> p_server p)"

lemmas output_defs = outgoing_def is_client_def

lemma write_frame_output: "writes_ok ts c \<Longrightarrow> outgoing (write_frame c) = outgoing c"
  using pop_messages_fields [of c]
  by (auto simp: writes_ok_def write_frame_def outgoing_def async_write_def async_def Let_def
      simp flip: map_append concat_append)

lemma output_stays [simp]:
  "outgoing (async op c) = outgoing c" "outgoing (cancel_timer t c) = outgoing c"
  "outgoing (cancel_handshake_timer c) = outgoing c" "outgoing (set_handshake_timer n op c) = outgoing c"
  "outgoing (terminate ec c) = outgoing c" "outgoing (read_frame c) = outgoing c" "outgoing (take_op i c) = outgoing c"
  "outgoing (c\<lparr>cn_current_msgs := x\<rparr>) = outgoing c" "outgoing (c\<lparr>cn_write_flag := y\<rparr>) = outgoing c"
  "outgoing (c\<lparr>cn_processor := p\<rparr>) = outgoing c" "outgoing (c\<lparr>cn_log := l\<rparr>) = outgoing c" "outgoing (c\<lparr>cn_response := r\<rparr>) = outgoing c"
  "outgoing (c\<lparr>cn_state := s\<rparr>) = outgoing c" "outgoing (c\<lparr>cn_internal_state := s'\<rparr>) = outgoing c" "outgoing (c\<lparr>cn_ping_timer := t\<rparr>) = outgoing c"
  "outgoing (c\<lparr>cn_draws := n'\<rparr>) = outgoing c" "outgoing (c\<lparr>cn_request := q\<rparr>) = outgoing c"
  by (simp_all add: outgoing_def async_def cancel_timer_def cancel_handshake_timer_def set_handshake_timer_def read_frame_def
      take_op_def split: option.splits)

lemma client_stays [simp]:
  "is_client (async op c) = is_client c" "is_client (write_push m c) = is_client c" "is_client (cancel_timer t c) = is_client c"
  "is_client (cancel_handshake_timer c) = is_client c" "is_client (set_handshake_timer n op c) = is_client c"
  "is_client (terminate ec c) = is_client c" "is_client (read_frame c) = is_client c" "is_client (write_frame c) = is_client c"
  "is_client (take_op i c) = is_client c" "is_client (async_write w op c) = is_client c"
  "is_client (c\<lparr>cn_current_msgs := x\<rparr>) = is_client c" "is_client (c\<lparr>cn_write_flag := y\<rparr>) = is_client c"
  "is_client (c\<lparr>cn_log := l\<rparr>) = is_client c" "is_client (c\<lparr>cn_response := r\<rparr>) = is_client c"
  "is_client (c\<lparr>cn_state := s\<rparr>) = is_client c" "is_client (c\<lparr>cn_internal_state := s'\<rparr>) = is_client c"
  "is_client (c\<lparr>cn_ping_timer := t\<rparr>) = is_client c" "is_client (c\<lparr>cn_processor := Some p\<rparr>) \<longleftrightarrow> \<not> p_server p"
  "is_client (c\<lparr>cn_draws := n'\<rparr>) = is_client c" "is_client (c\<lparr>cn_request := q\<rparr>) = is_client c"
  using pop_messages_fields [of c]
  by (simp_all add: is_client_def async_def write_push_def cancel_timer_def cancel_handshake_timer_def set_handshake_timer_def
      read_frame_def write_frame_def async_write_def take_op_def Let_def split: option.splits)

lemma push_output: "outgoing (write_push m c) = outgoing c @ (case m of None \<Rightarrow> [] | Some m \<Rightarrow> message_bytes m)"
  by (simp add: write_push_def outgoing_def split: option.splits)

text \<open>Nothing that was written or queued is lost, reordered or repeated: the output only grows at its end.\<close>

definition extends :: "bytes \<Rightarrow> con_env \<Rightarrow> op multiset \<Rightarrow> con \<Rightarrow> bool" where
  "extends out E ts c \<longleftrightarrow> con_inv E ts c \<and> prefix out (outgoing c) \<and> is_client c"

lemma client_processor: "\<not> p_server (get_processor E)"
  by (simp add: get_processor_def hybi13_init_def reset_headers_def m_is_server_def)

lemma same_view_output: "same_view c d \<Longrightarrow> cn_wire d = cn_wire c \<Longrightarrow> outgoing d = outgoing c \<and> is_client d = is_client c"
  by (simp add: same_view_def output_defs)

lemma request_output:
  "con_inv E ts c \<Longrightarrow> cn_internal_state c = TRANSPORT_INIT \<Longrightarrow>
   outgoing (async_write w Op_write_request (set_handshake_timer n Op_open_timer
     (c\<lparr>cn_internal_state := WRITE_HTTP_REQUEST, cn_processor := p, cn_draws := k, cn_request := q\<rparr>))) = outgoing c @ w"
  by (simp add: con_inv_def writes_ok_def outgoing_def async_write_def set_handshake_timer_def async_def)

interpretation extending: kept_events E "extends out E" for E out
  unfolding extends_def
  by unfold_locales
    (simp_all add: inv_steps inv_taken inv_cancelled push_output client_processor,
     metis con_calls.view same_view_output, blast intro: con_calls.ends, simp add: is_client_def, simp add: is_client_def,
     metis con_inv_def write_frame_output, metis request_output prefix_prefix, (blast intro: con.idle con.closed)+)

lemma client_always:
  assumes "env_ok E" and "reachable E c"
  shows "is_client c"
proof -
  have "extends [] E {#} c"
    using assms(2)
  proof induction
    case (reach_init req)
    then show ?case by (simp add: extends_def con_init) (simp add: is_client_def connection_def)
  next
    case (reach_event c ev d)
    then show ?case
      using extending.kept_event [OF assms(1) reach_event.IH reach_event.hyps(2)] by (simp add: returns_def)
  qed
  then show ?thesis by (simp add: extends_def)
qed

inductive steps :: "con_env \<Rightarrow> con \<Rightarrow> con \<Rightarrow> bool" for E c where
  steps_refl: "steps E c c"
| steps_event: "steps E c d \<Longrightarrow> event_ok d ev \<Longrightarrow> con_event E ev d = Some (Inr e) \<Longrightarrow> steps E c e"

lemma steps_output:
  assumes "env_ok E" and "steps E c d" and "con_inv E {#} c" and "is_client c"
  shows "prefix (outgoing c) (outgoing d)"
proof -
  have "extends (outgoing c) E {#} d"
    using assms(2)
  proof induction
    case (steps_event d ev e)
    then show ?case
      using extending.kept_event [OF assms(1) steps_event.IH steps_event.hyps(2)] by (simp add: returns_def)
  qed (use assms(3,4) in \<open>simp add: extends_def\<close>)
  then show ?thesis by (simp add: extends_def)
qed

lemma push_and_write_output: "outgoing (push_and_write (Some m) c) = outgoing c @ message_bytes m"
  by (simp add: push_and_write_def Let_def push_output)

lemma drawn_output [simp]: "outgoing (drawn c) = outgoing c"
  by (simp add: drawn_def)

lemma send_output:
  assumes "send E payload op c = Inr (None, d)" and "is_client c"
  shows "outgoing d = outgoing c @ wire (ce_host E) (Some (ce_rng E (cn_draws c))) (Frame True op payload)"
proof -
  let ?m = "(message_new op)\<lparr>m_payload := payload, m_compressed := True\<rparr>"
  have m: "\<not> m_prepared ?m" "m_fin ?m" "m_opcode ?m = op" "m_payload ?m = payload" by (simp_all add: message_new_def)
  obtain p where c: "cn_state c = S_open" "cn_processor c = Some p"
    using assms(1) m(1) by (auto simp: send_def send_message_def and_then_eq_Inr split: if_splits)
  obtain ec out where x: "prepare_data_frame (ce_host E) (p_server p) (ce_rng E (cn_draws c)) (Some ?m) (fresh_message E) = (ec, out)"
    by fastforce
  then have "ec = None" "d = push_and_write out (drawn c)"
    using assms(1) m(1) c by (cases ec; simp add: send_def send_message_def)+
  with c x have p: "cn_processor c = Some p" "d = push_and_write out (drawn c)"
      "prepare_data_frame (ce_host E) (p_server p) (ce_rng E (cn_draws c)) (Some ?m) (fresh_message E) = (None, out)"
    by simp_all
  then obtain o' where o: "out = Some o'"
    by (auto simp: prepare_data_frame_def fresh_message_def Let_def split: if_splits)
  have "\<not> p_server p" using p(1) assms(2) by (simp add: is_client_def)
  then show ?thesis
    using prepared_wire(1) [OF p(3) [unfolded o]] m p(2) o by (simp add: push_and_write_output message_bytes_def)
qed

text \<open>C15. Messages leave in order. When a client sends a message and the call reports no error, the message is one final
  frame, masked with the random number that is drawn for it; and whenever the queue has drained afterwards, whatever else
  was called or happened in between, the transport was given exactly what was written or queued before the call,
  then the bytes of this frame once, then what was sent later.\<close>

theorem frames_in_order:
  assumes "env_ok E" and "reachable E c" and "send E payload op c = Inr (None, d)" and "steps E d e" and "cn_send_queue e = []"
  shows "\<exists>rest. cn_wire e = cn_wire c @ concat (map message_bytes (cn_send_queue c)) @
    wire (ce_host E) (Some (ce_rng E (cn_draws c))) (Frame True op payload) @ rest"
proof -
  have ev: "event_ok c (Call (A_send payload op))" "con_event E (Call (A_send payload op)) c = Some (Inr d)"
    using assms(3) by (simp_all add: event_ok_def con_event_def app_call_def run_call_def)
  have d: "con_inv E {#} d" "is_client d"
    using con_reachable_inv client_always reach_event [OF assms(2) ev] assms(1) by blast+
  have "prefix (outgoing c @ wire (ce_host E) (Some (ce_rng E (cn_draws c))) (Frame True op payload)) (outgoing e)"
    using steps_output [OF assms(1,4) d] send_output [OF assms(3) client_always [OF assms(1,2)]] by simp
  then show ?thesis using assms(5) by (auto simp: outgoing_def prefix_def)
qed

text \<open>The sample sends a text over the open connection, and the event loop writes it.\<close>

lemma sample_sent:
  "\<exists>m. prepare_data_frame x86_host False r (Some ((message_new Text)\<lparr>m_payload := ascii ''hi'', m_compressed := True\<rparr>))
      (Some (message_new Continuation)) = (None, Some m) \<and> \<not> m_terminal m"
proof -
  have v: "validate (ascii ''hi'')" by code_simp
  have o: "Text \<noteq> OpClose" "\<not> is_control Text" by code_simp+
  show ?thesis
    using v o by (simp add: prepare_data_frame_def pmd_is_enabled_def message_new_def Let_def del: ascii_open)
qed

lemma sample_send:
  assumes "c = open_con w q res"
  shows "\<exists>d e. send sample_env (ascii ''hi'') Text c = Inr (None, d) \<and> steps sample_env d e \<and> cn_send_queue e = []"
proof -
  obtain m where m: "prepare_data_frame x86_host False (ce_rng sample_env 4)
      (Some ((message_new Text)\<lparr>m_payload := ascii ''hi'', m_compressed := True\<rparr>)) (Some (message_new Continuation)) = (None, Some m)"
      "\<not> m_terminal m"
    using sample_sent by blast
  define d where "d = push_and_write (Some m) (drawn c)"
  have c: "cn_state c = S_open" "cn_processor c = Some (get_processor sample_env)" "cn_draws c = 4" "cn_next c = 6"
      "cn_pending c = [(2, Op_open_timer), (5, Op_read_frame)]" "cn_send_queue c = []" "\<not> cn_write_flag c"
    by (simp_all add: assms open_con_def received_con_def responding_con_def con_step_defs)
  have "send sample_env (ascii ''hi'') Text c = Inr (None, d)"
    using m(1) c client_processor [of sample_env] message_new_def
    by (simp add: send_def send_message_def d_def fresh_message_def sample_env_def [THEN arg_cong [where f = ce_host]]
      sample_env_def [THEN arg_cong [where f = ce_fresh_opcode]] del: ascii_open)
  moreover have d: "cn_pending d = [(2, Op_open_timer), (5, Op_read_frame), (6, Op_dispatch_write)]" "cn_send_queue d = [m]"
      "\<not> cn_write_flag d"
    using c by (simp_all add: d_def push_and_write_def write_push_def drawn_def async_def m_is_server_def Let_def)
  then have "steps sample_env d (write_frame (take_op 6 d))"
    by (intro steps_event [OF steps_refl, where ev = "Done 6 None []"]) (simp_all add: event_ok_def con_event_def run_op_def)
  moreover have "cn_send_queue (write_frame (take_op 6 d)) = []"
    using d m(2) by (simp add: write_frame_def write_pop_def pop_messages.simps async_write_def async_def Let_def)
  ultimately show ?thesis by blast
qed

theorem frames_in_order_witness:
  "\<exists>c d e rest. reachable sample_env c \<and> send sample_env (ascii ''hi'') Text c = Inr (None, d) \<and> steps sample_env d e \<and>
     cn_wire e = cn_wire c @ concat (map message_bytes (cn_send_queue c)) @
       wire (ce_host sample_env) (Some (ce_rng sample_env (cn_draws c))) (Frame True Text (ascii ''hi'')) @ rest"
  using sample_open sample_send frames_in_order [OF sample_env_ok(1)] by metis

end
