(* ===== verification/Signal_Link.thy ===== *)
theory Signal_Link
  imports Signal_Connection Ws_Connection_Life "HOL-Library.Sublist"
begin

section \<open>\<open>Signal\<close> on a WebSocket connection\<close>

text \<open>
  The connection to the signal server as the program runs it: the object \<open>Signal\<close> of \<open>signalconnection.cc\<close> above a client
  connection of websocketpp. The handlers that \<open>Signal\<close> sets are called by the connection, and what they ask of the
  connection they ask inside of the call; calls from other threads and the tasks that \<open>Signal\<close> posts to the event loop come
  between the events of the connection. The step relation \<open>sig_step\<close> of \<open>Signal\<close> has guards for what it expects of the
  library; here they are shown to hold for the model of the library, so the object refines that relation.
\<close>

subsection \<open>Handlers\<close>

definition chars :: "bytes \<Rightarrow> string" where
  "chars bs = map (\<lambda>b. char_of (unat b)) bs"

text \<open>What a report of the connection makes \<open>Signal\<close> do; \<open>h\<close> is the handle, \<open>code\<close> the local close code.\<close>

fun sig_notice :: "'j json_lib \<Rightarrow> nat \<Rightarrow> u16 option \<Rightarrow> notice \<Rightarrow> signal \<Rightarrow> signal \<times> 'j sig_out list" where
  "sig_notice J h code N_open s = Signal_OnOpen J h s"
| "sig_notice J h code N_fail s = Signal_OnFail code s"
| "sig_notice J h code N_close s = Signal_OnClose code s"
| "sig_notice J h code (N_message m) s = (s, Signal_OnMessage J (chars (m_payload m)))"
| "sig_notice J h code _ s = (s, [])"

fun replay :: "'j json_lib \<Rightarrow> nat \<Rightarrow> u16 option \<Rightarrow> notice list \<Rightarrow> signal \<Rightarrow> signal \<times> 'j sig_out list" where
  "replay J h code [] s = (s, [])"
| "replay J h code (n # ns) s =
     (let (s, out) = sig_notice J h code n s; (s, outs) = replay J h code ns s in (s, out @ outs))"

text \<open>What \<open>Signal\<close> asks of the connection with handle \<open>h\<close>.\<close>

fun sig_calls :: "nat \<Rightarrow> 'j sig_out \<Rightarrow> api_call list" where
  "sig_calls h (ClientSend (Some h') t) = (if h' = h then [A_send (ascii t) Text] else [])"
| "sig_calls h (ClientClose h' code desc) = (if h' = h then [A_close code (ascii desc)] else [])"
| "sig_calls h _ = []"

text \<open>The application that a connection sees during an event: the trace had \<open>k\<close> entries and \<open>Signal\<close> was in state \<open>s\<close>.\<close>

definition signal_app :: "'j json_lib \<Rightarrow> nat \<Rightarrow> nat \<Rightarrow> signal \<Rightarrow> notice list \<Rightarrow> api_call list" where
  "signal_app J h k s ns =
     (let new = drop k ns
      in if new = [] then []
         else concat (map (sig_calls h) (snd (sig_notice J h None (last new) (fst (replay J h None (butlast new) s))))))"

subsection \<open>The state and its steps\<close>

datatype task = T_connect | T_close u16 string

record link =
  ln_sig :: signal
  ln_con :: "con option"
  ln_id :: nat
  ln_tasks :: "task list"

definition signal_env :: "'j json_lib \<Rightarrow> con_env \<Rightarrow> link \<Rightarrow> con \<Rightarrow> con_env" where
  "signal_env J E l c = E\<lparr>ce_app := signal_app J (ln_id l) (length (cn_log c)) (ln_sig l)\<rparr>"

text \<open>The effect of an output outside of the handlers of a connection.\<close>

definition link_calls :: "con_env \<Rightarrow> api_call list \<Rightarrow> link \<Rightarrow> link res" where
  "link_calls E calls l =
     (case ln_con l of
        None \<Rightarrow> Inr l
      | Some c \<Rightarrow> and_then (fold_res (app_call E) calls c) (\<lambda>c. Inr (l\<lparr>ln_con := Some c\<rparr>)))"

fun link_out :: "con_env \<Rightarrow> 'j sig_out \<Rightarrow> link \<Rightarrow> link res" where
  "link_out E DispatchConnect l = Inr (l\<lparr>ln_tasks := ln_tasks l @ [T_connect]\<rparr>)"
| "link_out E (DispatchClose code desc) l = Inr (l\<lparr>ln_tasks := ln_tasks l @ [T_close code desc]\<rparr>)"
| "link_out E (ClientConnect url) l = Inr (l\<lparr>ln_con := Some (connection request_init), ln_id := Suc (ln_id l)\<rparr>)"
| "link_out E x l = link_calls E (sig_calls (ln_id l) x) l"

definition link_run :: "con_env \<Rightarrow> signal \<times> 'j sig_out list \<Rightarrow> link \<Rightarrow> link res" where
  "link_run E r l = fold_res (link_out E) (snd r) (l\<lparr>ln_sig := fst r\<rparr>)"

text \<open>A connection that was reported closed or failed makes no further report, so only the latest one is followed.
  \<open>Connect\<close> joins the network thread of a closing connection, so it returns after that connection was reported closed.\<close>

inductive link_step :: "'j json_lib \<Rightarrow> con_env \<Rightarrow> link \<Rightarrow> 'j sig_out list \<Rightarrow> link \<Rightarrow> bool" for J E where
  net: "ln_con l = Some c \<Longrightarrow> event_ok c (Done i ec buf) \<Longrightarrow>
     con_event (signal_env J E l c) (Done i ec buf) c = Some (Inr c') \<Longrightarrow> negotiated c' \<Longrightarrow>
     replay J (ln_id l) (Some (cn_local_close_code c')) (drop (length (cn_log c)) (cn_log c')) (ln_sig l) = (s', out) \<Longrightarrow>
     link_step J E l out (l\<lparr>ln_sig := s', ln_con := Some c'\<rparr>)"
| connect_task: "ln_tasks l = T_connect # ts \<Longrightarrow> Signal_ConnectInternal ec (ln_sig l) = out \<Longrightarrow>
     link_run E (ln_sig l, out) (l\<lparr>ln_tasks := ts\<rparr>) = Inr l' \<Longrightarrow> link_step J E l out l'"
| close_task: "ln_tasks l = T_close code desc # ts \<Longrightarrow> Signal_CloseInternal expired code desc (ln_sig l) = (s', out) \<Longrightarrow>
     link_run E (s', out) (l\<lparr>ln_tasks := ts\<rparr>) = Inr l' \<Longrightarrow> link_step J E l out l'"
| user_open: "sg_con_state (ln_sig l) \<noteq> con_closing \<Longrightarrow> Signal_Open user password (ln_sig l) = (s', out) \<Longrightarrow>
     link_run E (s', out) l = Inr l' \<Longrightarrow> link_step J E l out l'"
| user_close: "Signal_Close (ln_sig l) = (s', out) \<Longrightarrow> link_run E (s', out) l = Inr l' \<Longrightarrow> link_step J E l out l'"
| user_sync_close: "Signal_SyncClose (ln_sig l) = (s', out) \<Longrightarrow> link_run E (s', out) l = Inr l' \<Longrightarrow> link_step J E l out l'"
| user_send: "Signal_SendCommand J channel command data (ln_sig l) = out \<Longrightarrow> link_run E (ln_sig l, out) l = Inr l' \<Longrightarrow>
     link_step J E l out l'"
| timer: "sg_reconn_timer (ln_sig l) = Some True \<Longrightarrow>
     Signal_TimeoutReconnect False ((ln_sig l)\<lparr>sg_reconn_timer := Some False\<rparr>) = (s', out) \<Longrightarrow>
     link_run E (s', out) l = Inr l' \<Longrightarrow> link_step J E l out l'"
| timer_aborted: "Signal_TimeoutReconnect True (ln_sig l) = (s', out) \<Longrightarrow> link_run E (s', out) l = Inr l' \<Longrightarrow>
     link_step J E l out l'"

definition link_init :: "string \<Rightarrow> link" where
  "link_init url = \<lparr>ln_sig = Signal_ctor url, ln_con = None, ln_id = 0, ln_tasks = []\<rparr>"

inductive link_reachable :: "'j json_lib \<Rightarrow> con_env \<Rightarrow> string \<Rightarrow> link \<Rightarrow> bool" for J E url where
  link_start: "link_reachable J E url (link_init url)"
| link_next: "link_reachable J E url l \<Longrightarrow> link_step J E l out l' \<Longrightarrow> link_reachable J E url l'"

subsection \<open>What a connection does to the trace\<close>

lemma env_parts:
  "con_inv (signal_env J E l c) ts d = con_inv E ts d"
  "env_ok E \<Longrightarrow> env_ok (signal_env J E l c)"
proof -
  show "con_inv (signal_env J E l c) ts d = con_inv E ts d"
    by (simp add: signal_env_def inv_defs reporting_def)
  have "A_resume \<notin> set (sig_calls h x)" for h and x :: "'a sig_out"
    by (cases "(h, x)" rule: sig_calls.cases) auto
  then show "env_ok E \<Longrightarrow> env_ok (signal_env J E l c)"
    by (auto simp: signal_env_def env_ok_def signal_app_def Let_def)
qed

text \<open>The trace only grows.\<close>

definition logged :: "notice list \<Rightarrow> con_env \<Rightarrow> op multiset \<Rightarrow> con \<Rightarrow> bool" where
  "logged ns E ts c \<longleftrightarrow> con_inv E ts c \<and> prefix ns (cn_log c)"

lemma log_fields [simp]:
  "cn_log (write_push m c) = cn_log c" "cn_log (read_frame c) = cn_log c" "cn_log (write_frame c) = cn_log c"
  "cn_log (async_write w op c) = cn_log c"
  using pop_messages_fields [of c]
  by (simp_all add: write_push_def read_frame_def write_frame_def async_write_def Let_def split: option.splits)

lemma same_view_log: "same_view c d \<Longrightarrow> cn_log d = cn_log c"
  by (simp add: same_view_def)

interpretation logging: kept_events E "logged ns E" for E ns
  unfolding logged_def
  by unfold_locales
    (simp_all add: inv_steps inv_taken inv_cancelled prefix_prefix,
     metis con_calls.view same_view_log, blast intro: con_calls.ends, (blast intro: con.idle con.closed)+)

text \<open>Calls from outside of a handler report nothing.\<close>

lemma call_log: "app_call E call c = Inr d \<Longrightarrow> cn_log d = cn_log c"
proof -
  have "all_ok (\<lambda>(ec, d). cn_log d = cn_log c) (run_call E call c)"
    by (cases call; cases "cn_processor c")
      (simp_all add: run_call_def send_def send_data_def send_message_def ping_def pong_def close_def send_close_frame_def
        Let_def split: prod.split option.split)
  then show "app_call E call c = Inr d \<Longrightarrow> cn_log d = cn_log c"
    by (auto simp: app_call_def and_then_eq_Inr dest: all_okD)
qed

subsection \<open>Reports and the state of \<open>Signal\<close>\<close>

fun in_step :: "life \<Rightarrow> con_state \<Rightarrow> bool" where
  "in_step L_connecting st \<longleftrightarrow> st = con_opening"
| "in_step L_opened st \<longleftrightarrow> st = con_opened \<or> st = con_closing"
| "in_step L_ended st \<longleftrightarrow> st = con_closed \<or> st = con_opening"
| "in_step L_broken st \<longleftrightarrow> False"

lemma broken_stays: "foldl life_step L_broken ns = L_broken"
proof (induction ns)
  case (Cons n ns)
  then show ?case by (cases n) simp_all
qed simp

text \<open>The state of the thread and the timer, which the guards of \<open>Connect\<close> read.\<close>

definition thread_ok :: "signal \<Rightarrow> bool" where
  "thread_ok s \<longleftrightarrow> (sg_con_state s \<in> {con_opening, con_opened} \<or> sg_reconn_timer s = Some True \<longrightarrow> sg_network_thread s)"

lemma notice_step:
  assumes "sig_reachable J url s" and "in_step l (sg_con_state s)" and "thread_ok s" and "life_step l n \<noteq> L_broken"
    and "sig_notice J h code n s = (s', out)"
  shows "sig_reachable J url s' \<and> in_step (life_step l n) (sg_con_state s') \<and> thread_ok s' \<and>
    (l = L_ended \<longrightarrow> s' = s)"
proof (cases "l = L_ended")
  case True
  then have "s' = s" "life_step l n = L_ended" using assms(4,5) by (cases n; simp)+
  then show ?thesis using assms True by simp
next
  case False
  have st: "l = L_connecting \<Longrightarrow> sg_con_state s = con_opening" "l = L_opened \<Longrightarrow> sg_con_state s \<in> {con_opened, con_closing}"
    using assms(2) by auto
  show ?thesis
  proof (cases n)
    case N_open
    then have "l = L_connecting" "Signal_OnOpen J h s = (s', out)" using assms(4,5) by (auto split: if_splits)
    then show ?thesis
      using st N_open sig_reachable.step [OF assms(1) opened_cb] assms(3)
      by (auto simp: Signal_OnOpen_def thread_ok_def Let_def)
  next
    case N_fail
    then have "l = L_connecting" "Signal_OnFail code s = (s', out)" using assms(4,5) by (auto split: if_splits)
    then show ?thesis
      using st N_fail sig_reachable.step [OF assms(1) failed_cb] assms(3)
      by (auto simp: Signal_OnFail_def thread_ok_def Let_def split: if_splits)
  next
    case N_close
    then have "l = L_opened" "Signal_OnClose code s = (s', out)" using assms(4,5) by (auto split: if_splits)
    then show ?thesis
      using st N_close sig_reachable.step [OF assms(1) closed_cb] assms(3)
      by (auto simp: Signal_OnClose_def thread_ok_def Let_def split: if_splits)
  qed (use assms False in \<open>auto split: if_splits\<close>)
qed

lemma replay_steps:
  assumes "sig_reachable J url s" and "in_step l (sg_con_state s)" and "thread_ok s" and "foldl life_step l ns \<noteq> L_broken"
    and "replay J h code ns s = (s', out)"
  shows "sig_reachable J url s' \<and> in_step (foldl life_step l ns) (sg_con_state s') \<and> thread_ok s' \<and> (l = L_ended \<longrightarrow> s' = s)"
  using assms
proof (induction ns arbitrary: l s out)
  case (Cons n ns)
  obtain s1 o1 where n: "sig_notice J h code n s = (s1, o1)" by fastforce
  obtain s2 o2 where r: "replay J h code ns s1 = (s2, o2)" by fastforce
  have nb: "life_step l n \<noteq> L_broken" using Cons.prems(4) broken_stays by auto
  have s2: "s2 = s'" using Cons.prems(5) n r by simp
  note n1 = notice_step [OF Cons.prems(1-3) nb n]
  have "l = L_ended \<Longrightarrow> life_step l n = L_ended" using nb by (cases n) auto
  then show ?case
    using n1 Cons.IH [of s1 "life_step l n" o2] Cons.prems(4) r s2 by auto
qed simp

subsection \<open>The invariant of the pair\<close>

definition link_life :: "link \<Rightarrow> life" where
  "link_life l = (case ln_con l of None \<Rightarrow> L_ended | Some c \<Rightarrow> life_of (cn_log c))"

definition connects :: "link \<Rightarrow> nat" where
  "connects l = length (filter (\<lambda>t. t = T_connect) (ln_tasks l))"

definition con_part :: "con_env \<Rightarrow> link \<Rightarrow> bool" where
  "con_part E l \<longleftrightarrow> (\<forall>c. ln_con l = Some c \<longrightarrow> con_inv E {#} c \<and> negotiated c)"

definition link_inv :: "con_env \<Rightarrow> link \<Rightarrow> bool" where
  "link_inv E l \<longleftrightarrow>
     con_part E l \<and> in_step (link_life l) (sg_con_state (ln_sig l)) \<and> thread_ok (ln_sig l) \<and>
     connects l \<le> (if link_life l = L_ended \<and> sg_con_state (ln_sig l) = con_opening then 1 else 0)"

text \<open>Calls keep the invariant of the connection and its trace, and never fault.\<close>

lemma app_calls_keep:
  assumes "con_inv E {#} c" and "A_resume \<notin> set calls"
  shows "\<exists>d. fold_res (app_call E) calls c = Inr d \<and> con_inv E {#} d \<and> cn_log d = cn_log c"
  using assms
proof (induction calls arbitrary: c)
  case (Cons call calls)
  then have "safe False (con_inv E {#}) (app_call E call c)" by (intro con_calls.kept_app_call) auto
  then obtain d where d: "app_call E call c = Inr d" "con_inv E {#} d" using safe_returns by blast
  then show ?case using Cons.IH [of d] Cons.prems(2) call_log [OF d(1)] by simp
qed simp

lemma no_resume: "A_resume \<notin> set (sig_calls h x)"
  by (cases "(h, x)" rule: sig_calls.cases) auto

lemma link_calls_keep:
  assumes "con_part E l" and "A_resume \<notin> set calls"
  shows "\<exists>l'. link_calls E calls l = Inr l' \<and> con_part E l' \<and> link_life l' = link_life l \<and> ln_sig l' = ln_sig l \<and>
    ln_tasks l' = ln_tasks l \<and> ln_id l' = ln_id l"
proof (cases "ln_con l")
  case None
  then show ?thesis using assms(1) by (simp add: link_calls_def)
next
  case (Some c)
  then obtain d where "fold_res (app_call E) calls c = Inr d" "con_inv E {#} d" "cn_log d = cn_log c"
    using assms app_calls_keep by (fastforce simp: con_part_def)
  then show ?thesis
    using Some assms(1) by (simp add: link_calls_def con_part_def link_life_def negotiated_def)
qed

text \<open>Outputs that neither post a task nor connect.\<close>

fun is_plain_out :: "'j sig_out \<Rightarrow> bool" where
  "is_plain_out DispatchConnect = False"
| "is_plain_out (DispatchClose code desc) = False"
| "is_plain_out (ClientConnect url) = False"
| "is_plain_out _ = True"

lemma plain_out: "is_plain_out x \<Longrightarrow> link_out E x l = link_calls E (sig_calls (ln_id l) x) l"
  by (cases x) simp_all

lemma plain_outs:
  assumes "con_part E l" and "list_all is_plain_out outs"
  shows "\<exists>l'. fold_res (link_out E) outs l = Inr l' \<and> con_part E l' \<and> link_life l' = link_life l \<and> ln_sig l' = ln_sig l \<and>
    ln_tasks l' = ln_tasks l \<and> ln_id l' = ln_id l"
  using assms
proof (induction outs arbitrary: l)
  case (Cons x outs)
  then obtain l1 where l1: "link_out E x l = Inr l1" "con_part E l1" "link_life l1 = link_life l" "ln_sig l1 = ln_sig l"
      "ln_tasks l1 = ln_tasks l" "ln_id l1 = ln_id l"
    using link_calls_keep [OF Cons.prems(1) no_resume] plain_out by fastforce
  then show ?case using Cons.IH [of l1] Cons.prems(2) by simp
qed simp

text \<open>What the operations of \<open>Signal\<close> output.\<close>

lemma quiet_outs:
  "list_all is_plain_out (Signal_SendCommand J channel command data s)"
  "Signal_CloseInternal expired code desc s = (s', out) \<Longrightarrow> list_all is_plain_out out"
  "Signal_TimeoutReconnect True s = (s', out) \<Longrightarrow> s' = s \<and> out = []"
  by (auto simp: Signal_SendCommand_def Signal_CloseInternal_def Signal_TimeoutReconnect_def Let_def split: option.splits if_splits)

lemma link_run_plain:
  assumes "link_inv E l" and "list_all is_plain_out outs" and "link_run E (s', outs) l = Inr l'"
    and "sg_con_state s' = sg_con_state (ln_sig l)" and "thread_ok s'"
  shows "ln_sig l' = s' \<and> link_inv E l'"
proof -
  obtain m where "fold_res (link_out E) outs (l\<lparr>ln_sig := s'\<rparr>) = Inr m" "con_part E m" "link_life m = link_life l" "ln_sig m = s'"
      "ln_tasks m = ln_tasks l"
    using plain_outs [of E "l\<lparr>ln_sig := s'\<rparr>" outs] assms(1,2) by (auto simp: link_inv_def con_part_def link_life_def)
  then show ?thesis using assms by (auto simp: link_run_def link_inv_def connects_def)
qed

lemma net_inv:
  assumes "env_ok E" and "reporting E" and "link_inv E l" and "sig_reachable J url (ln_sig l)" and "ln_con l = Some c"
    and "event_ok c (Done i ec buf)" and "con_event (signal_env J E l c) (Done i ec buf) c = Some (Inr c')" and "negotiated c'"
    and "replay J (ln_id l) code (drop (length (cn_log c)) (cn_log c')) (ln_sig l) = (s', out)"
  shows "sig_reachable J url s' \<and> link_inv E (l\<lparr>ln_sig := s', ln_con := Some c'\<rparr>)"
proof -
  let ?E = "signal_env J E l c" and ?new = "drop (length (cn_log c)) (cn_log c')"
  have c: "con_inv E {#} c" using assms(3,5) by (simp add: link_inv_def con_part_def)
  then have "logged (cn_log c) ?E {#} c" by (simp add: logged_def env_parts)
  then have "returns (logged (cn_log c) ?E {#}) (con_event ?E (Done i ec buf) c)"
    using logging.kept_event [OF env_parts(2) [OF assms(1)] _ assms(6)] by blast
  then have c': "con_inv E {#} c'" "prefix (cn_log c) (cn_log c')"
    using assms(7) by (simp_all add: returns_def logged_def env_parts)
  then have log: "cn_log c' = cn_log c @ ?new" by (auto simp: prefix_def)
  have life: "life_of (cn_log c') = foldl life_step (life_of (cn_log c)) ?new"
    by (subst log) (simp add: life_of_def)
  moreover have "life_of (cn_log c') \<noteq> L_broken"
    using c' assms(2,8) by (auto simp: con_inv_def life_ok_def opened_def split: if_splits)
  moreover have l: "in_step (life_of (cn_log c)) (sg_con_state (ln_sig l))" "thread_ok (ln_sig l)"
    using assms(3,5) by (auto simp: link_inv_def link_life_def)
  ultimately have r: "sig_reachable J url s'" "in_step (life_of (cn_log c')) (sg_con_state s')" "thread_ok s'"
      "life_of (cn_log c) = L_ended \<Longrightarrow> s' = ln_sig l"
    using replay_steps [OF assms(4) l _ assms(9)] by auto
  have "life_of (cn_log c) = L_ended \<Longrightarrow> life_of (cn_log c') = L_ended"
  proof -
    assume e: "life_of (cn_log c) = L_ended"
    have "foldl life_step L_ended ns \<in> {L_ended, L_broken}" for ns
    proof (induction ns)
      case (Cons n ns)
      then show ?case by (cases n) (simp_all add: broken_stays)
    qed simp
    then show ?thesis using e life \<open>life_of (cn_log c') \<noteq> L_broken\<close> by (metis empty_iff insert_iff)
  qed
  then show ?thesis
    using assms(3,5,8) r c'(1) by (auto simp: link_inv_def con_part_def link_life_def connects_def split: if_splits)
qed

lemma connect_inv:
  assumes "link_inv E l" and "ln_tasks l = T_connect # ts" and "Signal_ConnectInternal ec (ln_sig l) = out"
    and "link_run E (ln_sig l, out) (l\<lparr>ln_tasks := ts\<rparr>) = Inr l'"
  shows "ln_sig l' = ln_sig l \<and> link_inv E l'"
proof -
  have "con_inv E {#} (connection request_init)" "negotiated (connection request_init)" "cn_log (connection request_init) = []"
    by (rule con_init) (simp_all add: negotiated_def connection_def)
  then show ?thesis
    using assms by (auto simp: link_inv_def con_part_def connects_def link_life_def link_run_def Signal_ConnectInternal_def
        split: if_splits)
qed

lemma post_inv:
  assumes "link_inv E l" and "link_run E (s', outs @ DispatchConnect # rest) l = Inr l'"
    and "list_all is_plain_out outs" and "list_all is_plain_out rest" and "sg_con_state (ln_sig l) = con_closed" and "sg_con_state s' = con_opening" and "thread_ok s'"
  shows "ln_sig l' = s' \<and> link_inv E l'"
proof -
  have le: "link_life l = L_ended" using assms(1,5) by (cases "link_life l") (auto simp: link_inv_def)
  obtain m where m: "fold_res (link_out E) outs (l\<lparr>ln_sig := s'\<rparr>) = Inr m" "con_part E m" "link_life m = link_life l" "ln_sig m = s'"
      "ln_tasks m = ln_tasks l"
    using plain_outs [of E "l\<lparr>ln_sig := s'\<rparr>" outs] assms(1,3) by (auto simp: link_inv_def con_part_def link_life_def)
  let ?m = "m\<lparr>ln_tasks := ln_tasks m @ [T_connect]\<rparr>"
  have "link_life ?m = link_life m" "con_part E ?m = con_part E m" by (simp_all add: link_life_def con_part_def)
  then obtain k where k: "fold_res (link_out E) rest ?m = Inr k" "con_part E k" "link_life k = link_life l" "ln_sig k = s'"
      "ln_tasks k = ln_tasks l @ [T_connect]"
    using plain_outs [of E ?m rest] assms(4) m by auto
  then have "l' = k" using assms(2) m(1) by (simp add: link_run_def fold_res_append)
  then show ?thesis using assms k le by (auto simp: link_inv_def connects_def)
qed

lemma closing_inv:
  assumes "link_inv E l" and "link_run E (s', DispatchClose code desc # rest) l = Inr l'" and "list_all is_plain_out rest"
    and "sg_con_state (ln_sig l) = con_opened" and "sg_con_state s' = con_closing" and "thread_ok s'"
  shows "ln_sig l' = s' \<and> link_inv E l'"
proof -
  have le: "link_life l = L_opened" using assms(1,4) by (cases "link_life l") (auto simp: link_inv_def)
  let ?m = "l\<lparr>ln_sig := s', ln_tasks := ln_tasks l @ [T_close code desc]\<rparr>"
  have "link_life ?m = link_life l" "con_part E ?m" using assms(1) by (simp_all add: link_life_def con_part_def link_inv_def)
  then obtain k where k: "fold_res (link_out E) rest ?m = Inr k" "con_part E k" "link_life k = link_life l" "ln_sig k = s'"
      "ln_tasks k = ln_tasks l @ [T_close code desc]"
    using plain_outs [of E ?m rest] assms(3) by auto
  then have "l' = k" using assms(2) by (simp add: link_run_def)
  then show ?thesis using assms k le by (auto simp: link_inv_def connects_def)
qed

lemma open_inv:
  assumes "link_inv E l" and "sg_con_state (ln_sig l) \<noteq> con_closing" and "Signal_Open user password (ln_sig l) = (s', out)"
    and "link_run E (s', out) l = Inr l'"
  shows "ln_sig l' = s' \<and> link_inv E l'"
proof (cases "sg_con_state (ln_sig l) = con_closed")
  case True
  have "\<exists>outs rest. out = outs @ DispatchConnect # rest \<and> list_all is_plain_out outs \<and> list_all is_plain_out rest"
    using True assms(3) by (intro exI [of _ "butlast (butlast out)"] exI [of _ "[ThreadStart]"])
      (auto simp: Signal_Open_def Signal_Connect_def Signal_ResetState_def Let_def split: if_splits)
  moreover have "sg_con_state s' = con_opening" "thread_ok s'"
    using True assms(3) by (auto simp: Signal_Open_def Signal_Connect_def Let_def thread_ok_def split: if_splits)
  ultimately show ?thesis using post_inv [OF assms(1) _ _ _ True] assms(4) by blast
next
  case False
  then have "sg_con_state (ln_sig l) \<in> {con_opening, con_opened}" using assms(2) by (cases "sg_con_state (ln_sig l)") auto
  moreover from this have "sg_network_thread (ln_sig l)" using assms(1) by (simp add: link_inv_def thread_ok_def)
  ultimately have "sg_con_state s' = sg_con_state (ln_sig l)" "thread_ok s'" "list_all is_plain_out out"
    using assms(3) by (auto simp: Signal_Open_def Signal_Connect_def Let_def thread_ok_def split: if_splits)
  then show ?thesis using link_run_plain [OF assms(1) _ assms(4)] by blast
qed

lemma link_step_inv:
  assumes "env_ok E" and "reporting E" and "link_step J E l out l'" and "link_inv E l" and "sig_reachable J url (ln_sig l)"
  shows "sig_reachable J url (ln_sig l') \<and> link_inv E l'"
proof -
  have th: "thread_ok (ln_sig l)" using assms(4) by (simp add: link_inv_def)
  have si: "sig_inv (ln_sig l)" by (rule sig_reachable_inv [OF assms(5)])
  note step = sig_reachable.step [OF assms(5)]
  show ?thesis
    using assms(3)
  proof cases
    case (net c i ec buf c' s')
    then show ?thesis using net_inv [OF assms(1,2,4,5)] by simp
  next
    case (connect_task ts ec)
    then show ?thesis using connect_inv [OF assms(4)] assms(5) by metis
  next
    case (close_task code desc ts expired s')
    let ?l = "l\<lparr>ln_tasks := ts\<rparr>"
    have "link_inv E ?l"
      using assms(4) close_task(1) by (auto simp: link_inv_def con_part_def connects_def link_life_def)
    moreover have "sg_con_state s' = sg_con_state (ln_sig ?l)" "thread_ok s'"
      using th close_task(2) by (auto simp: Signal_CloseInternal_def thread_ok_def Let_def split: option.splits if_splits)
    ultimately have "ln_sig l' = s' \<and> link_inv E l'"
      using link_run_plain [OF _ quiet_outs(2) [OF close_task(2)] close_task(3)] by blast
    then show ?thesis using step [OF sig_step.close_run [OF close_task(2)]] by simp
  next
    case (user_open user password s')
    then show ?thesis using open_inv [OF assms(4)] step [OF sig_step.open_call] by metis
  next
    case (user_close s')
    have "ln_sig l' = s' \<and> link_inv E l'"
    proof (cases "sg_con_state (ln_sig l) = con_opened")
      case True
      then have "out = DispatchClose close_normal ''End by user'' # []" "sg_con_state s' = con_closing" "thread_ok s'"
        using user_close(1) si th by (auto simp: Signal_Close_def Signal_Connection.opened_def thread_ok_def sig_inv_def)
      then show ?thesis using closing_inv [OF assms(4) _ _ True, where rest = "[]"] user_close(2) by simp
    next
      case False
      then have "s' = ln_sig l" "out = []" using user_close(1) by (simp_all add: Signal_Close_def Signal_Connection.opened_def)
      then show ?thesis using link_run_plain [OF assms(4) _ user_close(2)] th by simp
    qed
    then show ?thesis using step [OF sig_step.close_call [OF user_close(1)]] by simp
  next
    case (user_sync_close s')
    have "ln_sig l' = s' \<and> link_inv E l'"
    proof (cases "sg_con_state (ln_sig l) = con_opened")
      case True
      then have "\<exists>rest. out = DispatchClose close_normal ''End by user'' # rest \<and> list_all is_plain_out rest"
          "sg_con_state s' = con_closing" "thread_ok s'"
        using user_sync_close(1) si th
        by (auto simp: Signal_SyncClose_def Signal_Connection.opened_def thread_ok_def sig_inv_def Let_def split: if_splits)
      then show ?thesis using closing_inv [OF assms(4) _ _ True] user_sync_close(2) by blast
    next
      case False
      then have "s' = ln_sig l" "out = []" using user_sync_close(1) by (simp_all add: Signal_SyncClose_def Signal_Connection.opened_def)
      then show ?thesis using link_run_plain [OF assms(4) _ user_sync_close(2)] th by simp
    qed
    then show ?thesis using step [OF sig_step.sync_close_call [OF user_sync_close(1)]] by simp
  next
    case (user_send channel command data)
    have "list_all is_plain_out out" unfolding user_send(1) [symmetric] by (rule quiet_outs)
    then show ?thesis
      using link_run_plain [OF assms(4) _ user_send(2)] th assms(5) by auto
  next
    case (timer s')
    have c: "sg_con_state (ln_sig l) = con_closed" using si timer(1) by (simp add: sig_inv_def)
    then have "out = [ClientReset] @ DispatchConnect # []" "sg_con_state s' = con_opening" "thread_ok s'"
      using timer(1,2) th by (auto simp: Signal_TimeoutReconnect_def Signal_ResetState_def thread_ok_def)
    then have "ln_sig l' = s' \<and> link_inv E l'" using post_inv [OF assms(4) _ _ _ c] timer(3) by fastforce
    then show ?thesis using step [OF sig_step.timer_cb [OF timer(1,2)]] by simp
  next
    case (timer_aborted s')
    then show ?thesis using quiet_outs(3) [OF timer_aborted(1)] link_run_plain [OF assms(4) _ timer_aborted(2)] th assms(5) by simp
  qed
qed

subsection \<open>Refinement\<close>

lemma link_reachable_inv:
  assumes "env_ok E" and "reporting E" and "link_reachable J E url l"
  shows "sig_reachable J url (ln_sig l) \<and> link_inv E l"
  using assms(3)
proof induction
  case link_start
  have "link_inv E (link_init url)"
    by (simp add: link_inv_def link_init_def con_part_def connects_def link_life_def thread_ok_def Signal_ctor_def)
  then show ?case by (simp add: link_init_def sig_reachable.initial)
next
  case (link_next l out l')
  then show ?case using link_step_inv [OF assms(1,2)] by blast
qed

text \<open>C14. \<open>Signal\<close> on top of the library refines the step relation of \<open>Signal\<close>: the reports of the WebSocket connection
  come only in the states in which \<open>Signal\<close> expects them, so every state that the pair reaches is a reachable state of
  \<open>Signal\<close>; its state follows the life of the current connection; and at most one attempt to connect is under
  way, as a task or as a connection; and no event of the connection faults or hangs in the handlers of \<open>Signal\<close>. Connections whose extension negotiation failed are excluded.\<close>

theorem signal_refines:
  assumes "env_ok E" and "reporting E" and "link_reachable J E url l"
  shows "sig_reachable J url (ln_sig l) \<and>
    (case ln_con l of
       None \<Rightarrow> sg_con_state (ln_sig l) \<in> {con_closed, con_opening}
     | Some c \<Rightarrow>
         (cn_state c = S_connecting \<longrightarrow> sg_con_state (ln_sig l) = con_opening) \<and>
         (cn_state c \<in> {S_open, S_closing} \<longrightarrow> sg_con_state (ln_sig l) \<in> {con_opened, con_closing}) \<and>
         (sg_con_state (ln_sig l) = con_closed \<longrightarrow> cn_state c = S_closed \<and> life_of (cn_log c) = L_ended)) \<and>
    length (filter (\<lambda>t. t = T_connect) (ln_tasks l)) \<le> 1 \<and>
    (\<forall>c i ec buf. ln_con l = Some c \<and> event_ok c (Done i ec buf) \<longrightarrow>
       (\<exists>c'. con_event (signal_env J E l c) (Done i ec buf) c = Some (Inr c')))"
proof -
  have inv: "sig_reachable J url (ln_sig l)" "link_inv E l"
    using link_reachable_inv [OF assms] by simp_all
  then have n: "length (filter (\<lambda>t. t = T_connect) (ln_tasks l)) \<le> 1" by (auto simp: link_inv_def connects_def split: if_splits)
  have ret: "\<exists>c'. con_event (signal_env J E l c) (Done i ec buf) c = Some (Inr c')"
    if "ln_con l = Some c" "event_ok c (Done i ec buf)" for c i ec buf
  proof -
    have c: "con_inv (signal_env J E l c) {#} c" using inv(2) that(1) by (simp add: env_parts link_inv_def con_part_def)
    show ?thesis using con.kept_event [OF env_parts(2) [OF assms(1)] c that(2)] by (auto simp: returns_def)
  qed
  show ?thesis
  proof (cases "ln_con l")
    case None
    then show ?thesis using inv n by (simp add: link_inv_def link_life_def)
  next
    case (Some c)
    then have c: "con_inv E {#} c" "negotiated c" "in_step (life_of (cn_log c)) (sg_con_state (ln_sig l))"
      using inv(2) by (auto simp: link_inv_def con_part_def link_life_def)
    then have "phase_ok {#} c" "life_ok E {#} c" by (simp_all add: con_inv_def)
    then have "cn_state c = S_connecting \<longrightarrow> life_of (cn_log c) = L_connecting"
        "cn_state c \<in> {S_open, S_closing} \<longrightarrow> life_of (cn_log c) = L_opened"
        "life_of (cn_log c) = L_ended \<longrightarrow> cn_state c = S_closed"
      using c(2) assms(2) phase_connecting [of "{#}" c] phase_open [of "{#}" c]
      by (auto simp: life_ok_def Ws_Connection_Inv.opened_def split: if_splits)
    then show ?thesis using inv(1) n c(3) Some ret by (cases "life_of (cn_log c)") auto
  qed
qed

text \<open>The sample: the server refuses the connection, and \<open>Signal\<close> waits for the next attempt.\<close>

definition sample_link :: "signal \<Rightarrow> con \<Rightarrow> link" where
  "sample_link s c = \<lparr>ln_sig = s, ln_con = Some c, ln_id = 1, ln_tasks = []\<rparr>"

definition refused_sig :: signal where
  "refused_sig = sig_opening\<lparr>sg_con_state := con_closed, sg_reconn_timer := Some True\<rparr>"

lemma sample_link_connecting: "link_reachable J sample_env [] (sample_link sig_opening (connection request_init))"
proof -
  let ?l = "\<lparr>ln_sig = sig_opening, ln_con = None, ln_id = 0, ln_tasks = [T_connect]\<rparr>"
  have o: "Signal_Open [] [] (Signal_ctor []) = (sig_opening, [ClientReset, DispatchConnect, ThreadStart])"
    by (simp add: signal_ops Signal_ctor_def sig_opening_def)
  have "link_step J sample_env (link_init []) [ClientReset, DispatchConnect, ThreadStart] ?l"
    by (rule link_step.user_open [where user = "[]" and password = "[]" and s' = sig_opening],
        simp add: link_init_def Signal_ctor_def, simp add: link_init_def o, simp add: link_init_def link_run_def link_calls_def)
  then have l: "link_reachable J sample_env [] ?l" using link_start link_next by blast
  have "link_step J sample_env ?l [ClientConnect (sg_url sig_opening)] (sample_link sig_opening (connection request_init))"
    by (rule link_step.connect_task [where ec = False])
      (simp_all add: Signal_ConnectInternal_def link_run_def sample_link_def)
  then show ?thesis by (rule link_next [OF l])
qed

lemma sample_refused:
  "link_reachable J sample_env [] (sample_link refused_sig (refused_con\<lparr>cn_log := [N_fail]\<rparr>))"
proof -
  let ?c = "connection request_init" and ?d = "handle_connect refused (take_op 0 (connection request_init))"
  have ev: "con_event (signal_env J sample_env l c) (Done 0 refused []) ?c = Some (Inr ?d)" for l c
    by (simp add: signal_env_def con_event_def run_op_def connection_def)
  have log: "cn_log ?c = []" "cn_log ?d = []" by (simp_all add: connection_def handle_connect_def refused_def)
  have "link_step J sample_env (sample_link sig_opening ?c) []
      ((sample_link sig_opening ?c)\<lparr>ln_sig := sig_opening, ln_con := Some ?d\<rparr>)"
    by (rule link_step.net [OF _ refused_events(1) ev]) (simp_all add: sample_link_def log negotiated_def)
  then have r: "link_reachable J sample_env [] (sample_link sig_opening ?d)"
    using link_next [OF sample_link_connecting] by (simp add: sample_link_def)
  have ev: "con_event (signal_env J sample_env (sample_link sig_opening ?d) ?d) (Done 1 None []) ?d = Some (Inr (refused_con\<lparr>cn_log := [N_fail]\<rparr>))"
    by (simp add: signal_env_def con_event_def refused_def refused_con_def connection_def run_op_def handle_connect_def
      take_op_def terminate_def cancel_handshake_timer_def cancel_timer_def async_def handle_terminate_def notify_def
      sample_env_def signal_app_def Signal_OnFail_def sig_opening_def Signal_ctor_def Let_def sample_link_def del: ascii_open)
  have "link_step J sample_env (sample_link sig_opening ?d) [TimerStart (NextDelay (sig_opening\<lparr>sg_con_state := con_closed\<rparr>))]
      ((sample_link sig_opening ?d)\<lparr>ln_sig := refused_sig, ln_con := Some (refused_con\<lparr>cn_log := [N_fail]\<rparr>)\<rparr>)"
    by (rule link_step.net [OF _ refused_events(3) ev])
      (simp_all add: sample_link_def log negotiated_def Signal_OnFail_def sig_opening_def Signal_ctor_def refused_sig_def Let_def)
  then show ?thesis using link_next [OF r] by (simp add: sample_link_def)
qed

theorem signal_refines_witness:
  "sig_reachable jt_plain [] refused_sig \<and> life_of (cn_log (refused_con\<lparr>cn_log := [N_fail]\<rparr>)) = L_ended"
  using signal_refines [OF sample_env_ok sample_refused [of jt_plain]]
  by (simp add: sample_link_def refused_sig_def)

end
