(* ===== verification/Spec2Isabelle.thy ===== *)
theory Spec2Isabelle
  imports Exchange Logging Fake_Audio Netcat Ws_Connection_Live Ws_Connection_Fifo Signal_Link
begin

text \<open>
  PeerApi: peer-to-peer data channels over WebRTC, set up through a WebSocket signal server.

  \<^bold>\<open>The program.\<close> An application owns one \<open>Peer\<close> (\<open>src/src/peerapi.cc\<close>). Opening it makes a
  \<open>Control\<close> (\<open>control.cc\<close>), which owns the table of remote peers and the queue of messages posted
  between threads; each entry is a \<open>PeerControl\<close> (\<open>peer.cc\<close>) around a WebRTC peer connection and its
  data channels; all of them talk to the server through one \<open>Signal\<close> (\<open>signalconnection.cc\<close>), a client of
  the WebSocket library under \<open>src/src/libs/websocketpp\<close>. \<open>Signal\<close> reports with sigslots, \<open>PeerControl\<close>
  with the interface \<open>PeerObserver\<close>, \<open>Control\<close> with \<open>ControlObserver\<close>. \<open>logging.cc\<close> and
  \<open>fakeaudiocapturemodule.cc\<close> (the silent audio device given to WebRTC) stand alone, as does the example
  \<open>p2p_netcat\<close>.

  \<^bold>\<open>PeerApi itself.\<close>
  \<^item> \<open>Prelude\<close>: machine types, the result type \<open>'a res\<close> (a fault or a value) with \<open>and_then\<close>, \<open>fold_res\<close>
    and \<open>deref\<close>, and generic lemmas. A fault is what C++ leaves undefined or stops on: a null pointer, a
    destroyed object, a failed assertion of a debug build, a handler of the wrong type.
  \<^item> \<open>Std_Map\<close>: \<open>std::map\<close> with string keys as a sorted association list, with the locale of its laws.
  \<^item> \<open>Json_Api\<close>: jsoncpp as a parameter, its documented laws (members that were set are read back; the text of
    an object the program builds is parsed to that object), and an instance with a text format that satisfies them.
  \<^item> \<open>Signal_Connection\<close>: the record of \<open>Signal\<close>, one definition per member function and handler, the
    back-off of \<open>NextDelay\<close>, and the step relation of the signal connection. The lemmas give the retry loop
    (one report after exactly the configured attempts) and what each state promises.
  \<^item> \<open>Peer_Control\<close>: \<open>PeerControl\<close> and \<open>PeerDataChannelObserver\<close>; WebRTC's answers are the record
    \<open>rtc_env\<close>. The lemmas give the life cycle of a connection and the outcome of each operation.
  \<^item> \<open>App_State\<close>, \<open>Control_Core\<close>, \<open>Peer_Api\<close>: the state of an application (controls, peer objects,
    queue, signal, the reference counts as ownership), \<open>Control\<close> with every message handler and command,
    \<open>Peer\<close> with its interface and event handlers.
  \<^item> \<open>App_Invariant\<close>, \<open>Control_Safety\<close>, \<open>Peer_System\<close>: the invariant of the application, its preservation by
    each operation, and the step relation in which calls, sigslots, callbacks and queued messages
    interleave freely. \<open>System_Properties\<close> states what follows for every reachable state. \<open>Close_Cascade\<close>:
    what the user is told when a peer is closed, both when it was opened since the last close and when it was not.
    \<open>Exchange\<close>: candidates and descriptions from the WebRTC callback of one peer to the WebRTC call of the
    other, through the JSON text on the wire; the signal server between them is an argument, a function on texts, of
    which it is assumed that it forwards the command and its data (\<open>forwards\<close>).
    \<open>System_Sample\<close> is a concrete application for witnesses.
  \<^item> \<open>Logging\<close>, \<open>Fake_Audio\<close>, \<open>Netcat\<close>: the three stand-alone parts with their invariants.

  \<^bold>\<open>The WebSocket library.\<close> \<open>Signal\<close> relies on it for whole, ordered text messages. The theories
  \<open>Ws_*\<close> model its protocol layer.
  \<^item> \<open>Ws_Utf8\<close> (\<open>utf8_validator.hpp\<close>): the table-driven automaton; it accepts exactly the encodings of
    sequences of Unicode scalar values. \<open>Ws_Base64\<close> (\<open>base64/base64.hpp\<close>): encoder, decoder, round trip.
  \<^item> \<open>Ws_Host\<close> (\<open>common/network.hpp\<close>, the converter unions): the machine as a record \<open>host\<close> with its byte
    order and the result of a shift by the full width, which C++ leaves open. \<open>Ws_Frame\<close> (\<open>frame.hpp\<close>):
    headers and the masking routines; \<open>Ws_Masking\<close>: all of them are one exclusive-or stream, also when a
    payload is masked in pieces. \<open>size_t\<close> has 64 bits.
  \<^item> \<open>Ws_Error\<close>, \<open>Ws_Close\<close> (\<open>error.hpp\<close>, \<open>processors/base.hpp\<close>, \<open>close.hpp\<close>): error and close codes.
  \<^item> \<open>Ws_Hybi13\<close> (\<open>processors/hybi13.hpp\<close>, framing half, and the reading loop of
    \<open>connection::handle_read_frame\<close>): the processor of incoming bytes as a state record, its passes,
    \<open>consume\<close> with its termination proof, and the preparation of outgoing frames. \<open>Ws_Receive\<close> has the
    invariant of the processor and shows that the reading loop, a \<open>partial_function\<close> because the code
    gives it no bound, always returns. \<open>Ws_Chunks\<close>: the cuts between network reads do not matter.
    \<open>Ws_Wire\<close>: the receiver of whole frames, with the error for each frame it refuses, that the processor
    refines; its strict variant is the one of RFC 6455, its lenient one does not ask a fragmented text to end with
    a complete code point. \<open>Ws_Roundtrip\<close>: the resulting properties for two endpoints.
  \<^item> \<open>Ws_Sha1\<close> (\<open>sha1/sha1.hpp\<close>): the hash loop and its equality with SHA-1. \<open>Ws_Text\<close> (\<open>utilities.hpp\<close>, the
    conversions of the standard library), \<open>Ws_Http\<close> and \<open>Ws_Http_Lines\<close> (\<open>http/\<close>): lexing, headers, requests and
    responses; a printed message is parsed back. \<open>Ws_Uri\<close> (\<open>uri.hpp\<close>).
  \<^item> \<open>Ws_Handshake\<close> (\<open>processors/processor.hpp\<close>, handshake half of \<open>hybi13.hpp\<close>, \<open>hybi08.hpp\<close>): a client
    and a server agree on the opening handshake.
  \<^item> \<open>Ws_Connection\<close> (\<open>connection.hpp\<close>, \<open>impl/connection_impl.hpp\<close>, \<open>roles/client_endpoint.hpp\<close>): a client
    connection as a record, one definition per handler and per call of the application. The transport is the list of
    operations in flight, which complete in any order with any error and any bytes; what the application calls in its
    handlers is a function of what it was told. \<open>Ws_Connection_Inv\<close>: the invariant and the basic changes that keep
    it. \<open>Ws_Connection_Events\<close>: locales that carry a predicate from the basic changes through every handler to
    \<open>con_event\<close>; the invariant is an instance, and so are the predicates of the following theories.
    \<open>Ws_Connection_Life\<close>: no event faults or hangs, the reports follow the documented life of a connection, the
    state is well formed, one read and one write are in flight. All of this is for an application that does not
    call \<open>resume_reading\<close> (as \<open>Signal\<close> does not), for a transport that reports its own errors only, and for timers
    that fail only if they are cancelled (\<open>env_ok\<close>, \<open>event_ok\<close>). \<open>Ws_Connection_Open\<close>: concrete runs, among them a
    failed extension negotiation after which the connection is opened, and two runs in which \<open>resume_reading\<close>
    breaks what holds without it: two reads in flight, and a null pointer. \<open>Ws_Connection_Live\<close>: in a fair run
    the handshakes end. \<open>Ws_Connection_Fifo\<close>: messages leave in order.
  \<^item> \<open>Signal_Link\<close>: \<open>Signal\<close> and a client connection together. The guards of the step relation in
    \<open>Signal_Connection\<close> are what it expects of the library; they hold for the model of the library.

  \<^bold>\<open>Interfaces.\<close> Laws that one component relies on are locales (the maps of peers and of headers, the
  masking of a stream, the basic changes of a connection) and each is interpreted on the model's own definitions. What lies outside the
  sources is an argument: the JSON library, the signal server, WebRTC (\<open>rtc_env\<close>), the clock, random numbers, the answers of
  \<open>read\<close> and \<open>write\<close>, the byte order of the host. Hypotheses about them are named predicates.

  \<^bold>\<open>Bounds.\<close> No definition of the program runs on fuel (only the reader of the JSON instance for witnesses does, where the
  length of the text is enough); the reading loops of a connection are partial functions that are shown to return. Integers have their C++ width wherever they can wrap: close
  codes, reconnect delays, frame sizes and masking keys, sequence numbers and clocks of the audio device.

  \<^bold>\<open>Not modelled.\<close> The server role of a connection, which the program does not use, its accessors, the
  endpoints that create connections, the old protocol version hybi00; asio and TLS, of which only the contract in
  \<open>transport/base/connection.hpp\<close> is used; zlib compression (the configuration in use disables it). Calls of a
  connection run to their end: what two threads do to it inside of a call is not part of the model. Failing
  allocations, of memory or of strings beyond \<open>max_size()\<close>, are outside of it too. The
  branches of \<open>logging.cc\<close> for Windows and the Mac; log text where it does not influence control flow;
  the echo examples, whose handlers only print and call \<open>Peer\<close>.
\<close>

end
